(* ===== verification/Prelude.thy ===== *)
theory Prelude
  imports Main "HOL-Library.Word" "HOL-Library.Sublist" "HOL-Library.Code_Target_Nat"
begin

text \<open>
  Shared vocabulary of the development: machine integers, byte strings and Rust strings, the
  part of the Rust standard library the modelled code calls (ASCII classes, string searching
  and splitting, integer parsing, UTF-8), and the generic lemmas the component theories use.

  A Rust \<open>u8\<close>, \<open>u16\<close>, \<open>u32\<close>, \<open>u64\<close> is a word of that width; a \<open>usize\<close> that only measures or
  indexes a buffer is a \<open>nat\<close> (a Rust buffer never exceeds \<open>isize::MAX\<close> bytes, so these
  additions cannot overflow). A Rust \<open>char\<close> is its scalar value, a Rust \<open>str\<close> the list of its
  scalar values; \<open>as_bytes\<close> is its UTF-8 encoding.
\<close>

unbundle bit_operations_syntax

type_synonym u8 = "8 word"
type_synonym u16 = "16 word"
type_synonym u32 = "32 word"
type_synonym u64 = "64 word"
type_synonym bytes = "u8 list"
type_synonym rchar = nat
type_synonym rstr = "rchar list"

named_theorems std_simps \<open>definitions of the standard-library functions, for evaluation\<close>
named_theorems ascii_simps \<open>definitions of the ASCII character classes\<close>

section \<open>Literals and the ASCII classes of \<open>u8\<close> and \<open>char\<close>\<close>

text \<open>\<open>lit ''abc''\<close> is the literal \<open>"abc"\<close> or \<open>b"abc"\<close>, \<open>asc CHR ''a''\<close> the literal \<open>'a'\<close> or \<open>b'a'\<close>.\<close>

abbreviation asc :: "char \<Rightarrow> 'a::comm_semiring_1" where
  "asc c \<equiv> of_char c"

definition lit :: "string \<Rightarrow> 'a::comm_semiring_1 list" where
  "lit s = map of_char s"

lemma lit_simps [simp]: "lit [] = []" "lit (c # cs) = of_char c # lit cs"
  by (simp_all add: lit_def)

definition is_ascii_digit :: "'a::{numeral,ord} \<Rightarrow> bool" where [ascii_simps]:
  "is_ascii_digit c \<longleftrightarrow> 48 \<le> c \<and> c \<le> 57"

definition is_ascii_uppercase :: "'a::{numeral,ord} \<Rightarrow> bool" where [ascii_simps]:
  "is_ascii_uppercase c \<longleftrightarrow> 65 \<le> c \<and> c \<le> 90"

definition is_ascii_lowercase :: "'a::{numeral,ord} \<Rightarrow> bool" where [ascii_simps]:
  "is_ascii_lowercase c \<longleftrightarrow> 97 \<le> c \<and> c \<le> 122"

definition is_ascii_alphanumeric :: "'a::{numeral,ord} \<Rightarrow> bool" where [ascii_simps]:
  "is_ascii_alphanumeric c \<longleftrightarrow>
     is_ascii_digit c \<or> is_ascii_uppercase c \<or> is_ascii_lowercase c"

definition is_ascii_hexdigit :: "'a::{numeral,ord} \<Rightarrow> bool" where [ascii_simps]:
  "is_ascii_hexdigit c \<longleftrightarrow> is_ascii_digit c \<or> (65 \<le> c \<and> c \<le> 70) \<or> (97 \<le> c \<and> c \<le> 102)"

text \<open>\<open>u8::is_ascii_whitespace\<close>: space, tab, line feed, form feed, carriage return.\<close>

definition is_ascii_whitespace :: "'a::{numeral,ord} \<Rightarrow> bool" where [ascii_simps]:
  "is_ascii_whitespace c \<longleftrightarrow> c = 32 \<or> c = 9 \<or> c = 10 \<or> c = 12 \<or> c = 13"

definition to_ascii_uppercase :: "'a::{numeral,ord,minus} \<Rightarrow> 'a" where [ascii_simps]:
  "to_ascii_uppercase c = (if is_ascii_lowercase c then c - 32 else c)"

definition to_ascii_lowercase :: "'a::{numeral,ord,plus} \<Rightarrow> 'a" where [ascii_simps]:
  "to_ascii_lowercase c = (if is_ascii_uppercase c then c + 32 else c)"

text \<open>\<open>str::to_uppercase\<close>; the table of Unicode outside ASCII is an argument.\<close>

definition to_uppercase :: "(rchar \<Rightarrow> rstr) \<Rightarrow> rstr \<Rightarrow> rstr" where
  "to_uppercase unicode_upper s =
     concat (map (\<lambda>c. if c < 128 then [to_ascii_uppercase c] else unicode_upper c) s)"

definition eq_ignore_ascii_case :: "'a::{numeral,ord,plus} list \<Rightarrow> 'a list \<Rightarrow> bool" where [std_simps]:
  "eq_ignore_ascii_case s t \<longleftrightarrow> map to_ascii_lowercase s = map to_ascii_lowercase t"

text \<open>\<open>str::is_ascii\<close>.\<close>

definition is_ascii :: "rstr \<Rightarrow> bool" where [std_simps]:
  "is_ascii s \<longleftrightarrow> list_all (\<lambda>c. c < 128) s"

text \<open>\<open>char::is_whitespace\<close>, the Unicode property White\_Space.\<close>

definition is_whitespace :: "rchar \<Rightarrow> bool" where [std_simps]:
  "is_whitespace c \<longleftrightarrow> (9 \<le> c \<and> c \<le> 13) \<or> c = 0x20 \<or> c = 0x85 \<or> c = 0xA0 \<or> c = 0x1680 \<or>
     (0x2000 \<le> c \<and> c \<le> 0x200A) \<or> c = 0x2028 \<or> c = 0x2029 \<or> c = 0x202F \<or> c = 0x205F \<or>
     c = 0x3000"

text \<open>\<open>char::from(u8)\<close>.\<close>

definition char_from :: "u8 \<Rightarrow> rchar" where [std_simps]:
  "char_from b = unat b"

section \<open>Searching and splitting\<close>

text \<open>\<open>find\<close> with a predicate or character set, \<open>position\<close> on iterators.\<close>

fun position :: "('a \<Rightarrow> bool) \<Rightarrow> 'a list \<Rightarrow> nat option" where
  "position P [] = None"
| "position P (x # xs) = (if P x then Some 0 else map_option Suc (position P xs))"

text \<open>\<open>find\<close> with a string, or \<open>windows(n).position\<close>: the first index where the pattern starts.\<close>

fun find_sub :: "'a list \<Rightarrow> 'a list \<Rightarrow> nat option" where
  "find_sub p [] = (if p = [] then Some 0 else None)"
| "find_sub p (x # xs) =
     (if prefix p (x # xs) then Some 0 else map_option Suc (find_sub p xs))"

definition contains_sub :: "'a list \<Rightarrow> 'a list \<Rightarrow> bool" where [std_simps]:
  "contains_sub s p \<longleftrightarrow> find_sub p s \<noteq> None"

definition ends_with :: "'a list \<Rightarrow> 'a list \<Rightarrow> bool" where [std_simps]:
  "ends_with s p \<longleftrightarrow> suffix p s"

text \<open>\<open>split_once\<close> with a predicate or with a string.\<close>

definition split_once_by :: "('a \<Rightarrow> bool) \<Rightarrow> 'a list \<Rightarrow> ('a list \<times> 'a list) option" where [std_simps]:
  "split_once_by P s = map_option (\<lambda>i. (take i s, drop (Suc i) s)) (position P s)"

definition split_once :: "'a list \<Rightarrow> 'a list \<Rightarrow> ('a list \<times> 'a list) option" where [std_simps]:
  "split_once d s = map_option (\<lambda>i. (take i s, drop (i + length d) s)) (find_sub d s)"

text \<open>\<open>rsplit_once\<close> with a predicate: split at the last match.\<close>

definition rsplit_once_by :: "('a \<Rightarrow> bool) \<Rightarrow> 'a list \<Rightarrow> ('a list \<times> 'a list) option" where [std_simps]:
  "rsplit_once_by P s = map_option (\<lambda>(a, b). (rev b, rev a)) (split_once_by P (rev s))"

text \<open>\<open>split\<close> with a predicate: never empty.\<close>

fun split_by :: "('a \<Rightarrow> bool) \<Rightarrow> 'a list \<Rightarrow> 'a list list" where
  "split_by P [] = [[]]"
| "split_by P (x # xs) =
     (if P x then [] # split_by P xs
      else (case split_by P xs of [] \<Rightarrow> [[x]] | y # ys \<Rightarrow> (x # y) # ys))"

text \<open>\<open>trim_start_matches\<close>, \<open>trim_end_matches\<close>, \<open>trim\<close>.\<close>

definition trim_start :: "('a \<Rightarrow> bool) \<Rightarrow> 'a list \<Rightarrow> 'a list" where [std_simps]:
  "trim_start P s = dropWhile P s"

definition trim_end :: "('a \<Rightarrow> bool) \<Rightarrow> 'a list \<Rightarrow> 'a list" where [std_simps]:
  "trim_end P s = rev (dropWhile P (rev s))"

definition trim :: "rstr \<Rightarrow> rstr" where [std_simps]:
  "trim s = trim_end is_whitespace (trim_start is_whitespace s)"

text \<open>\<open>strip_prefix\<close>.\<close>

definition strip_prefix :: "'a list \<Rightarrow> 'a list \<Rightarrow> 'a list option" where [std_simps]:
  "strip_prefix p s = (if prefix p s then Some (drop (length p) s) else None)"

text \<open>\<open>[..].join(sep)\<close>.\<close>

fun join :: "'a list \<Rightarrow> 'a list list \<Rightarrow> 'a list" where
  "join sep [] = []"
| "join sep [x] = x"
| "join sep (x # y # ys) = x @ sep @ join sep (y # ys)"

section \<open>Unsigned integer parsing and printing\<close>

text \<open>
  \<open>str::parse\<close> for an unsigned type with the given bound (exclusive): one optional leading
  plus sign, then at least one digit, and \<open>Err\<close> on overflow.
\<close>

fun digits_value :: "nat \<Rightarrow> rstr \<Rightarrow> nat option" where
  "digits_value acc [] = Some acc"
| "digits_value acc (c # cs) =
     (if is_ascii_digit c then digits_value (10 * acc + (c - 48)) cs else None)"

definition parse_unsigned :: "nat \<Rightarrow> rstr \<Rightarrow> nat option" where [std_simps]:
  "parse_unsigned bound s =
     (let body = (case s of [] \<Rightarrow> [] | c # cs \<Rightarrow> if c = asc CHR ''+'' then cs else s)
      in if body = [] then None
         else (case digits_value 0 body of
                 None \<Rightarrow> None
               | Some n \<Rightarrow> if n < bound then Some n else None))"

definition parse_u64 :: "rstr \<Rightarrow> u64 option" where [std_simps]:
  "parse_u64 s = map_option word_of_nat (parse_unsigned (2 ^ 64) s)"

definition parse_u16 :: "rstr \<Rightarrow> u16 option" where [std_simps]:
  "parse_u16 s = map_option word_of_nat (parse_unsigned (2 ^ 16) s)"

text \<open>\<open>to_string\<close> of an unsigned integer.\<close>

fun nat_to_decimal :: "nat \<Rightarrow> rstr" where
  "nat_to_decimal n = (if n < 10 then [48 + n] else nat_to_decimal (n div 10) @ [48 + n mod 10])"

declare nat_to_decimal.simps [simp del]

section \<open>UTF-8\<close>

definition utf8_encode :: "rchar \<Rightarrow> bytes" where [std_simps]:
  "utf8_encode c =
     (if c < 0x80 then [word_of_nat c]
      else if c < 0x800 then [word_of_nat (0xC0 + c div 64), word_of_nat (0x80 + c mod 64)]
      else if c < 0x10000 then
        [word_of_nat (0xE0 + c div 4096), word_of_nat (0x80 + c div 64 mod 64),
         word_of_nat (0x80 + c mod 64)]
      else
        [word_of_nat (0xF0 + c div 262144), word_of_nat (0x80 + c div 4096 mod 64),
         word_of_nat (0x80 + c div 64 mod 64), word_of_nat (0x80 + c mod 64)])"

text \<open>\<open>str::as_bytes\<close>.\<close>

definition as_bytes :: "rstr \<Rightarrow> bytes" where [std_simps]:
  "as_bytes s = concat (map utf8_encode s)"

text \<open>The Unicode scalar values: the values a Rust \<open>char\<close> can hold.\<close>

definition is_scalar :: "rchar \<Rightarrow> bool" where [std_simps]:
  "is_scalar c \<longleftrightarrow> c < 0xD800 \<or> (0xE000 \<le> c \<and> c < 0x110000)"

text \<open>
  One step of the decoder: the scalar value at the front of the input and how many bytes it
  takes, or \<open>None\<close> and the length of the maximal ill-formed prefix (which \<open>from_utf8_lossy\<close>
  replaces by one U+FFFD).
\<close>

definition cont :: "nat \<Rightarrow> bool" where [std_simps]: "cont b \<longleftrightarrow> 0x80 \<le> b \<and> b < 0xC0"

text \<open>The bytes allowed in second position after each lead byte.\<close>

definition second_ok :: "nat \<Rightarrow> nat \<Rightarrow> bool" where [std_simps]:
  "second_ok a b \<longleftrightarrow>
     (if a = 0xE0 then 0xA0 \<le> b \<and> b < 0xC0
      else if a = 0xED then 0x80 \<le> b \<and> b < 0xA0
      else if a = 0xF0 then 0x90 \<le> b \<and> b < 0xC0
      else if a = 0xF4 then 0x80 \<le> b \<and> b < 0x90
      else cont b)"

fun utf8_step_nat :: "nat list \<Rightarrow> rchar option \<times> nat" where
  "utf8_step_nat [] = (None, 1)"
| "utf8_step_nat (a # rest) =
     (if a < 0x80 then (Some a, 1)
      else if 0xC2 \<le> a \<and> a < 0xE0 then
        (case rest of
           b # _ \<Rightarrow> if cont b then (Some ((a - 0xC0) * 64 + (b - 0x80)), 2) else (None, 1)
         | [] \<Rightarrow> (None, 1))
      else if 0xE0 \<le> a \<and> a < 0xF0 then
        (case rest of
           b # rest2 \<Rightarrow>
             if \<not> second_ok a b then (None, 1)
             else (case rest2 of
                     c # _ \<Rightarrow>
                       if cont c
                       then (Some ((a - 0xE0) * 4096 + (b - 0x80) * 64 + (c - 0x80)), 3)
                       else (None, 2)
                   | [] \<Rightarrow> (None, 2))
         | [] \<Rightarrow> (None, 1))
      else if 0xF0 \<le> a \<and> a < 0xF5 then
        (case rest of
           b # rest2 \<Rightarrow>
             if \<not> second_ok a b then (None, 1)
             else (case rest2 of
                     c # rest3 \<Rightarrow>
                       if \<not> cont c then (None, 2)
                       else (case rest3 of
                               d # _ \<Rightarrow>
                                 if cont d
                                 then (Some ((a - 0xF0) * 262144 + (b - 0x80) * 4096
                                             + (c - 0x80) * 64 + (d - 0x80)), 4)
                                 else (None, 3)
                             | [] \<Rightarrow> (None, 3))
                   | [] \<Rightarrow> (None, 2))
         | [] \<Rightarrow> (None, 1))
      else (None, 1))"

definition utf8_step :: "bytes \<Rightarrow> rchar option \<times> nat" where [std_simps]:
  "utf8_step bs = utf8_step_nat (map unat (take 4 bs))"

text \<open>\<open>String::from_utf8\<close> and \<open>String::from_utf8_lossy\<close>.\<close>

fun from_utf8 :: "bytes \<Rightarrow> rstr option" where
  "from_utf8 [] = Some []"
| "from_utf8 (b # bs) =
     (case utf8_step (b # bs) of
        (Some c, n) \<Rightarrow> map_option ((#) c) (from_utf8 (drop (n - 1) bs))
      | (None, n) \<Rightarrow> None)"

fun from_utf8_lossy :: "bytes \<Rightarrow> rstr" where
  "from_utf8_lossy [] = []"
| "from_utf8_lossy (b # bs) =
     (case utf8_step (b # bs) of
        (Some c, n) \<Rightarrow> c # from_utf8_lossy (drop (n - 1) bs)
      | (None, n) \<Rightarrow> 0xFFFD # from_utf8_lossy (drop (n - 1) bs))"

section \<open>Lemmas: lists\<close>

lemma position_None_iff [simp]: "position P xs = None \<longleftrightarrow> (\<forall>x\<in>set xs. \<not> P x)"
  by (induction xs) auto

lemma position_Some_iff:
  "position P xs = Some i \<longleftrightarrow> i < length xs \<and> P (xs ! i) \<and> (\<forall>x\<in>set (take i xs). \<not> P x)"
proof (induction xs arbitrary: i)
  case (Cons x xs)
  then show ?case by (cases i) auto
qed simp

lemma position_SomeD:
  assumes "position P xs = Some i"
  obtains ys z zs where "xs = ys @ z # zs" "length ys = i" "P z" "\<forall>y\<in>set ys. \<not> P y"
proof -
  have i: "i < length xs" "P (xs ! i)" "\<forall>x\<in>set (take i xs). \<not> P x"
    using assms by (simp_all add: position_Some_iff)
  show thesis
    by (rule that [of "take i xs" "xs ! i" "drop (Suc i) xs"]) (use i in \<open>simp_all add: id_take_nth_drop\<close>)
qed

lemma position_append_hit:
  "\<forall>y\<in>set ys. \<not> P y \<Longrightarrow> P z \<Longrightarrow> position P (ys @ z # zs) = Some (length ys)"
  by (induction ys) auto

lemma find_sub_Some:
  "find_sub p xs = Some i \<Longrightarrow> i + length p \<le> length xs \<and> take (length p) (drop i xs) = p"
proof (induction p xs arbitrary: i rule: find_sub.induct)
  case (2 p x xs)
  then show ?case
  proof (cases "prefix p (x # xs)")
    case True
    then show ?thesis using "2.prems" by (auto simp: prefix_def dest: arg_cong [where f = length])
  next
    case False
    then show ?thesis using "2" by auto
  qed
qed (auto split: if_splits)

lemma find_sub_None_iff: "find_sub p xs = None \<longleftrightarrow> (\<forall>ys zs. xs \<noteq> ys @ p @ zs)"
proof (induction p xs rule: find_sub.induct)
  case (2 p x xs)
  show ?case
  proof (cases "prefix p (x # xs)")
    case True
    then obtain zs where "x # xs = [] @ p @ zs" by (auto simp: prefix_def)
    then show ?thesis using True by (metis find_sub.simps(2) option.distinct(1))
  next
    case False
    have "(\<exists>ys zs. x # xs = ys @ p @ zs) \<longleftrightarrow> (\<exists>ys zs. xs = ys @ p @ zs)"
    proof
      assume "\<exists>ys zs. x # xs = ys @ p @ zs"
      then obtain ys zs where e: "x # xs = ys @ p @ zs" by blast
      with False have "ys \<noteq> []" by (auto simp: prefix_def)
      with e obtain ys' where "xs = ys' @ p @ zs" by (cases ys) auto
      then show "\<exists>ys zs. xs = ys @ p @ zs" by blast
    next
      assume "\<exists>ys zs. xs = ys @ p @ zs"
      then show "\<exists>ys zs. x # xs = ys @ p @ zs" by (metis append_Cons)
    qed
    then show ?thesis using "2"[OF False] False by auto
  qed
qed simp

lemma contains_sub_iff: "contains_sub s p \<longleftrightarrow> (\<exists>ys zs. s = ys @ p @ zs)"
  using find_sub_None_iff [of p s] by (auto simp: contains_sub_def)

lemma split_by_nonempty [simp]: "split_by P xs \<noteq> []"
  by (induction xs) (auto split: list.splits)

lemma split_by_no_sep: "ys \<in> set (split_by P xs) \<Longrightarrow> y \<in> set ys \<Longrightarrow> \<not> P y"
  by (induction xs arbitrary: ys) (fastforce split: if_splits list.splits)+

lemma split_by_none [simp]: "\<forall>x\<in>set xs. \<not> P x \<Longrightarrow> split_by P xs = [xs]"
  by (induction xs) auto

lemma split_by_append_sep:
  "\<forall>x\<in>set xs. \<not> P x \<Longrightarrow> P s \<Longrightarrow> split_by P (xs @ s # ys) = xs # split_by P ys"
  by (induction xs) auto

lemma split_by_join:
  assumes "P s" "xss \<noteq> []" "\<forall>xs\<in>set xss. \<forall>x\<in>set xs. \<not> P x"
  shows "split_by P (join [s] xss) = xss"
  using assms by (induction "[s]" xss rule: join.induct) (simp_all add: split_by_append_sep)

lemma join_Cons_ne: "xss \<noteq> [] \<Longrightarrow> join sep (x # xss) = x @ sep @ join sep xss"
  by (cases xss) auto

lemma join_Cons_head: "join sep ((x # y) # ys) = x # join sep (y # ys)"
  by (cases ys) auto

lemma join_split_by: "join [s] (split_by ((=) s) xs) = xs"
  by (induction xs) (auto simp: join_Cons_ne join_Cons_head split: list.split)

lemma set_split_by: "x \<in> set xs \<Longrightarrow> \<not> P x \<Longrightarrow> \<exists>ys\<in>set (split_by P xs). x \<in> set ys"
  by (induction xs) (fastforce split: list.splits)+

section \<open>Lemmas: bytes, ASCII and UTF-8\<close>

lemma u8_unat_bound [simp]: "unat (b :: u8) < 256"
  using unsigned_less [of b] by simp

lemma u8_all: "(\<forall>b::u8. P b) \<longleftrightarrow> (\<forall>n\<in>set [0..<256]. P (word_of_nat n))"
proof
  assume *: "\<forall>n\<in>set [0..<256]. P (word_of_nat n)"
  show "\<forall>b. P b"
  proof
    fix b :: u8
    have "unat b \<in> set [0..<256]" by simp
    with * have "P (word_of_nat (unat b))" by blast
    then show "P b" by simp
  qed
qed auto

lemma unat_word_of_nat_u8 [simp]: "n < 256 \<Longrightarrow> unat (word_of_nat n :: u8) = n"
  by (simp add: unat_of_nat)

lemma ascii_class_unat [simp]:
  fixes b :: u8
  shows "is_ascii_digit (unat b) = is_ascii_digit b"
    and "is_ascii_uppercase (unat b) = is_ascii_uppercase b"
    and "is_ascii_lowercase (unat b) = is_ascii_lowercase b"
    and "is_ascii_alphanumeric (unat b) = is_ascii_alphanumeric b"
    and "is_ascii_hexdigit (unat b) = is_ascii_hexdigit b"
  by (simp_all add: ascii_simps word_le_nat_alt)

lemma is_ascii_Nil [simp]: "is_ascii []"
  and is_ascii_Cons [simp]: "is_ascii (c # cs) \<longleftrightarrow> c < 128 \<and> is_ascii cs"
  and is_ascii_append [simp]: "is_ascii (s @ t) \<longleftrightarrow> is_ascii s \<and> is_ascii t"
  by (auto simp: is_ascii_def)

lemma is_ascii_iff: "is_ascii s \<longleftrightarrow> (\<forall>c\<in>set s. c < 128)"
  by (simp add: is_ascii_def list_all_iff)

lemma as_bytes_Nil [simp]: "as_bytes [] = []"
  and as_bytes_Cons: "as_bytes (c # cs) = utf8_encode c @ as_bytes cs"
  and as_bytes_append [simp]: "as_bytes (s @ t) = as_bytes s @ as_bytes t"
  by (simp_all add: as_bytes_def)

lemma utf8_encode_ascii [simp]: "c < 128 \<Longrightarrow> utf8_encode c = [word_of_nat c]"
  by (simp add: utf8_encode_def)

lemma as_bytes_ascii: "is_ascii s \<Longrightarrow> as_bytes s = map word_of_nat s"
  by (induction s) (auto simp: as_bytes_Cons)

lemma as_bytes_char_from: "\<forall>b\<in>set bs. b < 128 \<Longrightarrow> as_bytes (map char_from bs) = bs"
proof -
  assume *: "\<forall>b\<in>set bs. b < (128::u8)"
  then have "is_ascii (map char_from bs)"
    by (auto simp: is_ascii_iff char_from_def word_less_nat_alt)
  then show ?thesis by (simp add: as_bytes_ascii char_from_def o_def)
qed

lemma map_char_from_as_bytes [simp]: "is_ascii s \<Longrightarrow> map char_from (map word_of_nat s) = s"
  by (induction s) (auto simp: char_from_def)

lemma utf8_step_encode:
  assumes "is_scalar c"
  shows "utf8_step (utf8_encode c @ bs) = (Some c, length (utf8_encode c))"
proof -
  have e: "c = 64 * (c div 64) + c mod 64" "c div 64 = 64 * (c div 4096) + c div 64 mod 64"
    "c div 4096 = 64 * (c div 262144) + c div 4096 mod 64" "c mod 64 < 64"
    using mult_div_mod_eq [of 64 "c div 64"] mult_div_mod_eq [of 64 "c div 4096"]
    by (simp_all flip: div_mult2_eq)
  consider (a) "c < 0x80" | (b) "0x80 \<le> c" "c < 0x800" | (c) "0x800 \<le> c" "c < 0x10000"
    | (d) "0x10000 \<le> c" "c < 0x110000"
    using assms by (force simp: is_scalar_def)
  then show ?thesis
  proof cases
    case a
    then show ?thesis by (simp add: utf8_step_def)
  next
    case b
    have "c div 64 < 32" "2 \<le> c div 64" using b by auto
    then show ?thesis using b
      by (simp add: utf8_step_def utf8_encode_def cont_def mult.commute del: of_nat_add)
  next
    case c
    have "c div 4096 < 16" using c by auto
    moreover have "c div 4096 = 0 \<Longrightarrow> 32 \<le> c div 64 mod 64" using c e by auto
    moreover have "c div 4096 = 13 \<Longrightarrow> c div 64 mod 64 < 32" using c e assms
      unfolding is_scalar_def by linarith
    moreover have "c div 4096 * 4096 + c div 64 mod 64 * 64 + c mod 64 = c" using e by linarith
    ultimately show ?thesis using c
      by (auto simp add: utf8_step_def utf8_encode_def cont_def second_ok_def simp del: of_nat_add)
  next
    case d
    have "c div 262144 < 5" using d by auto
    moreover have "c div 262144 = 0 \<Longrightarrow> 16 \<le> c div 4096 mod 64" using d e by linarith
    moreover have "c div 262144 = 4 \<Longrightarrow> c div 4096 mod 64 < 16" using d e by linarith
    moreover have "c div 262144 * 262144 + c div 4096 mod 64 * 4096 + c div 64 mod 64 * 64 + c mod 64 = c"
      using e by linarith
    ultimately show ?thesis using d
      by (auto simp add: utf8_step_def utf8_encode_def cont_def second_ok_def simp del: of_nat_add)
  qed
qed

lemma utf8_encode_nonempty [simp]: "utf8_encode c \<noteq> []"
  by (simp add: utf8_encode_def)

lemma from_utf8_encode:
  assumes "is_scalar c"
  shows "from_utf8 (utf8_encode c @ bs) = map_option ((#) c) (from_utf8 bs)"
proof -
  obtain b bs' where e: "utf8_encode c = b # bs'" by (cases "utf8_encode c") auto
  have "utf8_step (b # bs' @ bs) = (Some c, Suc (length bs'))"
    using utf8_step_encode [OF assms, of bs] by (simp add: e)
  then show ?thesis by (simp add: e)
qed

lemma from_utf8_as_bytes [simp]: "\<forall>c\<in>set s. is_scalar c \<Longrightarrow> from_utf8 (as_bytes s) = Some s"
  by (induction s) (simp_all add: as_bytes_Cons from_utf8_encode)

lemma from_utf8_ascii: "\<forall>b\<in>set bs. b < 128 \<Longrightarrow> from_utf8 bs = Some (map char_from bs)"
proof -
  assume *: "\<forall>b\<in>set bs. b < (128::u8)"
  then have "\<forall>c\<in>set (map char_from bs). is_scalar c"
    by (auto simp: is_scalar_def char_from_def word_less_nat_alt)
  then have "from_utf8 (as_bytes (map char_from bs)) = Some (map char_from bs)"
    by (rule from_utf8_as_bytes)
  then show ?thesis using * by (simp add: as_bytes_char_from)
qed


section \<open>Splitting strings\<close>

lemma split_once_by_prefix:
  "(case split_once_by P s of Some (before, _) \<Rightarrow> before | None \<Rightarrow> s) = takeWhile (\<lambda>c. \<not> P c) s"
proof (cases "position P s")
  case None
  then have tw: "takeWhile (\<lambda>c. \<not> P c) s = s" by (simp add: takeWhile_eq_all_conv)
  show ?thesis unfolding split_once_by_def None by (simp only: tw option.simps)
next
  case (Some i)
  then obtain ys z zs where "s = ys @ z # zs" "length ys = i" "P z" "\<forall>y\<in>set ys. \<not> P y"
    by (rule position_SomeD)
  then show ?thesis using Some by (simp add: split_once_by_def takeWhile_append)
qed

lemma split_once_append:
  assumes "split_once d s = Some (a, b)"
  shows "s = a @ d @ b"
proof -
  obtain i where i: "find_sub d s = Some i" "a = take i s" "b = drop (i + length d) s"
    using assms by (auto simp: split_once_def)
  have "d @ b = drop i s"
    using find_sub_Some [OF i(1)] i(3) append_take_drop_id [of "length d" "drop i s"]
    by (simp add: add.commute)
  then show ?thesis unfolding i(2) by simp
qed

lemma rsplit_once_by_set:
  "rsplit_once_by P s = Some (a, b) \<Longrightarrow> set a \<subseteq> set s \<and> set b \<subseteq> set s"
  by (auto simp: rsplit_once_by_def split_once_by_def dest!: in_set_takeD in_set_dropD)

lemma ascii_bytes: "is_ascii s \<Longrightarrow> \<forall>b\<in>set (as_bytes s). b < 128"
  by (auto simp: as_bytes_ascii is_ascii_iff word_less_nat_alt)

lemma ascii_mem_bytes:
  assumes "is_ascii s" and "c < 128"
  shows "word_of_nat c \<in> set (as_bytes s) \<longleftrightarrow> c \<in> set s"
proof -
  have "d = c" if "word_of_nat c = (word_of_nat d :: u8)" "d < 128" for d
  proof -
    have "unat (word_of_nat c :: u8) = c" "unat (word_of_nat d :: u8) = d" using assms(2) that(2) by simp_all
    then show ?thesis using that(1) by metis
  qed
  then show ?thesis using assms(1) by (auto simp: as_bytes_ascii is_ascii_iff)
qed

end
