(* ===== verification/Utils.thy ===== *)
theory Utils
  imports Prelude
begin

text \<open>
  The model of \<open>crates/requests/src/utils.rs\<close>: header validation, form encoding and URI
  requoting. A loop over an index into a byte slice is the recursion over the slice that is
  left; \<open>index + 2 < len\<close> is the pattern with at least three bytes left.
\<close>

section \<open>Header validation\<close>

datatype HeaderValidationError = InvalidName | InvalidValue

definition is_python_whitespace :: "rchar \<Rightarrow> bool" where
  "is_python_whitespace c \<longleftrightarrow> is_whitespace c \<or> (0x1c \<le> c \<and> c \<le> 0x1f)"

definition validate_header_name :: "rstr \<Rightarrow> HeaderValidationError + unit" where
  "validate_header_name name =
     (case name of
        [] \<Rightarrow> Inl InvalidName
      | first # chars \<Rightarrow>
          if first = asc CHR '':'' \<or> is_python_whitespace first \<or>
             list_ex (\<lambda>ch. ch = asc CHR '':'' \<or> ch = 13 \<or> ch = 10) chars
          then Inl InvalidName else Inr ())"

definition validate_header_value :: "rstr \<Rightarrow> HeaderValidationError + unit" where
  "validate_header_value value =
     (case value of
        [] \<Rightarrow> Inr ()
      | first # chars \<Rightarrow>
          if is_python_whitespace first \<or> first = 13 \<or> first = 10 then Inl InvalidValue
          else if list_ex (\<lambda>ch. ch = 13 \<or> ch = 10) chars then Inl InvalidValue
          else Inr ())"

definition validate_header :: "rstr \<Rightarrow> rstr \<Rightarrow> HeaderValidationError + unit" where
  "validate_header name value =
     (case validate_header_name name of
        Inl e \<Rightarrow> Inl e
      | Inr _ \<Rightarrow> validate_header_value value)"

definition has_return :: "bytes \<Rightarrow> bool" where
  "has_return value \<longleftrightarrow> 13 \<in> set value \<or> 10 \<in> set value"

definition is_python_bytes_whitespace :: "u8 \<Rightarrow> bool" where
  "is_python_bytes_whitespace b \<longleftrightarrow> is_ascii_whitespace b \<or> b = 0x0b"

definition validate_header_name_bytes :: "bytes \<Rightarrow> HeaderValidationError + unit" where
  "validate_header_name_bytes name =
     (case name of
        [] \<Rightarrow> Inl InvalidName
      | first # rest \<Rightarrow>
          if first = asc CHR '':'' \<or> is_python_bytes_whitespace first \<or>
             asc CHR '':'' \<in> set rest \<or> has_return rest
          then Inl InvalidName else Inr ())"

definition validate_header_value_bytes :: "bytes \<Rightarrow> HeaderValidationError + unit" where
  "validate_header_value_bytes value =
     (case value of
        [] \<Rightarrow> Inr ()
      | first # rest \<Rightarrow>
          if is_python_bytes_whitespace first \<or> has_return rest then Inl InvalidValue
          else Inr ())"

definition validate_header_bytes :: "bytes \<Rightarrow> bytes \<Rightarrow> HeaderValidationError + unit" where
  "validate_header_bytes name value =
     (case validate_header_name_bytes name of
        Inl e \<Rightarrow> Inl e
      | Inr _ \<Rightarrow> validate_header_value_bytes value)"

definition trim_python_whitespace_start :: "rstr \<Rightarrow> rstr" where
  "trim_python_whitespace_start value = trim_start is_python_whitespace value"

definition unicode_is_ascii :: "rstr \<Rightarrow> bool" where
  "unicode_is_ascii value = is_ascii value"

section \<open>Quoting\<close>

definition HEX :: bytes where
  "HEX = lit ''0123456789ABCDEF''"

text \<open>\<open>is_ascii_alphanumeric\<close> or one of the four unreserved marks, as both quoting routines test it.\<close>

definition is_unreserved :: "u8 \<Rightarrow> bool" where
  "is_unreserved b \<longleftrightarrow> is_ascii_alphanumeric b \<or> b \<in> set (lit ''-._~'')"

definition quote_byte :: "bytes \<Rightarrow> bool \<Rightarrow> u8 \<Rightarrow> rstr" where
  "quote_byte safe plus_for_space byte =
     (if is_unreserved byte \<or> byte \<in> set safe then [char_from byte]
      else if plus_for_space \<and> byte = asc CHR '' '' then [asc CHR ''+'']
      else [asc CHR ''%'', char_from (HEX ! unat (drop_bit 4 byte)),
            char_from (HEX ! unat (byte AND 0x0f))])"

definition quote_bytes :: "bytes \<Rightarrow> bytes \<Rightarrow> bool \<Rightarrow> rstr" where
  "quote_bytes value safe plus_for_space = concat (map (quote_byte safe plus_for_space) value)"

definition quote_form_component :: "bytes \<Rightarrow> rstr" where
  "quote_form_component value = quote_bytes value [] True"

text \<open>The loop of \<open>encode_query_pairs\<close>; its flag is \<open>index != 0\<close>.\<close>

fun encode_query_pairs_loop :: "bool \<Rightarrow> (bytes \<times> bytes) list \<Rightarrow> rstr" where
  "encode_query_pairs_loop later [] = []"
| "encode_query_pairs_loop later ((name, value) # pairs) =
     (if later then [asc CHR ''&''] else []) @ quote_form_component name @ [asc CHR ''='']
     @ quote_form_component value @ encode_query_pairs_loop True pairs"

definition encode_query_pairs :: "(bytes \<times> bytes) list \<Rightarrow> rstr" where
  "encode_query_pairs pairs = encode_query_pairs_loop False pairs"

section \<open>URI requoting\<close>

fun normalize_percent_loop :: "bytes \<Rightarrow> rstr" where
  "normalize_percent_loop (a # h # l # rest) =
     (if a = asc CHR ''%'' \<and> is_ascii_hexdigit h \<and> is_ascii_hexdigit l
      then asc CHR ''%'' # char_from (to_ascii_uppercase h) # char_from (to_ascii_uppercase l)
           # normalize_percent_loop rest
      else char_from a # normalize_percent_loop (h # l # rest))"
| "normalize_percent_loop (a # rest) = char_from a # normalize_percent_loop rest"
| "normalize_percent_loop [] = []"

definition normalize_percent_escape_hex :: "rstr \<Rightarrow> rstr" where
  "normalize_percent_escape_hex uri = normalize_percent_loop (as_bytes uri)"

definition hex_value :: "u8 \<Rightarrow> u8 option" where
  "hex_value b =
     (if 48 \<le> b \<and> b \<le> 57 then Some (b - 48)
      else if 97 \<le> b \<and> b \<le> 102 then Some (b - 97 + 10)
      else if 65 \<le> b \<and> b \<le> 70 then Some (b - 65 + 10)
      else None)"

fun unquote_unreserved_loop :: "bytes \<Rightarrow> rstr option" where
  "unquote_unreserved_loop (a # h # l # rest) =
     (if a \<noteq> asc CHR ''%'' then map_option ((#) (char_from a)) (unquote_unreserved_loop (h # l # rest))
      else if is_ascii_alphanumeric h \<and> is_ascii_alphanumeric l then
        (case hex_value h of
           None \<Rightarrow> None
         | Some high \<Rightarrow>
             (case hex_value l of
                None \<Rightarrow> None
              | Some low \<Rightarrow>
                  (let value = high * 16 + low in
                   if is_unreserved value
                   then map_option ((#) (char_from value)) (unquote_unreserved_loop rest)
                   else map_option (\<lambda>out. asc CHR ''%'' # char_from h # char_from l # out)
                          (unquote_unreserved_loop rest))))
      else map_option ((#) (asc CHR ''%'')) (unquote_unreserved_loop (h # l # rest)))"
| "unquote_unreserved_loop (a # rest) =
     map_option ((#) (if a \<noteq> asc CHR ''%'' then char_from a else asc CHR ''%''))
       (unquote_unreserved_loop rest)"
| "unquote_unreserved_loop [] = Some []"

definition unquote_unreserved :: "rstr \<Rightarrow> rstr option" where
  "unquote_unreserved uri = unquote_unreserved_loop (as_bytes uri)"

definition SAFE_WITH_PERCENT :: bytes where
  "SAFE_WITH_PERCENT = lit ''!#$%&'' @ [39] @ lit ''()*+,/:;=?@[]~''"

definition SAFE_WITHOUT_PERCENT :: bytes where
  "SAFE_WITHOUT_PERCENT = lit ''!#$&'' @ [39] @ lit ''()*+,/:;=?@[]~''"

definition requote_uri :: "rstr \<Rightarrow> rstr" where
  "requote_uri uri =
     (case unquote_unreserved uri of
        Some unquoted \<Rightarrow> quote_bytes (as_bytes unquoted) SAFE_WITH_PERCENT False
      | None \<Rightarrow> quote_bytes (as_bytes uri) SAFE_WITHOUT_PERCENT False)"

section \<open>Lemmas: quoting and the octets an escaped string denotes\<close>

text \<open>
  Reference decoder: the octets a percent-escaped byte string denotes, an escape being a
  percent sign and two hexadecimal digits; anything else stands for itself.
\<close>

definition hex_digit_value :: "u8 \<Rightarrow> u8" where
  "hex_digit_value b = (case hex_value b of Some v \<Rightarrow> v | None \<Rightarrow> 0)"

fun pct_octets :: "bytes \<Rightarrow> bytes" where
  "pct_octets (a # h # l # rest) =
     (if a = asc CHR ''%'' \<and> is_ascii_hexdigit h \<and> is_ascii_hexdigit l
      then (hex_digit_value h * 16 + hex_digit_value l) # pct_octets rest
      else a # pct_octets (h # l # rest))"
| "pct_octets (a # rest) = a # pct_octets rest"
| "pct_octets [] = []"

lemma hex_value_iff: "is_ascii_hexdigit b \<longleftrightarrow> hex_value b \<noteq> None"
  by (auto simp: hex_value_def ascii_simps)

lemma hexdigit_alphanumeric: "is_ascii_hexdigit (b::u8) \<Longrightarrow> is_ascii_alphanumeric b"
  by (auto simp: ascii_simps intro: order_trans)

text \<open>The sixteen entries of the digit table, by evaluation.\<close>

lemma HEX_entry:
  assumes "n < 16"
  shows "is_ascii_hexdigit (HEX ! n)" and "HEX ! n < 128" and "\<not> is_ascii_lowercase (HEX ! n)"
    and "hex_digit_value (HEX ! n) = word_of_nat n"
proof -
  have "\<forall>n\<in>set [0..<16]. is_ascii_hexdigit (HEX ! n) \<and> HEX ! n < 128 \<and>
          \<not> is_ascii_lowercase (HEX ! n) \<and> hex_digit_value (HEX ! n) = word_of_nat n"
    by code_simp
  moreover have "n \<in> set [0..<16]" using assms by simp
  ultimately show "is_ascii_hexdigit (HEX ! n)" "HEX ! n < 128"
    "\<not> is_ascii_lowercase (HEX ! n)" "hex_digit_value (HEX ! n) = word_of_nat n"
    by blast+
qed

lemma nibbles:
  fixes b :: u8
  shows "unat (drop_bit 4 b) < 16" and "unat (b AND 0x0f) < 16"
    and "drop_bit 4 b * 16 + (b AND 0x0f) = b"
proof -
  have m: "(0x0f :: u8) = mask 4" by (simp add: mask_eq_exp_minus_1)
  then have t: "b AND 0x0f = take_bit 4 b" by (simp add: take_bit_eq_mask)
  show "unat (drop_bit 4 b) < 16"
    by (simp add: drop_bit_eq_div unat_div_distrib less_mult_imp_div_less)
  show "unat (b AND 0x0f) < 16"
    by (simp add: t unsigned_take_bit_eq take_bit_nat_less_exp [of 4, simplified])
  show "drop_bit 4 b * 16 + (b AND 0x0f) = b"
    using bits_ident [of 4 b] by (simp add: t push_bit_eq_mult)
qed

lemma quoted_pair_value:
  "hex_digit_value (HEX ! unat (drop_bit 4 b)) * 16 + hex_digit_value (HEX ! unat (b AND 0x0f)) = b"
  using nibbles [of b] by (simp add: HEX_entry)


lemma HEX_pair_ascii [simp]:
  fixes b :: u8
  shows "HEX ! unat (drop_bit 4 b) < 128" "HEX ! unat (b AND 0x0f) < 128"
  "is_ascii_hexdigit (HEX ! unat (drop_bit 4 b))" "is_ascii_hexdigit (HEX ! unat (b AND 0x0f))"
  using nibbles [of b] by (simp_all add: HEX_entry)

lemma percent_reserved [simp]: "\<not> is_unreserved 37" "\<not> is_ascii_hexdigit (37::u8)"
  by (simp_all add: ascii_simps is_unreserved_def)

lemma pct_octets_escape [simp]:
  "is_ascii_hexdigit h \<Longrightarrow> is_ascii_hexdigit l \<Longrightarrow>
     pct_octets (37 # h # l # rest) = (hex_digit_value h * 16 + hex_digit_value l) # pct_octets rest"
  by simp

lemma pct_octets_plain [simp]: "a \<noteq> 37 \<Longrightarrow> pct_octets (a # rest) = a # pct_octets rest"
  by (cases rest; cases "tl rest") auto

lemma is_unreserved_ascii: "is_unreserved b \<Longrightarrow> b < 128"
  by (auto simp: is_unreserved_def ascii_simps intro: order_le_less_trans)

lemma SAFE_ascii: "b \<in> set SAFE_WITH_PERCENT \<Longrightarrow> b < 128"
  "b \<in> set SAFE_WITHOUT_PERCENT \<Longrightarrow> b < 128"
  by (auto simp: SAFE_WITH_PERCENT_def SAFE_WITHOUT_PERCENT_def)

lemma char_from_ascii: "b < 128 \<Longrightarrow> char_from b < 128"
  by (simp add: char_from_def word_less_nat_alt)

lemma quote_byte_ascii: "\<forall>s\<in>set safe. s < 128 \<Longrightarrow> is_ascii (quote_byte safe ps b)"
  by (auto simp: quote_byte_def is_unreserved_ascii intro!: char_from_ascii)

lemma quote_bytes_Nil [simp]: "quote_bytes [] safe ps = []"
  and quote_bytes_Cons: "quote_bytes (b # bs) safe ps = quote_byte safe ps b @ quote_bytes bs safe ps"
  and quote_bytes_append: "quote_bytes (xs @ ys) safe ps = quote_bytes xs safe ps @ quote_bytes ys safe ps"
  by (simp_all add: quote_bytes_def)

lemma quote_bytes_ascii: "\<forall>s\<in>set safe. s < 128 \<Longrightarrow> is_ascii (quote_bytes bs safe ps)"
  by (induction bs) (simp_all add: quote_bytes_Cons quote_byte_ascii)

lemma as_bytes_quote_byte:
  "\<forall>s\<in>set safe. s < 128 \<Longrightarrow> as_bytes (quote_byte safe ps b) =
     (if is_unreserved b \<or> b \<in> set safe then [b]
      else if ps \<and> b = 32 then [43]
      else [37, HEX ! unat (drop_bit 4 b), HEX ! unat (b AND 0x0f)])"
  using quote_byte_ascii [of safe ps b] by (auto simp: quote_byte_def char_from_def as_bytes_ascii)

text \<open>Without the percent sign among the safe bytes, quoting is inverted by decoding.\<close>

lemma pct_octets_quote_bytes:
  assumes "\<forall>s\<in>set safe. s < 128" and "37 \<notin> set safe"
  shows "pct_octets (as_bytes (quote_bytes bs safe False)) = bs"
proof (induction bs)
  case (Cons b bs)
  have "is_unreserved b \<or> b \<in> set safe \<Longrightarrow> b \<noteq> 37" using assms by auto
  then show ?case using Cons assms
    by (auto simp: quote_bytes_Cons as_bytes_quote_byte quoted_pair_value)
qed simp


text \<open>Every percent sign starts an escape; no escape denotes an unreserved octet.\<close>

fun escapes_complete :: "bytes \<Rightarrow> bool" where
  "escapes_complete (a # h # l # rest) =
     (if a = asc CHR ''%'' then is_ascii_hexdigit h \<and> is_ascii_hexdigit l \<and> escapes_complete rest
      else escapes_complete (h # l # rest))"
| "escapes_complete (a # rest) \<longleftrightarrow> a \<noteq> asc CHR ''%'' \<and> escapes_complete rest"
| "escapes_complete [] = True"

fun escapes_reserved :: "bytes \<Rightarrow> bool" where
  "escapes_reserved (a # h # l # rest) =
     (if a = asc CHR ''%'' then
        \<not> is_unreserved (hex_digit_value h * 16 + hex_digit_value l) \<and> escapes_reserved rest
      else escapes_reserved (h # l # rest))"
| "escapes_reserved (a # rest) = escapes_reserved rest"
| "escapes_reserved [] = True"

lemma escapes_plain [simp]:
  "a \<noteq> 37 \<Longrightarrow> escapes_complete (a # rest) = escapes_complete rest"
  "a \<noteq> 37 \<Longrightarrow> escapes_reserved (a # rest) = escapes_reserved rest"
  by (cases rest; cases "tl rest"; auto)+

lemma escapes_induct [consumes 1, case_names Nil Escape Plain]:
  assumes "escapes_complete bs" and "P []"
    and "\<And>h l rest. is_ascii_hexdigit h \<Longrightarrow> is_ascii_hexdigit l \<Longrightarrow> escapes_complete rest \<Longrightarrow>
           P rest \<Longrightarrow> P (37 # h # l # rest)"
    and "\<And>a rest. a \<noteq> 37 \<Longrightarrow> escapes_complete rest \<Longrightarrow> P rest \<Longrightarrow> P (a # rest)"
  shows "P bs"
  using assms by (induction bs rule: escapes_complete.induct) (auto split: if_splits)

lemma hex_value_digit: "is_ascii_hexdigit b \<Longrightarrow> hex_value b = Some (hex_digit_value b)"
  by (auto simp: hex_value_iff hex_digit_value_def)

lemma unquote_plain [simp]:
  "a \<noteq> 37 \<Longrightarrow> unquote_unreserved_loop (a # rest) =
     map_option ((#) (char_from a)) (unquote_unreserved_loop rest)"
  by (cases rest; cases "tl rest") auto

lemma unquote_escape:
  "is_ascii_hexdigit h \<Longrightarrow> is_ascii_hexdigit l \<Longrightarrow> unquote_unreserved_loop (37 # h # l # rest) =
     (let value = hex_digit_value h * 16 + hex_digit_value l in
      map_option (\<lambda>out. (if is_unreserved value then [char_from value]
                         else [37, char_from h, char_from l]) @ out) (unquote_unreserved_loop rest))"
  by (auto simp: hexdigit_alphanumeric hex_value_digit Let_def option.map_comp o_def intro!: option.map_cong)

lemma hexdigit_ascii: "is_ascii_hexdigit (b::u8) \<Longrightarrow> b < 128"
  by (auto simp: ascii_simps intro: order_le_less_trans)

text \<open>On complete escapes, unquoting succeeds and only rewrites escapes of unreserved octets.\<close>

lemma unquote_complete:
  assumes "escapes_complete bs" and "\<forall>b\<in>set bs. b < 128"
  shows "\<exists>w. unquote_unreserved_loop bs = Some (map char_from w) \<and> (\<forall>b\<in>set w. b < 128) \<and>
           escapes_complete w \<and> escapes_reserved w \<and> pct_octets w = pct_octets bs"
  using assms
proof (induction bs rule: escapes_induct)
  case Nil
  then show ?case by (intro exI [of _ "[]"]) simp
next
  case (Escape h l rest)
  let ?v = "hex_digit_value h * 16 + hex_digit_value l"
  from Escape obtain w where w: "unquote_unreserved_loop rest = Some (map char_from w)"
    "\<forall>b\<in>set w. b < 128" "escapes_complete w" "escapes_reserved w" "pct_octets w = pct_octets rest"
    by auto
  have nz: "is_unreserved ?v \<Longrightarrow> ?v \<noteq> 37" by auto
  show ?case
    using w Escape.hyps nz
    by (intro exI [of _ "(if is_unreserved ?v then [?v] else [37, h, l]) @ w"])
      (auto simp: unquote_escape Let_def is_unreserved_ascii hexdigit_ascii char_from_def
            simp del: unquote_unreserved_loop.simps)
next
  case (Plain a rest)
  then obtain w where "unquote_unreserved_loop rest = Some (map char_from w)"
    "\<forall>b\<in>set w. b < 128" "escapes_complete w" "escapes_reserved w" "pct_octets w = pct_octets rest"
    by auto
  with Plain show ?case by (intro exI [of _ "a # w"]) auto
qed

text \<open>Quoting with the percent sign safe keeps escapes and only adds escapes of unsafe octets.\<close>

lemma quote_complete:
  assumes "escapes_complete w" and "escapes_reserved w"
  defines "q \<equiv> as_bytes (quote_bytes w SAFE_WITH_PERCENT False)"
  shows "escapes_complete q \<and> escapes_reserved q \<and> pct_octets q = pct_octets w \<and>
         (\<forall>b\<in>set q. is_unreserved b \<or> b \<in> set SAFE_WITH_PERCENT)"
  using assms(1,2) unfolding q_def
proof (induction w rule: escapes_induct)
  case (Escape h l rest)
  then show ?case
    by (auto simp: quote_bytes_Cons as_bytes_quote_byte SAFE_ascii is_unreserved_def
        SAFE_WITH_PERCENT_def hexdigit_alphanumeric)
next
  case (Plain a rest)
  have "is_unreserved (HEX ! unat (drop_bit 4 a))" "is_unreserved (HEX ! unat (a AND 0x0f))"
    "37 \<in> set SAFE_WITH_PERCENT"
    by (simp_all add: is_unreserved_def hexdigit_alphanumeric SAFE_WITH_PERCENT_def)
  then show ?case using Plain
    by (auto simp: quote_bytes_Cons as_bytes_quote_byte SAFE_ascii quoted_pair_value)
qed simp

lemma unquote_reserved_id:
  "escapes_complete bs \<Longrightarrow> escapes_reserved bs \<Longrightarrow> unquote_unreserved_loop bs = Some (map char_from bs)"
proof (induction bs rule: escapes_induct)
  case (Escape h l rest)
  then show ?case
    by (simp add: unquote_escape Let_def char_from_def del: unquote_unreserved_loop.simps)
qed auto

lemma quote_safe_id:
  "\<forall>b\<in>set bs. is_unreserved b \<or> b \<in> set safe \<Longrightarrow> quote_bytes bs safe ps = map char_from bs"
  by (induction bs) (auto simp: quote_bytes_Cons quote_byte_def)

lemma requote_complete:
  assumes "is_ascii u" and "escapes_complete (as_bytes u)"
  shows "pct_octets (as_bytes (requote_uri u)) = pct_octets (as_bytes u)"
    and "requote_uri (requote_uri u) = requote_uri u"
    and "escapes_complete (as_bytes (requote_uri u))"
proof -
  have "\<forall>b\<in>set (as_bytes u). b < 128"
    using assms(1) by (auto simp: as_bytes_ascii is_ascii_iff word_less_nat_alt)
  then obtain w where w: "unquote_unreserved u = Some (map char_from w)" "\<forall>b\<in>set w. b < 128"
    "escapes_complete w" "escapes_reserved w" "pct_octets w = pct_octets (as_bytes u)"
    using unquote_complete [OF assms(2)] unfolding unquote_unreserved_def by blast
  let ?q = "as_bytes (quote_bytes w SAFE_WITH_PERCENT False)"
  have r: "requote_uri u = quote_bytes w SAFE_WITH_PERCENT False"
    using w(1,2) by (simp add: requote_uri_def as_bytes_char_from)
  note q = quote_complete [OF w(3,4)]
  have asc: "is_ascii (requote_uri u)" unfolding r by (simp add: quote_bytes_ascii SAFE_ascii)
  have "map char_from (as_bytes (requote_uri u)) = requote_uri u"
    using map_char_from_as_bytes [OF asc] asc by (simp only: as_bytes_ascii)
  then have "map char_from ?q = requote_uri u" unfolding r .
  then show "requote_uri (requote_uri u) = requote_uri u"
    using q w(3,4) asc
    by (simp add: requote_uri_def [of "requote_uri u"] unquote_unreserved_def unquote_reserved_id
        quote_safe_id flip: r)
  show "pct_octets (as_bytes (requote_uri u)) = pct_octets (as_bytes u)"
    using q w(5) by (simp only: r)
  show "escapes_complete (as_bytes (requote_uri u))" using q by (simp only: r)
qed


section \<open>Lemmas: form encoding\<close>

text \<open>
  Reference decoder of \<open>application/x-www-form-urlencoded\<close>: fields separated by \<open>&\<close>, name and
  value by the first \<open>=\<close>, \<open>+\<close> for a space, percent escapes.
\<close>

definition form_component_octets :: "bytes \<Rightarrow> bytes" where
  "form_component_octets bs = pct_octets (map (\<lambda>b. if b = asc CHR ''+'' then asc CHR '' '' else b) bs)"

definition form_field :: "bytes \<Rightarrow> bytes \<times> bytes" where
  "form_field bs =
     (case split_once_by ((=) (asc CHR ''='')) bs of
        None \<Rightarrow> (form_component_octets bs, [])
      | Some (n, v) \<Rightarrow> (form_component_octets n, form_component_octets v))"

definition form_decode :: "bytes \<Rightarrow> (bytes \<times> bytes) list" where
  "form_decode bs = map form_field (split_by ((=) (asc CHR ''&'')) bs)"

lemma unreserved_marks [simp]:
  "\<not> is_unreserved 32" "\<not> is_unreserved 38" "\<not> is_unreserved 43" "\<not> is_unreserved 61"
  "\<not> is_ascii_hexdigit (43::u8)" "\<not> is_ascii_hexdigit (38::u8)" "\<not> is_ascii_hexdigit (61::u8)"
  by (simp_all add: ascii_simps is_unreserved_def)

lemma HEX_pair_not [simp]:
  fixes b c :: u8
  assumes "\<not> is_ascii_hexdigit c"
  shows "HEX ! unat (drop_bit 4 b) \<noteq> c" "HEX ! unat (b AND 0x0f) \<noteq> c"
  using assms HEX_pair_ascii(3,4) [of b] by auto

lemma quote_form_ascii [simp]: "is_ascii (quote_form_component v)"
  by (simp add: quote_form_component_def quote_bytes_ascii)

lemma quote_form_no_separator:
  "b \<in> set (as_bytes (quote_form_component v)) \<Longrightarrow> b \<noteq> 38 \<and> b \<noteq> 61"
  unfolding quote_form_component_def
  by (induction v) (auto simp: quote_bytes_Cons as_bytes_quote_byte split: if_splits)

lemma form_component_quote: "form_component_octets (as_bytes (quote_form_component v)) = v"
  unfolding form_component_octets_def quote_form_component_def
proof (induction v)
  case (Cons b bs)
  have "is_unreserved b \<Longrightarrow> b \<noteq> 37 \<and> b \<noteq> 43" by auto
  then show ?case using Cons
    by (auto simp: quote_bytes_Cons as_bytes_quote_byte quoted_pair_value)
qed simp

definition field_bytes :: "bytes \<times> bytes \<Rightarrow> bytes" where
  "field_bytes p = as_bytes (quote_form_component (fst p)) @ 61 # as_bytes (quote_form_component (snd p))"

lemma form_field_bytes: "form_field (field_bytes p) = p"
proof -
  have "position ((=) 61) (field_bytes p) = Some (length (as_bytes (quote_form_component (fst p))))"
    unfolding field_bytes_def
    by (rule position_append_hit) (use quote_form_no_separator in blast)+
  then show ?thesis
    by (simp add: form_field_def split_once_by_def field_bytes_def form_component_quote
       )
qed

lemma encode_query_pairs_join:
  "pairs \<noteq> [] \<Longrightarrow> as_bytes (encode_query_pairs_loop later pairs) =
     (if later then [38] else []) @ join [38] (map field_bytes pairs)"
proof (induction pairs arbitrary: later)
  case (Cons p pairs)
  obtain n v where p: "p = (n, v)" by force
  show ?case
  proof (cases pairs)
    case Nil
    then show ?thesis by (simp add: p field_bytes_def) (simp add: as_bytes_def)
  next
    case (Cons q qs)
    then show ?thesis using Cons.IH [of True]
      by (simp add: p field_bytes_def del: encode_query_pairs_loop.simps(2))
        (simp add: p as_bytes_Cons)
  qed
qed simp

lemma form_decode_encode: "pairs \<noteq> [] \<Longrightarrow> form_decode (as_bytes (encode_query_pairs pairs)) = pairs"
proof -
  assume ne: "pairs \<noteq> []"
  have "split_by ((=) 38) (join [38] (map field_bytes pairs)) = map field_bytes pairs"
    by (rule split_by_join) (use ne quote_form_no_separator in \<open>auto simp: field_bytes_def\<close>)
  then show ?thesis
    using encode_query_pairs_join [OF ne, of False]
    by (simp add: form_decode_def encode_query_pairs_def o_def form_field_bytes map_idI)
qed

section \<open>Properties of \<open>utils.rs\<close>\<close>

lemma escapes_free: "37 \<notin> set bs \<Longrightarrow> escapes_complete bs \<and> escapes_reserved bs \<and> pct_octets bs = bs"
  by (induction bs) auto

lemma utf8_encode_high:
  assumes "128 \<le> c" "is_scalar c" and "b \<in> set (utf8_encode c)"
  shows "\<not> b < 128"
proof -
  have *: "\<not> (word_of_nat n :: u8) < 128" if "128 \<le> n" "n < 256" for n
    using that by (simp add: word_less_nat_alt)
  have "c < 0x110000" using assms(2) by (auto simp: is_scalar_def)
  then have "c div 262144 < 16" "c < 0x10000 \<Longrightarrow> c div 4096 < 32" "c < 0x800 \<Longrightarrow> c div 64 < 64"
    by auto
  moreover have "n mod 64 < 128" for n :: nat by (rule less_trans [OF mod_less_divisor]) simp_all
  ultimately show ?thesis
    using assms(1,3) * [of "0xC0 + c div 64"] * [of "0x80 + c mod 64"] * [of "0xE0 + c div 4096"]
      * [of "0x80 + c div 64 mod 64"] * [of "0xF0 + c div 262144"] * [of "0x80 + c div 4096 mod 64"]
    by (auto simp: utf8_encode_def simp del: of_nat_add split: if_splits)
qed

lemma ascii_iff_as_bytes:
  "\<forall>c\<in>set u. is_scalar c \<Longrightarrow> is_ascii u \<longleftrightarrow> (\<forall>b\<in>set (as_bytes u). b < 128)"
proof (induction u)
  case (Cons c u)
  show ?case
  proof (cases "c < 128")
    case True
    then show ?thesis using Cons by (simp add: as_bytes_Cons word_less_nat_alt)
  next
    case False
    obtain b where b: "b \<in> set (utf8_encode c)" by (cases "utf8_encode c") auto
    then have "\<not> b < 128" using Cons.prems False by (intro utf8_encode_high [of c b]) simp_all
    moreover have "b \<in> set (as_bytes (c # u))" using b by (simp add: as_bytes_Cons)
    ultimately have "\<not> (\<forall>b\<in>set (as_bytes (c # u)). b < 128)" by blast
    with False show ?thesis by simp
  qed
qed simp

lemma scalar_char_from [simp]: "is_scalar (char_from b)"
  unfolding is_scalar_def char_from_def using u8_unat_bound [of b] by linarith

lemma latin1_no_percent: "37 \<notin> set bs \<Longrightarrow> 37 \<notin> set (as_bytes (map char_from bs))"
proof (induction bs)
  case (Cons b bs)
  have "37 \<notin> set (utf8_encode (char_from b))"
  proof (cases "b < 128")
    case True
    then show ?thesis using Cons.prems
      by (auto simp: char_from_def word_less_nat_alt)
  next
    case False
    then have "128 \<le> char_from b" by (simp add: char_from_def word_less_nat_alt)
    then have "\<not> (37::u8) < 128" if "37 \<in> set (utf8_encode (char_from b))"
      by (rule utf8_encode_high) (use that in simp_all)
    then show ?thesis by auto
  qed
  with Cons show ?case by (simp add: as_bytes_Cons)
qed simp

lemma utf8_encode_byte_length: "length (utf8_encode (char_from b)) = (if b < 128 then 1 else 2)"
proof -
  have "unat b < 2048" using u8_unat_bound [of b] by linarith
  then show ?thesis by (simp add: utf8_encode_def char_from_def word_less_nat_alt)
qed

lemma latin1_length:
  "length (as_bytes (map char_from bs)) = length bs + length (filter (\<lambda>b. \<not> b < 128) bs)"
  by (induction bs) (auto simp: as_bytes_Cons utf8_encode_byte_length)

lemma latin1_longer: "as_bytes (map char_from bs) = bs \<longleftrightarrow> (\<forall>b\<in>set bs. b < 128)"
proof
  assume "as_bytes (map char_from bs) = bs"
  then have "filter (\<lambda>b. \<not> b < 128) bs = []"
    using latin1_length [of bs] by (metis add_cancel_left_right length_0_conv)
  then show "\<forall>b\<in>set bs. b < 128" by (simp add: filter_empty_conv)
qed (rule as_bytes_char_from)

text \<open>
  C30. Decoding what \<open>encode_query_pairs\<close> prints, as a form decoder reads it, gives back the
  pairs: every name and value octet, in order, repeated names included.
\<close>

theorem encode_query_pairs_roundtrip:
  assumes "pairs \<noteq> []"
  shows "form_decode (as_bytes (encode_query_pairs pairs)) = pairs"
  using assms by (rule form_decode_encode)

theorem encode_query_pairs_roundtrip_witness:
  "form_decode (as_bytes (encode_query_pairs
     [(lit ''q'', lit ''two words''), (lit ''q'', [0xff, 38, 61])])) =
   [(lit ''q'', lit ''two words''), (lit ''q'', [0xff, 38, 61])]"
  by (rule encode_query_pairs_roundtrip) simp

text \<open>
  C32. A header accepted by either validator cannot split the message: the name is nonempty and
  holds no colon, carriage return or line feed, the value holds no carriage return or line
  feed, and neither starts with white space; and these are all the conditions.
\<close>

theorem validate_header_accepts_iff:
  "(validate_header n v = Inr () \<longleftrightarrow>
      n \<noteq> [] \<and> \<not> is_python_whitespace (hd n) \<and> set n \<inter> {asc CHR '':'', 13, 10} = {} \<and>
      (v = [] \<or> is_python_whitespace (hd v) = False) \<and> set v \<inter> {13, 10} = {}) \<and>
   (validate_header_bytes bn bv = Inr () \<longleftrightarrow>
      bn \<noteq> [] \<and> \<not> is_python_bytes_whitespace (hd bn) \<and> set bn \<inter> {asc CHR '':'', 13, 10} = {} \<and>
      (bv = [] \<or> is_python_bytes_whitespace (hd bv) = False) \<and> set bv \<inter> {13, 10} = {})"
proof
  have ws: "is_python_whitespace 13" "is_python_whitespace 10"
    "is_python_bytes_whitespace 13" "is_python_bytes_whitespace 10"
    by (simp_all add: is_python_whitespace_def is_whitespace_def is_python_bytes_whitespace_def
        is_ascii_whitespace_def)
  show "validate_header n v = Inr () \<longleftrightarrow>
      n \<noteq> [] \<and> \<not> is_python_whitespace (hd n) \<and> set n \<inter> {asc CHR '':'', 13, 10} = {} \<and>
      (v = [] \<or> is_python_whitespace (hd v) = False) \<and> set v \<inter> {13, 10} = {}"
    using ws(1,2)
    by (cases n; cases v) (auto simp: validate_header_def validate_header_name_def
        validate_header_value_def list_ex_iff split: if_splits sum.splits)
  show "validate_header_bytes bn bv = Inr () \<longleftrightarrow>
      bn \<noteq> [] \<and> \<not> is_python_bytes_whitespace (hd bn) \<and> set bn \<inter> {asc CHR '':'', 13, 10} = {} \<and>
      (bv = [] \<or> is_python_bytes_whitespace (hd bv) = False) \<and> set bv \<inter> {13, 10} = {}"
    using ws(3,4)
    by (cases bn; cases bv) (auto simp: validate_header_bytes_def validate_header_name_bytes_def
        validate_header_value_bytes_def has_return_def split: if_splits sum.splits)
qed

text \<open>
  Requoting text that has no percent sign keeps the octets it denotes exactly when the text
  is ASCII: the loop of \<open>unquote_unreserved\<close> turns each byte of a multi-byte character into a
  character of its own, which is then encoded again.
\<close>

lemma requote_uri_octets_iff_ascii:
  assumes "\<forall>c\<in>set u. is_scalar c" and "asc CHR ''%'' \<notin> set (as_bytes u)"
  shows "pct_octets (as_bytes (requote_uri u)) = as_bytes u \<longleftrightarrow> is_ascii u"
proof -
  let ?w = "map char_from (as_bytes u)"
  have "unquote_unreserved u = Some ?w"
    unfolding unquote_unreserved_def
    by (rule unquote_reserved_id) (use escapes_free [of "as_bytes u"] assms(2) in simp_all)
  then have r: "requote_uri u = quote_bytes (as_bytes ?w) SAFE_WITH_PERCENT False"
    by (simp add: requote_uri_def)
  have "37 \<notin> set (as_bytes ?w)" using assms(2) by (intro latin1_no_percent) simp
  note free = escapes_free [OF this]
  have "pct_octets (as_bytes (requote_uri u)) = as_bytes ?w"
    using quote_complete [of "as_bytes ?w"] free unfolding r by metis
  then show ?thesis using latin1_longer [of "as_bytes u"] ascii_iff_as_bytes [OF assms(1)] by simp
qed


end
