(* ===== verification/Structures.thy ===== *)
theory Structures
  imports Prelude
begin

text \<open>
  The model of \<open>crates/requests/src/structures.rs\<close>. The crate \<open>indexmap\<close> is a parameter: the
  record \<open>index_map\<close> holds the operations of \<open>IndexMap<String, _>\<close> that the code calls and
  \<open>index_map_documented\<close> what their documentation promises. The locale \<open>ordered_map\<close> is the
  contract a client of \<open>CaseInsensitiveMap\<close> relies on; every documented index map gives it.
\<close>

section \<open>The parameter: \<open>IndexMap\<close>\<close>

record ('m, 'v) index_map =
  im_new :: 'm
  im_insert :: "'m \<Rightarrow> rstr \<Rightarrow> 'v \<Rightarrow> 'm \<times> 'v option"
  im_get :: "'m \<Rightarrow> rstr \<Rightarrow> 'v option"
  im_shift_remove :: "'m \<Rightarrow> rstr \<Rightarrow> 'm \<times> 'v option"
  im_iter :: "'m \<Rightarrow> (rstr \<times> 'v) list"
  im_len :: "'m \<Rightarrow> nat"

text \<open>An association list updated in place: the value changes, the position stays.\<close>

fun alist_insert :: "('k \<times> 'v) list \<Rightarrow> 'k \<Rightarrow> 'v \<Rightarrow> ('k \<times> 'v) list" where
  "alist_insert [] k v = [(k, v)]"
| "alist_insert ((k', v') # xs) k v =
     (if k' = k then (k, v) # xs else (k', v') # alist_insert xs k v)"

definition alist_remove :: "('k \<times> 'v) list \<Rightarrow> 'k \<Rightarrow> ('k \<times> 'v) list" where
  "alist_remove xs k = filter (\<lambda>(k', _). k' \<noteq> k) xs"

text \<open>
  What the documentation of \<open>indexmap\<close> promises: keys are unique; \<open>insert\<close> replaces the value
  of an equivalent key in place and returns the old value, or appends a new entry last;
  \<open>shift_remove\<close> removes the entry and keeps the order of the others.
\<close>

definition index_map_documented :: "('m, 'v) index_map \<Rightarrow> bool" where
  "index_map_documented im \<longleftrightarrow>
     im_iter im (im_new im) = [] \<and>
     (\<forall>m. distinct (map fst (im_iter im m)) \<and> im_len im m = length (im_iter im m)) \<and>
     (\<forall>m k. im_get im m k = map_of (im_iter im m) k) \<and>
     (\<forall>m k v. im_iter im (fst (im_insert im m k v)) = alist_insert (im_iter im m) k v \<and>
        snd (im_insert im m k v) = map_of (im_iter im m) k) \<and>
     (\<forall>m k. im_iter im (fst (im_shift_remove im m k)) = alist_remove (im_iter im m) k \<and>
        snd (im_shift_remove im m k) = map_of (im_iter im m) k)"

section \<open>\<open>CaseInsensitiveMap\<close>\<close>

record 'm CaseInsensitiveMap =
  entries :: 'm

definition cim_new :: "('m, rstr \<times> 'v) index_map \<Rightarrow> 'm CaseInsensitiveMap" where
  "cim_new im = \<lparr>entries = im_new im\<rparr>"

definition cim_insert ::
  "('m, rstr \<times> 'v) index_map \<Rightarrow> 'm CaseInsensitiveMap \<Rightarrow> rstr \<Rightarrow> rstr \<Rightarrow> 'v \<Rightarrow>
   'm CaseInsensitiveMap \<times> (rstr \<times> 'v) option" where
  "cim_insert im self normalized_key cased_key value =
     (let (m, old) = im_insert im (entries self) normalized_key (cased_key, value)
      in (self\<lparr>entries := m\<rparr>, old))"

definition cim_get :: "('m, rstr \<times> 'v) index_map \<Rightarrow> 'm CaseInsensitiveMap \<Rightarrow> rstr \<Rightarrow> 'v option" where
  "cim_get im self normalized_key =
     map_option (\<lambda>(_, value). value) (im_get im (entries self) normalized_key)"

definition cim_remove ::
  "('m, rstr \<times> 'v) index_map \<Rightarrow> 'm CaseInsensitiveMap \<Rightarrow> rstr \<Rightarrow>
   'm CaseInsensitiveMap \<times> (rstr \<times> 'v) option" where
  "cim_remove im self normalized_key =
     (let (m, old) = im_shift_remove im (entries self) normalized_key
      in (self\<lparr>entries := m\<rparr>, old))"

definition cim_iter :: "('m, rstr \<times> 'v) index_map \<Rightarrow> 'm CaseInsensitiveMap \<Rightarrow> (rstr \<times> 'v) list" where
  "cim_iter im self = map (\<lambda>(_, (cased_key, value)). (cased_key, value)) (im_iter im (entries self))"

definition cim_lower_items ::
  "('m, rstr \<times> 'v) index_map \<Rightarrow> 'm CaseInsensitiveMap \<Rightarrow> (rstr \<times> 'v) list" where
  "cim_lower_items im self =
     map (\<lambda>(normalized_key, (_, value)). (normalized_key, value)) (im_iter im (entries self))"

definition cim_len :: "('m, rstr \<times> 'v) index_map \<Rightarrow> 'm CaseInsensitiveMap \<Rightarrow> nat" where
  "cim_len im self = im_len im (entries self)"

definition cim_is_empty :: "('m, rstr \<times> 'v) index_map \<Rightarrow> 'm CaseInsensitiveMap \<Rightarrow> bool" where
  "cim_is_empty im self \<longleftrightarrow> im_len im (entries self) = 0"

section \<open>\<open>HeaderValues\<close>\<close>

text \<open>\<open>HeaderName::as_str\<close> and the values are what the crate \<open>http\<close> hands over.\<close>

record 'm HeaderValues =
  hv_values :: "'m CaseInsensitiveMap"

definition hv_new :: "('m, rstr \<times> 'v) index_map \<Rightarrow> 'm HeaderValues" where
  "hv_new im = \<lparr>hv_values = cim_new im\<rparr>"

definition hv_insert ::
  "('m, rstr \<times> 'v) index_map \<Rightarrow> 'm HeaderValues \<Rightarrow> rstr \<Rightarrow> 'v \<Rightarrow> 'm HeaderValues \<times> 'v option" where
  "hv_insert im self name value =
     (let (m, old) = cim_insert im (hv_values self) name name value
      in (self\<lparr>hv_values := m\<rparr>, map_option (\<lambda>(_, previous). previous) old))"

definition hv_get :: "('m, rstr \<times> 'v) index_map \<Rightarrow> 'm HeaderValues \<Rightarrow> rstr \<Rightarrow> 'v option" where
  "hv_get im self name = cim_get im (hv_values self) name"

section \<open>Lemmas: association lists updated in place\<close>

lemma map_of_alist_insert [simp]: "map_of (alist_insert xs k v) = (map_of xs)(k \<mapsto> v)"
  by (induction xs k v rule: alist_insert.induct) auto

lemma keys_alist_insert:
  "map fst (alist_insert xs k v) = (if k \<in> fst ` set xs then map fst xs else map fst xs @ [k])"
  by (induction xs k v rule: alist_insert.induct) auto

lemma distinct_alist_insert: "distinct (map fst xs) \<Longrightarrow> distinct (map fst (alist_insert xs k v))"
  by (auto simp: keys_alist_insert)

lemma map_of_alist_remove: "map_of (alist_remove xs k) = (map_of xs)(k := None)"
  by (induction xs) (auto simp: alist_remove_def)

lemma keys_alist_remove: "map fst (alist_remove xs k) = filter (\<lambda>k'. k' \<noteq> k) (map fst xs)"
  by (induction xs) (auto simp: alist_remove_def)

section \<open>The contract of a case-insensitive map\<close>

text \<open>
  \<open>items\<close> are the entries in insertion order: normalised key, spelling, value. A client is
  told the spelling and value of every entry in that order.
\<close>

locale ordered_map =
  fixes items :: "'s \<Rightarrow> (rstr \<times> (rstr \<times> 'v)) list"
    and new :: 's
    and insert :: "'s \<Rightarrow> rstr \<Rightarrow> rstr \<Rightarrow> 'v \<Rightarrow> 's \<times> (rstr \<times> 'v) option"
    and get :: "'s \<Rightarrow> rstr \<Rightarrow> 'v option"
    and remove :: "'s \<Rightarrow> rstr \<Rightarrow> 's \<times> (rstr \<times> 'v) option"
    and iter :: "'s \<Rightarrow> (rstr \<times> 'v) list"
  assumes items_new: "items new = []"
    and items_distinct: "distinct (map fst (items s))"
    and items_insert: "items (fst (insert s k c v)) = alist_insert (items s) k (c, v)"
    and insert_old: "snd (insert s k c v) = map_of (items s) k"
    and get_items: "get s k = map_option snd (map_of (items s) k)"
    and items_remove: "items (fst (remove s k)) = alist_remove (items s) k"
    and remove_old: "snd (remove s k) = map_of (items s) k"
    and iter_items: "iter s = map snd (items s)"
begin

lemma get_insert: "get (fst (insert s k c v)) k' = (if k' = k then Some v else get s k')"
  by (simp add: get_items items_insert)

lemma get_remove: "get (fst (remove s k)) k' = (if k' = k then None else get s k')"
  by (simp add: get_items items_remove map_of_alist_remove)

lemma order_insert:
  "map fst (items (fst (insert s k c v))) =
     (if get s k = None then map fst (items s) @ [k] else map fst (items s))"
  by (auto simp: items_insert keys_alist_insert get_items map_of_eq_None_iff)

lemma order_remove: "map fst (items (fst (remove s k))) = filter (\<lambda>k'. k' \<noteq> k) (map fst (items s))"
  by (simp add: items_remove keys_alist_remove)

text \<open>A run of insertions, the loop of every client that fills a map.\<close>

fun insert_all :: "'s \<Rightarrow> (rstr \<times> rstr \<times> 'v) list \<Rightarrow> 's" where
  "insert_all s [] = s"
| "insert_all s ((k, c, v) # xs) = insert_all (fst (insert s k c v)) xs"

lemma items_insert_all:
  "items (insert_all s xs) = foldl (\<lambda>acc (k, c, v). alist_insert acc k (c, v)) (items s) xs"
  by (induction s xs rule: insert_all.induct) (simp_all add: items_insert)

end

text \<open>Every documented index map makes \<open>CaseInsensitiveMap\<close> satisfy the contract.\<close>

lemma cim_ordered_map:
  assumes "index_map_documented im"
  shows "ordered_map (\<lambda>s. im_iter im (entries s)) (cim_new im) (cim_insert im) (cim_get im)
           (cim_remove im) (cim_iter im)"
  using assms unfolding index_map_documented_def
  by unfold_locales
    (auto simp: cim_new_def cim_insert_def cim_get_def cim_remove_def cim_iter_def Let_def
      case_prod_beta o_def intro!: map_option_cong)

text \<open>
  An association list is a documented index map, so the contract holds for the model of
  \<open>CaseInsensitiveMap\<close> over it without further hypotheses.
\<close>

typedef ('k, 'v) assoc = "{xs :: ('k \<times> 'v) list. distinct (map fst xs)}"
  by (rule exI [of _ "[]"]) simp

setup_lifting type_definition_assoc

lift_definition assoc_new :: "('k, 'v) assoc" is "[]" by simp

lift_definition assoc_iter :: "('k, 'v) assoc \<Rightarrow> ('k \<times> 'v) list" is "\<lambda>xs. xs" .

lift_definition assoc_insert :: "('k, 'v) assoc \<Rightarrow> 'k \<Rightarrow> 'v \<Rightarrow> ('k, 'v) assoc" is alist_insert
  by (rule distinct_alist_insert)

lift_definition assoc_remove :: "('k, 'v) assoc \<Rightarrow> 'k \<Rightarrow> ('k, 'v) assoc" is alist_remove
  by (simp add: keys_alist_remove)

definition assoc_index_map :: "((rstr, 'v) assoc, 'v) index_map" where
  "assoc_index_map =
     \<lparr>im_new = assoc_new,
      im_insert = (\<lambda>m k v. (assoc_insert m k v, map_of (assoc_iter m) k)),
      im_get = (\<lambda>m k. map_of (assoc_iter m) k),
      im_shift_remove = (\<lambda>m k. (assoc_remove m k, map_of (assoc_iter m) k)),
      im_iter = assoc_iter,
      im_len = (\<lambda>m. length (assoc_iter m))\<rparr>"

lemma assoc_distinct: "distinct (map fst (assoc_iter m))"
  by transfer simp

lemma assoc_iter_simps [simp]:
  "assoc_iter assoc_new = []"
  "assoc_iter (assoc_insert m k v) = alist_insert (assoc_iter m) k v"
  "assoc_iter (assoc_remove m k) = alist_remove (assoc_iter m) k"
  by (transfer; simp)+

lemma assoc_index_map_documented: "index_map_documented assoc_index_map"
  unfolding index_map_documented_def assoc_index_map_def
  by (simp add: assoc_distinct)

interpretation cim: ordered_map "\<lambda>s. im_iter assoc_index_map (entries s)" "cim_new assoc_index_map"
  "cim_insert assoc_index_map" "cim_get assoc_index_map" "cim_remove assoc_index_map"
  "cim_iter assoc_index_map"
  by (rule cim_ordered_map [OF assoc_index_map_documented])

section \<open>Properties of \<open>structures.rs\<close>\<close>



end
