(* ===== verification/Error_Model.thy ===== *)
theory Error_Model
  imports Prelude
begin

text \<open>
  The model of \<open>crates/requests/src/error.rs\<close>. A message is the list of the arguments its
  \<open>format!\<close> call receives, literal pieces included: \<open>Text\<close> for a literal or a value printed with
  \<open>Display\<close>, \<open>DebugStr\<close> and \<open>DebugDuration\<close> for \<open>{:?}\<close>. A foreign error enters with the text
  its \<open>Display\<close> prints.
\<close>

type_synonym duration = nat \<comment> \<open>nanoseconds\<close>
type_synonym instant = nat \<comment> \<open>nanoseconds since the clock's epoch\<close>

text \<open>
  \<open>Instant::checked_add\<close>: the seconds of an instant are a signed 64-bit count, and the
  addition is \<open>None\<close> when they overflow.
\<close>

definition instant_checked_add :: "instant \<Rightarrow> duration \<Rightarrow> instant option" where
  "instant_checked_add t d = (if (t + d) div 1000000000 < 2 ^ 63 then Some (t + d) else None)"

datatype ErrorKind =
    Body | Blocking | Builder | ChunkedEncoding | Connect | ConnectTimeout | Connection
  | ContentDecoding | Dns | Handshake | InvalidHeader | InvalidUrl | MissingSchema | Proxy_Kind
  | ReadTimeout | ResponseBody_Kind | Retry_Kind | Send | Tls

datatype msg_part = Text rstr | DebugStr rstr | DebugDuration duration

type_synonym message = "msg_part list"

record Error =
  kind :: ErrorKind
  message :: message
  raw_os_error :: "int option"
  incomplete_body :: "(u64 \<times> u64) option"

definition plain :: "ErrorKind \<Rightarrow> message \<Rightarrow> Error" where
  "plain k m = \<lparr>kind = k, message = m, raw_os_error = None, incomplete_body = None\<rparr>"

text \<open>A \<open>std::io::Error\<close>: its \<open>Display\<close> text and the OS code it carries.\<close>

record io_error =
  io_display :: rstr
  io_raw_os_error :: "int option"

definition transport_io :: "ErrorKind \<Rightarrow> message \<Rightarrow> io_error \<Rightarrow> Error" where
  "transport_io k m source =
     \<lparr>kind = k, message = m, raw_os_error = io_raw_os_error source, incomplete_body = None\<rparr>"

text \<open>
  \<open>&dyn std::error::Error\<close>: whether the error downcasts to an \<open>io::Error\<close>, else the error its
  \<open>source()\<close> returns.
\<close>

datatype dyn_error = DynIo io_error | DynLeaf | DynCause dyn_error

fun first_io :: "dyn_error \<Rightarrow> io_error option" where
  "first_io (DynIo e) = Some e"
| "first_io DynLeaf = None"
| "first_io (DynCause source) = first_io source"

definition transport_source :: "ErrorKind \<Rightarrow> message \<Rightarrow> dyn_error \<Rightarrow> Error" where
  "transport_source k m source =
     (case first_io source of
        Some io \<Rightarrow> transport_io k m io
      | None \<Rightarrow> plain k m)"

text \<open>A \<open>hyper::Error\<close>: its text, whether it is a parse error, and the error behind it.\<close>

record hyper_error =
  he_display :: rstr
  he_is_parse :: bool
  he_source :: "dyn_error option"

definition dyn_of_hyper :: "hyper_error \<Rightarrow> dyn_error" where
  "dyn_of_hyper e = (case he_source e of Some source \<Rightarrow> DynCause source | None \<Rightarrow> DynLeaf)"

section \<open>The constructors\<close>

definition from_binding_parts :: "ErrorKind \<Rightarrow> rstr \<Rightarrow> Error" where
  "from_binding_parts k m = plain k [Text m]"

definition body_stream :: Error where
  "body_stream = plain Body [Text (lit ''request body stream failed'')]"

definition invalid_url :: "rstr \<Rightarrow> Error" where
  "invalid_url url = plain InvalidUrl [Text (lit ''invalid URL: ''), Text url]"

definition blocking :: "rstr \<Rightarrow> Error" where
  "blocking error = plain Blocking [Text (lit ''blocking runtime failed: ''), Text error]"

definition unsupported_scheme :: "rstr \<Rightarrow> rstr option \<Rightarrow> Error" where
  "unsupported_scheme url scheme =
     (let s = (case scheme of Some s \<Rightarrow> s | None \<Rightarrow> lit ''<missing>'') in
      plain InvalidUrl
        [Text (lit ''unsupported URL scheme ''), DebugStr s,
         Text (lit '' for direct HTTP request: ''), Text url])"

definition unbound_builder :: Error where
  "unbound_builder = plain Builder [Text (lit ''request builder is not bound to a Client'')]"

definition conflicting_content_length :: Error where
  "conflicting_content_length = plain Builder [Text (lit ''conflicting Content-Length headers'')]"

definition invalid_response_header :: "message \<Rightarrow> Error" where
  "invalid_response_header m = plain InvalidHeader m"

definition invalid_proxy :: "message \<Rightarrow> Error" where
  "invalid_proxy m = plain Proxy_Kind (Text (lit ''invalid proxy configuration: '') # m)"

definition proxy_error :: "message \<Rightarrow> Error" where
  "proxy_error error = plain Proxy_Kind (Text (lit ''proxy transport failed: '') # error)"

definition dns_io :: "rstr \<Rightarrow> io_error \<Rightarrow> Error" where
  "dns_io target error =
     transport_io Dns
       [Text (lit ''DNS resolution failed for ''), Text target, Text (lit '': ''), Text (io_display error)] error"

definition no_addresses :: "rstr \<Rightarrow> Error" where
  "no_addresses target =
     plain Dns [Text (lit ''DNS resolution returned no addresses for ''), Text target]"

definition connect_error :: "rstr \<Rightarrow> rstr \<Rightarrow> Error" where
  "connect_error target error =
     plain Connect [Text (lit ''TCP connection failed for ''), Text target, Text (lit '': ''), Text error]"

definition connect_io :: "rstr \<Rightarrow> io_error \<Rightarrow> Error" where
  "connect_io target error =
     transport_io Connect
       [Text (lit ''TCP connection failed for ''), Text target, Text (lit '': ''), Text (io_display error)] error"

definition connect_timeout_error :: "rstr \<Rightarrow> duration \<Rightarrow> bool \<Rightarrow> Error" where
  "connect_timeout_error target timeout is_total =
     plain ConnectTimeout
       [Text (lit ''connection establishment ''),
        Text (if is_total then lit ''total timeout'' else lit ''connect timeout''),
        Text (lit '' after ''), DebugDuration timeout, Text (lit '' for ''), Text target]"

definition tls_error :: "message \<Rightarrow> Error" where
  "tls_error error = plain Tls (Text (lit ''TLS configuration or handshake failed: '') # error)"

definition handshake_error :: "rstr \<Rightarrow> Error" where
  "handshake_error error =
     plain Handshake [Text (lit ''HTTP/1.1 client handshake failed: ''), Text error]"

definition send_hyper :: "hyper_error \<Rightarrow> Error" where
  "send_hyper error =
     transport_source Send [Text (lit ''HTTP/1.1 request send failed: ''), Text (he_display error)]
       (dyn_of_hyper error)"

definition with_cleanup :: "Error \<Rightarrow> Error \<Rightarrow> Error" where
  "with_cleanup primary cleanup =
     \<lparr>kind = kind primary,
      message = message primary @ Text (lit ''; connection cleanup also failed: '') # message cleanup,
      raw_os_error = raw_os_error primary,
      incomplete_body = incomplete_body primary\<rparr>"

definition connection_error :: "rstr \<Rightarrow> Error" where
  "connection_error error =
     plain Connection [Text (lit ''HTTP/1.1 connection driver failed: ''), Text error]"

definition connection_hyper :: "hyper_error \<Rightarrow> Error" where
  "connection_hyper error =
     transport_source Connection
       [Text (lit ''HTTP/1.1 connection driver failed: ''), Text (he_display error)] (dyn_of_hyper error)"

definition response_body_error :: "rstr \<Rightarrow> Error" where
  "response_body_error error =
     plain ResponseBody_Kind [Text (lit ''HTTP/1.1 response body failed: ''), Text error]"

definition response_body_hyper :: "hyper_error \<Rightarrow> (u64 \<times> u64) option \<Rightarrow> Error" where
  "response_body_hyper error incomplete =
     (transport_source ResponseBody_Kind
        [Text (lit ''HTTP/1.1 response body failed: ''), Text (he_display error)] (dyn_of_hyper error))
     \<lparr>incomplete_body := incomplete\<rparr>"

definition chunked_encoding :: "rstr \<Rightarrow> Error" where
  "chunked_encoding error =
     plain ChunkedEncoding [Text (lit ''HTTP/1.1 chunked response body failed: ''), Text error]"

definition content_decoding :: Error where
  "content_decoding = plain ContentDecoding [Text (lit ''response content decoding failed'')]"

definition read_timeout_error :: "duration \<Rightarrow> Error" where
  "read_timeout_error timeout =
     plain ReadTimeout
       [Text (lit ''HTTP/1.1 response body read timed out after ''), DebugDuration timeout]"

definition response_body_total_timeout :: "duration \<Rightarrow> Error" where
  "response_body_total_timeout timeout =
     plain ReadTimeout
       [Text (lit ''HTTP/1.1 response body total timeout after ''), DebugDuration timeout]"

definition response_head_timeout :: "duration \<Rightarrow> bool \<Rightarrow> Error" where
  "response_head_timeout timeout is_total =
     plain ReadTimeout
       [Text (lit ''HTTP/1.1 response head ''),
        Text (if is_total then lit ''total timeout'' else lit ''read timeout''),
        Text (lit '' after ''), DebugDuration timeout]"

definition request_exchange_total_timeout :: "duration \<Rightarrow> Error" where
  "request_exchange_total_timeout timeout =
     plain ReadTimeout
       [Text (lit ''HTTP/1.1 request exchange total timeout after ''), DebugDuration timeout]"

section \<open>Lemmas\<close>

text \<open>The kind each constructor gives: what the callers that branch on \<open>kind()\<close> rely on.\<close>

lemma plain_simps [simp]:
  "kind (plain k m) = k" "message (plain k m) = m" "raw_os_error (plain k m) = None"
  "incomplete_body (plain k m) = None"
  by (simp_all add: plain_def)

lemma kind_transport_io [simp]: "kind (transport_io k m e) = k"
  by (simp add: transport_io_def)

lemma kind_transport_source [simp]: "kind (transport_source k m e) = k"
  by (simp add: transport_source_def split: option.split)

lemma constructor_kinds [simp]:
  "kind body_stream = Body" "kind (invalid_url u) = InvalidUrl" "kind (blocking e) = Blocking"
  "kind (unsupported_scheme u s) = InvalidUrl" "kind unbound_builder = Builder"
  "kind conflicting_content_length = Builder" "kind (invalid_response_header m) = InvalidHeader"
  "kind (invalid_proxy m) = Proxy_Kind" "kind (proxy_error m) = Proxy_Kind" "kind (dns_io t io) = Dns"
  "kind (no_addresses t) = Dns" "kind (connect_error t x) = Connect" "kind (connect_io t io) = Connect"
  "kind (connect_timeout_error t d b) = ConnectTimeout" "kind (tls_error m) = Tls"
  "kind (handshake_error x) = Handshake" "kind (send_hyper h) = Send"
  "kind (with_cleanup p c) = kind p" "kind (connection_error x) = Connection"
  "kind (connection_hyper h) = Connection" "kind (response_body_error x) = ResponseBody_Kind"
  "kind (response_body_hyper h i) = ResponseBody_Kind" "kind (chunked_encoding x) = ChunkedEncoding"
  "kind content_decoding = ContentDecoding" "kind (read_timeout_error d) = ReadTimeout"
  "kind (response_body_total_timeout d) = ReadTimeout" "kind (response_head_timeout d b) = ReadTimeout"
  "kind (request_exchange_total_timeout d) = ReadTimeout"
  by (simp_all add: body_stream_def invalid_url_def blocking_def unsupported_scheme_def Let_def
      unbound_builder_def conflicting_content_length_def invalid_response_header_def
      invalid_proxy_def proxy_error_def dns_io_def no_addresses_def connect_error_def connect_io_def
      connect_timeout_error_def tls_error_def handshake_error_def send_hyper_def with_cleanup_def
      connection_error_def connection_hyper_def response_body_error_def response_body_hyper_def
      chunked_encoding_def content_decoding_def read_timeout_error_def
      response_body_total_timeout_def response_head_timeout_def request_exchange_total_timeout_def)

end
