(* ===== verification/Http_Types.thy ===== *)
theory Http_Types
  imports Error_Model
begin

text \<open>
  The crates \<open>http\<close> and \<open>bytes\<close> as the code sees them. \<open>Method\<close> and \<open>HeaderName\<close> are their
  \<open>as_str\<close> text (a header name is lower case), \<open>HeaderValue\<close> and \<open>Bytes\<close> are byte strings. A
  \<open>Uri\<close> is what its accessors return; parsing text into one is a parameter of the definitions
  that parse. \<open>HeaderMap\<close> is a parameter: its operations are a record, what their documentation
  promises is \<open>header_map_documented\<close>, and \<open>multi_map\<close> is an instance.
\<close>

type_synonym Method = rstr
type_synonym HeaderName = rstr
type_synonym HeaderValue = bytes

record Uri =
  uri_display :: rstr
  uri_scheme :: "rstr option"
  uri_authority :: "rstr option"
  uri_host :: "rstr option"
  uri_port :: "u16 option"
  uri_path_and_query :: "rstr option"

record 'h header_map =
  hm_new :: 'h
  hm_append :: "'h \<Rightarrow> HeaderName \<Rightarrow> HeaderValue \<Rightarrow> 'h"
  hm_insert :: "'h \<Rightarrow> HeaderName \<Rightarrow> HeaderValue \<Rightarrow> 'h"
  hm_remove :: "'h \<Rightarrow> HeaderName \<Rightarrow> 'h"
  hm_contains_key :: "'h \<Rightarrow> HeaderName \<Rightarrow> bool"
  hm_get :: "'h \<Rightarrow> HeaderName \<Rightarrow> HeaderValue option"
  hm_get_all :: "'h \<Rightarrow> HeaderName \<Rightarrow> HeaderValue list"

definition header_map_documented :: "'h header_map \<Rightarrow> bool" where
  "header_map_documented hm \<longleftrightarrow>
     (\<forall>n. hm_get_all hm (hm_new hm) n = []) \<and>
     (\<forall>h n v m. hm_get_all hm (hm_append hm h n v) m =
        (if m = n then hm_get_all hm h n @ [v] else hm_get_all hm h m)) \<and>
     (\<forall>h n v m. hm_get_all hm (hm_insert hm h n v) m = (if m = n then [v] else hm_get_all hm h m)) \<and>
     (\<forall>h n m. hm_get_all hm (hm_remove hm h n) m = (if m = n then [] else hm_get_all hm h m)) \<and>
     (\<forall>h n. hm_contains_key hm h n \<longleftrightarrow> hm_get_all hm h n \<noteq> []) \<and>
     (\<forall>h n. hm_get hm h n = (case hm_get_all hm h n of [] \<Rightarrow> None | v # _ \<Rightarrow> Some v))"

definition multi_map :: "(HeaderName \<Rightarrow> HeaderValue list) header_map" where
  "multi_map =
     \<lparr>hm_new = (\<lambda>_. []), hm_append = (\<lambda>h n v. h(n := h n @ [v])),
      hm_insert = (\<lambda>h n v. h(n := [v])), hm_remove = (\<lambda>h n. h(n := [])),
      hm_contains_key = (\<lambda>h n. h n \<noteq> []),
      hm_get = (\<lambda>h n. case h n of [] \<Rightarrow> None | v # _ \<Rightarrow> Some v), hm_get_all = (\<lambda>h. h)\<rparr>"

lemma multi_map_documented: "header_map_documented multi_map"
  by (simp add: header_map_documented_def multi_map_def)

text \<open>What the documentation gives, as rewrite rules under the hypothesis.\<close>

lemma header_map_simps:
  assumes "header_map_documented hm"
  shows "hm_get_all hm (hm_new hm) n = []"
    and "hm_get_all hm (hm_append hm h n v) m =
           (if m = n then hm_get_all hm h n @ [v] else hm_get_all hm h m)"
    and "hm_get_all hm (hm_insert hm h n v) m = (if m = n then [v] else hm_get_all hm h m)"
    and "hm_get_all hm (hm_remove hm h n) m = (if m = n then [] else hm_get_all hm h m)"
    and "hm_contains_key hm h n \<longleftrightarrow> hm_get_all hm h n \<noteq> []"
    and "hm_get hm h n = (case hm_get_all hm h n of [] \<Rightarrow> None | v # _ \<Rightarrow> Some v)"
  using assms unfolding header_map_documented_def by blast+

section \<open>Request bodies (\<open>crates/requests/src/body.rs\<close>)\<close>

text \<open>\<open>Poll\<close> of the standard library.\<close>

datatype 'a Poll = Pending | Ready 'a

text \<open>
  The trait \<open>AsyncBody\<close>: a stream in a state of its own type, polled for the next chunk, with an
  optional exact size. A \<open>Pin<Box<dyn AsyncBody>>\<close> is such a value.
\<close>

record 's AsyncBody =
  ab_state :: 's
  ab_poll_next :: "'s \<Rightarrow> (Error + bytes) option Poll \<times> 's"
  ab_size_hint :: "'s \<Rightarrow> u64 option"

datatype 's BodySource = Empty | Bytes bytes | Stream "'s AsyncBody"

definition body_from_bytes :: "bytes \<Rightarrow> 's BodySource" where
  "body_from_bytes body = Bytes body"

end
