(* ===== verification/Models.thy ===== *)
theory Models
  imports Utils Structures Http_Types
begin

text \<open>
  The model of \<open>crates/requests/src/models.rs\<close>: preparation of methods, headers and URLs, and the
  request builder. The URL parser of the crate \<open>url\<close> and the parser of \<open>http::Uri\<close> are
  arguments; so are the tables of Unicode that \<open>str::to_uppercase\<close> and \<open>char::is_alphanumeric\<close>
  consult outside ASCII.
\<close>

section \<open>Methods\<close>

definition prepare_method :: "(rchar \<Rightarrow> rstr) \<Rightarrow> rstr \<Rightarrow> rstr" where
  "prepare_method unicode_upper method = to_uppercase unicode_upper method"

definition prepare_method_bytes :: "bytes \<Rightarrow> bytes" where
  "prepare_method_bytes method = map to_ascii_uppercase method"

section \<open>Headers\<close>

datatype HeaderPart = HText rstr | HBytes bytes

record HeaderInput =
  hi_name :: HeaderPart
  hi_value :: HeaderPart

record PreparedHeader =
  ph_source_index :: nat
  ph_name :: rstr

datatype InvalidHeaderPart = Name | Value

record HeaderPreparationError =
  hpe_prepared :: "PreparedHeader list"
  hpe_source_index :: nat
  hpe_part :: InvalidHeaderPart

definition validate_name :: "HeaderPart \<Rightarrow> HeaderValidationError + unit" where
  "validate_name name =
     (case name of HText name \<Rightarrow> validate_header_name name | HBytes name \<Rightarrow> validate_header_name_bytes name)"

definition validate_value :: "HeaderPart \<Rightarrow> HeaderValidationError + unit" where
  "validate_value value =
     (case value of HText value \<Rightarrow> validate_header_value value
      | HBytes value \<Rightarrow> validate_header_value_bytes value)"

definition prepared_headers ::
  "('m, rstr \<times> nat) index_map \<Rightarrow> 'm CaseInsensitiveMap \<Rightarrow> PreparedHeader list" where
  "prepared_headers im prepared =
     map (\<lambda>(name, source_index). \<lparr>ph_source_index = source_index, ph_name = name\<rparr>) (cim_iter im prepared)"

definition header_error ::
  "('m, rstr \<times> nat) index_map \<Rightarrow> 'm CaseInsensitiveMap \<Rightarrow> nat \<Rightarrow> InvalidHeaderPart \<Rightarrow>
   HeaderPreparationError" where
  "header_error im prepared source_index part =
     \<lparr>hpe_prepared = prepared_headers im prepared, hpe_source_index = source_index, hpe_part = part\<rparr>"

definition header_name :: "HeaderPart \<Rightarrow> rstr" where
  "header_name name = (case name of HText name \<Rightarrow> name | HBytes name \<Rightarrow> from_utf8_lossy name)"

text \<open>The loop of \<open>prepare_headers\<close> from a source index on.\<close>

fun prepare_headers_loop ::
  "('m, rstr \<times> nat) index_map \<Rightarrow> 'm CaseInsensitiveMap \<Rightarrow> nat \<Rightarrow> HeaderInput list \<Rightarrow>
   HeaderPreparationError + PreparedHeader list" where
  "prepare_headers_loop im prepared source_index [] = Inr (prepared_headers im prepared)"
| "prepare_headers_loop im prepared source_index (header # headers) =
     (if isl (validate_name (hi_name header)) then Inl (header_error im prepared source_index Name)
      else if isl (validate_value (hi_value header)) then Inl (header_error im prepared source_index Value)
      else
        let name = header_name (hi_name header) in
        prepare_headers_loop im
          (fst (cim_insert im prepared (map to_ascii_lowercase name) name source_index))
          (Suc source_index) headers)"

definition prepare_headers ::
  "('m, rstr \<times> nat) index_map \<Rightarrow> HeaderInput list \<Rightarrow> HeaderPreparationError + PreparedHeader list" where
  "prepare_headers im headers = prepare_headers_loop im (cim_new im) 0 headers"

section \<open>URLs\<close>

datatype UrlPreparationError = InvalidLabel | MissingHost | MissingScheme | Parse

text \<open>What \<open>url::Url::parse\<close> returns: the errors the code tells apart, or scheme and host.\<close>

datatype ParseError = RelativeUrlWithoutBase | EmptyHost | OtherParseError

record Url =
  url_scheme :: rstr
  url_host_str :: "rstr option"

definition starts_with_http :: "rstr \<Rightarrow> bool" where
  "starts_with_http value \<longleftrightarrow> eq_ignore_ascii_case (take 4 value) (lit ''http'')"

definition is_non_http_url :: "rstr \<Rightarrow> bool" where
  "is_non_http_url raw_url =
     (let raw_url = trim_python_whitespace_start raw_url in
      asc CHR '':'' \<in> set raw_url \<and> \<not> starts_with_http raw_url)"

fun has_incomplete_percent_escape :: "bytes \<Rightarrow> bool" where
  "has_incomplete_percent_escape [] = False"
| "has_incomplete_percent_escape (b # bs) =
     (if b = asc CHR ''%'' then
        (case bs of
           h # l # rest \<Rightarrow>
             if \<not> is_ascii_hexdigit h \<or> \<not> is_ascii_hexdigit l then True
             else has_incomplete_percent_escape rest
         | _ \<Rightarrow> True)
      else has_incomplete_percent_escape bs)"

text \<open>\<open>str::split_once([...])\<close> with the whole string when no separator occurs.\<close>

definition authority_of :: "rstr \<Rightarrow> rstr" where
  "authority_of remainder =
     (case split_once_by (\<lambda>c. c \<in> set (lit ''/?#'')) remainder of
        Some (authority, _) \<Rightarrow> authority
      | None \<Rightarrow> remainder)"

definition url_is_native_safe :: "rstr \<Rightarrow> bool" where
  "url_is_native_safe url =
     (let raw_url = trim_python_whitespace_start url in
      if is_non_http_url raw_url then True
      else if \<not> is_ascii raw_url
        \<or> list_ex (\<lambda>c. c \<in> {92, 13, 10, 9}) raw_url
        \<or> (raw_url \<noteq> [] \<and> is_whitespace (last raw_url))
        \<or> (raw_url \<noteq> [] \<and> last raw_url \<in> {asc CHR ''?'', asc CHR ''#''})
        \<or> contains_sub raw_url (lit ''?#'')
        \<or> list_ex (\<lambda>c. c \<in> {asc CHR ''['', asc CHR '']'', 39}) raw_url
        \<or> length (filter (\<lambda>c. c = asc CHR ''#'') raw_url) > 1
      then False
      else
        let lower = map to_ascii_lowercase raw_url in
        if contains_sub lower (lit ''%2e'') \<or> contains_sub lower (lit ''/../'')
          \<or> contains_sub lower (lit ''/./'') \<or> ends_with lower (lit ''/..'')
          \<or> ends_with lower (lit ''/.'') \<or> has_incomplete_percent_escape (as_bytes raw_url)
        then False
        else
          case split_once (lit ''://'') raw_url of
            None \<Rightarrow>
              \<not> starts_with_http raw_url \<and> asc CHR ''%'' \<notin> set raw_url
              \<and> \<not> list_ex (\<lambda>byte. byte \<le> asc CHR '' '' \<or> byte = 0x7f) (as_bytes raw_url)
          | Some (scheme, remainder) \<Rightarrow>
              let scheme = map to_ascii_lowercase scheme in
              if scheme \<notin> {lit ''http'', lit ''https'', lit ''http+unix''} then False
              else
                let authority = authority_of remainder;
                    suffix = drop (length authority) remainder in
                if authority = [] \<or> asc CHR ''@'' \<in> set authority
                  \<or> hd authority = asc CHR ''['' \<or> list_ex is_whitespace authority
                then False
                else if scheme = lit ''http+unix'' \<and>
                  (\<not> list_all (\<lambda>byte. is_ascii_alphanumeric byte \<or> byte \<in> set (lit ''-._~%'')) (as_bytes authority)
                   \<or> \<not> (suffix \<noteq> [] \<and> hd suffix = asc CHR ''/'') \<or> length suffix = 1)
                then False
                else if scheme \<noteq> lit ''http+unix'' \<and>
                  (asc CHR ''%'' \<in> set authority
                   \<or> \<not> list_all (\<lambda>byte. is_ascii_alphanumeric byte \<or> byte \<in> set (lit ''-._*'')) (as_bytes authority))
                then False
                else if asc CHR '':'' \<in> set authority then False
                else
                  let path = (case split_once_by (\<lambda>c. c \<in> set (lit ''?#'')) suffix of
                        Some (path, _) \<Rightarrow> path | None \<Rightarrow> suffix) in
                  if list_ex (\<lambda>component. component \<in> {lit ''.'', lit ''..''})
                       (split_by (\<lambda>c. c = asc CHR ''/'') path)
                  then False
                  else
                    let label = last (split_by (\<lambda>c. c = asc CHR ''.'')
                          (trim_end (\<lambda>c. c = asc CHR ''.'') authority));
                        numeric_final_label =
                          scheme \<noteq> lit ''http+unix'' \<and> label \<noteq> [] \<and> is_ascii_digit (hd label) in
                    \<not> numeric_final_label \<and> is_ascii authority)"

definition append_url_params :: "rstr \<Rightarrow> rstr \<Rightarrow> rstr" where
  "append_url_params prepared_url encoded_params =
     requote_uri
       (if encoded_params \<noteq> [] then
          let fragment = (case position (\<lambda>c. c = asc CHR ''#'') prepared_url of
                Some i \<Rightarrow> i | None \<Rightarrow> length prepared_url);
              separator = (if asc CHR ''?'' \<in> set (take fragment prepared_url)
                then asc CHR ''&'' else asc CHR ''?'') in
          take fragment prepared_url @ separator # encoded_params @ drop fragment prepared_url
        else prepared_url)"

definition raw_host_has_disallowed_unicode :: "(rchar \<Rightarrow> bool) \<Rightarrow> rstr \<Rightarrow> bool" where
  "raw_host_has_disallowed_unicode is_alphanumeric raw_url =
     (case split_once (lit ''://'') raw_url of
        None \<Rightarrow> False
      | Some (_, remainder) \<Rightarrow>
          let authority = authority_of remainder;
              host_port = (case rsplit_once_by (\<lambda>c. c = asc CHR ''@'') authority of
                Some (_, host) \<Rightarrow> host | None \<Rightarrow> authority);
              host =
                (if host_port \<noteq> [] \<and> hd host_port = asc CHR ''['' then host_port
                 else case rsplit_once_by (\<lambda>c. c = asc CHR '':'') host_port of
                   Some (host, port) \<Rightarrow> if list_all is_ascii_digit port then host else host_port
                 | None \<Rightarrow> host_port) in
          list_ex (\<lambda>ch. \<not> ch < 128 \<and> \<not> is_alphanumeric ch \<and> ch \<noteq> asc CHR ''-'') host)"

definition prepare_url ::
  "(rstr \<Rightarrow> ParseError + Url) \<Rightarrow> (rchar \<Rightarrow> bool) \<Rightarrow> rstr \<Rightarrow> rstr \<Rightarrow> UrlPreparationError + rstr" where
  "prepare_url url_parse is_alphanumeric url encoded_params =
     (let raw_url = trim_python_whitespace_start url in
      if is_non_http_url raw_url then Inr raw_url
      else case url_parse raw_url of
        Inl RelativeUrlWithoutBase \<Rightarrow> Inl MissingScheme
      | Inl EmptyHost \<Rightarrow> Inl MissingHost
      | Inl _ \<Rightarrow> Inl Parse
      | Inr parsed \<Rightarrow>
          (case url_host_str parsed of
             None \<Rightarrow> Inl MissingHost
           | Some host \<Rightarrow>
               if host \<noteq> [] \<and> hd host \<in> {asc CHR ''*'', asc CHR ''.''} then Inl InvalidLabel
               else if raw_host_has_disallowed_unicode is_alphanumeric raw_url then Inl Parse
               else case split_once (lit ''://'') raw_url of
                 None \<Rightarrow> Inl Parse
               | Some (_, remainder) \<Rightarrow>
                   let raw_authority = authority_of remainder;
                       raw_suffix = drop (length raw_authority) remainder;
                       raw_suffix = (if raw_suffix \<noteq> [] \<and> hd raw_suffix = asc CHR ''/'' then raw_suffix
                                     else asc CHR ''/'' # raw_suffix);
                       (authority, suffix) =
                         (if url_scheme parsed = lit ''http+unix'' then (raw_authority, raw_suffix)
                          else (host, normalize_percent_escape_hex raw_suffix));
                       prepared = url_scheme parsed @ lit ''://'' @ authority @ suffix in
                   Inr (append_url_params prepared encoded_params)))"

section \<open>Requests\<close>

record Timeout =
  timeout_connect :: "duration option"
  timeout_read :: "duration option"
  timeout_total :: "duration option"

record ('h, 's) Request =
  rq_method :: Method
  rq_url :: rstr
  rq_uri :: Uri
  rq_headers :: 'h
  rq_python_header_names :: "rstr list option"
  rq_body :: "'s BodySource"
  rq_timeout :: "Timeout option"

record ('h, 's) RequestParts =
  rp_method :: Method
  rp_url :: rstr
  rp_uri :: Uri
  rp_headers :: 'h
  rp_python_header_names :: "rstr list option"
  rp_body :: "'s BodySource"

definition into_parts :: "('h, 's) Request \<Rightarrow> ('h, 's) RequestParts" where
  "into_parts self =
     \<lparr>rp_method = rq_method self, rp_url = rq_url self, rp_uri = rq_uri self, rp_headers = rq_headers self,
      rp_python_header_names = rq_python_header_names self, rp_body = rq_body self\<rparr>"

record ('h, 's, 't) RequestBuilder =
  rb_request :: "Error + ('h, 's) Request"
  rb_transport :: "'t option"

definition rb_new ::
  "'h header_map \<Rightarrow> (rstr \<Rightarrow> Uri option) \<Rightarrow> Method \<Rightarrow> rstr \<Rightarrow> ('h, 's, 't) RequestBuilder" where
  "rb_new hm parse_uri method url =
     \<lparr>rb_request =
        (case parse_uri url of
           Some uri \<Rightarrow>
             if uri_scheme uri \<noteq> None \<and> uri_authority uri \<noteq> None then
               Inr \<lparr>rq_method = method, rq_url = url, rq_uri = uri, rq_headers = hm_new hm,
                    rq_python_header_names = None, rq_body = Empty, rq_timeout = None\<rparr>
             else Inl (invalid_url url)
         | None \<Rightarrow> Inl (invalid_url url)),
      rb_transport = None\<rparr>"

definition rb_for_client ::
  "'h header_map \<Rightarrow> (rstr \<Rightarrow> Uri option) \<Rightarrow> Method \<Rightarrow> rstr \<Rightarrow> 't \<Rightarrow> ('h, 's, 't) RequestBuilder" where
  "rb_for_client hm parse_uri method url transport =
     (rb_new hm parse_uri method url)\<lparr>rb_transport := Some transport\<rparr>"

text \<open>\<open>if let Ok(request) = &mut self.request\<close>: a setter leaves a failed builder as it is.\<close>

definition rb_update ::
  "(('h, 's) Request \<Rightarrow> ('h, 's) Request) \<Rightarrow> ('h, 's, 't) RequestBuilder \<Rightarrow> ('h, 's, 't) RequestBuilder" where
  "rb_update f self = self\<lparr>rb_request := map_sum id f (rb_request self)\<rparr>"

definition rb_header ::
  "'h header_map \<Rightarrow> ('h, 's, 't) RequestBuilder \<Rightarrow> HeaderName \<Rightarrow> HeaderValue \<Rightarrow> ('h, 's, 't) RequestBuilder" where
  "rb_header hm self name value =
     rb_update (\<lambda>request. request\<lparr>rq_headers := hm_append hm (rq_headers request) name value\<rparr>) self"

definition rb_headers :: "('h, 's, 't) RequestBuilder \<Rightarrow> 'h \<Rightarrow> ('h, 's, 't) RequestBuilder" where
  "rb_headers self headers = rb_update (\<lambda>request. request\<lparr>rq_headers := headers\<rparr>) self"

definition rb_python_header_names ::
  "('h, 's, 't) RequestBuilder \<Rightarrow> rstr list \<Rightarrow> ('h, 's, 't) RequestBuilder" where
  "rb_python_header_names self names =
     rb_update (\<lambda>request. request\<lparr>rq_python_header_names := Some names\<rparr>) self"

definition rb_body :: "('h, 's, 't) RequestBuilder \<Rightarrow> 's BodySource \<Rightarrow> ('h, 's, 't) RequestBuilder" where
  "rb_body self body = rb_update (\<lambda>request. request\<lparr>rq_body := body\<rparr>) self"

definition rb_timeout :: "('h, 's, 't) RequestBuilder \<Rightarrow> Timeout \<Rightarrow> ('h, 's, 't) RequestBuilder" where
  "rb_timeout self timeout = rb_update (\<lambda>request. request\<lparr>rq_timeout := Some timeout\<rparr>) self"

definition rb_build :: "('h, 's, 't) RequestBuilder \<Rightarrow> Error + ('h, 's) Request" where
  "rb_build self = rb_request self"


section \<open>Lemmas: percent escapes\<close>

lemma has_incomplete_iff: "has_incomplete_percent_escape bs \<longleftrightarrow> \<not> escapes_complete bs"
  by (induction bs rule: escapes_complete.induct) (auto split: list.split)

lemma escapes_append:
  assumes "escapes_complete xs"
  shows "escapes_complete (xs @ ys) \<longleftrightarrow> escapes_complete ys"
    and "pct_octets (xs @ ys) = pct_octets xs @ pct_octets ys"
    and "normalize_percent_loop (xs @ ys) = normalize_percent_loop xs @ normalize_percent_loop ys"
proof -
  have norm: "a \<noteq> 37 \<Longrightarrow> normalize_percent_loop (a # rest) = char_from a # normalize_percent_loop rest" for a rest
    by (cases rest; cases "tl rest") auto
  show "escapes_complete (xs @ ys) \<longleftrightarrow> escapes_complete ys"
    and "pct_octets (xs @ ys) = pct_octets xs @ pct_octets ys"
    and "normalize_percent_loop (xs @ ys) = normalize_percent_loop xs @ normalize_percent_loop ys"
    using assms by (induction xs rule: escapes_induct) (simp_all add: norm)
qed

text \<open>A delimiter that is no hexadecimal digit ends every escape before it.\<close>

lemma escapes_complete_split:
  assumes "escapes_complete (xs @ y # ys)" and "\<not> is_ascii_hexdigit y" and "y \<noteq> 37"
  shows "escapes_complete xs \<and> escapes_complete (y # ys)"
  using assms(1)
proof (induction xs rule: escapes_complete.induct [case_names Long One Two Empty])
  case (Long a h l rest)
  then show ?case using assms(2,3) by (auto split: if_splits)
next
  case (One a)
  then show ?case using assms(2,3) by (cases ys) (auto split: if_splits)
next
  case (Two a b)
  then show ?case using assms(2,3) by (auto split: if_splits)
qed (use assms in simp)

lemma hexdigit_upper:
  fixes b :: u8
  assumes "is_ascii_hexdigit b"
  shows "hex_digit_value (to_ascii_uppercase b) = hex_digit_value b"
    and "is_ascii_hexdigit (to_ascii_uppercase b)"
proof -
  have low: "65 \<le> b - 32 \<and> b - 32 \<le> 70" if "97 \<le> b" "b \<le> 102"
  proof -
    have "32 \<le> b" using that(1) by (rule order_trans [rotated]) simp
    then have "unat (b - 32) = unat b - 32" by (simp add: unat_sub)
    then show ?thesis using that unfolding word_le_nat_alt by simp linarith
  qed
  moreover have "\<not> (48 \<le> b \<and> b \<le> 57)" "b \<le> 122" if "97 \<le> b" "b \<le> 102"
    using that by (auto simp: word_le_nat_alt)
  moreover have "\<not> b - 32 \<le> 57" "\<not> 97 \<le> b - 32" if "97 \<le> b" "b \<le> 102"
    using low [OF that] by (auto simp: word_le_nat_alt)
  moreover have "\<not> 97 \<le> b" if "b \<le> 70 \<or> b \<le> 57" using that by (auto simp: word_le_nat_alt)
  ultimately show "hex_digit_value (to_ascii_uppercase b) = hex_digit_value b"
    and "is_ascii_hexdigit (to_ascii_uppercase b)"
    using assms by (auto simp: ascii_simps hex_digit_value_def hex_value_def)
qed

text \<open>Normalising complete escapes changes only the case of their digits.\<close>

lemma normalize_complete:
  assumes "escapes_complete bs" and "\<forall>b\<in>set bs. b < 128"
  shows "\<exists>w. normalize_percent_loop bs = map char_from w \<and> (\<forall>b\<in>set w. b < 128) \<and>
    escapes_complete w \<and> pct_octets w = pct_octets bs \<and>
    (\<forall>c. \<not> is_ascii_alphanumeric c \<longrightarrow> (c \<in> set w \<longleftrightarrow> c \<in> set bs))"
  using assms
proof (induction bs rule: escapes_induct)
  case Nil
  then show ?case by (intro exI [of _ "[]"]) simp
next
  case (Escape h l rest)
  then obtain w where w: "normalize_percent_loop rest = map char_from w" "\<forall>b\<in>set w. b < 128"
    "escapes_complete w" "pct_octets w = pct_octets rest"
    "\<forall>c. \<not> is_ascii_alphanumeric c \<longrightarrow> (c \<in> set w \<longleftrightarrow> c \<in> set rest)" by auto
  let ?h = "to_ascii_uppercase h" and ?l = "to_ascii_uppercase l"
  have "is_ascii_hexdigit ?h" "is_ascii_hexdigit ?l" using Escape by (auto intro: hexdigit_upper)
  moreover from this have "?h < 128" "?l < 128" by (auto intro: hexdigit_ascii)
  moreover have "\<not> is_ascii_alphanumeric c \<Longrightarrow> c \<noteq> ?h \<and> c \<noteq> ?l \<and> c \<noteq> h \<and> c \<noteq> l" for c
    using calculation Escape hexdigit_alphanumeric by blast
  ultimately show ?case using w Escape
    by (intro exI [of _ "37 # ?h # ?l # w"]) (auto simp: hexdigit_upper char_from_def)
next
  case (Plain a rest)
  then obtain w where w: "normalize_percent_loop rest = map char_from w" "\<forall>b\<in>set w. b < 128"
    "escapes_complete w" "pct_octets w = pct_octets rest"
    "\<forall>c. \<not> is_ascii_alphanumeric c \<longrightarrow> (c \<in> set w \<longleftrightarrow> c \<in> set rest)" by auto
  have "normalize_percent_loop (a # rest) = char_from a # normalize_percent_loop rest"
    using Plain by (cases rest; cases "tl rest") auto
  then show ?case using w Plain by (intro exI [of _ "a # w"]) auto
qed


lemma quote_form_complete: "escapes_complete (as_bytes (quote_form_component v))"
  unfolding quote_form_component_def
proof (induction v)
  case (Cons b bs)
  have "is_unreserved b \<Longrightarrow> b \<noteq> 37" by auto
  then show ?case using Cons by (auto simp: quote_bytes_Cons as_bytes_quote_byte)
qed simp

lemma encode_query_pairs_complete:
  "is_ascii (encode_query_pairs pairs) \<and> escapes_complete (as_bytes (encode_query_pairs pairs))"
proof -
  have "is_ascii (encode_query_pairs_loop later pairs) \<and>
    escapes_complete (as_bytes (encode_query_pairs_loop later pairs))" for later
    by (induction later pairs rule: encode_query_pairs_loop.induct)
      (auto simp: as_bytes_Cons escapes_append quote_form_complete)
  then show ?thesis by (simp add: encode_query_pairs_def)
qed

section \<open>Lemmas: query parameters\<close>

text \<open>What \<open>append_url_params\<close> inserts between the part before the fragment and the fragment.\<close>

definition query_insertion :: "rstr \<Rightarrow> rstr \<Rightarrow> rstr" where
  "query_insertion base params =
     (if params = [] then []
      else (if asc CHR ''?'' \<in> set base then asc CHR ''&'' else asc CHR ''?'') # params)"

definition url_base :: "rstr \<Rightarrow> rstr" where
  "url_base url = takeWhile (\<lambda>c. c \<noteq> asc CHR ''#'') url"

definition url_fragment :: "rstr \<Rightarrow> rstr" where
  "url_fragment url = dropWhile (\<lambda>c. c \<noteq> asc CHR ''#'') url"

lemma append_url_params_split:
  assumes "asc CHR ''#'' \<notin> set base" and "frag = [] \<or> hd frag = asc CHR ''#''"
  shows "append_url_params (base @ frag) params = requote_uri (base @ query_insertion base params @ frag)"
proof -
  have "(case position (\<lambda>c. c = asc CHR ''#'') (base @ frag) of
          Some i \<Rightarrow> i | None \<Rightarrow> length (base @ frag)) = length base"
  proof (cases frag)
    case Nil
    then have none: "position (\<lambda>c. c = asc CHR ''#'') (base @ frag) = None"
      using assms(1) unfolding position_None_iff by auto
    show ?thesis unfolding none using Nil by simp
  next
    case (Cons f fs)
    then have "position (\<lambda>c. c = asc CHR ''#'') (base @ f # fs) = Some (length base)"
      using assms by (intro position_append_hit) auto
    then show ?thesis using Cons by simp
  qed
  then show ?thesis
    by (simp add: append_url_params_def query_insertion_def Let_def)
qed

lemma append_url_params_complete:
  assumes "asc CHR ''#'' \<notin> set base" and "frag = [] \<or> hd frag = asc CHR ''#''"
    and "is_ascii (base @ frag @ params)"
    and "escapes_complete (as_bytes base)" "escapes_complete (as_bytes frag)"
      "escapes_complete (as_bytes params)"
  defines "r \<equiv> append_url_params (base @ frag) params"
  shows "pct_octets (as_bytes r) =
      pct_octets (as_bytes base) @ pct_octets (as_bytes (query_insertion base params)) @
      pct_octets (as_bytes frag) \<and> requote_uri r = r"
proof -
  let ?i = "query_insertion base params"
  have i: "escapes_complete (as_bytes ?i)" "is_ascii ?i"
    using assms(3,6) by (auto simp: query_insertion_def as_bytes_Cons)
  then have "escapes_complete (as_bytes (base @ ?i @ frag))"
    using assms(4,5) by (simp add: escapes_append)
  moreover have "is_ascii (base @ ?i @ frag)" using assms(3) i by simp
  ultimately show ?thesis
    unfolding r_def append_url_params_split [OF assms(1,2)]
    using requote_complete [of "base @ ?i @ frag"] assms(4) i
    by (simp add: escapes_append)
qed


section \<open>Lemmas: the gate\<close>

lemma native_safe_ascii:
  assumes "url_is_native_safe url" and "\<not> is_non_http_url (trim_python_whitespace_start url)"
  shows "is_ascii (trim_python_whitespace_start url)"
    and "escapes_complete (as_bytes (trim_python_whitespace_start url))"
  using assms by (auto simp: url_is_native_safe_def Let_def has_incomplete_iff split: if_splits)

lemma native_safe_authority:
  assumes "url_is_native_safe url" and "\<not> is_non_http_url (trim_python_whitespace_start url)"
    and "split_once (lit ''://'') (trim_python_whitespace_start url) = Some (scheme, remainder)"
  shows "map to_ascii_lowercase scheme \<in> {lit ''http'', lit ''https'', lit ''http+unix''}"
    and "map to_ascii_lowercase scheme \<noteq> lit ''http+unix'' \<Longrightarrow>
      \<forall>b\<in>set (as_bytes (authority_of remainder)). is_ascii_alphanumeric b \<or> b \<in> set (lit ''-._*'')"
proof -
  show "map to_ascii_lowercase scheme \<in> {lit ''http'', lit ''https'', lit ''http+unix''}"
    using assms by (simp add: url_is_native_safe_def Let_def split: if_splits)
  show "\<forall>b\<in>set (as_bytes (authority_of remainder)). is_ascii_alphanumeric b \<or> b \<in> set (lit ''-._*'')"
    if "map to_ascii_lowercase scheme \<noteq> lit ''http+unix''"
    using assms that by (simp add: url_is_native_safe_def Let_def list_all_iff split: if_splits)
qed

lemma authority_of_takeWhile: "authority_of r = takeWhile (\<lambda>c. c \<notin> set (lit ''/?#'')) r"
  unfolding authority_of_def by (rule split_once_by_prefix)

lemma after_authority: "drop (length (authority_of r)) r = dropWhile (\<lambda>c. c \<notin> set (lit ''/?#'')) r"
  unfolding authority_of_takeWhile by (rule dropWhile_eq_drop [symmetric])

lemma disallowed_unicode_ascii: "is_ascii url \<Longrightarrow> \<not> raw_host_has_disallowed_unicode alnum url"
proof -
  assume asc: "is_ascii url"
  have *: "\<not> list_ex (\<lambda>ch. \<not> ch < 128 \<and> \<not> alnum ch \<and> ch \<noteq> asc CHR ''-'') host"
    if "set host \<subseteq> set url" for host
    using asc that by (auto simp: list_ex_iff is_ascii_iff)
  have auth: "set (authority_of remainder) \<subseteq> set url"
    if "split_once (lit ''://'') url = Some (scheme, remainder)" for scheme remainder
    using split_once_append [OF that]
    by (auto simp: authority_of_takeWhile dest: set_takeWhileD)
  have host_port: "set (case rsplit_once_by P a of Some (_, h) \<Rightarrow> h | None \<Rightarrow> a) \<subseteq> set a" for P a
    by (cases "rsplit_once_by P a") (auto dest: rsplit_once_by_set)
  have host: "set (if B then a else case rsplit_once_by P a of
      Some (h, p) \<Rightarrow> if list_all is_ascii_digit p then h else a | None \<Rightarrow> a) \<subseteq> set a" for B P a
    by (cases "rsplit_once_by P a") (auto dest: rsplit_once_by_set split: if_splits)
  show ?thesis
  proof (cases "split_once (lit ''://'') url")
    case None
    then show ?thesis unfolding raw_host_has_disallowed_unicode_def by simp
  next
    case (Some p)
    obtain scheme remainder where p: "p = (scheme, remainder)" by force
    show ?thesis
      unfolding raw_host_has_disallowed_unicode_def Some p Let_def option.case prod.case
      by (rule *) (intro order_trans [OF host] order_trans [OF host_port] auth [OF Some [unfolded p]])
  qed
qed


lemma char_from_mem:
  "\<forall>b\<in>set w. b < (128::u8) \<Longrightarrow> c < 128 \<Longrightarrow> c \<in> set (map char_from w) \<longleftrightarrow> word_of_nat c \<in> set w"
  using ascii_mem_bytes [of "map char_from w" c] as_bytes_char_from [of w]
  by (simp add: is_ascii_iff char_from_ascii)

text \<open>The suffix of a URL, normalised: the fragment starts where it did and the octets are the same.\<close>

lemma url_parts:
  fixes s :: rstr
  shows "s = url_base s @ url_fragment s" "asc CHR ''#'' \<notin> set (url_base s)"
    and "url_fragment s = [] \<or> (\<exists>fs. url_fragment s = asc CHR ''#'' # fs)"
proof -
  show "s = url_base s @ url_fragment s" by (simp add: url_base_def url_fragment_def)
  show "asc CHR ''#'' \<notin> set (url_base s)" by (auto simp: url_base_def dest: set_takeWhileD)
  show "url_fragment s = [] \<or> (\<exists>fs. url_fragment s = asc CHR ''#'' # fs)"
    unfolding url_fragment_def
    by (cases "dropWhile (\<lambda>c. c \<noteq> asc CHR ''#'') s") (auto simp: dropWhile_eq_Cons_conv)
qed

lemma suffix_complete:
  assumes "escapes_complete (as_bytes s)"
  shows "escapes_complete (as_bytes (url_base s)) \<and> escapes_complete (as_bytes (url_fragment s))"
proof (cases "url_fragment s")
  case Nil
  then show ?thesis using assms url_parts(1) [of s] by simp
next
  case (Cons x fs)
  have "as_bytes s = as_bytes (url_base s) @ 35 # as_bytes fs"
    using url_parts(3) [of s] Cons by (subst url_parts(1) [of s]) (simp add: as_bytes_Cons)
  then have "escapes_complete (as_bytes (url_base s)) \<and> escapes_complete (35 # as_bytes fs)"
    using assms by (intro escapes_complete_split) (simp_all add: ascii_simps)
  then show ?thesis using url_parts(3) [of s] Cons by (simp add: as_bytes_Cons)
qed

lemma normalize_suffix:
  assumes "is_ascii s" and "escapes_complete (as_bytes s)"
  obtains b f where "normalize_percent_escape_hex s = b @ f" "is_ascii (b @ f)"
    "asc CHR ''#'' \<notin> set b" "f = [] \<or> hd f = asc CHR ''#''"
    "asc CHR ''?'' \<in> set b \<longleftrightarrow> asc CHR ''?'' \<in> set (url_base s)"
    "escapes_complete (as_bytes b)" "escapes_complete (as_bytes f)"
    "pct_octets (as_bytes b) = pct_octets (as_bytes (url_base s))"
    "pct_octets (as_bytes f) = pct_octets (as_bytes (url_fragment s))"
proof -
  let ?B = "url_base s" and ?F = "url_fragment s"
  note s = url_parts(1) [of s] and hash = url_parts(2) [of s] and F = url_parts(3) [of s] and c = suffix_complete [OF assms(2)]
  have asc: "is_ascii ?B" "is_ascii ?F" using assms(1) s by (metis is_ascii_append)+
  obtain wb where wb: "normalize_percent_loop (as_bytes ?B) = map char_from wb" "\<forall>b\<in>set wb. b < 128"
    "escapes_complete wb" "pct_octets wb = pct_octets (as_bytes ?B)"
    "\<And>c. \<not> is_ascii_alphanumeric c \<Longrightarrow> (c \<in> set wb \<longleftrightarrow> c \<in> set (as_bytes ?B))"
    using normalize_complete [of "as_bytes ?B"] c ascii_bytes [OF asc(1)] by blast
  obtain wf where wf: "normalize_percent_loop (as_bytes ?F) = map char_from wf" "\<forall>b\<in>set wf. b < 128"
    "escapes_complete wf" "pct_octets wf = pct_octets (as_bytes ?F)"
    using normalize_complete [of "as_bytes ?F"] c ascii_bytes [OF asc(2)] by blast
  have mem: "x \<in> set (map char_from wb) \<longleftrightarrow> x \<in> set ?B"
    if "x < 128" "\<not> is_ascii_alphanumeric (word_of_nat x :: u8)" for x
    using char_from_mem [OF wb(2) that(1)] wb(5) [OF that(2)] ascii_mem_bytes [OF asc(1) that(1)] by simp
  show thesis
  proof (rule that)
    show "normalize_percent_escape_hex s = map char_from wb @ map char_from wf"
      unfolding normalize_percent_escape_hex_def
      by (subst s) (simp add: escapes_append c wb(1) wf(1))
    show "is_ascii (map char_from wb @ map char_from wf)"
      using wb(2) wf(2) by (auto simp: is_ascii_iff char_from_ascii)
    show "asc CHR ''#'' \<notin> set (map char_from wb)"
      using mem [of 35] hash by (simp add: ascii_simps)
    show "asc CHR ''?'' \<in> set (map char_from wb) \<longleftrightarrow> asc CHR ''?'' \<in> set ?B"
      using mem [of 63] by (simp add: ascii_simps)
    show "map char_from wf = [] \<or> hd (map char_from wf) = asc CHR ''#''"
    proof (cases ?F)
      case (Cons x fs)
      have "normalize_percent_loop (35 # as_bytes fs) = 35 # normalize_percent_loop (as_bytes fs)"
        using escapes_append(3) [of "[35]" "as_bytes fs"] by (simp add: char_from_def)
      then show ?thesis using F Cons wf(1) by (simp add: as_bytes_Cons flip: wf(1))
    qed (use wf(1) in simp)
  qed (use wb wf in \<open>simp_all add: as_bytes_char_from\<close>)
qed


lemma lowercase_class:
  fixes c :: rchar
  assumes "is_ascii_alphanumeric c \<or> c \<in> set (lit ''-._*'')"
  shows "to_ascii_lowercase c < 128" "to_ascii_lowercase c \<notin> {37, 35, 63}"
  using assms by (auto simp: ascii_simps split: if_splits)

lemma no_escapes: "is_ascii s \<Longrightarrow> 37 \<notin> set s \<Longrightarrow> escapes_complete (as_bytes s) \<and> pct_octets (as_bytes s) = as_bytes s"
  using ascii_mem_bytes [of s 37] escapes_free [of "as_bytes s"] by simp

lemma authority_chars:
  assumes "is_ascii a"
    and "\<forall>b\<in>set (as_bytes a). is_ascii_alphanumeric b \<or> b \<in> set (lit ''-._*'')"
  shows "\<forall>c\<in>set a. is_ascii_alphanumeric c \<or> c \<in> set (lit ''-._*'')"
proof
  fix c assume c: "c \<in> set a"
  then have "c < 128" using assms(1) by (auto simp: is_ascii_iff)
  then have u: "unat (word_of_nat c :: u8) = c" by simp
  have "word_of_nat c \<in> set (as_bytes a)" using ascii_mem_bytes [OF assms(1) \<open>c < 128\<close>] c by simp
  then have "is_ascii_alphanumeric (word_of_nat c :: u8) \<or> word_of_nat c \<in> set (lit ''-._*'' :: bytes)"
    using assms(2) by blast
  moreover have "is_ascii_alphanumeric (word_of_nat c :: u8) \<Longrightarrow> is_ascii_alphanumeric c"
    using ascii_class_unat u by metis
  moreover have "word_of_nat c \<in> set (lit ''-._*'' :: bytes) \<Longrightarrow> c \<in> set (lit ''-._*'')"
    using u by (auto dest!: arg_cong [where f = unat])
  ultimately show "is_ascii_alphanumeric c \<or> c \<in> set (lit ''-._*'')" by blast
qed

lemma lowercase_id: "(to_ascii_lowercase c = 37) = (c = (37::nat))" "(to_ascii_lowercase c < 128) = (c < (128::nat))"
  by (auto simp: ascii_simps)

text \<open>What the gate gives for the part of the URL before the path.\<close>

lemma native_safe_prefix:
  fixes url :: rstr
  defines "raw \<equiv> trim_python_whitespace_start url"
  assumes "url_is_native_safe url" and "\<not> is_non_http_url raw"
    and "split_once (lit ''://'') raw = Some (scheme, remainder)"
    and "map to_ascii_lowercase scheme \<noteq> lit ''http+unix''"
  shows "is_ascii (map to_ascii_lowercase scheme @ lit ''://'' @ map to_ascii_lowercase (authority_of remainder))"
    and "set (map to_ascii_lowercase scheme @ lit ''://'' @ map to_ascii_lowercase (authority_of remainder)) \<inter>
           {37, 35, 63} = {}"
    and "is_ascii (drop (length (authority_of remainder)) remainder)"
    and "escapes_complete (as_bytes (drop (length (authority_of remainder)) remainder))"
proof -
  let ?a = "authority_of remainder" and ?rest = "drop (length (authority_of remainder)) remainder"
  have asc: "is_ascii raw" and compl: "escapes_complete (as_bytes raw)"
    using native_safe_ascii assms(2,3) unfolding raw_def by auto
  note auth = native_safe_authority [OF assms(2) assms(3,4) [unfolded raw_def]]
  have raw: "raw = (scheme @ lit ''://'' @ ?a) @ ?rest"
    using split_once_append [OF assms(4)] authority_of_takeWhile [of remainder] after_authority [of remainder]
    by simp
  then have asc': "is_ascii (scheme @ lit ''://'' @ ?a)" and "is_ascii ?rest" using asc by (metis is_ascii_append)+
  then show "is_ascii ?rest" by simp
  have chars: "\<forall>c\<in>set ?a. is_ascii_alphanumeric c \<or> c \<in> set (lit ''-._*'')"
    using asc' auth(2) [OF assms(5)] by (intro authority_chars) simp_all
  show "is_ascii (map to_ascii_lowercase scheme @ lit ''://'' @ map to_ascii_lowercase ?a)"
    using asc' by (auto simp: is_ascii_iff lowercase_id)
  have sch: "map to_ascii_lowercase scheme \<in> {lit ''http'', lit ''https''}" using auth(1) assms(5) by blast
  then have s: "set (map to_ascii_lowercase scheme) \<inter> {37, 35, 63} = {}" by auto
  show p: "set (map to_ascii_lowercase scheme @ lit ''://'' @ map to_ascii_lowercase ?a) \<inter> {37, 35, 63} = {}"
    using s lowercase_class(2) chars by fastforce
  then have "37 \<notin> set (scheme @ lit ''://'' @ ?a)" using lowercase_id(1) by fastforce
  then have "escapes_complete (as_bytes (scheme @ lit ''://'' @ ?a))" using no_escapes asc' by blast
  then show "escapes_complete (as_bytes ?rest)"
    using compl raw escapes_append(1) as_bytes_append by metis
qed

section \<open>Properties of URL preparation\<close>

text \<open>A URL of the scheme \<open>http\<close> or \<open>https\<close>.\<close>

lemma prepare_url_http:
  fixes url :: rstr
  defines "raw \<equiv> trim_python_whitespace_start url"
  assumes safe: "url_is_native_safe url" and http: "\<not> is_non_http_url raw"
    and split: "split_once (lit ''://'') raw = Some (scheme, remainder)"
    and parse: "url_parse raw = Inr \<lparr>url_scheme = map to_ascii_lowercase scheme,
        url_host_str = Some (map to_ascii_lowercase (authority_of remainder))\<rparr>"
    and scheme: "map to_ascii_lowercase scheme \<noteq> lit ''http+unix''"
    and host: "\<not> (map to_ascii_lowercase (authority_of remainder) \<noteq> [] \<and>
      hd (map to_ascii_lowercase (authority_of remainder)) \<in> {asc CHR ''*'', asc CHR ''.''})"
  defines "rest \<equiv> drop (length (authority_of remainder)) remainder"
  defines "sfx \<equiv> (if rest \<noteq> [] \<and> hd rest = asc CHR ''/'' then rest else asc CHR ''/'' # rest)"
  shows "\<exists>r. prepare_url url_parse alnum url (encode_query_pairs pairs) = Inr r \<and> requote_uri r = r \<and>
    pct_octets (as_bytes r) =
      pct_octets (as_bytes (map to_ascii_lowercase scheme @ lit ''://'' @ map to_ascii_lowercase (authority_of remainder))) @
      pct_octets (as_bytes (url_base sfx)) @
      pct_octets (as_bytes (query_insertion (url_base sfx) (encode_query_pairs pairs))) @
      pct_octets (as_bytes (url_fragment sfx))"
proof -
  let ?low = "map to_ascii_lowercase :: rstr \<Rightarrow> rstr"
  let ?pre = "?low scheme @ lit ''://'' @ ?low (authority_of remainder)"
  let ?params = "encode_query_pairs pairs"
  note pre = native_safe_prefix [OF safe http [unfolded raw_def] split [unfolded raw_def] scheme]
  have sfx: "is_ascii sfx" "escapes_complete (as_bytes sfx)"
    using pre(3,4) by (auto simp: sfx_def rest_def as_bytes_Cons)
  obtain b f where bf: "normalize_percent_escape_hex sfx = b @ f" "is_ascii (b @ f)"
    "asc CHR ''#'' \<notin> set b" "f = [] \<or> hd f = asc CHR ''#''"
    "asc CHR ''?'' \<in> set b \<longleftrightarrow> asc CHR ''?'' \<in> set (url_base sfx)"
    "escapes_complete (as_bytes b)" "escapes_complete (as_bytes f)"
    "pct_octets (as_bytes b) = pct_octets (as_bytes (url_base sfx))"
    "pct_octets (as_bytes f) = pct_octets (as_bytes (url_fragment sfx))"
    using normalize_suffix [OF sfx] by metis
  have p: "escapes_complete (as_bytes ?pre)" "pct_octets (as_bytes ?pre) = as_bytes ?pre"
    using no_escapes [OF pre(1)] pre(2) by blast+
  have q: "query_insertion (?pre @ b) ?params = query_insertion (url_base sfx) ?params"
    using bf(5) pre(2) by (auto simp: query_insertion_def)
  let ?r = "append_url_params ((?pre @ b) @ f) ?params"
  have "pct_octets (as_bytes ?r) = pct_octets (as_bytes (?pre @ b)) @
      pct_octets (as_bytes (query_insertion (?pre @ b) ?params)) @ pct_octets (as_bytes f) \<and> requote_uri ?r = ?r"
  proof (rule append_url_params_complete)
    show "is_ascii ((?pre @ b) @ f @ ?params)" using pre(1) bf(2) encode_query_pairs_complete by simp
    show "escapes_complete (as_bytes (?pre @ b))" using p(1) bf(6) by (simp only: as_bytes_append escapes_append)
  qed (use pre(2) bf encode_query_pairs_complete in auto)
  moreover have "prepare_url url_parse alnum url ?params = Inr ?r"
  proof -
    have ascii_host: "\<not> raw_host_has_disallowed_unicode alnum raw"
      using native_safe_ascii(1) [OF safe] http unfolding raw_def by (intro disallowed_unicode_ascii) simp
    show ?thesis
      unfolding prepare_url_def Let_def raw_def [symmetric] parse split
      unfolding sum.case Url.select_convs option.case prod.case rest_def [symmetric] sfx_def [symmetric] bf(1)
      by (simp only: prod.case append_assoc if_not_P [OF http] if_not_P [OF host] if_not_P [OF ascii_host]
          if_not_P [OF scheme])
  qed
  moreover have "pct_octets (as_bytes (?pre @ b)) = as_bytes ?pre @ pct_octets (as_bytes (url_base sfx))"
    using p bf(8) unfolding as_bytes_append [of ?pre b] by (simp only: escapes_append(2))
  ultimately show ?thesis using q bf(9) p(2) by (intro exI [of _ ?r]) (simp only: append_assoc)
qed

text \<open>One of the scheme \<open>http+unix\<close>: the authority is a path, with escapes, and is left as it is.\<close>

lemma prepare_url_unix:
  fixes url :: rstr
  defines "raw \<equiv> trim_python_whitespace_start url"
  assumes safe: "url_is_native_safe url" and http: "\<not> is_non_http_url raw"
    and split: "split_once (lit ''://'') raw = Some (scheme, remainder)"
    and scheme: "map to_ascii_lowercase scheme = lit ''http+unix''"
    and parse: "url_parse raw = Inr \<lparr>url_scheme = lit ''http+unix'', url_host_str = Some host\<rparr>"
    and host: "\<not> (host \<noteq> [] \<and> hd host \<in> {asc CHR ''*'', asc CHR ''.''})"
  defines "rest \<equiv> drop (length (authority_of remainder)) remainder"
  shows "\<exists>r. prepare_url url_parse alnum url (encode_query_pairs pairs) = Inr r \<and> requote_uri r = r \<and>
    rest \<noteq> [] \<and> hd rest = asc CHR ''/'' \<and>
    pct_octets (as_bytes r) =
      pct_octets (as_bytes (lit ''http+unix'' @ lit ''://'' @ authority_of remainder)) @
      pct_octets (as_bytes (url_base rest)) @
      pct_octets (as_bytes (query_insertion (url_base rest) (encode_query_pairs pairs))) @
      pct_octets (as_bytes (url_fragment rest))"
proof -
  let ?a = "authority_of remainder" and ?params = "encode_query_pairs pairs"
  let ?pre = "lit ''http+unix'' @ lit ''://'' @ ?a"
  have asc: "is_ascii raw" and compl: "escapes_complete (as_bytes raw)"
    using native_safe_ascii safe http unfolding raw_def by auto
  have gate: "\<forall>b\<in>set (as_bytes ?a). is_ascii_alphanumeric b \<or> b \<in> set (lit ''-._~%'')" "rest \<noteq> []" "hd rest = asc CHR ''/''"
    using safe http split scheme unfolding raw_def rest_def
    by (simp_all add: url_is_native_safe_def Let_def list_all_iff split: if_splits)
  obtain rs where rest: "rest = asc CHR ''/'' # rs" using gate(2,3) by (cases rest) auto
  have rem: "remainder = ?a @ rest" unfolding rest_def after_authority unfolding authority_of_takeWhile by simp
  have raw: "raw = (scheme @ lit ''://'' @ ?a) @ asc CHR ''/'' # rs"
    using split_once_append [OF split] rem rest by simp
  have a: "is_ascii ?a" "is_ascii rest" "is_ascii scheme" using asc unfolding raw rest by simp_all
  have "as_bytes raw = as_bytes (scheme @ lit ''://'' @ ?a) @ 47 # as_bytes rs" unfolding raw by (simp add: as_bytes_Cons)
  then have c: "escapes_complete (as_bytes (scheme @ lit ''://'' @ ?a)) \<and> escapes_complete (47 # as_bytes rs)"
    using compl by (intro escapes_complete_split) (simp_all add: ascii_simps)
  have "37 \<notin> set scheme"
  proof
    assume "37 \<in> set scheme"
    then have "37 \<in> set (map to_ascii_lowercase scheme)" using lowercase_id(1) by fastforce
    then show False unfolding scheme by simp
  qed
  then have "escapes_complete (as_bytes (scheme @ lit ''://''))" using no_escapes [of "scheme @ lit ''://''"] a(3) by simp
  then have ca: "escapes_complete (as_bytes ?a)" using c escapes_append(1) as_bytes_append append_assoc by metis
  have "escapes_complete (as_bytes (lit ''http+unix'' @ lit ''://''))" using no_escapes [of "lit ''http+unix'' @ lit ''://''"] by simp
  then have pre: "escapes_complete (as_bytes ?pre)" using ca escapes_append(1) as_bytes_append append_assoc by metis
  have cs: "escapes_complete (as_bytes rest)" using c by (simp add: rest as_bytes_Cons)
  note parts = url_parts [of rest] and sc = suffix_complete [OF cs]
  have bf: "is_ascii (url_base rest)" "is_ascii (url_fragment rest)" using a(2) parts(1) by (metis is_ascii_append)+
  have clean: "35 \<notin> set ?a" "63 \<notin> set ?a"
    using ascii_mem_bytes [OF a(1), of 35] ascii_mem_bytes [OF a(1), of 63] gate(1) by (auto simp: ascii_simps)
  have q: "query_insertion (?pre @ url_base rest) ?params = query_insertion (url_base rest) ?params"
    using clean by (auto simp: query_insertion_def)
  let ?r = "append_url_params ((?pre @ url_base rest) @ url_fragment rest) ?params"
  have "pct_octets (as_bytes ?r) = pct_octets (as_bytes (?pre @ url_base rest)) @
      pct_octets (as_bytes (query_insertion (?pre @ url_base rest) ?params)) @ pct_octets (as_bytes (url_fragment rest)) \<and> requote_uri ?r = ?r"
  proof (rule append_url_params_complete)
    show "is_ascii ((?pre @ url_base rest) @ url_fragment rest @ ?params)" using a(1) bf encode_query_pairs_complete by simp
    show "escapes_complete (as_bytes (?pre @ url_base rest))"
      using pre sc unfolding as_bytes_append [of ?pre "url_base rest"] by (simp only: escapes_append)
  qed (use clean parts sc encode_query_pairs_complete in auto)
  moreover have "prepare_url url_parse alnum url ?params = Inr ?r"
  proof -
    have ascii_host: "\<not> raw_host_has_disallowed_unicode alnum raw" using asc by (intro disallowed_unicode_ascii) simp
    have sfx: "(if rest \<noteq> [] \<and> hd rest = asc CHR ''/'' then rest else asc CHR ''/'' # rest) = rest" using gate(2,3) by simp
    show ?thesis
      unfolding prepare_url_def Let_def raw_def [symmetric] parse split
      unfolding sum.case Url.select_convs option.case prod.case rest_def [symmetric] sfx if_not_P [OF http] if_not_P [OF host] if_not_P [OF ascii_host]
      unfolding if_P [OF refl] prod.case append_assoc parts(1) [symmetric] by (rule refl)
  qed
  moreover have "pct_octets (as_bytes (?pre @ url_base rest)) = pct_octets (as_bytes ?pre) @ pct_octets (as_bytes (url_base rest))"
    using pre unfolding as_bytes_append [of ?pre "url_base rest"] by (simp only: escapes_append(2))
  ultimately show ?thesis using q gate(2,3) by (intro exI [of _ ?r]) (simp only: append_assoc not_False_eq_True simp_thms)
qed



section \<open>Lemmas: header preparation\<close>

definition header_valid :: "HeaderInput \<Rightarrow> bool" where
  "header_valid h \<longleftrightarrow> \<not> isl (validate_name (hi_name h)) \<and> \<not> isl (validate_value (hi_value h))"

text \<open>The entries the loop inserts: normalised name, spelling and index of each header.\<close>

definition header_entries :: "nat \<Rightarrow> HeaderInput list \<Rightarrow> (rstr \<times> rstr \<times> nat) list" where
  "header_entries i hs =
     map (\<lambda>(j, h). (map to_ascii_lowercase (header_name (hi_name h)), header_name (hi_name h), j))
       (zip [i..<i + length hs] hs)"

lemma header_entries_Cons:
  "header_entries i (h # hs) =
     (map to_ascii_lowercase (header_name (hi_name h)), header_name (hi_name h), i) # header_entries (Suc i) hs"
  by (simp add: header_entries_def upt_conv_Cons del: upt_Suc)


text \<open>\<open>ordered_map.insert_all\<close> for the map the code uses.\<close>

definition cim_insert_all ::
  "('m, rstr \<times> nat) index_map \<Rightarrow> 'm CaseInsensitiveMap \<Rightarrow> (rstr \<times> rstr \<times> nat) list \<Rightarrow> 'm CaseInsensitiveMap" where
  "cim_insert_all im = ordered_map.insert_all (cim_insert im)"

lemma cim_insert_all_simps:
  assumes "index_map_documented im"
  shows "cim_insert_all im s [] = s"
    and "cim_insert_all im s ((k, c, v) # xs) = cim_insert_all im (fst (cim_insert im s k c v)) xs"
  using ordered_map.insert_all.simps [OF cim_ordered_map [OF assms]] by (simp_all add: cim_insert_all_def)

text \<open>The loop: the first invalid header ends it, else every header is inserted in order.\<close>

lemma prepare_headers_loop_spec:
  assumes "index_map_documented im"
  shows "prepare_headers_loop im prepared i hs =
    (case position (\<lambda>h. \<not> header_valid h) hs of
       None \<Rightarrow> Inr (prepared_headers im (cim_insert_all im prepared (header_entries i hs)))
     | Some j \<Rightarrow> Inl (header_error im (cim_insert_all im prepared (header_entries i (take j hs))) (i + j)
         (if isl (validate_name (hi_name (hs ! j))) then Name else Value)))"
proof (induction hs arbitrary: prepared i)
  case Nil
  then show ?case by (simp add: header_entries_def cim_insert_all_simps [OF assms])
next
  case (Cons h hs)
  show ?case
  proof (cases "header_valid h")
    case True
    then have "prepare_headers_loop im prepared i (h # hs) =
      prepare_headers_loop im (fst (cim_insert im prepared (map to_ascii_lowercase (header_name (hi_name h)))
        (header_name (hi_name h)) i)) (Suc i) hs"
      by (simp add: header_valid_def Let_def)
    then show ?thesis unfolding Cons.IH using True
      by (cases "position (\<lambda>h. \<not> header_valid h) hs")
        (simp_all add: header_entries_Cons cim_insert_all_simps [OF assms] del: position_None_iff)
  next
    case False
    then show ?thesis
      by (auto simp: header_valid_def header_entries_def cim_insert_all_simps [OF assms])
  qed
qed

text \<open>A run of in-place updates keeps first positions and last values.\<close>

lemma foldl_alist_insert:
  fixes es :: "('k \<times> 'v) list"
  defines "R \<equiv> foldl (\<lambda>acc (k, v). alist_insert acc k v) [] es"
  shows "map fst R = rev (remdups (rev (map fst es)))" and "map_of R = map_of (rev es)"
    and "distinct (map fst R)"
proof -
  have "map fst (foldl (\<lambda>acc (k, v). alist_insert acc k v) [] es) = rev (remdups (rev (map fst es))) \<and>
    map_of (foldl (\<lambda>acc (k, v). alist_insert acc k v) [] es) = map_of (rev es)"
  proof (induction es rule: rev_induct)
    case (snoc e es)
    then show ?case
      by (cases e) (auto simp: keys_alist_insert simp flip: set_map)
  qed simp
  then show "map fst R = rev (remdups (rev (map fst es)))" "map_of R = map_of (rev es)"
    unfolding R_def by blast+
  then show "distinct (map fst R)" by simp
qed


definition lower_name :: "HeaderInput \<Rightarrow> rstr" where
  "lower_name h = map to_ascii_lowercase (header_name (hi_name h))"

lemma header_entries_last:
  "map_of (rev (header_entries 0 hs)) k = Some (c, i) \<Longrightarrow>
     i < length hs \<and> c = header_name (hi_name (hs ! i)) \<and> k = lower_name (hs ! i) \<and>
     (\<forall>j. i < j \<and> j < length hs \<longrightarrow> lower_name (hs ! j) \<noteq> k)"
proof (induction hs rule: rev_induct)
  case (snoc h hs)
  have e: "header_entries 0 (hs @ [h]) = header_entries 0 hs @ [(lower_name h, header_name (hi_name h), length hs)]"
    by (simp add: header_entries_def lower_name_def)
  show ?case
  proof (cases "k = lower_name h")
    case True
    then show ?thesis using snoc.prems by (auto simp: e nth_append)
  next
    case False
    then show ?thesis using snoc by (auto simp: e nth_append less_Suc_eq)
  qed
qed (simp add: header_entries_def)

lemma keys_header_entries: "map fst (header_entries i hs) = map lower_name hs"
  by (induction hs arbitrary: i) (simp_all add: header_entries_Cons lower_name_def, simp add: header_entries_def)

text \<open>What \<open>prepared_headers\<close> lists after all of \<open>hs\<close> has been inserted.\<close>

lemma prepared_headers_all:
  fixes hs :: "HeaderInput list"
  assumes "index_map_documented im"
  defines "ps \<equiv> prepared_headers im (cim_insert_all im (cim_new im) (header_entries 0 hs))"
  shows "map (\<lambda>p. map to_ascii_lowercase (ph_name p)) ps = rev (remdups (rev (map lower_name hs)))"
    and "\<forall>p\<in>set ps. ph_source_index p < length hs \<and> ph_name p = header_name (hi_name (hs ! ph_source_index p)) \<and>
      (\<forall>j. ph_source_index p < j \<and> j < length hs \<longrightarrow> lower_name (hs ! j) \<noteq> lower_name (hs ! ph_source_index p))"
proof -
  note om = cim_ordered_map [OF assms(1)]
  define R where "R = foldl (\<lambda>acc (k, v). alist_insert acc k v) [] (header_entries 0 hs)"
  note R = foldl_alist_insert [of "header_entries 0 hs", folded R_def]
  have "im_iter im (entries (cim_insert_all im (cim_new im) (header_entries 0 hs))) = R"
    unfolding cim_insert_all_def ordered_map.items_insert_all [OF om] ordered_map.items_new [OF om] R_def
    by (simp add: case_prod_beta)
  then have ps: "ps = map (\<lambda>(k, c, i). \<lparr>ph_source_index = i, ph_name = c\<rparr>) R"
    by (simp add: ps_def prepared_headers_def cim_iter_def o_def case_prod_beta)
  have last: "i < length hs \<and> c = header_name (hi_name (hs ! i)) \<and> k = lower_name (hs ! i) \<and>
      (\<forall>j. i < j \<and> j < length hs \<longrightarrow> lower_name (hs ! j) \<noteq> k)" if "(k, c, i) \<in> set R" for k c i
  proof -
    have "map_of R k = Some (c, i)" using that R(3) by (simp add: map_of_eq_Some_iff)
    then show ?thesis unfolding R(2) by (rule header_entries_last)
  qed
  have "map to_ascii_lowercase c = k" if "(k, c, i) \<in> set R" for k c i
    using last [OF that] by (simp add: lower_name_def)
  then have "map (\<lambda>p. map to_ascii_lowercase (ph_name p)) ps = map fst R" unfolding ps by auto
  then show "map (\<lambda>p. map to_ascii_lowercase (ph_name p)) ps = rev (remdups (rev (map lower_name hs)))"
    using R(1) keys_header_entries by simp
  show "\<forall>p\<in>set ps. ph_source_index p < length hs \<and> ph_name p = header_name (hi_name (hs ! ph_source_index p)) \<and>
      (\<forall>j. ph_source_index p < j \<and> j < length hs \<longrightarrow> lower_name (hs ! j) \<noteq> lower_name (hs ! ph_source_index p))"
    using last unfolding ps by fastforce
qed

section \<open>Property of header preparation\<close>

text \<open>
  C28. \<open>prepare_headers\<close> succeeds exactly when every name and value is valid; the result lists
  each name once up to case, in order of first appearance, with the spelling and the index of
  its last appearance. On failure the error names the first invalid header, tells name from
  value, and carries what the headers before it prepare to.
\<close>

theorem prepare_headers_outcome:
  assumes "index_map_documented im"
  shows "case prepare_headers im hs of
      Inr ps \<Rightarrow> (\<forall>h\<in>set hs. header_valid h) \<and>
        map (\<lambda>p. map to_ascii_lowercase (ph_name p)) ps = rev (remdups (rev (map lower_name hs))) \<and>
        (\<forall>p\<in>set ps. ph_source_index p < length hs \<and> ph_name p = header_name (hi_name (hs ! ph_source_index p)) \<and>
          (\<forall>j. ph_source_index p < j \<and> j < length hs \<longrightarrow>
             lower_name (hs ! j) \<noteq> lower_name (hs ! ph_source_index p)))
    | Inl e \<Rightarrow> hpe_source_index e < length hs \<and>
        (\<forall>h\<in>set (take (hpe_source_index e) hs). header_valid h) \<and>
        \<not> header_valid (hs ! hpe_source_index e) \<and>
        (hpe_part e = Name \<longleftrightarrow> isl (validate_name (hi_name (hs ! hpe_source_index e)))) \<and>
        prepare_headers im (take (hpe_source_index e) hs) = Inr (hpe_prepared e)"
proof (cases "position (\<lambda>h. \<not> header_valid h) hs")
  case None
  then have "prepare_headers im hs = Inr (prepared_headers im (cim_insert_all im (cim_new im) (header_entries 0 hs)))"
    unfolding prepare_headers_def prepare_headers_loop_spec [OF assms] None by simp
  then show ?thesis using prepared_headers_all [OF assms, of hs] None by simp
next
  case (Some j)
  then have j: "j < length hs" "\<not> header_valid (hs ! j)" "\<forall>h\<in>set (take j hs). header_valid h"
    by (auto simp: position_Some_iff)
  then have none: "position (\<lambda>h. \<not> header_valid h) (take j hs) = None" by simp
  have "prepare_headers im (take j hs) =
      Inr (prepared_headers im (cim_insert_all im (cim_new im) (header_entries 0 (take j hs))))"
    unfolding prepare_headers_def prepare_headers_loop_spec [OF assms] none by simp
  then show ?thesis using j
    unfolding prepare_headers_def prepare_headers_loop_spec [OF assms, of _ _ hs] Some
    by (simp add: header_error_def)
qed

theorem prepare_headers_outcome_witness:
  "\<exists>ps. prepare_headers assoc_index_map
     [\<lparr>hi_name = HText (lit ''First''), hi_value = HText (lit ''one'')\<rparr>,
      \<lparr>hi_name = HText (lit ''FIRST''), hi_value = HText (lit ''three'')\<rparr>] = Inr ps \<and>
     map (\<lambda>p. map to_ascii_lowercase (ph_name p)) ps = [lit ''first'']"
proof -
  let ?hs = "[\<lparr>hi_name = HText (lit ''First''), hi_value = HText (lit ''one'')\<rparr>,
      \<lparr>hi_name = HText (lit ''FIRST''), hi_value = HText (lit ''three'')\<rparr>]"
  have v: "list_all header_valid ?hs" "rev (remdups (rev (map lower_name ?hs))) = [lit ''first'']"
    by code_simp+
  show ?thesis
  proof (cases "prepare_headers assoc_index_map ?hs")
    case (Inl e)
    then have "\<exists>i < length ?hs. \<not> header_valid (?hs ! i)"
      using prepare_headers_outcome [OF assoc_index_map_documented, of ?hs] unfolding Inl sum.case by blast
    then show ?thesis using v(1) unfolding list_all_length by blast
  next
    case (Inr ps)
    have "map (\<lambda>p. map to_ascii_lowercase (ph_name p)) ps = [lit ''first'']"
      using prepare_headers_outcome [OF assoc_index_map_documented, of ?hs]
      unfolding Inr sum.case v(2) by (elim conjE)
    then show ?thesis using Inr by (intro exI [of _ ps] conjI)
  qed
qed

end
