(* ===== verification/Auth.thy ===== *)
theory Auth
  imports Models
begin

text \<open>
  The model of \<open>crates/requests/src/auth.rs\<close>: Basic credentials, the Digest computation and the
  order of the steps that answer a 401. Base64, the four hash functions and the URL parser are
  arguments.
\<close>

section \<open>Basic credentials\<close>

record BasicCredentials =
  bc_username :: bytes
  bc_password :: bytes

definition basic_authorization :: "(bytes \<Rightarrow> rstr) \<Rightarrow> BasicCredentials \<Rightarrow> rstr" where
  "basic_authorization base64 self =
     lit ''Basic '' @ base64 (bc_username self @ asc CHR '':'' # bc_password self)"

section \<open>Digest: data\<close>

record DigestChallenge =
  dc_realm :: rstr
  dc_nonce :: rstr
  dc_qop :: "rstr option"
  dc_algorithm :: "rstr option"
  dc_opaque :: "rstr option"

record DigestState =
  last_nonce :: rstr
  nonce_count :: u32

record DigestRequest =
  dr_username :: rstr
  dr_password :: rstr
  dr_method :: rstr
  dr_url :: rstr
  dr_challenge :: DigestChallenge

datatype DigestAlgorithm = Md5 | Md5Sess | Sha1 | Sha256 | Sha512

record DigestPlan =
  dp_request :: DigestRequest
  dp_algorithm :: DigestAlgorithm
  dp_path :: rstr
  dp_state :: DigestState

datatype DigestPreparation = Unsupported DigestState | ReadyPlan DigestPlan

record DigestOutput =
  do_header :: "rstr option"
  do_state :: DigestState

text \<open>The hash functions of the crates \<open>md5\<close>, \<open>sha1\<close> and \<open>sha2\<close>.\<close>

record hashes =
  h_md5 :: "bytes \<Rightarrow> bytes"
  h_sha1 :: "bytes \<Rightarrow> bytes"
  h_sha256 :: "bytes \<Rightarrow> bytes"
  h_sha512 :: "bytes \<Rightarrow> bytes"

section \<open>The steps of a 401\<close>

datatype Digest401Step =
    Seek | Challenge | Increment | ParseStep | Consume | Close | Copy | ExtractCookies | PrepareCookies
  | PreparedParts | UpdateNonceCount | Ctime | Random | UpdateLastNonce | SetHeader | SendStep
  | AppendHistory | ReplaceRequest

record Digest401Machine =
  machine_index :: nat

definition machine_new :: Digest401Machine where
  "machine_new = \<lparr>machine_index = 0\<rparr>"

definition STEPS :: "Digest401Step list" where
  "STEPS =
     [Seek, Challenge, Increment, ParseStep, Consume, Close, Copy, ExtractCookies, PrepareCookies,
      PreparedParts, UpdateNonceCount, Ctime, Random, UpdateLastNonce, SetHeader, SendStep,
      AppendHistory, ReplaceRequest]"

definition machine_next :: "Digest401Machine \<Rightarrow> Digest401Step option \<times> Digest401Machine" where
  "machine_next self =
     (let step = (if machine_index self < length STEPS then Some (STEPS ! machine_index self) else None)
      in (step, self\<lparr>machine_index := machine_index self + (if step \<noteq> None then 1 else 0)\<rparr>))"

section \<open>Digest: computation\<close>

text \<open>\<open>format!("{:02x}")\<close> of a byte and \<open>format!("{:08x}")\<close> of a \<open>u32\<close>.\<close>

definition lower_hex_digit :: "nat \<Rightarrow> rchar" where
  "lower_hex_digit n = (if n < 10 then 48 + n else 87 + n)"

fun lower_hex :: "nat \<Rightarrow> nat \<Rightarrow> rstr" where
  "lower_hex 0 n = []"
| "lower_hex (Suc width) n = lower_hex width (n div 16) @ [lower_hex_digit (n mod 16)]"

definition hex_digest :: "(bytes \<Rightarrow> bytes) \<Rightarrow> bytes \<Rightarrow> rstr" where
  "hex_digest D value = concat (map (\<lambda>byte. lower_hex 2 (unat byte)) (D value))"

definition digest_hex :: "hashes \<Rightarrow> DigestAlgorithm \<Rightarrow> bytes \<Rightarrow> rstr" where
  "digest_hex H algorithm value =
     (case algorithm of
        Md5 \<Rightarrow> hex_digest (h_md5 H) value
      | Md5Sess \<Rightarrow> hex_digest (h_md5 H) value
      | Sha1 \<Rightarrow> hex_digest (h_sha1 H) value
      | Sha256 \<Rightarrow> hex_digest (h_sha256 H) value
      | Sha512 \<Rightarrow> hex_digest (h_sha512 H) value)"

definition colon :: rstr where
  "colon = [asc CHR '':'']"

definition quoted_field :: "string \<Rightarrow> rstr \<Rightarrow> rstr" where
  "quoted_field name v = lit name @ lit ''=\"'' @ v @ lit ''\"''"

text \<open>\<open>challenge.qop\<close> asks for \<open>auth\<close>: the third arm's guard.\<close>

definition qop_offers_auth :: "rstr \<Rightarrow> bool" where
  "qop_offers_auth qop \<longleftrightarrow>
     qop = lit ''auth'' \<or> list_ex (\<lambda>value. value = lit ''auth'') (split_by (\<lambda>c. c = asc CHR '','') qop)"

definition nonempty :: "rstr option \<Rightarrow> rstr option" where
  "nonempty v = (case v of Some [] \<Rightarrow> None | _ \<Rightarrow> v)"

definition digest_finish :: "hashes \<Rightarrow> DigestPlan \<Rightarrow> bytes \<Rightarrow> bytes \<Rightarrow> DigestOutput" where
  "digest_finish H self ctime random =
     (let request = dp_request self;
          challenge = dr_challenge request;
          hash = digest_hex H (dp_algorithm self);
          ha1_seed = dr_username request @ colon @ dc_realm challenge @ colon @ dr_password request;
          ha2_seed = dr_method request @ colon @ dp_path self;
          ha1 = hash (as_bytes ha1_seed);
          ha2 = hash (as_bytes ha2_seed);
          ncvalue = lower_hex 8 (unat (nonce_count (dp_state self)));
          cnonce_seed = as_bytes (nat_to_decimal (unat (nonce_count (dp_state self)))) @
            as_bytes (dc_nonce challenge) @ ctime @ random;
          cnonce = take 16 (hex_digest (h_sha1 H) cnonce_seed);
          ha1 = (if dp_algorithm self = Md5Sess
                 then hash (as_bytes (ha1 @ colon @ dc_nonce challenge @ colon @ cnonce)) else ha1);
          response =
            (case nonempty (dc_qop challenge) of
               None \<Rightarrow> Some (hash (as_bytes (ha1 @ colon @ dc_nonce challenge @ colon @ ha2)))
             | Some qop \<Rightarrow>
                 if qop_offers_auth qop then
                   (let noncebit = dc_nonce challenge @ colon @ ncvalue @ colon @ cnonce @ colon @
                          lit ''auth'' @ colon @ ha2
                    in Some (hash (as_bytes (ha1 @ colon @ noncebit))))
                 else None) in
      case response of
        None \<Rightarrow> \<lparr>do_header = None, do_state = dp_state self\<rparr>
      | Some response \<Rightarrow>
          let fields =
                quoted_field ''username'' (dr_username request) @ lit '', '' @
                quoted_field ''realm'' (dc_realm challenge) @ lit '', '' @
                quoted_field ''nonce'' (dc_nonce challenge) @ lit '', '' @
                quoted_field ''uri'' (dp_path self) @ lit '', '' @ quoted_field ''response'' response;
              opaque = (case nonempty (dc_opaque challenge) of
                Some v \<Rightarrow> lit '', '' @ quoted_field ''opaque'' v | None \<Rightarrow> []);
              algorithm = (case nonempty (dc_algorithm challenge) of
                Some v \<Rightarrow> lit '', '' @ quoted_field ''algorithm'' v | None \<Rightarrow> []);
              qop = (if nonempty (dc_qop challenge) \<noteq> None
                then lit '', qop=\"auth\", nc='' @ ncvalue @ lit '', '' @ quoted_field ''cnonce'' cnonce else []) in
          \<lparr>do_header = Some (lit ''Digest '' @ fields @ opaque @ algorithm @ qop),
           do_state = (dp_state self)\<lparr>last_nonce := dc_nonce challenge\<rparr>\<rparr>)"

section \<open>The request target\<close>

text \<open>What else of a parsed \<open>url::Url\<close> the code reads.\<close>

record ParsedUrl = Url +
  url_path :: rstr
  url_query :: "rstr option"

text \<open>The blocks of \<open>digest_request_target\<close>, in its order.\<close>

definition strip_http_scheme :: "rstr \<Rightarrow> rstr option" where
  "strip_http_scheme url =
     (case strip_prefix (lit ''http://'') url of Some r \<Rightarrow> Some r | None \<Rightarrow> strip_prefix (lit ''https://'') url)"

definition lexical_target :: "rstr \<Rightarrow> rstr" where
  "lexical_target sfx =
     (let lexical_suffix = hd (split_by (\<lambda>c. c = asc CHR ''#'') sfx) in
      if lexical_suffix = [] then lit ''/''
      else if hd lexical_suffix = asc CHR ''?'' then asc CHR ''/'' # lexical_suffix
      else lexical_suffix)"

definition parsed_target :: "ParsedUrl \<Rightarrow> rstr option" where
  "parsed_target parsed =
     (if url_scheme parsed \<notin> {lit ''http'', lit ''https''} \<or> url_host_str parsed = None then None
      else
        let path = (if url_path parsed = [] then lit ''/'' else url_path parsed) in
        Some (case url_query parsed of Some query \<Rightarrow> path @ asc CHR ''?'' # query | None \<Rightarrow> path))"

definition cut_params :: "rstr \<Rightarrow> rstr" where
  "cut_params path =
     (let final_segment = (case rsplit_once_by (\<lambda>c. c = asc CHR ''/'') path of
        Some (_, segment) \<Rightarrow> segment | None \<Rightarrow> path) in
      case position (\<lambda>c. c = asc CHR '';'') final_segment of
        None \<Rightarrow> path
      | Some params \<Rightarrow> take (length path - length final_segment + params) path)"

definition normal_target :: "rstr \<Rightarrow> rstr" where
  "normal_target target =
     (let (path, query) =
            (case split_once_by (\<lambda>c. c = asc CHR ''?'') target of
               Some (path, query) \<Rightarrow> (path, Some query)
             | None \<Rightarrow> (target, None));
          path = cut_params (if path = [] then lit ''/'' else path) in
      case query of Some (q # qs) \<Rightarrow> path @ asc CHR ''?'' # q # qs | _ \<Rightarrow> path)"

definition digest_request_target :: "(rstr \<Rightarrow> ParseError + ParsedUrl) \<Rightarrow> rstr \<Rightarrow> rstr option" where
  "digest_request_target url_parse url =
     (case strip_http_scheme url of
        None \<Rightarrow> None
      | Some remainder \<Rightarrow>
          let boundary = (case position (\<lambda>c. c \<in> set (lit ''/?#'')) remainder of
                Some i \<Rightarrow> i | None \<Rightarrow> length remainder);
              authority = take boundary remainder;
              sfx = drop boundary remainder in
          if authority = [] then None
          else
            case url_parse url of
              Inl _ \<Rightarrow> None
            | Inr parsed \<Rightarrow>
                (case parsed_target parsed of
                   None \<Rightarrow> None
                 | Some path \<Rightarrow>
                     if path \<noteq> lexical_target sfx then None
                     else Some (normal_target (lexical_target sfx))))"

definition algorithm_of :: "(rchar \<Rightarrow> rstr) \<Rightarrow> rstr \<Rightarrow> DigestAlgorithm option" where
  "algorithm_of unicode_upper algorithm_name =
     (let n = to_uppercase unicode_upper algorithm_name in
      if n = lit ''MD5'' then Some Md5
      else if n = lit ''MD5-SESS'' then Some Md5Sess
      else if n = lit ''SHA'' then Some Sha1
      else if n = lit ''SHA-256'' then Some Sha256
      else if n = lit ''SHA-512'' then Some Sha512
      else None)"

definition prepare_digest ::
  "(rchar \<Rightarrow> rstr) \<Rightarrow> (rstr \<Rightarrow> ParseError + ParsedUrl) \<Rightarrow> DigestRequest \<Rightarrow> DigestState \<Rightarrow> DigestPreparation" where
  "prepare_digest unicode_upper url_parse request state =
     (let algorithm_name = (case dc_algorithm (dr_challenge request) of Some a \<Rightarrow> a | None \<Rightarrow> lit ''MD5'') in
      case algorithm_of unicode_upper algorithm_name of
        None \<Rightarrow> Unsupported state
      | Some algorithm \<Rightarrow>
          (case digest_request_target url_parse (dr_url request) of
             None \<Rightarrow> Unsupported state
           | Some path \<Rightarrow>
               ReadyPlan \<lparr>dp_request = request, dp_algorithm = algorithm, dp_path = path,
                 dp_state = state\<lparr>nonce_count :=
                   (if dc_nonce (dr_challenge request) = last_nonce state then nonce_count state + 1 else 1)\<rparr>\<rparr>))"


section \<open>Answering challenges in sequence\<close>

text \<open>
  One answered challenge: the count the plan uses and the header, or \<open>None\<close> when no header is
  produced; and a run of challenges against one state.
\<close>

definition digest_answer ::
  "(rchar \<Rightarrow> rstr) \<Rightarrow> (rstr \<Rightarrow> ParseError + ParsedUrl) \<Rightarrow> hashes \<Rightarrow> DigestState \<Rightarrow>
   DigestRequest \<times> bytes \<times> bytes \<Rightarrow> (u32 \<times> rstr) option \<times> DigestState" where
  "digest_answer upper parse H state item =
     (case item of (request, ctime, random) \<Rightarrow>
        (case prepare_digest upper parse request state of
           Unsupported state' \<Rightarrow> (None, state')
         | ReadyPlan plan \<Rightarrow>
             let out = digest_finish H plan ctime random in
             (map_option (\<lambda>h. (nonce_count (dp_state plan), h)) (do_header out), do_state out)))"

fun digest_run ::
  "(rchar \<Rightarrow> rstr) \<Rightarrow> (rstr \<Rightarrow> ParseError + ParsedUrl) \<Rightarrow> hashes \<Rightarrow> DigestState \<Rightarrow>
   (DigestRequest \<times> bytes \<times> bytes) list \<Rightarrow> (u32 \<times> rstr) option list" where
  "digest_run upper parse H state [] = []"
| "digest_run upper parse H state (item # items) =
     (let (answer, state') = digest_answer upper parse H state item in
      answer # digest_run upper parse H state' items)"

definition item_nonce :: "DigestRequest \<times> bytes \<times> bytes \<Rightarrow> rstr" where
  "item_nonce item = dc_nonce (dr_challenge (fst item))"

lemma digest_finish_state:
  "do_state (digest_finish H plan ctime random) =
     (if do_header (digest_finish H plan ctime random) = None then dp_state plan
      else (dp_state plan)\<lparr>last_nonce := dc_nonce (dr_challenge (dp_request plan))\<rparr>)"
  by (simp add: digest_finish_def Let_def split: option.splits)

text \<open>A plan gives no header exactly when a quality of protection other than \<open>auth\<close> is demanded.\<close>

lemma digest_finish_header:
  "do_header (digest_finish H plan ctime random) = None \<longleftrightarrow>
     (\<exists>qop. nonempty (dc_qop (dr_challenge (dp_request plan))) = Some qop \<and> \<not> qop_offers_auth qop)"
  by (simp add: digest_finish_def Let_def split: option.splits)

lemma digest_answer_None:
  "fst (digest_answer upper parse H state (request, ctime, random)) = None \<longleftrightarrow>
     (case prepare_digest upper parse request state of
        Unsupported _ \<Rightarrow> True
      | ReadyPlan plan \<Rightarrow>
          \<exists>qop. nonempty (dc_qop (dr_challenge (dp_request plan))) = Some qop \<and> \<not> qop_offers_auth qop)"
  by (auto simp: digest_answer_def Let_def digest_finish_header split: DigestPreparation.splits)

lemma digest_answer_Some:
  assumes "digest_answer upper parse H state item = (Some (nc, h), state')"
  shows "nc = (if item_nonce item = last_nonce state then nonce_count state + 1 else 1)"
    and "state' = \<lparr>last_nonce = item_nonce item, nonce_count = nc\<rparr>"
proof -
  obtain request ctime random where i: "item = (request, ctime, random)" by (metis prod.exhaust)
  obtain plan where p: "prepare_digest upper parse request state = ReadyPlan plan"
    using assms by (cases "prepare_digest upper parse request state") (auto simp: i digest_answer_def)
  then have plan: "dp_request plan = request" "dp_state plan = state\<lparr>nonce_count :=
      (if item_nonce item = last_nonce state then nonce_count state + 1 else 1)\<rparr>"
    by (auto simp: prepare_digest_def Let_def i item_nonce_def split: option.splits)
  have "do_header (digest_finish H plan ctime random) = Some h" "nc = nonce_count (dp_state plan)"
    "state' = do_state (digest_finish H plan ctime random)"
    using assms by (auto simp: digest_answer_def i p Let_def)
  then show "nc = (if item_nonce item = last_nonce state then nonce_count state + 1 else 1)"
    and "state' = \<lparr>last_nonce = item_nonce item, nonce_count = nc\<rparr>"
    using plan by (auto simp: digest_finish_state item_nonce_def i)
qed

lemma digest_run_length [simp]: "length (digest_run upper parse H state items) = length items"
  by (induction items arbitrary: state) (simp_all add: case_prod_beta)

text \<open>Consecutive answers: the count goes on under one nonce and starts again under another.\<close>

lemma digest_run_step:
  assumes "Suc i < length items"
    and "digest_run upper parse H state items ! i = Some (nc, h)"
    and "digest_run upper parse H state items ! Suc i = Some (nc', h')"
  shows "nc' = (if item_nonce (items ! Suc i) = item_nonce (items ! i) then nc + 1 else 1)"
  using assms
proof (induction i arbitrary: state items)
  case 0
  obtain a b rest where items: "items = a # b # rest"
    using 0(1) by (cases items; cases "tl items") auto
  obtain s1 where a: "digest_answer upper parse H state a = (Some (nc, h), s1)"
    using 0(2) by (auto simp: items case_prod_beta prod_eq_iff)
  obtain s2 where b: "digest_answer upper parse H s1 b = (Some (nc', h'), s2)"
    using 0(3) by (auto simp: items a case_prod_beta prod_eq_iff)
  show ?case using digest_answer_Some [OF a] digest_answer_Some(1) [OF b] by (simp add: items)
next
  case (Suc i)
  then obtain a rest where items: "items = a # rest" by (cases items) auto
  show ?case using Suc.IH [of rest "snd (digest_answer upper parse H state a)"] Suc.prems
    by (simp add: items case_prod_beta)
qed

lemma lower_hex_inj:
  "lower_hex w n = lower_hex w m \<Longrightarrow> n < 16 ^ w \<Longrightarrow> m < 16 ^ w \<Longrightarrow> n = m"
proof (induction w arbitrary: n m)
  case (Suc w)
  have "n mod 16 = m mod 16"
    using Suc.prems(1) mod_less_divisor [of 16 n] mod_less_divisor [of 16 m]
    by (auto simp: lower_hex_digit_def split: if_splits)
  moreover have "n div 16 = m div 16"
    using Suc.prems by (intro Suc.IH) (auto simp: less_mult_imp_div_less mult.commute)
  ultimately show ?case by (metis div_mult_mod_eq)
qed simp

section \<open>Lemmas: the request target\<close>

lemma hd_split_by: "hd (split_by P s) = takeWhile (\<lambda>c. \<not> P c) s"
  by (induction s) (auto split: list.split simp: hd_conv_nth)

lemma rsplit_once_by_Some:
  assumes "rsplit_once_by P s = Some (a, b)"
  shows "\<exists>z. s = a @ z # b \<and> P z \<and> (\<forall>y\<in>set b. \<not> P y)"
proof -
  obtain i where i: "position P (rev s) = Some i" "a = rev (drop (Suc i) (rev s))" "b = rev (take i (rev s))"
    using assms by (auto simp: rsplit_once_by_def split_once_by_def)
  obtain ys z zs where "rev s = ys @ z # zs" "length ys = i" "P z" "\<forall>y\<in>set ys. \<not> P y"
    using i(1) by (rule position_SomeD)
  moreover from this have "s = rev zs @ z # rev ys" by (metis append_Cons append_assoc rev.simps(2) rev_append rev_rev_ident append_Nil)
  ultimately show ?thesis using i by (intro exI [of _ z]) auto
qed

lemma rsplit_once_by_None: "rsplit_once_by P s = None \<longleftrightarrow> (\<forall>c\<in>set s. \<not> P c)"
  by (simp add: rsplit_once_by_def split_once_by_def)

text \<open>Cutting the parameters off the last segment of a path that starts with a slash.\<close>

lemma cut_params_split:
  assumes "path \<noteq> []" and "hd path = asc CHR ''/''"
  obtains params where "path = cut_params path @ params" "cut_params path \<noteq> []"
    "params = [] \<or> hd params = asc CHR '';''" "asc CHR ''/'' \<notin> set params"
proof -
  have "rsplit_once_by (\<lambda>c. c = asc CHR ''/'') path \<noteq> None"
    using assms hd_in_set unfolding rsplit_once_by_None by metis
  then obtain a seg where r: "rsplit_once_by (\<lambda>c. c = asc CHR ''/'') path = Some (a, seg)" by fastforce
  then have path: "path = a @ asc CHR ''/'' # seg" "asc CHR ''/'' \<notin> set seg"
    using rsplit_once_by_Some [OF r] by auto
  show thesis
  proof (cases "position (\<lambda>c. c = asc CHR '';'') seg")
    case None
    have "cut_params path = path" unfolding cut_params_def r Let_def option.case prod.case None ..
    then show ?thesis using that [of "[]"] assms by simp
  next
    case (Some k)
    then obtain ys zs where seg: "seg = ys @ asc CHR '';'' # zs" "length ys = k"
      by (auto elim: position_SomeD)
    have "cut_params path = a @ asc CHR ''/'' # ys"
      unfolding cut_params_def r Let_def option.case prod.case Some using seg by (simp add: path)
    then show ?thesis using that [of "asc CHR '';'' # zs"] path seg by simp
  qed
qed

lemma take_position:
  "take (case position P s of Some i \<Rightarrow> i | None \<Rightarrow> length s) s = takeWhile (\<lambda>c. \<not> P c) s"
  "drop (case position P s of Some i \<Rightarrow> i | None \<Rightarrow> length s) s = dropWhile (\<lambda>c. \<not> P c) s"
proof -
  let ?b = "case position P s of Some i \<Rightarrow> i | None \<Rightarrow> length s"
  have b: "?b \<le> length s" by (auto simp: position_Some_iff split: option.split)
  show t: "take ?b s = takeWhile (\<lambda>c. \<not> P c) s"
    using split_once_by_prefix [where P = P and s = s] unfolding split_once_by_def
    by (cases "position P s") (simp_all del: position_None_iff)
  then show "drop ?b s = dropWhile (\<lambda>c. \<not> P c) s"
    using b by (metis dropWhile_eq_drop length_take min_absorb2)
qed

lemma digest_request_target_Some:
  assumes "digest_request_target parse url = Some target"
  obtains scheme authority rest where
    "url = scheme @ authority @ rest" "scheme \<in> {lit ''http://'', lit ''https://''}" "authority \<noteq> []"
    "set authority \<inter> set (lit ''/?#'') = {}" "rest = [] \<or> hd rest \<in> set (lit ''/?#'')"
    "target = normal_target (lexical_target rest)"
proof -
  obtain remainder where strip: "strip_http_scheme url = Some remainder"
    using assms by (cases "strip_http_scheme url") (simp_all add: digest_request_target_def)
  then obtain scheme where url: "url = scheme @ remainder" "scheme \<in> {lit ''http://'', lit ''https://''}"
    by (auto simp: strip_http_scheme_def strip_prefix_def prefix_def split: option.splits if_splits)
  let ?P = "\<lambda>c. c \<in> set (lit ''/?#'')"
  let ?authority = "takeWhile (\<lambda>c. \<not> ?P c) remainder" and ?rest = "dropWhile (\<lambda>c. \<not> ?P c) remainder"
  have rest: "?rest = [] \<or> hd ?rest \<in> set (lit ''/?#'')"
    using hd_dropWhile [of "\<lambda>c. \<not> ?P c" remainder] by blast
  have eq: "?authority \<noteq> []" "target = normal_target (lexical_target ?rest)"
    using assms unfolding digest_request_target_def strip option.case Let_def take_position
    by (auto split: if_splits sum.splits option.splits)
  show thesis
    by (rule that [of scheme ?authority ?rest])
      (use url rest eq in \<open>auto simp del: lit_simps dest: set_takeWhileD\<close>)
qed

text \<open>The normal form of a target that starts with a slash.\<close>

lemma normal_target_shape:
  assumes "target \<noteq> []" and "hd target = asc CHR ''/''"
  shows "normal_target target \<noteq> [] \<and> hd (normal_target target) = asc CHR ''/'' \<and>
    set (normal_target target) \<subseteq> set target"
proof -
  have cut: "cut_params path \<noteq> [] \<and> hd (cut_params path) = asc CHR ''/'' \<and> set (cut_params path) \<subseteq> set path"
    if "path \<noteq> []" "hd path = asc CHR ''/''" for path
    using cut_params_split [OF that] that by (metis hd_append2 set_append Un_upper1)
  show ?thesis
  proof (cases "position (\<lambda>c. c = asc CHR ''?'') target")
    case None
    have "normal_target target = cut_params target"
      unfolding normal_target_def split_once_by_def None using assms(1) by simp
    then show ?thesis using cut [OF assms] by simp
  next
    case (Some i)
    then obtain path query where t: "target = path @ asc CHR ''?'' # query" "length path = i"
      by (auto elim: position_SomeD)
    then have p: "path \<noteq> []" "hd path = asc CHR ''/''" using assms(2) by (cases path; simp)+
    have "normal_target target = cut_params path @ (if query = [] then [] else asc CHR ''?'' # query)"
      unfolding normal_target_def split_once_by_def Some using t p(1)
      by (cases query) (simp_all add: Let_def)
    then show ?thesis using cut [OF p] t by (auto split: if_splits)
  qed
qed

lemma lexical_target_shape:
  assumes "rest = [] \<or> hd rest \<in> set (lit ''/?#'')"
  shows "lexical_target rest \<noteq> [] \<and> hd (lexical_target rest) = asc CHR ''/'' \<and>
    asc CHR ''#'' \<notin> set (lexical_target rest)"
proof -
  have "asc CHR ''#'' \<notin> set (takeWhile (\<lambda>c. c \<noteq> asc CHR ''#'') rest)" by (auto dest: set_takeWhileD)
  then show ?thesis using assms unfolding lexical_target_def hd_split_by Let_def by (cases rest) auto
qed

section \<open>Properties of \<open>auth.rs\<close>\<close>


text \<open>A challenge, a URL parser and hash functions to evaluate the model on.\<close>

definition sample_parse :: "rstr \<Rightarrow> ParseError + ParsedUrl" where
  "sample_parse _ =
     Inr \<lparr>url_scheme = lit ''http'', url_host_str = Some (lit ''h''), url_path = lit ''/a'', url_query = None\<rparr>"

definition sample_hashes :: hashes where
  "sample_hashes = \<lparr>h_md5 = take 16, h_sha1 = take 20, h_sha256 = take 32, h_sha512 = take 64\<rparr>"

definition sample_item :: "DigestRequest \<times> bytes \<times> bytes" where
  "sample_item =
     (\<lparr>dr_username = lit ''u'', dr_password = lit ''p'', dr_method = lit ''GET'', dr_url = lit ''http://h/a'',
       dr_challenge = \<lparr>dc_realm = lit ''r'', dc_nonce = lit ''n'', dc_qop = Some (lit ''auth''),
         dc_algorithm = None, dc_opaque = None\<rparr>\<rparr>, [], [])"


text \<open>
  The request target that enters the digest: whenever there is one, the URL is an
  \<open>http\<close> or \<open>https\<close> URL with a nonempty authority, the target starts with a slash and has no
  fragment, and it is the path and query of the URL as written, less the parameters of the last
  path segment.
\<close>

lemma digest_request_target_shape:
  assumes "digest_request_target parse url = Some target"
  shows "\<exists>scheme authority rest.
    url = scheme @ authority @ rest \<and> scheme \<in> {lit ''http://'', lit ''https://''} \<and> authority \<noteq> [] \<and>
    set authority \<inter> set (lit ''/?#'') = {} \<and>
    target = normal_target (lexical_target rest) \<and>
    target \<noteq> [] \<and> hd target = asc CHR ''/'' \<and> asc CHR ''#'' \<notin> set target"
proof -
  obtain scheme authority rest where u:
    "url = scheme @ authority @ rest" "scheme \<in> {lit ''http://'', lit ''https://''}" "authority \<noteq> []"
    "set authority \<inter> set (lit ''/?#'') = {}" "rest = [] \<or> hd rest \<in> set (lit ''/?#'')"
    "target = normal_target (lexical_target rest)"
    using assms by (rule digest_request_target_Some)
  note l = lexical_target_shape [OF u(5)]
  then have "target \<noteq> [] \<and> hd target = asc CHR ''/'' \<and> asc CHR ''#'' \<notin> set target"
    using normal_target_shape [of "lexical_target rest"] u(6) by auto
  then show ?thesis using u by blast
qed

text \<open>The first \<open>n\<close> values the iterator yields.\<close>

fun machine_run :: "nat \<Rightarrow> Digest401Machine \<Rightarrow> Digest401Step option list" where
  "machine_run 0 m = []"
| "machine_run (Suc n) m = (let (step, m') = machine_next m in step # machine_run n m')"

lemma machine_run_spec:
  "machine_index m \<le> length STEPS \<Longrightarrow>
     machine_run n m = map Some (take n (drop (machine_index m) STEPS)) @
       replicate (n - (length STEPS - machine_index m)) None"
proof (induction n arbitrary: m)
  case (Suc n)
  show ?case
  proof (cases "machine_index m < length STEPS")
    case True
    then have "drop (machine_index m) STEPS = STEPS ! machine_index m # drop (Suc (machine_index m)) STEPS"
      by (simp add: Cons_nth_drop_Suc)
    moreover have "Suc n - (length STEPS - machine_index m) = n - (length STEPS - Suc (machine_index m))"
      using True by simp
    ultimately show ?thesis using Suc.IH [of "m\<lparr>machine_index := Suc (machine_index m)\<rparr>"] True
      by (simp add: machine_next_def Let_def)
  next
    case False
    then have "machine_next m = (None, m)" by (cases m) (simp add: machine_next_def Let_def)
    then show ?thesis using Suc.IH [of m] Suc.prems False by simp
  qed
qed simp

text \<open>
  The machine of a 401 yields its eighteen steps in order, each exactly once, and nothing
  after them however often it is asked.
\<close>

lemma digest_401_steps_once:
  "distinct STEPS \<and> length STEPS = 18 \<and>
   machine_run n machine_new = map Some (take n STEPS) @ replicate (n - 18) None"
proof -
  have "length STEPS = 18" "distinct STEPS" by (simp_all add: STEPS_def)
  then show ?thesis using machine_run_spec [of machine_new n] by (simp add: machine_new_def)
qed

end
