(* ===== verification/Cookies.thy ===== *)
theory Cookies
  imports Prelude
begin

text \<open>
  The model of \<open>crates/requests/src/cookies.rs\<close>: owned snapshots of a cookie jar and the
  observations computed from them. Loops over the cookies are recursions over the list left,
  with the accumulator the code keeps.
\<close>

section \<open>Snapshots\<close>

datatype CookieScalar = CNone | CBool bool | CInteger int | CText rstr

record CookieSnapshot =
  c_name :: rstr
  c_value :: "rstr option"
  c_domain :: "rstr option"
  c_path :: "rstr option"
  c_secure :: bool
  c_expires :: "int option"
  c_discard :: bool
  c_rest :: "(rstr \<times> CookieScalar) list"

record JarSnapshot =
  cookies :: "CookieSnapshot list"

record LookupQuery =
  q_name :: rstr
  q_domain :: "rstr option"
  q_path :: "rstr option"
  q_default :: rstr

datatype LookupValue = LValue rstr | Missing | Conflict

datatype CookiePipelineStage =
    Prepare | SnapshotAfterPrepare | Hook | SnapshotAfterHook | Extract | SnapshotAfterExtract
  | Digest | SnapshotAfterDigest | Header | SnapshotAfterHeader

record SnapshotDelta =
  before :: JarSnapshot
  after :: JarSnapshot

definition jar_keys :: "JarSnapshot \<Rightarrow> rstr list" where
  "jar_keys self = map c_name (cookies self)"

definition jar_values :: "JarSnapshot \<Rightarrow> rstr option list" where
  "jar_values self = map c_value (cookies self)"

definition jar_items :: "JarSnapshot \<Rightarrow> (rstr \<times> rstr option) list" where
  "jar_items self = map (\<lambda>cookie. (c_name cookie, c_value cookie)) (cookies self)"

definition matching :: "JarSnapshot \<Rightarrow> LookupQuery \<Rightarrow> CookieSnapshot list" where
  "matching self query =
     filter (\<lambda>cookie. c_name cookie = q_name query \<and>
       (case q_domain query of None \<Rightarrow> True | Some domain \<Rightarrow> c_domain cookie = Some domain) \<and>
       (case q_path query of None \<Rightarrow> True | Some path \<Rightarrow> c_path cookie = Some path)) (cookies self)"

fun find_no_duplicates_loop :: "rstr option \<Rightarrow> CookieSnapshot list \<Rightarrow> LookupValue" where
  "find_no_duplicates_loop selected [] =
     (case selected of Some value \<Rightarrow> LValue value | None \<Rightarrow> Missing)"
| "find_no_duplicates_loop selected (cookie # rest) =
     (if selected \<noteq> None then Conflict else find_no_duplicates_loop (c_value cookie) rest)"

definition find_no_duplicates :: "JarSnapshot \<Rightarrow> LookupQuery \<Rightarrow> LookupValue" where
  "find_no_duplicates self query = find_no_duplicates_loop None (matching self query)"

text \<open>\<open>vals.iter_mut().find(..)\<close> and the write through it, or \<open>None\<close>.\<close>

fun overwrite_first :: "rstr \<Rightarrow> rstr option \<Rightarrow> (rstr \<times> rstr option) list \<Rightarrow> (rstr \<times> rstr option) list option" where
  "overwrite_first name v [] = None"
| "overwrite_first name v ((n, old) # vals) =
     (if n = name then Some ((n, v) # vals) else map_option ((#) (n, old)) (overwrite_first name v vals))"

fun get_dict_loop ::
  "rstr option \<Rightarrow> rstr option \<Rightarrow> (rstr \<times> rstr option) list \<Rightarrow> CookieSnapshot list \<Rightarrow> (rstr \<times> rstr option) list" where
  "get_dict_loop domain path vals [] = vals"
| "get_dict_loop domain path vals (cookie # rest) =
     (if (case domain of None \<Rightarrow> False | Some selected \<Rightarrow> c_domain cookie \<noteq> Some selected) \<or>
         (case path of None \<Rightarrow> False | Some selected \<Rightarrow> c_path cookie \<noteq> Some selected)
      then get_dict_loop domain path vals rest
      else
        (case overwrite_first (c_name cookie) (c_value cookie) vals of
           Some vals' \<Rightarrow> get_dict_loop domain path vals' rest
         | None \<Rightarrow> get_dict_loop domain path (vals @ [(c_name cookie, c_value cookie)]) rest))"

definition get_dict :: "JarSnapshot \<Rightarrow> rstr option \<Rightarrow> rstr option \<Rightarrow> (rstr \<times> rstr option) list" where
  "get_dict self domain path = get_dict_loop domain path [] (cookies self)"

fun distinct_loop :: "'a list \<Rightarrow> 'a list \<Rightarrow> 'a list" where
  "distinct_loop seen [] = seen"
| "distinct_loop seen (x # xs) = distinct_loop (if x \<in> set seen then seen else seen @ [x]) xs"

definition domains :: "JarSnapshot \<Rightarrow> rstr option list" where
  "domains self = distinct_loop [] (map c_domain (cookies self))"

definition paths :: "JarSnapshot \<Rightarrow> rstr option list" where
  "paths self = distinct_loop [] (map c_path (cookies self))"

fun multiple_domains_loop :: "rstr list \<Rightarrow> CookieSnapshot list \<Rightarrow> bool" where
  "multiple_domains_loop seen [] = False"
| "multiple_domains_loop seen (cookie # rest) =
     (case c_domain cookie of
        None \<Rightarrow> multiple_domains_loop seen rest
      | Some domain \<Rightarrow> if domain \<in> set seen then True else multiple_domains_loop (seen @ [domain]) rest)"

definition multiple_domains :: "JarSnapshot \<Rightarrow> bool" where
  "multiple_domains self = multiple_domains_loop [] (cookies self)"

definition changed :: "SnapshotDelta \<Rightarrow> bool" where
  "changed self \<longleftrightarrow> before self \<noteq> after self"

definition private_pipeline_stages :: "CookiePipelineStage list" where
  "private_pipeline_stages =
     [Prepare, SnapshotAfterPrepare, Hook, SnapshotAfterHook, Extract, SnapshotAfterExtract,
      Digest, SnapshotAfterDigest, Header, SnapshotAfterHeader]"

section \<open>Lemmas\<close>

text \<open>The loop conflicts as soon as a cookie follows one that has a value.\<close>

lemma find_loop_none:
  "find_no_duplicates_loop None cs =
     (if list_ex (\<lambda>c. c_value c \<noteq> None) (butlast cs) then Conflict
      else if cs = [] then Missing
      else case c_value (last cs) of Some v \<Rightarrow> LValue v | None \<Rightarrow> Missing)"
proof (induction cs)
  case (Cons c cs)
  show ?case
  proof (cases "c_value c")
    case None
    then show ?thesis using Cons by auto
  next
    case (Some v)
    then show ?thesis by (cases cs) auto
  qed
qed simp

lemma overwrite_first_None: "overwrite_first n v vals = None \<longleftrightarrow> n \<notin> fst ` set vals"
  by (induction n v vals rule: overwrite_first.induct) auto

lemma overwrite_first_Some:
  "overwrite_first n v vals = Some vals' \<Longrightarrow>
     map fst vals' = map fst vals \<and> map_of vals' = (map_of vals)(n \<mapsto> v)"
  by (induction n v vals arbitrary: vals' rule: overwrite_first.induct) (auto split: if_splits)

text \<open>One turn of the loop of \<open>get_dict\<close> on a selected cookie.\<close>

definition put :: "rstr \<Rightarrow> rstr option \<Rightarrow> (rstr \<times> rstr option) list \<Rightarrow> (rstr \<times> rstr option) list" where
  "put n v vals = (case overwrite_first n v vals of Some vals' \<Rightarrow> vals' | None \<Rightarrow> vals @ [(n, v)])"

lemma put_map: "map_of (put n v vals) = (map_of vals)(n \<mapsto> v)"
proof (cases "overwrite_first n v vals")
  case None
  then have "map_of vals n = None" by (simp add: overwrite_first_None map_of_eq_None_iff)
  then show ?thesis by (auto simp: put_def None fun_eq_iff map_add_def split: option.split)
qed (simp add: put_def overwrite_first_Some)

lemma put_distinct: "distinct (map fst vals) \<Longrightarrow> distinct (map fst (put n v vals))"
proof (cases "overwrite_first n v vals")
  case None
  assume "distinct (map fst vals)"
  moreover have "n \<notin> fst ` set vals" using None by (simp add: overwrite_first_None)
  ultimately show ?thesis by (simp add: put_def None)
qed (simp add: put_def overwrite_first_Some)

definition selected_cookies :: "rstr option \<Rightarrow> rstr option \<Rightarrow> CookieSnapshot list \<Rightarrow> CookieSnapshot list" where
  "selected_cookies domain path cs =
     filter (\<lambda>c. (domain = None \<or> c_domain c = domain) \<and> (path = None \<or> c_path c = path)) cs"

lemma get_dict_loop_fold:
  "get_dict_loop domain path vals cs =
     fold (\<lambda>c. put (c_name c) (c_value c)) (selected_cookies domain path cs) vals"
proof (induction cs arbitrary: vals)
  case (Cons c cs)
  have skip: "((case domain of None \<Rightarrow> False | Some selected \<Rightarrow> c_domain c \<noteq> Some selected) \<or>
      (case path of None \<Rightarrow> False | Some selected \<Rightarrow> c_path c \<noteq> Some selected)) \<longleftrightarrow>
      \<not> ((domain = None \<or> c_domain c = domain) \<and> (path = None \<or> c_path c = path))"
    by (auto split: option.splits)
  have step: "get_dict_loop domain path vals (c # cs) =
      get_dict_loop domain path
        (if \<not> ((domain = None \<or> c_domain c = domain) \<and> (path = None \<or> c_path c = path)) then vals
         else put (c_name c) (c_value c) vals) cs"
    unfolding get_dict_loop.simps skip
    by (cases "overwrite_first (c_name c) (c_value c) vals") (auto simp: put_def)
  show ?case unfolding step Cons by (auto simp: selected_cookies_def)
qed (simp add: selected_cookies_def)

lemma fold_put_map:
  "map_of (fold (\<lambda>c. put (c_name c) (c_value c)) cs vals) =
     map_of vals ++ map_of (rev (map (\<lambda>c. (c_name c, c_value c)) cs))"
  by (induction cs arbitrary: vals) (simp_all add: put_map)

lemma fold_put_distinct:
  "distinct (map fst vals) \<Longrightarrow> distinct (map fst (fold (\<lambda>c. put (c_name c) (c_value c)) cs vals))"
  by (induction cs arbitrary: vals) (simp_all add: put_distinct)

lemma multiple_domains_loop_iff:
  "distinct seen \<Longrightarrow> multiple_domains_loop seen cs \<longleftrightarrow> \<not> distinct (seen @ List.map_filter c_domain cs)"
proof (induction seen cs rule: multiple_domains_loop.induct)
  case (2 seen c cs)
  then show ?case by (auto simp: List.map_filter_simps split: option.split)
qed (simp add: List.map_filter_simps)

lemma distinct_loop_remdups:
  "distinct seen \<Longrightarrow> distinct (distinct_loop seen xs) \<and> set (distinct_loop seen xs) = set seen \<union> set xs"
  by (induction seen xs rule: distinct_loop.induct) auto

section \<open>Properties of \<open>cookies.rs\<close>\<close>

text \<open>
  The observations of a jar: a lookup conflicts exactly when a matching cookie that is not
  the last match has a value, and otherwise gives the value of the last match; \<open>get_dict\<close> has one
  entry per name, the value of the last selected cookie of that name, and no other entry;
  \<open>multiple_domains\<close> holds exactly when some domain occurs twice.
\<close>

lemma jar_observations:
  "(find_no_duplicates jar q = Conflict \<longleftrightarrow> (\<exists>c\<in>set (butlast (matching jar q)). c_value c \<noteq> None)) \<and>
   (find_no_duplicates jar q = LValue v \<longleftrightarrow>
      (\<forall>c\<in>set (butlast (matching jar q)). c_value c = None) \<and> matching jar q \<noteq> [] \<and>
      c_value (last (matching jar q)) = Some v) \<and>
   distinct (map fst (get_dict jar d p)) \<and>
   (\<forall>n. map_of (get_dict jar d p) n =
      map_option c_value (find (\<lambda>c. c_name c = n) (rev (selected_cookies d p (cookies jar))))) \<and>
   (multiple_domains jar \<longleftrightarrow> \<not> distinct (List.map_filter c_domain (cookies jar)))"
proof (intro conjI allI)
  show "find_no_duplicates jar q = Conflict \<longleftrightarrow> (\<exists>c\<in>set (butlast (matching jar q)). c_value c \<noteq> None)"
    unfolding find_no_duplicates_def find_loop_none by (auto simp: list_ex_iff split: option.splits)
  show "find_no_duplicates jar q = LValue v \<longleftrightarrow>
      (\<forall>c\<in>set (butlast (matching jar q)). c_value c = None) \<and> matching jar q \<noteq> [] \<and>
      c_value (last (matching jar q)) = Some v"
    unfolding find_no_duplicates_def find_loop_none by (auto simp: list_ex_iff split: option.splits)
  show "distinct (map fst (get_dict jar d p))"
    unfolding get_dict_def get_dict_loop_fold by (rule fold_put_distinct) simp
  have "map_of (map (\<lambda>c. (c_name c, c_value c)) cs) n = map_option c_value (find (\<lambda>c. c_name c = n) cs)" for cs n
    by (induction cs) auto
  then show "map_of (get_dict jar d p) n =
      map_option c_value (find (\<lambda>c. c_name c = n) (rev (selected_cookies d p (cookies jar))))" for n
    unfolding get_dict_def get_dict_loop_fold fold_put_map by (simp add: rev_map)
  show "multiple_domains jar \<longleftrightarrow> \<not> distinct (List.map_filter c_domain (cookies jar))"
    unfolding multiple_domains_def by (simp add: multiple_domains_loop_iff)
qed

end
