(* ===== verification/Hooks.thy ===== *)
theory Hooks
  imports Prelude
begin

text \<open>
  The model of \<open>crates/requests/src/hooks.rs\<close>: the order in which hooks are called and the value
  each of them receives. An index is a \<open>usize\<close> of 64 bits.
\<close>

type_synonym HookId = u64
type_synonym HookValueId = u64

record HookCall =
  hc_hook :: HookId
  hc_value :: HookValueId

record HookRegistry =
  next_hook :: u64
  current_value :: HookValueId

definition hook_new :: "HookValueId \<Rightarrow> HookRegistry" where
  "hook_new initial_value = \<lparr>next_hook = 0, current_value = initial_value\<rparr>"

definition next_call :: "HookRegistry \<Rightarrow> HookCall \<times> HookRegistry" where
  "next_call self =
     (\<lparr>hc_hook = next_hook self, hc_value = current_value self\<rparr>, self\<lparr>next_hook := next_hook self + 1\<rparr>)"

definition hook_replace :: "HookRegistry \<Rightarrow> HookValueId \<Rightarrow> HookRegistry" where
  "hook_replace self value = self\<lparr>current_value := value\<rparr>"

text \<open>A dispatch: each hook is called in turn and may return a replacement value.\<close>

fun dispatch :: "HookRegistry \<Rightarrow> HookValueId option list \<Rightarrow> HookCall list \<times> HookRegistry" where
  "dispatch reg [] = ([], reg)"
| "dispatch reg (r # rs) =
     (let (call, reg1) = next_call reg;
          reg2 = (case r of None \<Rightarrow> reg1 | Some v \<Rightarrow> hook_replace reg1 v);
          (calls, reg3) = dispatch reg2 rs
      in (call # calls, reg3))"

text \<open>The value in force after some of the hooks: the last replacement, else the initial value.\<close>

definition value_after :: "HookValueId \<Rightarrow> HookValueId option list \<Rightarrow> HookValueId" where
  "value_after v rs = last (v # List.map_filter id rs)"

lemma value_after_Cons: "value_after v (r # rs) = value_after (case r of None \<Rightarrow> v | Some w \<Rightarrow> w) rs"
  by (cases r) (simp_all add: value_after_def List.map_filter_simps)

lemma value_after_Nil: "value_after v [] = v"
  by (simp add: value_after_def List.map_filter_simps)

lemma dispatch_spec:
  "fst (dispatch reg rs) =
     map (\<lambda>i. \<lparr>hc_hook = next_hook reg + of_nat i, hc_value = value_after (current_value reg) (take i rs)\<rparr>)
       [0..<length rs] \<and>
   current_value (snd (dispatch reg rs)) = value_after (current_value reg) rs"
proof (induction rs arbitrary: reg)
  case (Cons r rs)
  let ?v = "case r of None \<Rightarrow> current_value reg | Some w \<Rightarrow> w"
  have d: "dispatch reg (r # rs) =
      (let (calls, reg') = dispatch \<lparr>next_hook = next_hook reg + 1, current_value = ?v\<rparr> rs in
       (\<lparr>hc_hook = next_hook reg, hc_value = current_value reg\<rparr> # calls, reg'))"
    by (cases reg; cases r) (simp_all add: next_call_def hook_replace_def)
  have "[0..<length (r # rs)] = 0 # map Suc [0..<length rs]"
    by (simp add: upt_conv_Cons map_Suc_upt del: upt_Suc)
  then show ?case
    using Cons.IH [of "\<lparr>next_hook = next_hook reg + 1, current_value = ?v\<rparr>"]
    by (simp add: d case_prod_beta Let_def value_after_Cons value_after_Nil o_def add.assoc del: dispatch.simps)
qed (simp add: value_after_def List.map_filter_simps)

section \<open>Property of \<open>hooks.rs\<close>\<close>

text \<open>
  Hooks are called in order and see the right value: in a dispatch of \<open>n\<close> hooks (fewer than
  \<open>2 ^ 64\<close>) the call of hook \<open>i\<close> carries the identifier \<open>i\<close>, all identifiers differ, its value is
  the last replacement returned by the hooks before it, and the value left at the end is the
  last replacement of all.
\<close>

lemma hook_dispatch_order:
  assumes "length rs < 2 ^ 64"
  shows "map (\<lambda>c. unat (hc_hook c)) (fst (dispatch (hook_new v) rs)) = [0..<length rs] \<and>
    (\<forall>i<length rs. hc_value (fst (dispatch (hook_new v) rs) ! i) = value_after v (take i rs)) \<and>
    current_value (snd (dispatch (hook_new v) rs)) = value_after v rs"
proof -
  have "unat (word_of_nat i :: u64) = i" if "i < length rs" for i
    using that assms by (simp add: unat_of_nat)
  then show ?thesis using dispatch_spec [of "hook_new v" rs]
    by (auto simp: hook_new_def o_def intro!: map_idI)
qed

end
