(* ===== verification/Retry.thy ===== *)
theory Retry
  imports Prelude Complex_Main
begin

text \<open>
  The model of \<open>crates/requests/src/retry.rs\<close>: retry budgets, the history and the backoff. An
  \<open>f64\<close> is a rational, an infinity or a NaN; the rounding of a product or a sum is an argument,
  and the two zeros are not told apart.
\<close>

section \<open>Floating point\<close>

datatype f64 = NaN | NegInf | Fin rat | PosInf

fun f64_less :: "f64 \<Rightarrow> f64 \<Rightarrow> bool" where
  "f64_less (Fin a) (Fin b) \<longleftrightarrow> a < b"
| "f64_less NegInf y \<longleftrightarrow> y \<noteq> NegInf \<and> y \<noteq> NaN"
| "f64_less x PosInf \<longleftrightarrow> x \<noteq> PosInf \<and> x \<noteq> NaN"
| "f64_less _ _ \<longleftrightarrow> False"

text \<open>\<open>f64::min\<close> and \<open>f64::max\<close>: a NaN is ignored when the other argument is a number.\<close>

definition f64_min :: "f64 \<Rightarrow> f64 \<Rightarrow> f64" where
  "f64_min x y = (if x = NaN then y else if y = NaN then x else if f64_less y x then y else x)"

definition f64_max :: "f64 \<Rightarrow> f64 \<Rightarrow> f64" where
  "f64_max x y = (if x = NaN then y else if y = NaN then x else if f64_less x y then y else x)"

definition f64_sign :: "f64 \<Rightarrow> rat" where
  "f64_sign x = (case x of NaN \<Rightarrow> 0 | NegInf \<Rightarrow> - 1 | Fin a \<Rightarrow> sgn a | PosInf \<Rightarrow> 1)"

fun f64_mul :: "(rat \<Rightarrow> f64) \<Rightarrow> f64 \<Rightarrow> f64 \<Rightarrow> f64" where
  "f64_mul rnd (Fin a) (Fin b) = rnd (a * b)"
| "f64_mul rnd NaN _ = NaN"
| "f64_mul rnd _ NaN = NaN"
| "f64_mul rnd x y =
     (let s = f64_sign x * f64_sign y in if s = 0 then NaN else if s < 0 then NegInf else PosInf)"

fun f64_add :: "(rat \<Rightarrow> f64) \<Rightarrow> f64 \<Rightarrow> f64 \<Rightarrow> f64" where
  "f64_add rnd (Fin a) (Fin b) = rnd (a + b)"
| "f64_add rnd NaN _ = NaN"
| "f64_add rnd _ NaN = NaN"
| "f64_add rnd PosInf y = (if y = NegInf then NaN else PosInf)"
| "f64_add rnd NegInf y = (if y = PosInf then NaN else NegInf)"
| "f64_add rnd _ y = y"

section \<open>Counters\<close>

datatype RetryCount = Unlimited | Boolean bool | Limited u32

definition decrement :: "RetryCount \<Rightarrow> RetryCount option" where
  "decrement self =
     (case self of
        Unlimited \<Rightarrow> Some Unlimited
      | Boolean True \<Rightarrow> Some (Limited 0)
      | Boolean False \<Rightarrow> None
      | Limited remaining \<Rightarrow> if remaining = 0 then None else Some (Limited (remaining - 1)))"

definition is_truthy :: "RetryCount \<Rightarrow> bool" where
  "is_truthy self =
     (case self of Boolean b \<Rightarrow> b | Limited remaining \<Rightarrow> 1 \<le> remaining | Unlimited \<Rightarrow> False)"

section \<open>Policies\<close>

text \<open>\<open>BTreeSet\<close> as a set.\<close>

type_synonym MethodSet = "rstr set"
type_synonym StatusSet = "u16 set"

definition method_set_new :: "rstr list \<Rightarrow> MethodSet" where
  "method_set_new methods = set methods"

definition method_set_allows :: "MethodSet \<Rightarrow> rstr \<Rightarrow> bool" where
  "method_set_allows self method \<longleftrightarrow> self = {} \<or> map to_ascii_uppercase method \<in> self"

definition status_set_new :: "u16 list \<Rightarrow> StatusSet" where
  "status_set_new statuses = set statuses"

record BackoffPolicy =
  factor :: f64
  maximum :: "f64 option"
  jitter :: f64

record RetryPolicy =
  total_count :: RetryCount
  connect_count :: RetryCount
  read_count :: RetryCount
  status_count :: RetryCount
  redirect_count :: RetryCount
  other_count :: RetryCount
  allowed_methods :: "MethodSet option"
  status_forcelist :: StatusSet
  backoff_policy :: BackoffPolicy
  respect_retry_after :: bool
  raise_on_status :: bool
  raise_on_redirect :: bool

datatype RetryReason = RConnect | RRead | RStatus u16 | RRedirect u16 | ROther

record RetryHistory =
  hist_reason :: RetryReason
  hist_method :: rstr
  hist_url :: rstr
  hist_redirect_location :: "rstr option"

datatype RetryFailure = Exhausted RetryReason

record RetryState =
  remaining :: RetryPolicy
  history :: "RetryHistory list"

definition retry_new :: "RetryPolicy \<Rightarrow> RetryState" where
  "retry_new policy = \<lparr>remaining = policy, history = []\<rparr>"

definition with_history :: "RetryPolicy \<Rightarrow> RetryHistory list \<Rightarrow> RetryState" where
  "with_history policy hist = \<lparr>remaining = policy, history = hist\<rparr>"

definition allows_method :: "RetryState \<Rightarrow> rstr \<Rightarrow> bool" where
  "allows_method self method =
     (case allowed_methods (remaining self) of
        None \<Rightarrow> True
      | Some methods \<Rightarrow> method_set_allows methods method)"

definition is_retry :: "RetryState \<Rightarrow> rstr \<Rightarrow> u16 \<Rightarrow> bool \<Rightarrow> bool" where
  "is_retry self method status has_retry_after \<longleftrightarrow>
     allows_method self method \<and>
     (status \<in> status_forcelist (remaining self) \<or>
      (respect_retry_after (remaining self) \<and> is_truthy (total_count (remaining self)) \<and>
       has_retry_after \<and> status \<in> {413, 429, 503}))"

definition consumed_reason :: "RetryReason \<Rightarrow> rstr option \<Rightarrow> RetryReason" where
  "consumed_reason reason redirect_location =
     (case (reason, redirect_location) of
        (RStatus status, Some location) \<Rightarrow>
          if location \<noteq> [] \<and> status \<in> {301, 302, 303, 307, 308} then RRedirect status else reason
      | _ \<Rightarrow> reason)"

text \<open>The counter a reason selects: its value, and a write through the mutable borrow.\<close>

definition reason_counter :: "RetryReason \<Rightarrow> RetryPolicy \<Rightarrow> RetryCount" where
  "reason_counter reason p =
     (case reason of
        RConnect \<Rightarrow> connect_count p
      | RRead \<Rightarrow> read_count p
      | RStatus _ \<Rightarrow> status_count p
      | RRedirect _ \<Rightarrow> redirect_count p
      | ROther \<Rightarrow> other_count p)"

definition set_reason_counter :: "RetryReason \<Rightarrow> RetryCount \<Rightarrow> RetryPolicy \<Rightarrow> RetryPolicy" where
  "set_reason_counter reason c p =
     (case reason of
        RConnect \<Rightarrow> p\<lparr>connect_count := c\<rparr>
      | RRead \<Rightarrow> p\<lparr>read_count := c\<rparr>
      | RStatus _ \<Rightarrow> p\<lparr>status_count := c\<rparr>
      | RRedirect _ \<Rightarrow> p\<lparr>redirect_count := c\<rparr>
      | ROther \<Rightarrow> p\<lparr>other_count := c\<rparr>)"

definition increment ::
  "RetryState \<Rightarrow> RetryReason \<Rightarrow> rstr \<Rightarrow> rstr \<Rightarrow> rstr option \<Rightarrow> RetryFailure + RetryState" where
  "increment self reason method url redirect_location =
     (let consumed = consumed_reason reason redirect_location in
      case decrement (total_count (remaining self)) of
        None \<Rightarrow> Inl (Exhausted consumed)
      | Some t \<Rightarrow>
          let left = (remaining self)\<lparr>total_count := t\<rparr> in
          case decrement (reason_counter consumed left) of
            None \<Rightarrow> Inl (Exhausted consumed)
          | Some c \<Rightarrow>
              Inr \<lparr>remaining = set_reason_counter consumed c left,
                   history = history self @
                     [\<lparr>hist_reason = consumed, hist_method = method, hist_url = url,
                       hist_redirect_location = redirect_location\<rparr>]\<rparr>)"

definition is_redirect :: "RetryReason \<Rightarrow> bool" where
  "is_redirect reason = (case reason of RRedirect _ \<Rightarrow> True | _ \<Rightarrow> False)"

definition consecutive_errors :: "RetryState \<Rightarrow> nat" where
  "consecutive_errors self =
     length (takeWhile (\<lambda>item. \<not> is_redirect (hist_reason item)) (rev (history self)))"

text \<open>\<open>i32::try_from(n).unwrap_or(i32::MAX)\<close> and \<open>2_f64.powi\<close>.\<close>

definition clamp_i32 :: "nat \<Rightarrow> nat" where
  "clamp_i32 n = (if n < 2 ^ 31 then n else 2 ^ 31 - 1)"

definition pow2 :: "nat \<Rightarrow> f64" where
  "pow2 e = (if e < 1024 then Fin (2 ^ e) else PosInf)"

definition backoff :: "(rat \<Rightarrow> f64) \<Rightarrow> RetryState \<Rightarrow> f64 \<Rightarrow> f64" where
  "backoff rnd self random_unit =
     (let errors = consecutive_errors self in
      if errors \<le> 1 then Fin 0
      else
        let exponent = clamp_i32 (errors - 1);
            b = backoff_policy (remaining self);
            delay = f64_add rnd (f64_mul rnd (factor b) (pow2 exponent)) (f64_mul rnd (jitter b) random_unit);
            capped = (case maximum b of None \<Rightarrow> delay | Some m \<Rightarrow> f64_min delay m) in
        f64_max capped (Fin 0))"

definition should_observe_random :: "RetryState \<Rightarrow> bool" where
  "should_observe_random self \<longleftrightarrow>
     consecutive_errors self > 1 \<and> f64_less (Fin 0) (jitter (backoff_policy (remaining self)))"

section \<open>Runs of increments\<close>

text \<open>One retry as the caller reports it, and a run of them that stops at the first failure.\<close>

record retry_event =
  ev_reason :: RetryReason
  ev_method :: rstr
  ev_url :: rstr
  ev_redirect_location :: "rstr option"

definition ev_consumed :: "retry_event \<Rightarrow> RetryReason" where
  "ev_consumed e = consumed_reason (ev_reason e) (ev_redirect_location e)"

fun increments :: "RetryState \<Rightarrow> retry_event list \<Rightarrow> RetryFailure + RetryState" where
  "increments st [] = Inr st"
| "increments st (e # es) =
     (case increment st (ev_reason e) (ev_method e) (ev_url e) (ev_redirect_location e) of
        Inl f \<Rightarrow> Inl f
      | Inr st' \<Rightarrow> increments st' es)"

text \<open>How often a count can be decremented, and which of the five counters a reason uses.\<close>

definition affords :: "RetryCount \<Rightarrow> nat \<Rightarrow> bool" where
  "affords c n =
     (case c of Unlimited \<Rightarrow> True | Boolean b \<Rightarrow> n \<le> (if b then 1 else 0) | Limited k \<Rightarrow> n \<le> unat k)"

definition same_counter :: "RetryReason \<Rightarrow> RetryReason \<Rightarrow> bool" where
  "same_counter r r' \<longleftrightarrow>
     (case (r, r') of
        (RConnect, RConnect) \<Rightarrow> True | (RRead, RRead) \<Rightarrow> True | (RStatus _, RStatus _) \<Rightarrow> True
      | (RRedirect _, RRedirect _) \<Rightarrow> True | (ROther, ROther) \<Rightarrow> True | _ \<Rightarrow> False)"

definition uses :: "RetryReason \<Rightarrow> retry_event list \<Rightarrow> nat" where
  "uses r es = length (filter (\<lambda>e. same_counter r (ev_consumed e)) es)"

lemma affords_Suc: "affords c (Suc n) \<longleftrightarrow> (\<exists>c'. decrement c = Some c' \<and> affords c' n)"
proof (cases c)
  case (Limited k)
  show ?thesis
  proof (cases "k = 0")
    case False
    then have "unat (k - 1) = unat k - 1" "unat k \<noteq> 0"
      by (simp_all add: unat_eq_zero unat_minus_one)
    then show ?thesis using Limited False by (auto simp: affords_def decrement_def)
  qed (simp add: Limited affords_def decrement_def)
qed (auto simp: affords_def decrement_def split: bool.splits)

lemma affords_0 [simp]: "affords c 0"
  by (cases c) (simp_all add: affords_def)

lemma reason_counter_set:
  "reason_counter r (set_reason_counter r' c p) = (if same_counter r r' then c else reason_counter r p)"
  "total_count (set_reason_counter r' c p) = total_count p"
  "reason_counter r (p\<lparr>total_count := t\<rparr>) = reason_counter r p"
  by (cases r; cases r'; simp add: reason_counter_def set_reason_counter_def same_counter_def)+

lemma same_counter_reason: "same_counter r r' \<Longrightarrow> reason_counter r p = reason_counter r' p"
  by (cases r; cases r'; simp add: reason_counter_def same_counter_def)

lemma same_counter_refl [simp]: "same_counter r r"
  by (cases r) (simp_all add: same_counter_def)

lemma uses_Cons: "uses r (e # es) = (if same_counter r (ev_consumed e) then Suc (uses r es) else uses r es)"
  by (simp add: uses_def)

lemma increments_iff:
  "(\<exists>st'. increments st es = Inr st') \<longleftrightarrow>
     affords (total_count (remaining st)) (length es) \<and> (\<forall>r. affords (reason_counter r (remaining st)) (uses r es))"
proof (induction es arbitrary: st)
  case (Cons e es)
  let ?c = "ev_consumed e" and ?p = "remaining st"
  show ?case
  proof (cases "decrement (total_count ?p)")
    case None
    then have "\<not> affords (total_count ?p) (Suc (length es))" by (simp add: affords_Suc)
    then show ?thesis using None by (simp add: increment_def ev_consumed_def Let_def)
  next
    case (Some t)
    show ?thesis
    proof (cases "decrement (reason_counter ?c ?p)")
      case None
      then have "\<not> affords (reason_counter ?c ?p) (uses ?c (e # es))" by (simp add: uses_Cons affords_Suc)
      then show ?thesis using None Some
        by (auto simp: increment_def ev_consumed_def Let_def reason_counter_set)
    next
      case (Some c)
      note tot = \<open>decrement (total_count ?p) = Some t\<close>
      let ?p' = "set_reason_counter ?c c (?p\<lparr>total_count := t\<rparr>)"
      have step: "(\<exists>st'. increments st (e # es) = Inr st') \<longleftrightarrow>
          affords (total_count ?p') (length es) \<and> (\<forall>r. affords (reason_counter r ?p') (uses r es))"
        using Some tot Cons.IH
        by (simp add: increment_def ev_consumed_def Let_def reason_counter_set)
      have "affords (reason_counter r ?p') (uses r es) \<longleftrightarrow> affords (reason_counter r ?p) (uses r (e # es))" for r
        using Some same_counter_reason [of r ?c ?p]
        by (simp add: reason_counter_set uses_Cons affords_Suc)
      then show ?thesis using tot unfolding step by (simp add: reason_counter_set affords_Suc)
    qed
  qed
qed (simp add: uses_def)

lemma increments_history:
  "increments st es = Inr st' \<Longrightarrow>
     history st' = history st @ map (\<lambda>e. \<lparr>hist_reason = ev_consumed e, hist_method = ev_method e,
       hist_url = ev_url e, hist_redirect_location = ev_redirect_location e\<rparr>) es"
  by (induction es arbitrary: st)
    (auto simp: increment_def ev_consumed_def Let_def split: option.splits sum.splits)

section \<open>Properties of \<open>retry.rs\<close>\<close>

text \<open>
  C24. The retry budget is exact: a sequence of retries is granted if and only if the total count
  affords its length and every counter affords the retries charged to it (a redirect status
  with a location is charged to the redirect counter); and what is granted is what the history
  records, in order.
\<close>

theorem retry_budget_exact:
  "((\<exists>st'. increments st es = Inr st') \<longleftrightarrow>
     affords (total_count (remaining st)) (length es) \<and> (\<forall>r. affords (reason_counter r (remaining st)) (uses r es))) \<and>
   (\<forall>st'. increments st es = Inr st' \<longrightarrow>
     map hist_reason (history st') = map hist_reason (history st) @ map ev_consumed es)"
  using increments_iff increments_history by (auto simp: o_def)

theorem retry_budget_exact_witness:
  "\<not> (\<exists>st'. increments \<lparr>remaining = \<lparr>total_count = Limited 2, connect_count = Limited 1, read_count = Unlimited,
       status_count = Unlimited, redirect_count = Boolean False, other_count = Unlimited, allowed_methods = None,
       status_forcelist = {}, backoff_policy = \<lparr>factor = Fin 0, maximum = None, jitter = Fin 0\<rparr>,
       respect_retry_after = True, raise_on_status = True, raise_on_redirect = True\<rparr>, history = []\<rparr>
     [\<lparr>ev_reason = RStatus 302, ev_method = lit ''GET'', ev_url = lit ''/'', ev_redirect_location = Some (lit ''/b'')\<rparr>] =
       Inr st')"
proof -
  let ?e = "\<lparr>ev_reason = RStatus 302, ev_method = lit ''GET'', ev_url = lit ''/'',
      ev_redirect_location = Some (lit ''/b'')\<rparr>"
  have "uses (RRedirect 0) [?e] = 1"
    by (simp add: uses_def ev_consumed_def consumed_reason_def same_counter_def)
  moreover have "\<not> affords (Boolean False) 1" by (simp add: affords_def)
  ultimately show ?thesis
    unfolding conjunct1 [OF retry_budget_exact]
    by (auto intro!: exI [of _ "RRedirect 0"] simp: reason_counter_def)
qed

text \<open>
  C40. The backoff is never negative and never a NaN, it is zero until two errors follow each
  other without a redirect between them, and a policy's maximum bounds it, whatever the
  factor, the jitter, the random number and the rounding of the float operations.
\<close>

theorem backoff_bounded:
  "backoff rnd st u \<noteq> NaN \<and> \<not> f64_less (backoff rnd st u) (Fin 0) \<and>
   (consecutive_errors st \<le> 1 \<longrightarrow> backoff rnd st u = Fin 0) \<and>
   (\<forall>m. maximum (backoff_policy (remaining st)) = Some (Fin m) \<and> 0 \<le> m \<longrightarrow>
      \<not> f64_less (Fin m) (backoff rnd st u))"
proof -
  have max: "f64_max x (Fin 0) \<noteq> NaN \<and> \<not> f64_less (f64_max x (Fin 0)) (Fin 0)" for x
    by (cases x) (auto simp: f64_max_def)
  have min: "\<not> f64_less (Fin m) (f64_max (f64_min x (Fin m)) (Fin 0))" if "0 \<le> m" for x m
    using that by (cases x) (auto simp: f64_max_def f64_min_def)
  show ?thesis using max min by (simp add: backoff_def Let_def)
qed

theorem backoff_bounded_witness:
  "\<not> f64_less (Fin 120) (backoff Fin
     \<lparr>remaining = \<lparr>total_count = Unlimited, connect_count = Unlimited, read_count = Unlimited,
       status_count = Unlimited, redirect_count = Unlimited, other_count = Unlimited, allowed_methods = None,
       status_forcelist = {}, backoff_policy = \<lparr>factor = Fin 100, maximum = Some (Fin 120), jitter = Fin 0\<rparr>,
       respect_retry_after = True, raise_on_status = True, raise_on_redirect = True\<rparr>,
      history = replicate 3 \<lparr>hist_reason = RRead, hist_method = lit ''GET'', hist_url = lit ''/'',
        hist_redirect_location = None\<rparr>\<rparr> (Fin 0))"
  using backoff_bounded [of Fin] by simp

end
