(* ===== verification/Once.thy ===== *)
theory Once
  imports Main
begin

text \<open>
  The contract of a component that makes one irrevocable decision, releases one resource or
  finishes one exchange: once it is finished no step changes it, and the step that finishes it
  is the only one that may have the effect. The response disposition, the active exchange of
  a session and the submission of a future are interpretations.
\<close>

locale once =
  fixes step :: "'s \<Rightarrow> 'e \<Rightarrow> 's"
    and finished :: "'s \<Rightarrow> bool"
    and effects :: "'s \<Rightarrow> nat"
  assumes absorbing: "finished s \<Longrightarrow> finished (step s e) \<and> effects (step s e) = effects s"
    and effect_finishes: "\<not> finished s \<Longrightarrow> effects (step s e) \<le> effects s + (if finished (step s e) then 1 else 0)"
begin

lemma run_finished:
  "finished s \<Longrightarrow> finished (foldl step s es) \<and> effects (foldl step s es) = effects s"
  by (induction es arbitrary: s) (use absorbing in auto)

lemma run_at_most_once:
  assumes "\<not> finished s"
  shows "effects (foldl step s es) \<le> effects s + (if finished (foldl step s es) then 1 else 0)"
  using assms
proof (induction es arbitrary: s)
  case (Cons e es)
  show ?case
  proof (cases "finished (step s e)")
    case True
    then show ?thesis using run_finished [OF True, of es] effect_finishes [OF Cons.prems, of e] by simp
  next
    case False
    then show ?thesis using Cons.IH [OF False] effect_finishes [OF Cons.prems, of e] by simp
  qed
qed simp

lemma run_effects_le: "effects (foldl step s es) \<le> effects s + 1"
  using run_finished [of s es] run_at_most_once [of s es] by (cases "finished s") (auto split: if_splits)

end

end
