(* ===== verification/Session_Runtime.thy ===== *)
theory Session_Runtime
  imports Prelude Once
begin

text \<open>
  The model of \<open>crates/requests/src/session_runtime.rs\<close>: process-wide identities, checkpoints
  and the bookkeeping of exchanges and request observations. The process holds the counter
  \<open>NEXT_RUNTIME_IDENTITY\<close>; a harness holds its own identities, its sequence counter, the queue
  and the table of observations; what the hooks are shown is the list \<open>shown\<close>. A panic
  (\<open>expect\<close>) is \<open>None\<close>; an \<open>await\<close> that finds nothing is \<open>None\<close> in \<open>claim_step\<close> and in
  \<open>wait_observed_step\<close>.
\<close>

section \<open>Identities\<close>

record process =
  process_id :: u32
  next_runtime_identity :: u64

definition next_process_identity :: "process \<Rightarrow> u64 \<times> process" where
  "next_process_identity p =
     (push_bit 32 (ucast (process_id p) :: u64) OR (next_runtime_identity p AND 0xFFFFFFFF),
      p\<lparr>next_runtime_identity := next_runtime_identity p + 1\<rparr>)"

datatype SessionPhase =
    ConnectBlocked | ConnectReadyRace | ResponseHead | ResponseRemainder | OriginUploadQueued
  | OriginUploadExecuted | OriginUploadReply | PoolAcquire | PoolReleaseClean | PoolReleaseDirty
  | PoolClear | WorkerEntered | WorkerDropped

record SessionCheckpoint =
  cp_phase :: SessionPhase
  cp_runtime :: u64
  cp_pool :: u64
  cp_connection :: "u64 option"
  cp_lease :: "u64 option"
  cp_generation :: u64
  cp_correlation :: u64
  cp_sequence :: u64

record SessionExchangeIdentity =
  ei_connection :: u64
  ei_lease :: u64
  ei_correlation :: u64

record SessionRuntimeHarness =
  runtime_identity :: u64
  pool_identity :: u64
  generation :: u64
  next_sequence :: u64
  pending :: "u64 list"
  observed_entries :: "u64 \<rightharpoonup> bool"
  shown :: "SessionCheckpoint list"

definition harness_new :: "process \<Rightarrow> SessionRuntimeHarness \<times> process" where
  "harness_new p =
     (let (runtime, p) = next_process_identity p;
          (pool, p) = next_process_identity p;
          (gen, p) = next_process_identity p in
      (\<lparr>runtime_identity = runtime, pool_identity = pool, generation = gen, next_sequence = 1,
        pending = [], observed_entries = Map.empty, shown = []\<rparr>, p))"

section \<open>Checkpoints\<close>

definition checkpoint ::
  "SessionRuntimeHarness \<Rightarrow> SessionPhase \<Rightarrow> u64 option \<Rightarrow> u64 option \<Rightarrow> u64 \<Rightarrow>
   SessionCheckpoint \<times> SessionRuntimeHarness" where
  "checkpoint self phase connection lease correlation =
     (\<lparr>cp_phase = phase, cp_runtime = runtime_identity self, cp_pool = pool_identity self,
       cp_connection = connection, cp_lease = lease, cp_generation = generation self,
       cp_correlation = correlation, cp_sequence = next_sequence self\<rparr>,
      self\<lparr>next_sequence := next_sequence self + 1\<rparr>)"

definition observe :: "SessionRuntimeHarness \<Rightarrow> SessionCheckpoint \<Rightarrow> SessionRuntimeHarness" where
  "observe self cp = self\<lparr>shown := shown self @ [cp]\<rparr>"

definition harness_clear_pool :: "SessionRuntimeHarness \<Rightarrow> SessionRuntimeHarness" where
  "harness_clear_pool self = (let (cp, self) = checkpoint self PoolClear None None 0 in observe self cp)"

section \<open>Exchanges\<close>

record SessionExchangeReservation =
  rs_identity :: SessionExchangeIdentity
  rs_promoted :: bool

record SessionActiveExchange =
  ax_identity :: SessionExchangeIdentity
  ax_released :: bool

definition reserve_exchange :: "process \<Rightarrow> SessionExchangeReservation \<times> process" where
  "reserve_exchange p =
     (let (connection, p) = next_process_identity p;
          (lease, p) = next_process_identity p;
          (correlation, p) = next_process_identity p in
      (\<lparr>rs_identity = \<lparr>ei_connection = connection, ei_lease = lease, ei_correlation = correlation\<rparr>,
        rs_promoted = False\<rparr>, p))"

definition identity_checkpoint ::
  "SessionRuntimeHarness \<Rightarrow> SessionExchangeIdentity \<Rightarrow> SessionPhase \<Rightarrow> SessionCheckpoint \<times> SessionRuntimeHarness" where
  "identity_checkpoint h i phase = checkpoint h phase (Some (ei_connection i)) (Some (ei_lease i)) (ei_correlation i)"

definition promote :: "SessionExchangeReservation \<Rightarrow> SessionExchangeIdentity \<times> SessionExchangeReservation" where
  "promote self = (rs_identity self, self\<lparr>rs_promoted := True\<rparr>)"

definition activate :: "SessionExchangeReservation \<Rightarrow> SessionActiveExchange \<times> SessionExchangeReservation" where
  "activate self = (\<lparr>ax_identity = rs_identity self, ax_released = False\<rparr>, self\<lparr>rs_promoted := True\<rparr>)"

definition release_inner ::
  "SessionActiveExchange \<times> SessionRuntimeHarness \<Rightarrow> SessionActiveExchange \<times> SessionRuntimeHarness" where
  "release_inner s =
     (case s of (self, h) \<Rightarrow>
        if ax_released self then (self, h)
        else
          let self = self\<lparr>ax_released := True\<rparr>;
              (cp, h) = identity_checkpoint h (ax_identity self) PoolReleaseClean in
          (self, observe h cp))"

definition drop_reservation ::
  "SessionExchangeReservation \<Rightarrow> SessionRuntimeHarness \<Rightarrow> SessionRuntimeHarness" where
  "drop_reservation self h =
     (if rs_promoted self then h
      else let (cp, h) = identity_checkpoint h (rs_identity self) PoolReleaseDirty in observe h cp)"

section \<open>Request observations\<close>

definition begin_request_observation ::
  "SessionRuntimeHarness \<Rightarrow> process \<Rightarrow> u64 \<times> SessionRuntimeHarness \<times> process" where
  "begin_request_observation self p =
     (let (correlation, p) = next_process_identity p in
      (correlation,
       self\<lparr>observed_entries := (observed_entries self)(correlation \<mapsto> False),
            pending := pending self @ [correlation]\<rparr>, p))"

text \<open>One turn of the loop of \<open>claim_request_observation\<close>: the front of the queue, or a wait.\<close>

definition claim_step :: "SessionRuntimeHarness \<Rightarrow> (u64 \<times> SessionRuntimeHarness) option" where
  "claim_step self =
     (case pending self of
        [] \<Rightarrow> None
      | correlation # rest \<Rightarrow> Some (correlation, self\<lparr>pending := rest\<rparr>))"

definition mark_request_observed :: "SessionRuntimeHarness \<Rightarrow> u64 \<Rightarrow> SessionRuntimeHarness option" where
  "mark_request_observed self correlation =
     (case observed_entries self correlation of
        None \<Rightarrow> None
      | Some _ \<Rightarrow> Some (self\<lparr>observed_entries := (observed_entries self)(correlation \<mapsto> True)\<rparr>))"

text \<open>
  \<open>wait_request_observed\<close>: the entry must be registered; one turn of the loop returns and
  removes it when it is marked, else waits.
\<close>

definition wait_observed_step :: "SessionRuntimeHarness \<Rightarrow> u64 \<Rightarrow> SessionRuntimeHarness option" where
  "wait_observed_step self correlation =
     (if observed_entries self correlation = Some True
      then Some (self\<lparr>observed_entries := (observed_entries self)(correlation := None)\<rparr>)
      else None)"

section \<open>Lemmas: identities\<close>

fun allocate :: "nat \<Rightarrow> process \<Rightarrow> u64 list \<times> process" where
  "allocate 0 p = ([], p)"
| "allocate (Suc n) p = (let (i, p) = next_process_identity p; (is, p) = allocate n p in (i # is, p))"

lemma identity_parts:
  fixes pid :: u32 and n :: u64
  defines "i \<equiv> push_bit 32 (ucast pid :: u64) OR (n AND 0xFFFFFFFF)"
  shows "drop_bit 32 i = ucast pid" and "i AND 0xFFFFFFFF = n AND 0xFFFFFFFF"
proof -
  have mask: "(0xFFFFFFFF :: u64) = mask 32" by (simp add: mask_eq_exp_minus_1)
  show "drop_bit 32 i = ucast pid"
    unfolding i_def mask by (rule bit_word_eqI) (auto simp: bit_simps dest: bit_imp_le_length)
  show "i AND 0xFFFFFFFF = n AND 0xFFFFFFFF"
    unfolding i_def mask by (rule bit_word_eqI) (auto simp: bit_simps)
qed

lemma allocate_nth:
  "i < n \<Longrightarrow> fst (allocate n p) ! i =
     push_bit 32 (ucast (process_id p)) OR ((next_runtime_identity p + of_nat i) AND 0xFFFFFFFF)"
proof (induction n arbitrary: p i)
  case (Suc n)
  then show ?case
    by (cases i) (auto simp: next_process_identity_def case_prod_beta Let_def add.assoc)
qed simp

lemma allocate_length [simp]: "length (fst (allocate n p)) = n"
  by (induction n arbitrary: p) (simp_all add: case_prod_beta Let_def)


lemma masked_offsets_differ:
  fixes c :: u64
  assumes "(c + of_nat i) AND 0xFFFFFFFF = (c + of_nat j) AND 0xFFFFFFFF" and "i < 2 ^ 32" "j < 2 ^ 32"
  shows "i = j"
proof -
  have mask: "(0xFFFFFFFF :: u64) = mask 32" by (simp add: mask_eq_exp_minus_1)
  have low: "uint ((c + of_nat k) AND 0xFFFFFFFF) = (uint c + int k) mod 2 ^ 32" for k
  proof -
    have "c + of_nat k = word_of_int (uint c + int k)" by simp
    then have "uint (c + of_nat k) = take_bit 64 (uint c + int k)" by (simp only: uint_word_of_int_eq len_num0 len_num1 len_bit0) simp
    then have "uint (take_bit 32 (c + of_nat k)) = take_bit 32 (take_bit 64 (uint c + int k))"
      by (simp only: unsigned_take_bit_eq)
    then show ?thesis
      unfolding mask take_bit_eq_mask [symmetric] take_bit_take_bit by (simp add: take_bit_eq_mod)
  qed
  have "(uint c + int i) mod 2 ^ 32 = (uint c + int j) mod 2 ^ 32"
    using low [of i] low [of j] assms(1) by simp
  then have "int i mod 2 ^ 32 = int j mod 2 ^ 32"
    by (metis add_diff_cancel_left' mod_diff_left_eq mod_diff_eq)
  then show ?thesis using assms(2,3) by simp
qed

section \<open>Lemmas: exchanges\<close>

lemma release_inner_released: "ax_released x \<Longrightarrow> release_inner (x, h) = (x, h)"
  by (simp add: release_inner_def)

interpretation active_exchange: once "\<lambda>s (_ :: unit). release_inner s" "\<lambda>s. ax_released (fst s)"
  "\<lambda>s. length (shown (snd s))"
  by unfold_locales
    (auto simp: release_inner_def identity_checkpoint_def checkpoint_def observe_def Let_def)

section \<open>Properties of \<open>session_runtime.rs\<close>\<close>

text \<open>
  Identities are unique: the first \<open>2 ^ 32\<close> identities a process allocates are pairwise
  different, whatever they are allocated for, and no identity of a process is one of another.
\<close>

lemma identities_unique:
  assumes "n \<le> 2 ^ 32" and "process_id q \<noteq> process_id p"
  shows "distinct (fst (allocate n p)) \<and> set (fst (allocate n p)) \<inter> set (fst (allocate m q)) = {}"
proof
  show "distinct (fst (allocate n p))"
    unfolding distinct_conv_nth
  proof (intro allI impI)
    fix i j assume ij: "i < length (fst (allocate n p))" "j < length (fst (allocate n p))" "i \<noteq> j"
    show "fst (allocate n p) ! i \<noteq> fst (allocate n p) ! j"
    proof
      assume "fst (allocate n p) ! i = fst (allocate n p) ! j"
      then have "(next_runtime_identity p + of_nat i) AND 0xFFFFFFFF = (next_runtime_identity p + of_nat j) AND 0xFFFFFFFF"
        using ij identity_parts(2) by (simp add: allocate_nth) metis
      then show False using ij assms(1) masked_offsets_differ [of "next_runtime_identity p" i j] by simp
    qed
  qed
  have pid: "drop_bit 32 x = ucast (process_id r)" if "x \<in> set (fst (allocate k r))" for x k r
    using that identity_parts(1) by (auto simp: in_set_conv_nth allocate_nth)
  show "set (fst (allocate n p)) \<inter> set (fst (allocate m q)) = {}"
  proof (rule ccontr)
    assume "set (fst (allocate n p)) \<inter> set (fst (allocate m q)) \<noteq> {}"
    then obtain x where x: "x \<in> set (fst (allocate n p))" "x \<in> set (fst (allocate m q))" by blast
    have "(ucast (process_id p) :: u64) = ucast (process_id q)" using pid [OF x(1)] pid [OF x(2)] by simp
    moreover have "(ucast (ucast w :: u64) :: u32) = w" for w :: u32
      by (rule bit_word_eqI) (auto simp: bit_simps)
    ultimately have "process_id p = process_id q" by metis
    then show False using assms(2) by simp
  qed
qed

text \<open>
  An exchange is released exactly once: however often an activated exchange is released or
  dropped, exactly one clean release with its identity is shown; a reservation dropped without
  being promoted shows exactly one dirty release, and one that was promoted or activated shows
  none when it is dropped.
\<close>

lemma exchange_released_once:
  assumes "\<not> ax_released x"
  shows "map (\<lambda>c. (cp_phase c, cp_connection c, cp_lease c, cp_correlation c))
      (shown (snd ((release_inner ^^ Suc k) (x, h)))) =
    map (\<lambda>c. (cp_phase c, cp_connection c, cp_lease c, cp_correlation c)) (shown h) @
      [(PoolReleaseClean, Some (ei_connection (ax_identity x)), Some (ei_lease (ax_identity x)),
        ei_correlation (ax_identity x))] \<and>
    length (shown (drop_reservation r h)) = length (shown h) + (if rs_promoted r then 0 else 1) \<and>
    drop_reservation (snd (promote r)) h = h \<and> drop_reservation (snd (activate r)) h = h"
proof -
  obtain x' h' where r: "release_inner (x, h) = (x', h')" by (meson surj_pair)
  then have x': "ax_released x'"
    using assms by (auto simp: release_inner_def Let_def identity_checkpoint_def checkpoint_def)
  have "(release_inner ^^ k) (x', h') = (x', h')"
    by (induction k) (simp_all add: release_inner_released x')
  then have run: "(release_inner ^^ Suc k) (x, h) = (x', h')"
    unfolding funpow_Suc_right comp_def r .
  show ?thesis unfolding run using assms r
    by (auto simp: release_inner_def drop_reservation_def promote_def activate_def Let_def
        identity_checkpoint_def checkpoint_def observe_def)
qed

text \<open>A process to evaluate the model on.\<close>

definition sample_process :: process where
  "sample_process = \<lparr>process_id = 7, next_runtime_identity = 1\<rparr>"

end
