(* ===== verification/Pool.thy ===== *)
theory Pool
  imports Structures Http_Types Session_Runtime "HOL-Library.Multiset"
begin

text \<open>
  The model of \<open>crates/requests/src/transport/pool.rs\<close>, with the configuration types of
  \<open>client.rs\<close> its keys are made of. A \<open>HashMap\<close> is an association list with distinct keys, whose
  order stands for the iteration order. What a network connection is, is an argument: the
  type \<open>'c\<close> with the observations \<open>conn_view\<close>. A panic is \<open>None\<close>. The locale \<open>idle_store\<close> is the
  contract the transport relies on; \<open>pool\<close> interprets it on the model.
\<close>

section \<open>Configuration (\<open>client.rs\<close>)\<close>

type_synonym PathBuf = rstr

datatype Proxy = ProxyHttp Uri | ProxyHttps Uri | Socks4 Uri | Socks5 (socks5_uri: Uri) (remote_dns: bool)

definition proxy_uri :: "Proxy \<Rightarrow> Uri" where
  "proxy_uri self =
     (case self of ProxyHttp uri \<Rightarrow> uri | ProxyHttps uri \<Rightarrow> uri | Socks4 uri \<Rightarrow> uri | Socks5 uri _ \<Rightarrow> uri)"

datatype CertificateSource = Platform | PemBundle PathBuf | PemDirectory PathBuf | Disabled

record Identity =
  certificate_chain :: PathBuf
  private_key :: "PathBuf option"

record TlsConfig =
  tls_roots :: CertificateSource
  tls_identity :: "Identity option"

section \<open>Keys\<close>

text \<open>
  A \<open>Scheme\<close> is its text, an \<open>Authority\<close> its text in lower case, since its \<open>Eq\<close> and \<open>Hash\<close> ignore
  ASCII case.
\<close>

type_synonym ProxyKey = rstr

definition proxy_key_from_proxy :: "Proxy \<Rightarrow> ProxyKey" where
  "proxy_key_from_proxy proxy =
     (let dns = (case proxy of
            Socks5 _ remote \<Rightarrow> if remote then lit ''#remote-dns'' else lit ''#local-dns''
          | _ \<Rightarrow> []) in
      uri_display (proxy_uri proxy) @ dns)"

datatype TlsPoolKey = TlsPlain | TlsPlatform | TlsPemBundle PathBuf | TlsPemDirectory PathBuf | TlsDisabled

definition tls_key_from_config :: "TlsConfig \<Rightarrow> TlsPoolKey" where
  "tls_key_from_config tls =
     (case tls_roots tls of
        Platform \<Rightarrow> TlsPlatform
      | PemBundle path \<Rightarrow> TlsPemBundle path
      | PemDirectory path \<Rightarrow> TlsPemDirectory path
      | Disabled \<Rightarrow> TlsDisabled)"

record IdentityKey =
  ik_certificate_chain :: PathBuf
  ik_private_key :: "PathBuf option"

definition identity_key_from_identity :: "Identity \<Rightarrow> IdentityKey" where
  "identity_key_from_identity i =
     \<lparr>ik_certificate_chain = certificate_chain i, ik_private_key = private_key i\<rparr>"

record PoolKey =
  pk_scheme :: rstr
  pk_authority :: rstr
  pk_proxy :: "ProxyKey option"
  pk_tls :: TlsPoolKey
  pk_identity :: "IdentityKey option"

definition pool_key_new ::
  "(rstr \<Rightarrow> rstr option) \<Rightarrow> rstr \<Rightarrow> rstr \<Rightarrow> u16 option \<Rightarrow> ProxyKey option \<Rightarrow> TlsPoolKey \<Rightarrow> IdentityKey option \<Rightarrow>
   PoolKey option" where
  "pool_key_new parse_authority scheme authority port proxy tls identity =
     map_option (\<lambda>authority.
         \<lparr>pk_scheme = scheme, pk_authority = map to_ascii_lowercase authority, pk_proxy = proxy,
          pk_tls = tls, pk_identity = identity\<rparr>)
       (if port = None then
          parse_authority (authority @ asc CHR '':'' #
            nat_to_decimal (if scheme = lit ''https'' then 443 else 80))
        else Some authority)"

section \<open>Connections and leases\<close>

datatype LeaseTerminal = Active | LeaseCleanEof | Dirty

record 'c IdleConnection =
  ic_inner :: 'c
  ic_session_identity :: "u64 option"

text \<open>What the code asks of a network connection: its sender and its driver.\<close>

record 'c conn_view =
  cv_sender_is_closed :: "'c \<Rightarrow> bool"
  cv_driver_is_reusable :: "'c \<Rightarrow> bool"
  cv_driver_peer_is_open :: "'c \<Rightarrow> bool"

definition conn_is_live :: "'c conn_view \<Rightarrow> 'c IdleConnection \<Rightarrow> bool" where
  "conn_is_live cv self \<longleftrightarrow>
     \<not> cv_sender_is_closed cv (ic_inner self) \<and> cv_driver_is_reusable cv (ic_inner self)"

definition conn_peer_is_open :: "'c conn_view \<Rightarrow> 'c IdleConnection \<Rightarrow> bool" where
  "conn_peer_is_open cv self = cv_driver_peer_is_open cv (ic_inner self)"

datatype DirtyLeaseCause = Cancellation | IncompleteBody | Upload

record DirtyLeaseIdentity =
  di_generation :: u64
  di_cause :: DirtyLeaseCause

record 'c PoolGeneration =
  number :: u64
  idle :: "'c IdleConnection list"

record 'c ConnectionLease =
  cl_key :: PoolKey
  cl_generation :: u64
  cl_terminal :: LeaseTerminal
  cl_dirty_identity :: "DirtyLeaseIdentity option"
  cl_connection :: "'c IdleConnection option"
  cl_session_lease_identity :: "u64 option"

definition with_session_lease_identity ::
  "PoolKey \<Rightarrow> u64 \<Rightarrow> 'c IdleConnection \<Rightarrow> u64 option \<Rightarrow> 'c ConnectionLease" where
  "with_session_lease_identity key gen connection session_lease_identity =
     \<lparr>cl_key = key, cl_generation = gen, cl_terminal = Active, cl_dirty_identity = None,
      cl_connection = Some connection, cl_session_lease_identity = session_lease_identity\<rparr>"

definition lease_new_with_session_runtime ::
  "PoolKey \<Rightarrow> u64 \<Rightarrow> 'c IdleConnection \<Rightarrow> SessionRuntimeHarness option \<Rightarrow> process \<Rightarrow>
   'c ConnectionLease \<times> process" where
  "lease_new_with_session_runtime key gen connection session_runtime p =
     (case session_runtime of
        None \<Rightarrow> (with_session_lease_identity key gen connection None, p)
      | Some _ \<Rightarrow>
          (let (lease, p) = next_process_identity p in
           (with_session_lease_identity key gen connection (Some lease), p)))"

definition lease_new_with_exchange_identity ::
  "PoolKey \<Rightarrow> u64 \<Rightarrow> 'c IdleConnection \<Rightarrow> SessionExchangeIdentity \<Rightarrow> 'c ConnectionLease" where
  "lease_new_with_exchange_identity key gen connection identity =
     with_session_lease_identity key gen connection (Some (ei_lease identity))"

definition session_connection_identity :: "'c ConnectionLease \<Rightarrow> u64 option" where
  "session_connection_identity self = Option.bind (cl_connection self) ic_session_identity"

definition session_exchange_identity :: "'c ConnectionLease \<Rightarrow> u64 \<Rightarrow> SessionExchangeIdentity option" where
  "session_exchange_identity self correlation =
     Option.bind (session_connection_identity self) (\<lambda>connection.
       Option.bind (cl_session_lease_identity self) (\<lambda>lease.
         Some \<lparr>ei_connection = connection, ei_lease = lease, ei_correlation = correlation\<rparr>))"

definition lease_is_live :: "'c conn_view \<Rightarrow> 'c ConnectionLease \<Rightarrow> bool" where
  "lease_is_live cv self = (case cl_connection self of None \<Rightarrow> False | Some c \<Rightarrow> conn_is_live cv c)"

definition lease_peer_is_open :: "'c conn_view \<Rightarrow> 'c ConnectionLease \<Rightarrow> bool" where
  "lease_peer_is_open cv self = (case cl_connection self of None \<Rightarrow> False | Some c \<Rightarrow> conn_peer_is_open cv c)"

definition lease_complete :: "'c ConnectionLease \<Rightarrow> LeaseTerminal \<Rightarrow> 'c ConnectionLease" where
  "lease_complete self terminal =
     (if cl_terminal self = Active \<and> terminal \<noteq> Active then
        let self = self\<lparr>cl_terminal := terminal\<rparr> in
        if terminal = Dirty then
          self\<lparr>cl_dirty_identity := Some \<lparr>di_generation = cl_generation self, di_cause = Cancellation\<rparr>\<rparr>
        else self
      else self)"

definition complete_dirty :: "'c ConnectionLease \<Rightarrow> DirtyLeaseCause \<Rightarrow> 'c ConnectionLease" where
  "complete_dirty self cause =
     (if cl_terminal self = Active then
        self\<lparr>cl_terminal := Dirty,
             cl_dirty_identity := Some \<lparr>di_generation = cl_generation self, di_cause = cause\<rparr>\<rparr>
      else self)"

section \<open>The pool\<close>

record 'c Pool =
  max_idle_per_key :: nat
  generation_number :: u64
  generations :: "(PoolKey \<times> 'c PoolGeneration) list"
  pool_session_runtime :: "SessionRuntimeHarness option"

definition pool_new :: "nat \<Rightarrow> SessionRuntimeHarness option \<Rightarrow> 'c Pool" where
  "pool_new max_idle session_runtime =
     \<lparr>max_idle_per_key = max_idle, generation_number = 0, generations = [],
      pool_session_runtime = session_runtime\<rparr>"

text \<open>\<open>Vec::pop\<close>: the last element and the rest.\<close>

definition pop :: "'a list \<Rightarrow> ('a \<times> 'a list) option" where
  "pop xs = (if xs = [] then None else Some (last xs, butlast xs))"

definition acquire ::
  "'c Pool \<Rightarrow> PoolKey \<Rightarrow> process \<Rightarrow> ('c ConnectionLease \<times> 'c Pool \<times> process) option" where
  "acquire self key p =
     (case map_of (generations self) key of
        None \<Rightarrow> None
      | Some g \<Rightarrow>
          (case pop (idle g) of
             None \<Rightarrow> None
           | Some (connection, rest) \<Rightarrow>
               let (lease, p) = lease_new_with_session_runtime key (generation_number self) connection
                     (pool_session_runtime self) p in
               Some (lease, self\<lparr>generations := alist_insert (generations self) key (g\<lparr>idle := rest\<rparr>)\<rparr>, p)))"

text \<open>
  \<open>release\<close>: the lease when it is not taken back (first component \<open>Some\<close>), else the pool that
  holds its connection. \<open>entry(..).or_insert_with(..)\<close> leaves an empty generation behind even
  when the lease is then refused.
\<close>

definition release ::
  "'c conn_view \<Rightarrow> 'c Pool \<Rightarrow> 'c ConnectionLease \<Rightarrow> 'c ConnectionLease option \<times> 'c Pool" where
  "release cv self lease =
     (if \<not> (cl_terminal lease = LeaseCleanEof \<and> cl_dirty_identity lease = None \<and>
            cl_generation lease = generation_number self \<and> lease_is_live cv lease)
      then (Some lease, self)
      else
        let g = (case map_of (generations self) (cl_key lease) of
              Some g \<Rightarrow> g
            | None \<Rightarrow> \<lparr>number = generation_number self, idle = []\<rparr>);
            self = self\<lparr>generations := alist_insert (generations self) (cl_key lease) g\<rparr> in
        if number g \<noteq> generation_number self \<or> length (idle g) \<ge> max_idle_per_key self
        then (Some lease, self)
        else
          (case cl_connection lease of
             None \<Rightarrow> (None, self)
           | Some connection \<Rightarrow>
               (None, self\<lparr>generations := alist_insert (generations self) (cl_key lease)
                 (g\<lparr>idle := idle g @ [connection]\<rparr>)\<rparr>)))"

definition pool_clear :: "'c Pool \<Rightarrow> ('c IdleConnection list \<times> 'c Pool) option" where
  "pool_clear self =
     (if unat (generation_number self) + 1 = 2 ^ 64 then None
      else
        let gen = generation_number self + 1 in
        Some (concat (map (\<lambda>(_, g). idle g) (generations self)),
              self\<lparr>generation_number := gen,
                   generations := map (\<lambda>(k, g). (k, g\<lparr>number := gen, idle := []\<rparr>)) (generations self)\<rparr>))"


section \<open>The contract of an idle store\<close>

text \<open>
  What a client of the pool may rely on: the idle connections of a key form a stack; a lease
  names the key and the epoch it was taken in; a lease is taken back only in its own epoch and
  only while there is room; clearing empties every stack and starts a new epoch.
\<close>

locale idle_store =
  fixes ok :: "'p \<Rightarrow> bool"
    and idles :: "'p \<Rightarrow> 'k \<Rightarrow> 'c list"
    and epoch :: "'p \<Rightarrow> 'g"
    and room :: "'p \<Rightarrow> nat"
    and acquire :: "'p \<Rightarrow> 'k \<Rightarrow> 'w \<Rightarrow> ('l \<times> 'p \<times> 'w) option"
    and release :: "'v \<Rightarrow> 'p \<Rightarrow> 'l \<Rightarrow> 'l option \<times> 'p"
    and clear :: "'p \<Rightarrow> ('c list \<times> 'p) option"
    and key :: "'l \<Rightarrow> 'k"
    and conn :: "'l \<Rightarrow> 'c option"
    and taken_in :: "'l \<Rightarrow> 'g"
  assumes acquire_None: "ok p \<Longrightarrow> acquire p k w = None \<longleftrightarrow> idles p k = []"
    and acquire_Some: "ok p \<Longrightarrow> acquire p k w = Some (l, p', w') \<Longrightarrow>
      ok p' \<and> epoch p' = epoch p \<and> room p' = room p \<and> key l = k \<and> taken_in l = epoch p \<and>
      (\<exists>c. conn l = Some c \<and> idles p = (idles p')(k := idles p' k @ [c]))"
    and release_refused: "ok p \<Longrightarrow> release v p l = (Some l', p') \<Longrightarrow>
      ok p' \<and> epoch p' = epoch p \<and> room p' = room p \<and> l' = l \<and> idles p' = idles p"
    and release_taken: "ok p \<Longrightarrow> release v p l = (None, p') \<Longrightarrow>
      ok p' \<and> epoch p' = epoch p \<and> room p' = room p \<and> taken_in l = epoch p \<and>
      (\<exists>c. conn l = Some c \<and> idles p' = (idles p)(key l := idles p (key l) @ [c]))"
    and clear_Some: "ok p \<Longrightarrow> clear p = Some (cs, p') \<Longrightarrow>
      ok p' \<and> room p' = room p \<and> idles p' = (\<lambda>_. []) \<and> epoch p' \<noteq> epoch p"
    and within_room: "ok p \<Longrightarrow> length (idles p k) \<le> room p"
begin

lemma release_then_acquire:
  assumes "ok p" and "release v p l = (None, p')" and "conn l = Some c"
  shows "\<exists>l' p'' w'. acquire p' (key l) w = Some (l', p'', w') \<and> conn l' = Some c \<and> idles p'' = idles p"
proof -
  have r: "ok p'" "idles p' = (idles p)(key l := idles p (key l) @ [c])"
    using release_taken [OF assms(1,2)] assms(3) by auto
  then obtain l' p'' w' where a: "acquire p' (key l) w = Some (l', p'', w')"
    using acquire_None [OF r(1), of "key l" w] by (cases "acquire p' (key l) w") auto
  obtain c' where "conn l' = Some c'" "idles p' = (idles p'')(key l := idles p'' (key l) @ [c'])"
    using acquire_Some [OF r(1) a] by blast
  moreover from this have "idles p'' (key l) @ [c'] = idles p (key l) @ [c]"
    using r(2) by (metis fun_upd_same)
  moreover have "idles p'' k = idles p k" if "k \<noteq> key l" for k
    using calculation(2) r(2) that by (metis fun_upd_other)
  ultimately show ?thesis using a by (metis append1_eq_conv ext)
qed

lemma clear_then_acquire:
  assumes "ok p" and "clear p = Some (cs, p')"
  shows "acquire p' k w = None"
  using clear_Some [OF assms] acquire_None [of p' k w] by auto

lemma stale_refused:
  assumes "ok p" and "taken_in l \<noteq> epoch p"
  shows "fst (release v p l) = Some l"
proof (cases "release v p l")
  case (Pair r p')
  then show ?thesis using release_taken [OF assms(1), of v l p'] release_refused [OF assms(1), of v l _ p'] assms(2)
    by (cases r) auto
qed

end

section \<open>The pool keeps the contract\<close>

definition idle_of :: "'c Pool \<Rightarrow> PoolKey \<Rightarrow> 'c IdleConnection list" where
  "idle_of p k = (case map_of (generations p) k of None \<Rightarrow> [] | Some g \<Rightarrow> idle g)"

definition pool_ok :: "'c Pool \<Rightarrow> bool" where
  "pool_ok p \<longleftrightarrow> distinct (map fst (generations p)) \<and>
     (\<forall>(k, g)\<in>set (generations p). number g = generation_number p \<and> length (idle g) \<le> max_idle_per_key p)"

lemma pool_ok_lookup:
  "pool_ok p \<Longrightarrow> map_of (generations p) k = Some g \<Longrightarrow>
     number g = generation_number p \<and> length (idle g) \<le> max_idle_per_key p"
  by (fastforce simp: pool_ok_def dest: map_of_SomeD)

lemma set_alist_insert: "set (alist_insert xs k v) \<subseteq> insert (k, v) (set xs)"
  by (induction xs k v rule: alist_insert.induct) auto

lemma pool_ok_insert:
  "pool_ok p \<Longrightarrow> number g = generation_number p \<Longrightarrow> length (idle g) \<le> max_idle_per_key p \<Longrightarrow>
     pool_ok (p\<lparr>generations := alist_insert (generations p) k g\<rparr>)"
  using set_alist_insert [of "generations p" k g] by (auto simp: pool_ok_def distinct_alist_insert)

lemma idle_of_insert:
  "idle_of (p\<lparr>generations := alist_insert (generations p) k g\<rparr>) = (idle_of p)(k := idle g)"
  by (auto simp: idle_of_def)

lemma lease_new_simps [simp]:
  "cl_key (fst (lease_new_with_session_runtime k g c h p)) = k"
  "cl_generation (fst (lease_new_with_session_runtime k g c h p)) = g"
  "cl_connection (fst (lease_new_with_session_runtime k g c h p)) = Some c"
  by (simp_all add: lease_new_with_session_runtime_def with_session_lease_identity_def case_prod_beta Let_def
      split: option.split)

lemma acquire_None_iff: "acquire p k w = None \<longleftrightarrow> idle_of p k = []"
  by (auto simp: acquire_def idle_of_def pop_def case_prod_beta Let_def split: option.splits)

lemma acquire_SomeD:
  assumes "pool_ok p" and "acquire p k w = Some (l, p', w')"
  shows "pool_ok p'" "generation_number p' = generation_number p" "max_idle_per_key p' = max_idle_per_key p"
    "cl_key l = k" "cl_generation l = generation_number p"
    "\<exists>c. cl_connection l = Some c \<and> idle_of p = (idle_of p')(k := idle_of p' k @ [c])"
proof -
  obtain g where g: "map_of (generations p) k = Some g" "idle g \<noteq> []"
    and l: "l = fst (lease_new_with_session_runtime k (generation_number p) (last (idle g)) (pool_session_runtime p) w)"
    and p': "p' = p\<lparr>generations := alist_insert (generations p) k (g\<lparr>idle := butlast (idle g)\<rparr>)\<rparr>"
    using assms(2) by (auto simp: acquire_def pop_def case_prod_beta Let_def split: option.splits if_splits)
  show "pool_ok p'" unfolding p'
    using pool_ok_lookup [OF assms(1) g(1)] by (intro pool_ok_insert assms(1)) auto
  show "generation_number p' = generation_number p" "max_idle_per_key p' = max_idle_per_key p"
    "cl_key l = k" "cl_generation l = generation_number p" by (simp_all add: p' l)
  show "\<exists>c. cl_connection l = Some c \<and> idle_of p = (idle_of p')(k := idle_of p' k @ [c])"
    using g by (intro exI [of _ "last (idle g)"]) (auto simp: p' l idle_of_def)
qed

lemma release_refusedD:
  assumes "pool_ok p" and "release cv p l = (Some l', p')"
  shows "pool_ok p' \<and> generation_number p' = generation_number p \<and> max_idle_per_key p' = max_idle_per_key p \<and>
    l' = l \<and> idle_of p' = idle_of p"
  using assms(2)
proof (cases "map_of (generations p) (cl_key l)")
  case None
  let ?g = "\<lparr>number = generation_number p, idle = []\<rparr>"
  have "pool_ok (p\<lparr>generations := alist_insert (generations p) (cl_key l) ?g\<rparr>)"
    using assms(1) by (intro pool_ok_insert) simp_all
  moreover have "idle_of (p\<lparr>generations := alist_insert (generations p) (cl_key l) ?g\<rparr>) = idle_of p"
    using None by (simp add: idle_of_insert fun_eq_iff) (simp add: idle_of_def)
  ultimately show ?thesis using assms None
    by (auto simp: release_def Let_def split: if_splits option.splits)
next
  case (Some g)
  have "pool_ok (p\<lparr>generations := alist_insert (generations p) (cl_key l) g\<rparr>)"
    using assms(1) pool_ok_lookup [OF assms(1) Some] by (intro pool_ok_insert) simp_all
  moreover have "idle_of (p\<lparr>generations := alist_insert (generations p) (cl_key l) g\<rparr>) = idle_of p"
    using Some by (simp add: idle_of_insert fun_eq_iff) (simp add: idle_of_def)
  ultimately show ?thesis using assms Some
    by (auto simp: release_def Let_def split: if_splits option.splits)
qed


lemma release_takenD:
  assumes "pool_ok p" and "release cv p l = (None, p')"
  shows "pool_ok p'" "generation_number p' = generation_number p" "max_idle_per_key p' = max_idle_per_key p"
    "cl_generation l = generation_number p" "cl_terminal l = LeaseCleanEof" "lease_is_live cv l"
    "\<exists>c. cl_connection l = Some c \<and> idle_of p' = (idle_of p)(cl_key l := idle_of p (cl_key l) @ [c])"
proof -
  define g where "g = (case map_of (generations p) (cl_key l) of
      Some g \<Rightarrow> g | None \<Rightarrow> \<lparr>number = generation_number p, idle = []\<rparr>)"
  have idle_g: "idle g = idle_of p (cl_key l)" by (simp add: g_def idle_of_def split: option.split)
  have ok: "cl_terminal l = LeaseCleanEof" "cl_dirty_identity l = None" "cl_generation l = generation_number p"
    "lease_is_live cv l" "number g = generation_number p" "length (idle g) < max_idle_per_key p"
    using assms(2) by (auto simp: release_def Let_def g_def [symmetric] split: if_splits option.splits)
  then obtain c where c: "cl_connection l = Some c" by (auto simp: lease_is_live_def split: option.splits)
  let ?p1 = "p\<lparr>generations := alist_insert (generations p) (cl_key l) g\<rparr>"
  let ?g1 = "g\<lparr>idle := idle g @ [c]\<rparr>"
  have p': "p' = ?p1\<lparr>generations := alist_insert (generations ?p1) (cl_key l) ?g1\<rparr>"
    using assms(2) ok c by (simp add: release_def Let_def g_def [symmetric])
  have p1: "pool_ok ?p1" using ok assms(1) by (intro pool_ok_insert) simp_all
  show "pool_ok p'" unfolding p' by (rule pool_ok_insert [OF p1]) (use ok in simp_all)
  show "generation_number p' = generation_number p" "max_idle_per_key p' = max_idle_per_key p"
    "cl_generation l = generation_number p" "cl_terminal l = LeaseCleanEof" "lease_is_live cv l"
    using ok by (simp_all add: p')
  have "idle_of p' = (idle_of ?p1)(cl_key l := idle ?g1)" unfolding p' by (rule idle_of_insert)
  then show "\<exists>c. cl_connection l = Some c \<and> idle_of p' = (idle_of p)(cl_key l := idle_of p (cl_key l) @ [c])"
    using c idle_g by (auto simp: idle_of_insert)
qed

lemma clear_SomeD:
  assumes "pool_ok p" and "pool_clear p = Some (cs, p')"
  shows "pool_ok p'" "max_idle_per_key p' = max_idle_per_key p" "idle_of p' = (\<lambda>_. [])"
    "unat (generation_number p') = unat (generation_number p) + 1"
    "cs = concat (map (\<lambda>(_, g). idle g) (generations p))"
proof -
  have p': "p' = p\<lparr>generation_number := generation_number p + 1,
      generations := map (\<lambda>(k, g). (k, g\<lparr>number := generation_number p + 1, idle := []\<rparr>)) (generations p)\<rparr>"
    and n: "unat (generation_number p) + 1 \<noteq> 2 ^ 64"
    and cs: "cs = concat (map (\<lambda>(_, g). idle g) (generations p))"
    using assms(2) by (auto simp: pool_clear_def Let_def split: if_splits)
  show "cs = concat (map (\<lambda>(_, g). idle g) (generations p))" by (rule cs)
  show "pool_ok p'" using assms(1) by (auto simp: p' pool_ok_def o_def case_prod_beta)
  show "max_idle_per_key p' = max_idle_per_key p" by (simp add: p')
  have "idle_of p' k = []" for k
    unfolding idle_of_def p' by (auto dest!: map_of_SomeD split: option.split)
  then show "idle_of p' = (\<lambda>_. [])" by auto
  have "unat (generation_number p) < 2 ^ 64" using unsigned_less [of "generation_number p", where 'a = nat] by simp
  then show "unat (generation_number p') = unat (generation_number p) + 1"
    using n unfolding p' by (simp add: unat_word_ariths)
qed

interpretation pool: idle_store pool_ok idle_of generation_number max_idle_per_key acquire release pool_clear
  cl_key cl_connection cl_generation
proof
  show "pool_ok p \<Longrightarrow> length (idle_of p k) \<le> max_idle_per_key p" for p :: "'c Pool" and k
    using pool_ok_lookup [of p k] by (simp add: idle_of_def split: option.split)
  show "pool_ok p \<Longrightarrow> pool_clear p = Some (cs, p') \<Longrightarrow>
      pool_ok p' \<and> max_idle_per_key p' = max_idle_per_key p \<and> idle_of p' = (\<lambda>_. []) \<and>
      generation_number p' \<noteq> generation_number p" for p p' :: "'c Pool" and cs
    using clear_SomeD [of p cs p'] by auto
  show "acquire p k w = None \<longleftrightarrow> idle_of p k = []" for p :: "'c Pool" and k w by (rule acquire_None_iff)
  show "pool_ok p' \<and> generation_number p' = generation_number p \<and> max_idle_per_key p' = max_idle_per_key p \<and>
      cl_key l = k \<and> cl_generation l = generation_number p \<and>
      (\<exists>c. cl_connection l = Some c \<and> idle_of p = (idle_of p')(k := idle_of p' k @ [c]))"
    if "pool_ok p" "acquire p k w = Some (l, p', w')" for p p' :: "'c Pool" and k w l w'
    using acquire_SomeD [OF that] by blast
  show "pool_ok p' \<and> generation_number p' = generation_number p \<and> max_idle_per_key p' = max_idle_per_key p \<and>
      l' = l \<and> idle_of p' = idle_of p"
    if "pool_ok p" "release v p l = (Some l', p')" for p p' :: "'c Pool" and v l l'
    using release_refusedD [OF that] .
  show "pool_ok p' \<and> generation_number p' = generation_number p \<and> max_idle_per_key p' = max_idle_per_key p \<and>
      cl_generation l = generation_number p \<and>
      (\<exists>c. cl_connection l = Some c \<and> idle_of p' = (idle_of p)(cl_key l := idle_of p (cl_key l) @ [c]))"
    if "pool_ok p" "release v p l = (None, p')" for p p' :: "'c Pool" and v l
    using release_takenD [OF that] by blast
qed


section \<open>The pool at work\<close>

text \<open>
  A transport at work on a pool: establishments under way (the key and the generation number
  read before connecting), outstanding leases, connections given up, and the record of every
  connection opened with its key and generation. Clearing and every other operation may
  interleave in any order; what the network says of a connection may differ at every step.
\<close>

record 'c pool_system =
  ps_pool :: "'c Pool"
  ps_process :: process
  ps_establishing :: "(PoolKey \<times> u64) list"
  ps_leases :: "'c ConnectionLease list"
  ps_closed :: "'c IdleConnection list"
  ps_opened :: "('c \<times> PoolKey \<times> u64) list"

inductive pool_step :: "'c pool_system \<Rightarrow> 'c pool_system \<Rightarrow> bool" where
  Begin: "pool_step s (s\<lparr>ps_establishing := (k, generation_number (ps_pool s)) # ps_establishing s\<rparr>)"
| Abandon: "ps_establishing s = xs @ e # ys \<Longrightarrow> pool_step s (s\<lparr>ps_establishing := xs @ ys\<rparr>)"
| Established: "ps_establishing s = xs @ (k, g) # ys \<Longrightarrow> c \<notin> fst ` set (ps_opened s) \<Longrightarrow>
    pool_step s (s\<lparr>ps_establishing := xs @ ys,
      ps_leases := with_session_lease_identity k g \<lparr>ic_inner = c, ic_session_identity = ci\<rparr> li # ps_leases s,
      ps_opened := (c, k, g) # ps_opened s\<rparr>)"
| Acquire: "acquire (ps_pool s) k (ps_process s) = Some (l, p', w') \<Longrightarrow>
    pool_step s (s\<lparr>ps_pool := p', ps_process := w', ps_leases := l # ps_leases s\<rparr>)"
| Complete: "ps_leases s = xs @ l # ys \<Longrightarrow>
    pool_step s (s\<lparr>ps_leases := xs @ lease_complete l t # ys\<rparr>)"
| CompleteDirty: "ps_leases s = xs @ l # ys \<Longrightarrow>
    pool_step s (s\<lparr>ps_leases := xs @ complete_dirty l cause # ys\<rparr>)"
| Release: "ps_leases s = xs @ l # ys \<Longrightarrow> release cv (ps_pool s) l = (None, p') \<Longrightarrow>
    pool_step s (s\<lparr>ps_pool := p', ps_leases := xs @ ys\<rparr>)"
| Refuse: "ps_leases s = xs @ l # ys \<Longrightarrow> release cv (ps_pool s) l = (Some l', p') \<Longrightarrow> cl_connection l' = Some c \<Longrightarrow>
    pool_step s (s\<lparr>ps_pool := p', ps_leases := xs @ ys, ps_closed := c # ps_closed s\<rparr>)"
| DropLease: "ps_leases s = xs @ l # ys \<Longrightarrow> cl_connection l = Some c \<Longrightarrow>
    pool_step s (s\<lparr>ps_leases := xs @ ys, ps_closed := c # ps_closed s\<rparr>)"
| Clear: "pool_clear (ps_pool s) = Some (cs, p') \<Longrightarrow>
    pool_step s (s\<lparr>ps_pool := p', ps_closed := cs @ ps_closed s\<rparr>)"

inductive_cases pool_stepE: "pool_step s s'"

definition pool_start :: "nat \<Rightarrow> SessionRuntimeHarness option \<Rightarrow> process \<Rightarrow> 'c pool_system" where
  "pool_start max_idle h w =
     \<lparr>ps_pool = pool_new max_idle h, ps_process = w, ps_establishing = [], ps_leases = [], ps_closed = [],
      ps_opened = []\<rparr>"

text \<open>Every connection of the system, wherever it is.\<close>

definition idle_conns :: "'c Pool \<Rightarrow> 'c IdleConnection list" where
  "idle_conns p = concat (map (\<lambda>(_, g). idle g) (generations p))"

definition lease_conns :: "'c ConnectionLease list \<Rightarrow> 'c IdleConnection list" where
  "lease_conns ls = List.map_filter cl_connection ls"

definition all_conns :: "'c pool_system \<Rightarrow> 'c IdleConnection list" where
  "all_conns s = idle_conns (ps_pool s) @ lease_conns (ps_leases s) @ ps_closed s"

definition system_inv :: "'c pool_system \<Rightarrow> bool" where
  "system_inv s \<longleftrightarrow>
     pool_ok (ps_pool s) \<and>
     distinct (map fst (ps_opened s)) \<and>
     mset (map ic_inner (all_conns s)) = mset (map fst (ps_opened s)) \<and>
     (\<forall>k c. c \<in> set (idle_of (ps_pool s) k) \<longrightarrow> (ic_inner c, k, generation_number (ps_pool s)) \<in> set (ps_opened s)) \<and>
     (\<forall>l\<in>set (ps_leases s). \<exists>c. cl_connection l = Some c \<and> (ic_inner c, cl_key l, cl_generation l) \<in> set (ps_opened s)) \<and>
     (\<forall>(c, k, g)\<in>set (ps_opened s). g \<le> generation_number (ps_pool s)) \<and>
     (\<forall>(k, g)\<in>set (ps_establishing s). g \<le> generation_number (ps_pool s))"


lemma idle_conns_sum:
  assumes "pool_ok p" and "finite K" and "fst ` set (generations p) \<subseteq> K"
  shows "mset (idle_conns p) = (\<Sum>k\<in>K. mset (idle_of p k))"
proof -
  have "distinct (map fst gs) \<Longrightarrow> finite K \<Longrightarrow> fst ` set gs \<subseteq> K \<Longrightarrow>
      mset (concat (map (\<lambda>(_, g). idle g) gs)) =
      (\<Sum>k\<in>K. mset (case map_of gs k of None \<Rightarrow> [] | Some g \<Rightarrow> idle g))"
    for gs :: "(PoolKey \<times> 'a PoolGeneration) list" and K
  proof (induction gs arbitrary: K)
    case (Cons x gs)
    obtain k g where x: "x = (k, g)" by force
    have k: "k \<in> K" "k \<notin> fst ` set gs" using Cons.prems x by auto
    then have "map_of gs k = None" by (simp add: map_of_eq_None_iff)
    have "(\<Sum>j\<in>K. mset (case map_of (x # gs) j of None \<Rightarrow> [] | Some g \<Rightarrow> idle g)) =
        mset (idle g) + (\<Sum>j\<in>K - {k}. mset (case map_of (x # gs) j of None \<Rightarrow> [] | Some g \<Rightarrow> idle g))"
      by (subst sum.remove [OF Cons.prems(2) k(1)]) (simp add: x)
    also have "(\<Sum>j\<in>K - {k}. mset (case map_of (x # gs) j of None \<Rightarrow> [] | Some g \<Rightarrow> idle g)) =
        (\<Sum>j\<in>K - {k}. mset (case map_of gs j of None \<Rightarrow> [] | Some g \<Rightarrow> idle g))"
      by (rule sum.cong) (auto simp: x)
    also have "\<dots> = mset (concat (map (\<lambda>(_, g). idle g) gs))"
      using Cons.prems k by (intro Cons.IH [symmetric]) (auto simp: x)
    finally show ?case by (simp add: x)
  qed simp
  then show ?thesis using assms unfolding pool_ok_def idle_conns_def idle_of_def by blast
qed

lemma idle_conns_push:
  assumes "pool_ok p" "pool_ok p'" and "idle_of p' = (idle_of p)(k := idle_of p k @ [c])"
  shows "mset (idle_conns p') = add_mset c (mset (idle_conns p))"
proof -
  let ?K = "insert k (fst ` set (generations p) \<union> fst ` set (generations p'))"
  have "mset (idle_conns p') = (\<Sum>j\<in>?K. mset (idle_of p' j))" by (rule idle_conns_sum [OF assms(2)]) auto
  also have "\<dots> = mset (idle_of p' k) + (\<Sum>j\<in>?K - {k}. mset (idle_of p' j))"
    by (rule sum.remove) auto
  also have "(\<Sum>j\<in>?K - {k}. mset (idle_of p' j)) = (\<Sum>j\<in>?K - {k}. mset (idle_of p j))"
    by (rule sum.cong) (auto simp: assms(3))
  also have "mset (idle_of p' k) = add_mset c (mset (idle_of p k))" by (simp add: assms(3))
  also have "add_mset c (mset (idle_of p k)) + (\<Sum>j\<in>?K - {k}. mset (idle_of p j)) =
      add_mset c (\<Sum>j\<in>?K. mset (idle_of p j))"
    by (subst sum.remove [of ?K k]) auto
  also have "(\<Sum>j\<in>?K. mset (idle_of p j)) = mset (idle_conns p)"
    by (rule idle_conns_sum [OF assms(1), symmetric]) auto
  finally show ?thesis .
qed

lemma idle_conns_same:
  assumes "pool_ok p" "pool_ok p'" and "idle_of p' = idle_of p"
  shows "mset (idle_conns p') = mset (idle_conns p)"
proof -
  let ?K = "fst ` set (generations p) \<union> fst ` set (generations p')"
  have "mset (idle_conns p') = (\<Sum>j\<in>?K. mset (idle_of p' j))" by (rule idle_conns_sum [OF assms(2)]) auto
  also have "\<dots> = mset (idle_conns p)"
    unfolding assms(3) by (rule idle_conns_sum [OF assms(1), symmetric]) auto
  finally show ?thesis .
qed

lemma idle_conns_empty: "pool_ok p \<Longrightarrow> idle_of p = (\<lambda>_. []) \<Longrightarrow> idle_conns p = []"
  using idle_conns_sum [of p "fst ` set (generations p)"] by simp

lemma lease_conns_simps [simp]:
  "lease_conns [] = []"
  "lease_conns (l # ls) = (case cl_connection l of None \<Rightarrow> lease_conns ls | Some c \<Rightarrow> c # lease_conns ls)"
  "lease_conns (ls @ ls') = lease_conns ls @ lease_conns ls'"
  by (simp_all add: lease_conns_def List.map_filter_def split: option.split)

lemma complete_simps [simp]:
  "cl_connection (lease_complete l t) = cl_connection l" "cl_key (lease_complete l t) = cl_key l"
  "cl_generation (lease_complete l t) = cl_generation l"
  "cl_connection (complete_dirty l d) = cl_connection l" "cl_key (complete_dirty l d) = cl_key l"
  "cl_generation (complete_dirty l d) = cl_generation l"
  by (simp_all add: lease_complete_def complete_dirty_def Let_def)

lemma system_inv_start: "system_inv (pool_start n h w)"
  by (simp add: system_inv_def pool_start_def pool_new_def pool_ok_def all_conns_def idle_conns_def idle_of_def)

lemma system_inv_step:
  assumes "pool_step s s'" and "system_inv s"
  shows "system_inv s'"
  using assms
proof cases
  case (Begin k)
  then show ?thesis using assms(2) by (simp add: system_inv_def all_conns_def)
next
  case (Abandon xs e ys)
  then show ?thesis using assms(2) by (simp add: system_inv_def all_conns_def)
next
  case (Established xs k g ys c ci li)
  then show ?thesis using assms(2)
    by (auto simp: system_inv_def all_conns_def with_session_lease_identity_def)
next
  case (Acquire k l p' w')
  have ok: "pool_ok (ps_pool s)" using assms(2) by (simp add: system_inv_def)
  note a = acquire_SomeD [OF ok Acquire(2)]
  obtain c where c: "cl_connection l = Some c" "idle_of (ps_pool s) = (idle_of p')(k := idle_of p' k @ [c])"
    using a(6) by blast
  have "mset (idle_conns (ps_pool s)) = add_mset c (mset (idle_conns p'))"
    using idle_conns_push [OF a(1) ok c(2)] .
  then show ?thesis using assms(2) a c Acquire(1)
    by (auto simp: system_inv_def all_conns_def split: if_splits)
next
  case (Complete xs l ys t)
  then show ?thesis using assms(2) by (auto simp: system_inv_def all_conns_def split: option.splits)
next
  case (CompleteDirty xs l ys cause)
  then show ?thesis using assms(2) by (auto simp: system_inv_def all_conns_def split: option.splits)
next
  case (Release xs l ys cv p')
  have ok: "pool_ok (ps_pool s)" using assms(2) by (simp add: system_inv_def)
  note a = release_takenD [OF ok Release(3)]
  obtain c where c: "cl_connection l = Some c"
    "idle_of p' = (idle_of (ps_pool s))(cl_key l := idle_of (ps_pool s) (cl_key l) @ [c])"
    using a(7) by blast
  have "mset (idle_conns p') = add_mset c (mset (idle_conns (ps_pool s)))"
    using idle_conns_push [OF ok a(1) c(2)] .
  then show ?thesis using assms(2) a c Release(1,2)
    by (auto simp: system_inv_def all_conns_def split: if_splits)
next
  case (Refuse xs l ys cv l' p' c)
  have ok: "pool_ok (ps_pool s)" using assms(2) by (simp add: system_inv_def)
  note a = release_refusedD [OF ok Refuse(3)]
  then have "mset (idle_conns p') = mset (idle_conns (ps_pool s))" using idle_conns_same ok by blast
  then show ?thesis using assms(2) a Refuse by (auto simp: system_inv_def all_conns_def)
next
  case (DropLease xs l ys c)
  then show ?thesis using assms(2) by (auto simp: system_inv_def all_conns_def)
next
  case (Clear cs p')
  have ok: "pool_ok (ps_pool s)" using assms(2) by (simp add: system_inv_def)
  note a = clear_SomeD [OF ok Clear(2)]
  have "idle_conns p' = []" using idle_conns_empty a by blast
  moreover have "cs = idle_conns (ps_pool s)" using a(5) by (simp add: idle_conns_def)
  moreover have "generation_number (ps_pool s) \<le> generation_number p'" using a(4) by (simp add: word_le_nat_alt)
  ultimately show ?thesis using assms(2) a(1,3) Clear(1)
    by (auto simp: system_inv_def all_conns_def add.left_commute intro: order_trans)
qed


lemma pool_step_frame:
  assumes "pool_step s s'" and "system_inv s"
  shows "max_idle_per_key (ps_pool s') = max_idle_per_key (ps_pool s)"
    and "generation_number (ps_pool s) \<le> generation_number (ps_pool s')"
    and "set (ps_opened s) \<subseteq> set (ps_opened s')"
proof -
  have ok: "pool_ok (ps_pool s)" using assms(2) by (simp add: system_inv_def)
  have "max_idle_per_key (ps_pool s') = max_idle_per_key (ps_pool s) \<and>
    generation_number (ps_pool s) \<le> generation_number (ps_pool s') \<and> set (ps_opened s) \<subseteq> set (ps_opened s')"
    using assms(1)
  proof cases
    case (Acquire k l p' w')
    then show ?thesis using acquire_SomeD [OF ok Acquire(2)] by simp
  next
    case (Release xs l ys cv p')
    then show ?thesis using release_takenD [OF ok Release(3)] by simp
  next
    case (Refuse xs l ys cv l' p' c)
    then show ?thesis using release_refusedD [OF ok Refuse(3)] by simp
  next
    case (Clear cs p')
    then show ?thesis using clear_SomeD [OF ok Clear(2)] by (simp add: word_le_nat_alt)
  qed auto
  then show "max_idle_per_key (ps_pool s') = max_idle_per_key (ps_pool s)"
    and "generation_number (ps_pool s) \<le> generation_number (ps_pool s')"
    and "set (ps_opened s) \<subseteq> set (ps_opened s')" by blast+
qed

lemma pool_run:
  assumes "pool_step\<^sup>*\<^sup>* s s'" and "system_inv s"
  shows "system_inv s'" "max_idle_per_key (ps_pool s') = max_idle_per_key (ps_pool s)"
    "generation_number (ps_pool s) \<le> generation_number (ps_pool s')"
  using assms
  by (induction rule: rtranclp_induct) (auto simp: pool_step_frame system_inv_step intro: order_trans pool_step_frame(2))

section \<open>A run of the pool\<close>

text \<open>One connection is opened, its exchange ends cleanly and it is released into the pool.\<close>

definition sample_key :: PoolKey where
  "sample_key = \<lparr>pk_scheme = lit ''http'', pk_authority = lit ''h:80'', pk_proxy = None, pk_tls = TlsPlain,
     pk_identity = None\<rparr>"

definition live_view :: "nat conn_view" where
  "live_view = \<lparr>cv_sender_is_closed = (\<lambda>_. False), cv_driver_is_reusable = (\<lambda>_. True),
     cv_driver_peer_is_open = (\<lambda>_. True)\<rparr>"

definition sample_conn :: "nat IdleConnection" where
  "sample_conn = \<lparr>ic_inner = 1, ic_session_identity = None\<rparr>"

definition sample_pool :: "nat Pool" where
  "sample_pool = \<lparr>max_idle_per_key = 1, generation_number = 0,
     generations = [(sample_key, \<lparr>number = 0, idle = [sample_conn]\<rparr>)], pool_session_runtime = None\<rparr>"

definition sample_system :: "nat pool_system" where
  "sample_system = \<lparr>ps_pool = sample_pool, ps_process = sample_process, ps_establishing = [], ps_leases = [],
     ps_closed = [], ps_opened = [(1, sample_key, 0)]\<rparr>"

lemma sample_run: "pool_step\<^sup>*\<^sup>* (pool_start 1 None sample_process) sample_system"
proof -
  let ?lease = "with_session_lease_identity sample_key 0 sample_conn None"
  let ?s0 = "pool_start 1 None sample_process :: nat pool_system"
  let ?s1 = "?s0\<lparr>ps_establishing := [(sample_key, 0)]\<rparr>"
  let ?s2 = "?s0\<lparr>ps_leases := [?lease], ps_opened := [(1, sample_key, 0)]\<rparr>"
  let ?s3 = "?s2\<lparr>ps_leases := [lease_complete ?lease LeaseCleanEof]\<rparr>"
  have 1: "pool_step ?s0 ?s1"
    using pool_step.Begin [of ?s0 sample_key] by (simp add: pool_start_def pool_new_def)
  have 2: "pool_step ?s1 ?s2"
    using pool_step.Established [of ?s1 "[]" sample_key 0 "[]" 1 None None]
    by (simp add: pool_start_def sample_conn_def)
  have 3: "pool_step ?s2 ?s3"
    using pool_step.Complete [of ?s2 "[]" ?lease "[]" LeaseCleanEof] by (simp add: pool_start_def)
  have "release live_view (ps_pool ?s3) (lease_complete ?lease LeaseCleanEof) = (None, sample_pool)"
    by (simp add: release_def lease_complete_def with_session_lease_identity_def lease_is_live_def conn_is_live_def
        live_view_def pool_start_def pool_new_def sample_pool_def Let_def)
  then have 4: "pool_step ?s3 sample_system"
    using pool_step.Release [of ?s3 "[]" "lease_complete ?lease LeaseCleanEof" "[]" live_view sample_pool]
    by (simp add: pool_start_def sample_system_def)
  show ?thesis using 1 2 3 4 by (meson converse_rtranclp_into_rtranclp rtranclp.rtrancl_refl)
qed

lemma sample_pool_ok: "pool_ok sample_pool"
  by (simp add: pool_ok_def sample_pool_def)

section \<open>Properties of \<open>pool.rs\<close>\<close>

text \<open>
  C1. Whatever the interleaving of establishments, acquisitions, completions, releases and
  clears: no key ever has more idle connections than the configured maximum; every connection
  opened is in exactly one place (idle, leased or closed), so none is handed out twice and none
  is lost; and an idle connection was opened for the key it is kept under and in the current
  generation.
\<close>

theorem pool_safety:
  assumes "pool_step\<^sup>*\<^sup>* (pool_start n h w) s"
  shows "(\<forall>k. length (idle_of (ps_pool s) k) \<le> n) \<and>
    distinct (map ic_inner (all_conns s)) \<and>
    mset (map ic_inner (all_conns s)) = mset (map fst (ps_opened s)) \<and>
    (\<forall>k. \<forall>c\<in>set (idle_of (ps_pool s) k). (ic_inner c, k, generation_number (ps_pool s)) \<in> set (ps_opened s))"
proof -
  note run = pool_run [OF assms system_inv_start]
  have "max_idle_per_key (ps_pool s) = n" using run(2) by (simp add: pool_start_def pool_new_def)
  moreover have "pool_ok (ps_pool s)" using run(1) by (simp add: system_inv_def)
  ultimately have "\<forall>k. length (idle_of (ps_pool s) k) \<le> n" using pool.within_room by metis
  moreover have "distinct (map ic_inner (all_conns s))"
    using run(1) mset_eq_imp_distinct_iff unfolding system_inv_def by blast
  ultimately show ?thesis using run(1) unfolding system_inv_def by blast
qed

theorem pool_safety_witness:
  "idle_of (ps_pool sample_system) sample_key = [sample_conn] \<and>
   (ic_inner sample_conn, sample_key, generation_number (ps_pool sample_system)) \<in> set (ps_opened sample_system) \<and>
   mset (map ic_inner (all_conns sample_system)) = mset (map fst (ps_opened sample_system))"
proof -
  have "idle_of (ps_pool sample_system) sample_key = [sample_conn]"
    by (simp add: sample_system_def sample_pool_def idle_of_def)
  moreover from this have "sample_conn \<in> set (idle_of (ps_pool sample_system) sample_key)" by simp
  ultimately show ?thesis using pool_safety [OF sample_run] by blast
qed

text \<open>
  C17. Clearing the pool is final: a connection whose establishment began before a clear,
  whether it was idle, leased or still being established then, is never idle again and never
  handed out again, however the run continues.
\<close>

theorem clear_retires_connections:
  assumes "pool_step\<^sup>*\<^sup>* (pool_start n h w) s"
    and "pool_clear (ps_pool s) = Some (cs, p)"
    and "pool_step\<^sup>*\<^sup>* (s\<lparr>ps_pool := p, ps_closed := cs @ ps_closed s\<rparr>) s2"
    and "(c, k, g) \<in> set (ps_opened s2)" and "g \<le> generation_number (ps_pool s)"
  shows "c \<notin> ic_inner ` set (idle_of (ps_pool s2) k') \<and>
    (\<forall>w l p' w'. acquire (ps_pool s2) k' w = Some (l, p', w') \<longrightarrow>
       map_option ic_inner (cl_connection l) \<noteq> Some c)"
proof -
  have inv: "system_inv s" using pool_run(1) [OF assms(1) system_inv_start] .
  let ?s1 = "s\<lparr>ps_pool := p, ps_closed := cs @ ps_closed s\<rparr>"
  have "pool_step s ?s1" using assms(2) by (rule pool_step.Clear)
  then have inv1: "system_inv ?s1" using system_inv_step inv by blast
  have ok: "pool_ok (ps_pool s)" using inv by (simp add: system_inv_def)
  note run = pool_run [OF assms(3) inv1]
  have "unat (generation_number (ps_pool s)) < unat (generation_number p)"
    using clear_SomeD(4) [OF ok assms(2)] by simp
  then have gen: "g \<noteq> generation_number (ps_pool s2)"
    using assms(5) run(3) by (auto simp: word_le_nat_alt)
  have fn: "distinct (map fst (ps_opened s2))" and ok2: "pool_ok (ps_pool s2)"
    and idle: "\<And>k c. c \<in> set (idle_of (ps_pool s2) k) \<Longrightarrow> (ic_inner c, k, generation_number (ps_pool s2)) \<in> set (ps_opened s2)"
    using run(1) by (auto simp: system_inv_def)
  have not_idle: "c \<notin> ic_inner ` set (idle_of (ps_pool s2) k)" for k
  proof
    assume "c \<in> ic_inner ` set (idle_of (ps_pool s2) k)"
    then have "(c, k, generation_number (ps_pool s2)) \<in> set (ps_opened s2)" using idle by auto
    then show False using fn assms(4) gen by (metis Pair_inject eq_key_imp_eq_value)
  qed
  moreover have "map_option ic_inner (cl_connection l) \<noteq> Some c"
    if a: "acquire (ps_pool s2) k' w = Some (l, p', w')" for w l p' w'
  proof -
    obtain d where d: "cl_connection l = Some d" "idle_of (ps_pool s2) = (idle_of p')(k' := idle_of p' k' @ [d])"
      using acquire_SomeD(6) [OF ok2 a] by blast
    have "idle_of (ps_pool s2) k' = idle_of p' k' @ [d]" using fun_cong [OF d(2), of k'] by simp
    then show ?thesis using d(1) not_idle [of k'] by auto
  qed
  ultimately show ?thesis by blast
qed

theorem clear_retires_connections_witness:
  "1 \<notin> ic_inner ` set (idle_of (snd (the (pool_clear sample_pool))) sample_key)"
proof -
  have c: "pool_clear (ps_pool sample_system) = Some ([sample_conn], snd (the (pool_clear sample_pool)))"
    by (simp add: pool_clear_def sample_system_def sample_pool_def Let_def)
  have "(1, sample_key, 0) \<in> set (ps_opened (sample_system\<lparr>ps_pool := snd (the (pool_clear sample_pool)),
      ps_closed := [sample_conn] @ ps_closed sample_system\<rparr>))" by (simp add: sample_system_def)
  from clear_retires_connections [OF sample_run c rtranclp.rtrancl_refl this] show ?thesis by simp
qed

text \<open>
  The idle connections of a key are a stack and a lease comes back under the stated
  conditions only: a release is taken if and only if the exchange ended cleanly, the lease was
  never marked dirty, it was taken in the current generation, the connection is live and there
  is room; and then the next acquisition for the key returns that very connection and leaves the
  pool's idle connections as they were before the release.
\<close>

lemma release_taken_iff_lifo:
  assumes "pool_ok p"
  shows "(fst (release cv p l) = None \<longleftrightarrow>
      cl_terminal l = LeaseCleanEof \<and> cl_dirty_identity l = None \<and> cl_generation l = generation_number p \<and>
      lease_is_live cv l \<and> length (idle_of p (cl_key l)) < max_idle_per_key p) \<and>
    (fst (release cv p l) = None \<longrightarrow>
      (\<exists>l' p'' w'. acquire (snd (release cv p l)) (cl_key l) w = Some (l', p'', w') \<and>
         cl_connection l' = cl_connection l \<and> idle_of p'' = idle_of p))"
proof
  show "fst (release cv p l) = None \<longleftrightarrow>
      cl_terminal l = LeaseCleanEof \<and> cl_dirty_identity l = None \<and> cl_generation l = generation_number p \<and>
      lease_is_live cv l \<and> length (idle_of p (cl_key l)) < max_idle_per_key p"
    using pool_ok_lookup [OF assms, of "cl_key l"]
    by (auto simp: release_def Let_def idle_of_def lease_is_live_def split: option.splits)
  show "fst (release cv p l) = None \<longrightarrow>
      (\<exists>l' p'' w'. acquire (snd (release cv p l)) (cl_key l) w = Some (l', p'', w') \<and>
         cl_connection l' = cl_connection l \<and> idle_of p'' = idle_of p)"
  proof
    assume "fst (release cv p l) = None"
    then have r: "release cv p l = (None, snd (release cv p l))" by (simp add: prod_eq_iff)
    then obtain c where c: "cl_connection l = Some c" using release_takenD(7) [OF assms] by blast
    show "\<exists>l' p'' w'. acquire (snd (release cv p l)) (cl_key l) w = Some (l', p'', w') \<and>
         cl_connection l' = cl_connection l \<and> idle_of p'' = idle_of p"
      using pool.release_then_acquire [OF assms r c, of w] c by metis
  qed
qed


end
