(* ===== verification/Client.thy ===== *)
theory Client
  imports Pool Models
begin

text \<open>
  The model of \<open>crates/requests/src/client.rs\<close>: the content codings a client offers and decodes,
  the upload counters, the builder and its validation of a proxy. (The configuration types the
  pool keys are made of are in \<open>Pool\<close>.) A \<open>Client\<close> is the configuration its transport is made
  with.
\<close>

section \<open>Upload bookkeeping\<close>

record OriginUploadActionEntered =
  action_entered :: bool

definition action_enter :: "OriginUploadActionEntered \<Rightarrow> OriginUploadActionEntered" where
  "action_enter self = self\<lparr>action_entered := True\<rparr>"

definition is_entered :: "OriginUploadActionEntered \<Rightarrow> bool" where
  "is_entered self = action_entered self"

record UploadQueuedExecutedReplyCounts =
  uc_queued :: u64
  uc_executed :: u64
  uc_replies :: u64

definition saturating_inc :: "u64 \<Rightarrow> u64" where
  "saturating_inc n = (if n = - 1 then n else n + 1)"

definition counts_default :: UploadQueuedExecutedReplyCounts where
  "counts_default = \<lparr>uc_queued = 0, uc_executed = 0, uc_replies = 0\<rparr>"

definition counts_queued :: "UploadQueuedExecutedReplyCounts \<Rightarrow> UploadQueuedExecutedReplyCounts" where
  "counts_queued self = self\<lparr>uc_queued := saturating_inc (uc_queued self)\<rparr>"

definition counts_executed :: "UploadQueuedExecutedReplyCounts \<Rightarrow> UploadQueuedExecutedReplyCounts" where
  "counts_executed self = self\<lparr>uc_executed := saturating_inc (uc_executed self)\<rparr>"

definition reply_observed :: "UploadQueuedExecutedReplyCounts \<Rightarrow> UploadQueuedExecutedReplyCounts" where
  "reply_observed self = self\<lparr>uc_replies := saturating_inc (uc_replies self)\<rparr>"

definition is_consistent :: "UploadQueuedExecutedReplyCounts \<Rightarrow> bool" where
  "is_consistent self \<longleftrightarrow> uc_replies self \<le> uc_executed self \<and> uc_executed self \<le> uc_queued self"

section \<open>Content codings\<close>

record ContentCodecs =
  codecs_brotli :: bool
  codecs_zstandard :: bool

definition codecs_new :: "bool \<Rightarrow> bool \<Rightarrow> ContentCodecs" where
  "codecs_new brotli zstandard = \<lparr>codecs_brotli = brotli, codecs_zstandard = zstandard\<rparr>"

definition accept_encoding :: "ContentCodecs \<Rightarrow> rstr" where
  "accept_encoding self =
     (case (codecs_brotli self, codecs_zstandard self) of
        (True, True) \<Rightarrow> lit ''gzip, deflate, br, zstd''
      | (False, True) \<Rightarrow> lit ''gzip, deflate, zstd''
      | (True, False) \<Rightarrow> lit ''gzip, deflate, br''
      | (False, False) \<Rightarrow> lit ''gzip, deflate'')"

definition decodes :: "ContentCodecs \<Rightarrow> rstr \<Rightarrow> bool" where
  "decodes self encoding \<longleftrightarrow>
     eq_ignore_ascii_case encoding (lit ''gzip'') \<or>
     eq_ignore_ascii_case encoding (lit ''x-gzip'') \<or>
     eq_ignore_ascii_case encoding (lit ''deflate'') \<or>
     (codecs_brotli self \<and> eq_ignore_ascii_case encoding (lit ''br'')) \<or>
     (codecs_zstandard self \<and> eq_ignore_ascii_case encoding (lit ''zstd''))"

section \<open>The builder\<close>

definition DEFAULT_MAX_IDLE_PER_HOST :: nat where
  "DEFAULT_MAX_IDLE_PER_HOST = 10"

record ClientBuilder =
  cb_proxy :: "Proxy option"
  cb_tls :: TlsConfig
  cb_timeout :: Timeout
  cb_pool_max_idle_per_host :: nat
  cb_content_codecs :: ContentCodecs
  cb_session_runtime :: "SessionRuntimeHarness option"

definition builder_default :: ClientBuilder where
  "builder_default =
     \<lparr>cb_proxy = None, cb_tls = \<lparr>tls_roots = Platform, tls_identity = None\<rparr>,
      cb_timeout = \<lparr>timeout_connect = None, timeout_read = None, timeout_total = None\<rparr>,
      cb_pool_max_idle_per_host = DEFAULT_MAX_IDLE_PER_HOST,
      cb_content_codecs = codecs_new True True, cb_session_runtime = None\<rparr>"

definition builder_proxy :: "ClientBuilder \<Rightarrow> Proxy \<Rightarrow> ClientBuilder" where
  "builder_proxy self proxy = self\<lparr>cb_proxy := Some proxy\<rparr>"

definition builder_tls :: "ClientBuilder \<Rightarrow> TlsConfig \<Rightarrow> ClientBuilder" where
  "builder_tls self tls = self\<lparr>cb_tls := tls\<rparr>"

definition builder_timeout :: "ClientBuilder \<Rightarrow> Timeout \<Rightarrow> ClientBuilder" where
  "builder_timeout self timeout = self\<lparr>cb_timeout := timeout\<rparr>"

definition builder_pool_max_idle_per_host :: "ClientBuilder \<Rightarrow> nat \<Rightarrow> ClientBuilder" where
  "builder_pool_max_idle_per_host self maximum = self\<lparr>cb_pool_max_idle_per_host := maximum\<rparr>"

definition builder_content_codecs :: "ClientBuilder \<Rightarrow> ContentCodecs \<Rightarrow> ClientBuilder" where
  "builder_content_codecs self codecs = self\<lparr>cb_content_codecs := codecs\<rparr>"

definition builder_session_runtime_harness :: "ClientBuilder \<Rightarrow> SessionRuntimeHarness \<Rightarrow> ClientBuilder" where
  "builder_session_runtime_harness self harness = self\<lparr>cb_session_runtime := Some harness\<rparr>"

definition valid_proxy_scheme :: "Proxy \<Rightarrow> rstr \<Rightarrow> bool" where
  "valid_proxy_scheme proxy scheme =
     (case proxy of
        ProxyHttp _ \<Rightarrow> eq_ignore_ascii_case scheme (lit ''http'')
      | ProxyHttps _ \<Rightarrow> eq_ignore_ascii_case scheme (lit ''https'')
      | Socks4 _ \<Rightarrow> scheme = lit ''socks4'' \<or> scheme = lit ''socks4a''
      | Socks5 _ remote \<Rightarrow>
          eq_ignore_ascii_case scheme (lit ''socks5'') \<or>
          (remote \<and> eq_ignore_ascii_case scheme (lit ''socks5h'')))"

definition validate_proxy :: "Proxy \<Rightarrow> Error + unit" where
  "validate_proxy proxy =
     (let uri = proxy_uri proxy in
      case uri_scheme uri of
        None \<Rightarrow> Inl (invalid_proxy [Text (lit ''URI must be absolute and include a scheme'')])
      | Some scheme \<Rightarrow>
          if \<not> valid_proxy_scheme proxy scheme then
            Inl (invalid_proxy [Text (lit ''proxy variant does not accept URI scheme ''), DebugStr scheme])
          else if uri_authority uri = None \<or> (case uri_host uri of None \<Rightarrow> True | Some h \<Rightarrow> h = []) then
            Inl (invalid_proxy [Text (lit ''URI must include an authority with a nonempty host'')])
          else Inr ())"

text \<open>The transport of a client: its configuration and a fresh pool.\<close>

record 'c Transport =
  tr_pool :: "'c Pool"
  tr_proxy :: "Proxy option"
  tr_tls :: TlsConfig
  tr_default_timeout :: Timeout
  tr_content_codecs :: ContentCodecs
  tr_session_runtime :: "SessionRuntimeHarness option"

definition transport_configured ::
  "Proxy option \<Rightarrow> TlsConfig \<Rightarrow> Timeout \<Rightarrow> nat \<Rightarrow> ContentCodecs \<Rightarrow> SessionRuntimeHarness option \<Rightarrow> 'c Transport" where
  "transport_configured proxy tls default_timeout pool_max_idle_per_host codecs harness =
     \<lparr>tr_pool = pool_new pool_max_idle_per_host harness, tr_proxy = proxy, tr_tls = tls,
      tr_default_timeout = default_timeout, tr_content_codecs = codecs, tr_session_runtime = harness\<rparr>"

definition builder_build :: "ClientBuilder \<Rightarrow> Error + 'c Transport" where
  "builder_build self =
     (case (case cb_proxy self of Some proxy \<Rightarrow> validate_proxy proxy | None \<Rightarrow> Inr ()) of
        Inl e \<Rightarrow> Inl e
      | Inr _ \<Rightarrow>
          Inr (transport_configured (cb_proxy self) (cb_tls self) (cb_timeout self)
            (cb_pool_max_idle_per_host self) (cb_content_codecs self) (cb_session_runtime self)))"


text \<open>A client is its transport; the shorthands make a builder bound to it.\<close>

definition client_new :: "Error + 'c Transport" where
  "client_new = builder_build builder_default"

definition client_request ::
  "'h header_map \<Rightarrow> (rstr \<Rightarrow> Uri option) \<Rightarrow> 'c Transport \<Rightarrow> Method \<Rightarrow> rstr \<Rightarrow> ('h, 's, 'c Transport) RequestBuilder" where
  "client_request hm parse_uri self method url = rb_for_client hm parse_uri method url self"

definition client_get where
  "client_get hm parse_uri self = client_request hm parse_uri self (lit ''GET'')"

definition client_head where
  "client_head hm parse_uri self = client_request hm parse_uri self (lit ''HEAD'')"

definition client_post where
  "client_post hm parse_uri self = client_request hm parse_uri self (lit ''POST'')"

definition client_put where
  "client_put hm parse_uri self = client_request hm parse_uri self (lit ''PUT'')"

definition client_patch where
  "client_patch hm parse_uri self = client_request hm parse_uri self (lit ''PATCH'')"

definition client_delete where
  "client_delete hm parse_uri self = client_request hm parse_uri self (lit ''DELETE'')"

section \<open>Properties of \<open>client.rs\<close>\<close>

text \<open>A proxy the code can use: its scheme belongs to its variant and it names a host.\<close>

definition proxy_well_formed :: "Proxy \<Rightarrow> bool" where
  "proxy_well_formed proxy \<longleftrightarrow>
     (\<exists>scheme host. uri_scheme (proxy_uri proxy) = Some scheme \<and> uri_host (proxy_uri proxy) = Some host \<and>
        host \<noteq> [] \<and> uri_authority (proxy_uri proxy) \<noteq> None \<and>
        map to_ascii_lowercase scheme \<in>
          (case proxy of
             ProxyHttp _ \<Rightarrow> {lit ''http''} | ProxyHttps _ \<Rightarrow> {lit ''https''}
           | Socks4 _ \<Rightarrow> {lit ''socks4'', lit ''socks4a''}
           | Socks5 _ remote \<Rightarrow> if remote then {lit ''socks5'', lit ''socks5h''} else {lit ''socks5''}) \<and>
        (case proxy of Socks4 _ \<Rightarrow> map to_ascii_lowercase scheme = scheme | _ \<Rightarrow> True))"

lemma eq_ignore_lower:
  "map to_ascii_lowercase t = t \<Longrightarrow> eq_ignore_ascii_case s t \<longleftrightarrow> map to_ascii_lowercase s = t"
  by (simp add: eq_ignore_ascii_case_def)

lemma scheme_literals:
  "map to_ascii_lowercase (lit ''http'') = (lit ''http'' :: rstr)" "map to_ascii_lowercase (lit ''https'') = (lit ''https'' :: rstr)"
  "map to_ascii_lowercase (lit ''socks4'') = (lit ''socks4'' :: rstr)"
  "map to_ascii_lowercase (lit ''socks4a'') = (lit ''socks4a'' :: rstr)"
  "map to_ascii_lowercase (lit ''socks5'') = (lit ''socks5'' :: rstr)" "map to_ascii_lowercase (lit ''socks5h'') = (lit ''socks5h'' :: rstr)"
  by code_simp+

lemma validate_proxy_iff: "validate_proxy proxy = Inr () \<longleftrightarrow> proxy_well_formed proxy"
proof (cases "uri_scheme (proxy_uri proxy)")
  case None
  then show ?thesis by (simp add: validate_proxy_def proxy_well_formed_def Let_def)
next
  case (Some scheme)
  have "valid_proxy_scheme proxy scheme \<longleftrightarrow>
      map to_ascii_lowercase scheme \<in>
          (case proxy of
             ProxyHttp _ \<Rightarrow> {lit ''http''} | ProxyHttps _ \<Rightarrow> {lit ''https''}
           | Socks4 _ \<Rightarrow> {lit ''socks4'', lit ''socks4a''}
           | Socks5 _ remote \<Rightarrow> if remote then {lit ''socks5'', lit ''socks5h''} else {lit ''socks5''}) \<and>
        (case proxy of Socks4 _ \<Rightarrow> map to_ascii_lowercase scheme = scheme | _ \<Rightarrow> True)"
    unfolding valid_proxy_scheme_def
    by (cases proxy) (auto simp: eq_ignore_lower scheme_literals simp del: lit_simps)
  then show ?thesis using Some
    by (auto simp: validate_proxy_def proxy_well_formed_def Let_def split: option.splits)
qed

text \<open>
  C31. A client is built if and only if its proxy, when there is one, has a scheme of its variant
  and names a host: any case of letters for HTTP and SOCKS5, lower case only for SOCKS4, and
  \<open>socks5h\<close> only when the proxy resolves names. The client then carries exactly what was
  configured and an empty pool of the configured size; otherwise the error is of the proxy kind.
\<close>

theorem build_outcome:
  "case builder_build self of
     Inr t \<Rightarrow>
       (case cb_proxy self of None \<Rightarrow> True | Some proxy \<Rightarrow> proxy_well_formed proxy) \<and>
       tr_proxy t = cb_proxy self \<and> tr_tls t = cb_tls self \<and> tr_default_timeout t = cb_timeout self \<and>
       tr_content_codecs t = cb_content_codecs self \<and> tr_session_runtime t = cb_session_runtime self \<and>
       pool_ok (tr_pool t) \<and> max_idle_per_key (tr_pool t) = cb_pool_max_idle_per_host self \<and>
       (\<forall>k. idle_of (tr_pool t) k = [])
   | Inl e \<Rightarrow> (\<exists>proxy. cb_proxy self = Some proxy \<and> \<not> proxy_well_formed proxy) \<and> kind e = Proxy_Kind"
proof -
  have k: "validate_proxy proxy = Inl e \<Longrightarrow> kind e = Proxy_Kind" for proxy e
    by (auto simp: validate_proxy_def Let_def split: option.splits if_splits)
  have v: "\<exists>e. validate_proxy proxy = Inl e" if "\<not> proxy_well_formed proxy" for proxy
    using that validate_proxy_iff [of proxy] by (cases "validate_proxy proxy") auto
  have p: "pool_ok (pool_new n h :: 'a Pool)" "idle_of (pool_new n h :: 'a Pool) key = []"
    "max_idle_per_key (pool_new n h :: 'a Pool) = n" for n h key
    by (simp_all add: pool_ok_def pool_new_def idle_of_def)
  show ?thesis
  proof (cases "cb_proxy self")
    case None
    then show ?thesis using p by (simp add: builder_build_def transport_configured_def)
  next
    case (Some proxy)
    show ?thesis
    proof (cases "proxy_well_formed proxy")
      case True
      then have "validate_proxy proxy = Inr ()" by (simp add: validate_proxy_iff)
      then show ?thesis using True Some p by (simp add: builder_build_def transport_configured_def)
    next
      case False
      then obtain e where "validate_proxy proxy = Inl e" using v by blast
      then show ?thesis using False Some k by (simp add: builder_build_def)
    qed
  qed
qed

end
