(* ===== verification/Decode.thy ===== *)
theory Decode
  imports Client
begin

text \<open>
  The model of \<open>crates/requests/src/transport/decode.rs\<close>: the reader that feeds a response body to
  a decoder, and the machine that polls the decoder. Hyper's body and the decoders of
  \<open>async_compression\<close> are arguments. A loop over the body's frames is a partial function, \<open>None\<close>
  when it never returns; a panic is \<open>None\<close> too.
\<close>

section \<open>Content encodings\<close>

definition DECODE_CHUNK_SIZE :: nat where
  "DECODE_CHUNK_SIZE = 8 * 1024"

definition INITIAL_DECODE_OUTPUT_LIMIT :: nat where
  "INITIAL_DECODE_OUTPUT_LIMIT = 16"

definition BROTLI_INITIAL_INPUT_LIMIT :: nat where
  "BROTLI_INITIAL_INPUT_LIMIT = 1"

datatype ContentEncoding = EncGzip | EncDeflate | EncBrotli | EncZstandard

definition encoding_enabled :: "rstr \<Rightarrow> ContentCodecs \<Rightarrow> ContentEncoding option" where
  "encoding_enabled v codecs =
     (let v = trim v in
      if \<not> decodes codecs v then None
      else if eq_ignore_ascii_case v (lit ''gzip'') \<or> eq_ignore_ascii_case v (lit ''x-gzip'') then Some EncGzip
      else if eq_ignore_ascii_case v (lit ''deflate'') then Some EncDeflate
      else if eq_ignore_ascii_case v (lit ''br'') then Some EncBrotli
      else if eq_ignore_ascii_case v (lit ''zstd'') then Some EncZstandard
      else None)"

section \<open>The reader\<close>

text \<open>A frame of \<open>hyper::body::Incoming\<close>; \<open>into_data\<close> fails on trailers.\<close>

datatype Frame = DataFrame bytes | TrailersFrame

type_synonym 'b frame_source = "'b \<Rightarrow> (hyper_error + Frame) option Poll \<times> 'b"

record 'b IncomingReader =
  ir_body :: 'b
  ir_buffered :: bytes
  buffered_offset :: nat
  ir_replay :: bytes
  replay_offset :: nat
  tentative :: bytes
  record_tentative :: bool
  transport_error :: "Error option"
  clean_eof :: bool
  ir_chunked :: bool
  input_limit :: "nat option"
  wire_progress :: bool

definition reader_new :: "'b \<Rightarrow> bool \<Rightarrow> 'b IncomingReader" where
  "reader_new body chunked =
     \<lparr>ir_body = body, ir_buffered = [], buffered_offset = 0, ir_replay = [], replay_offset = 0, tentative = [],
      record_tentative = False, transport_error = None, clean_eof = False, ir_chunked = chunked,
      input_limit = None, wire_progress = False\<rparr>"

definition reader_take_wire_progress :: "'b IncomingReader \<Rightarrow> bool \<times> 'b IncomingReader" where
  "reader_take_wire_progress self = (wire_progress self, self\<lparr>wire_progress := False\<rparr>)"

definition limit_input_until_output :: "nat \<Rightarrow> 'b IncomingReader \<Rightarrow> 'b IncomingReader" where
  "limit_input_until_output limit self = self\<lparr>input_limit := Some limit\<rparr>"

definition remove_input_limit :: "'b IncomingReader \<Rightarrow> 'b IncomingReader" where
  "remove_input_limit self = self\<lparr>input_limit := None\<rparr>"

definition start_tentative_recording :: "'b IncomingReader \<Rightarrow> 'b IncomingReader" where
  "start_tentative_recording self = self\<lparr>record_tentative := True\<rparr>"

definition stop_tentative_recording :: "'b IncomingReader \<Rightarrow> 'b IncomingReader" where
  "stop_tentative_recording self = self\<lparr>record_tentative := False, tentative := []\<rparr>"

definition install_tentative_replay :: "'b IncomingReader \<Rightarrow> 'b IncomingReader" where
  "install_tentative_replay self =
     self\<lparr>record_tentative := False, ir_replay := tentative self, tentative := [], replay_offset := 0\<rparr>"

definition take_transport_error :: "'b IncomingReader \<Rightarrow> Error option \<times> 'b IncomingReader" where
  "take_transport_error self = (transport_error self, self\<lparr>transport_error := None\<rparr>)"

text \<open>The slice of a buffer from an offset, within the input limit.\<close>

definition limited :: "nat option \<Rightarrow> nat \<Rightarrow> bytes \<Rightarrow> bytes" where
  "limited limit offset bs =
     (let e = (case limit of None \<Rightarrow> length bs | Some l \<Rightarrow> min (offset + l) (length bs)) in
      take (e - offset) (drop offset bs))"

text \<open>What an event of the body does to the reader.\<close>

definition on_frame :: "(hyper_error + Frame) option \<Rightarrow> 'b IncomingReader \<Rightarrow> 'b IncomingReader" where
  "on_frame event this =
     (case event of
        Some (Inr (DataFrame bs)) \<Rightarrow>
          if bs \<noteq> [] then this\<lparr>wire_progress := True, ir_buffered := bs, buffered_offset := 0\<rparr> else this
      | Some (Inr TrailersFrame) \<Rightarrow> this
      | Some (Inl error) \<Rightarrow>
          this\<lparr>transport_error := Some (if ir_chunked this then chunked_encoding (he_display error)
            else response_body_error (he_display error))\<rparr>
      | None \<Rightarrow> this\<lparr>clean_eof := True\<rparr>)"

partial_function (option) poll_fill_buf ::
  "'b frame_source \<Rightarrow> 'b IncomingReader \<Rightarrow> ((io_error + bytes) Poll \<times> 'b IncomingReader) option" where
  "poll_fill_buf pf this =
     (if replay_offset this < length (ir_replay this) then
        Some (Ready (Inr (limited (input_limit this) (replay_offset this) (ir_replay this))), this)
      else if buffered_offset this < length (ir_buffered this) then
        Some (Ready (Inr (limited (input_limit this) (buffered_offset this) (ir_buffered this))), this)
      else if transport_error this \<noteq> None \<or> clean_eof this then Some (Ready (Inr []), this)
      else
        case pf (ir_body this) of
          (Pending, body) \<Rightarrow> Some (Pending, this\<lparr>ir_body := body\<rparr>)
        | (Ready event, body) \<Rightarrow> poll_fill_buf pf (on_frame event (this\<lparr>ir_body := body\<rparr>)))"

definition reader_consume :: "nat \<Rightarrow> 'b IncomingReader \<Rightarrow> 'b IncomingReader option" where
  "reader_consume amount this =
     (if replay_offset this < length (ir_replay this) then
        if amount \<le> length (ir_replay this) - replay_offset this then
          Some (this\<lparr>tentative := (if record_tentative this
                 then tentative this @ take amount (drop (replay_offset this) (ir_replay this)) else tentative this),
               replay_offset := replay_offset this + amount\<rparr>)
        else None
      else if amount \<le> length (ir_buffered this) - buffered_offset this then
        Some (this\<lparr>tentative := (if record_tentative this
               then tentative this @ take amount (drop (buffered_offset this) (ir_buffered this)) else tentative this),
             buffered_offset := buffered_offset this + amount\<rparr>)
      else None)"

definition reader_poll_read ::
  "'b frame_source \<Rightarrow> nat \<Rightarrow> 'b IncomingReader \<Rightarrow> ((io_error + bytes) Poll \<times> 'b IncomingReader) option" where
  "reader_poll_read pf room self =
     (case poll_fill_buf pf self of
        None \<Rightarrow> None
      | Some (Pending, self) \<Rightarrow> Some (Pending, self)
      | Some (Ready (Inl e), self) \<Rightarrow> Some (Ready (Inl e), self)
      | Some (Ready (Inr available), self) \<Rightarrow>
          let amount = min (length available) room in
          map_option (Pair (Ready (Inr (take amount available)))) (reader_consume amount self))"

definition adapter_failed :: Error where
  "adapter_failed = response_body_error (lit ''response body adapter failed'')"

partial_function (option) poll_drain ::
  "'b frame_source \<Rightarrow> 'b IncomingReader \<Rightarrow> ((Error + unit) Poll \<times> 'b IncomingReader) option" where
  "poll_drain pf self =
     (case take_transport_error self of
        (Some error, self) \<Rightarrow> Some (Ready (Inl error), self)
      | (None, self) \<Rightarrow>
          (case poll_fill_buf pf self of
             None \<Rightarrow> None
           | Some (Pending, self) \<Rightarrow> Some (Pending, self)
           | Some (Ready (Inl _), self) \<Rightarrow> Some (Ready (Inl adapter_failed), self)
           | Some (Ready (Inr available), self) \<Rightarrow>
               if available = [] then
                 (case take_transport_error self of
                    (Some error, self) \<Rightarrow> Some (Ready (Inl error), self)
                  | (None, self) \<Rightarrow> Some (Ready (Inr ()), self))
               else
                 Option.bind (reader_consume (length available) self) (poll_drain pf)))"

definition poll_reject_trailing ::
  "'b frame_source \<Rightarrow> 'b IncomingReader \<Rightarrow> ((Error + unit) Poll \<times> 'b IncomingReader) option" where
  "poll_reject_trailing pf self =
     (case take_transport_error self of
        (Some error, self) \<Rightarrow> Some (Ready (Inl error), self)
      | (None, self) \<Rightarrow>
          (case poll_fill_buf pf self of
             None \<Rightarrow> None
           | Some (Pending, self) \<Rightarrow> Some (Pending, self)
           | Some (Ready (Inl _), self) \<Rightarrow> Some (Ready (Inl adapter_failed), self)
           | Some (Ready (Inr available), self) \<Rightarrow>
               if available \<noteq> [] then Some (Ready (Inl content_decoding), self)
               else
                 (case take_transport_error self of
                    (Some error, self) \<Rightarrow> Some (Ready (Inl error), self)
                  | (None, self) \<Rightarrow> Some (Ready (Inr ()), self))))"

section \<open>The decoding machine\<close>

text \<open>An \<open>io::Error\<close> of a decoder: the kinds the code tells apart and its text.\<close>

datatype io_kind = UnexpectedEof | OtherKind | AnyKind

record decoder_error =
  de_kind :: io_kind
  de_display :: rstr

text \<open>
  The decoders: one is made for a format, with or without multiple members; polled with room for
  output it reads its input from the reader.
\<close>

datatype codec = GzipCodec | ZlibCodec | DeflateCodec | BrotliCodec | ZstdCodec

record ('d, 'b) decoders =
  dc_new :: "codec \<Rightarrow> bool \<Rightarrow> 'd"
  dc_poll_read :: "'d \<Rightarrow> 'b IncomingReader \<Rightarrow> nat \<Rightarrow>
    decoder_error option Poll \<times> bytes \<times> 'd \<times> 'b IncomingReader"

datatype ('d, 'b) DecoderState =
    Gzip 'd "'b IncomingReader" | Zlib 'd "'b IncomingReader" | Deflate 'd "'b IncomingReader"
  | Brotli 'd "'b IncomingReader" | Zstandard 'd "'b IncomingReader"
  | Drain "'b IncomingReader" | RejectTrailing "'b IncomingReader"

definition map_reader :: "('b IncomingReader \<Rightarrow> 'b IncomingReader) \<Rightarrow> ('d, 'b) DecoderState \<Rightarrow> ('d, 'b) DecoderState" where
  "map_reader f st =
     (case st of
        Gzip d r \<Rightarrow> Gzip d (f r) | Zlib d r \<Rightarrow> Zlib d (f r) | Deflate d r \<Rightarrow> Deflate d (f r)
      | Brotli d r \<Rightarrow> Brotli d (f r) | Zstandard d r \<Rightarrow> Zstandard d (f r)
      | Drain r \<Rightarrow> Drain (f r) | RejectTrailing r \<Rightarrow> RejectTrailing (f r))"

definition state_reader :: "('d, 'b) DecoderState \<Rightarrow> 'b IncomingReader" where
  "state_reader st =
     (case st of
        Gzip d r \<Rightarrow> r | Zlib d r \<Rightarrow> r | Deflate d r \<Rightarrow> r | Brotli d r \<Rightarrow> r | Zstandard d r \<Rightarrow> r
      | Drain r \<Rightarrow> r | RejectTrailing r \<Rightarrow> r)"

record ('d, 'b) DecodedBody =
  db_state :: "('d, 'b) DecoderState option"
  zlib_output :: bool
  output_seen :: bool
  pending_decoder_error :: "decoder_error option"

definition decoded_new :: "('d, 'b) decoders \<Rightarrow> 'b \<Rightarrow> ContentEncoding \<Rightarrow> bool \<Rightarrow> ('d, 'b) DecodedBody" where
  "decoded_new dc body encoding chunked =
     (let reader = reader_new body chunked;
          reader = (if encoding = EncBrotli then limit_input_until_output BROTLI_INITIAL_INPUT_LIMIT reader
            else reader);
          st = (case encoding of
              EncGzip \<Rightarrow> Gzip (dc_new dc GzipCodec True) reader
            | EncDeflate \<Rightarrow> Zlib (dc_new dc ZlibCodec False) (start_tentative_recording reader)
            | EncBrotli \<Rightarrow> Brotli (dc_new dc BrotliCodec False) reader
            | EncZstandard \<Rightarrow> Zstandard (dc_new dc ZstdCodec True) reader) in
      \<lparr>db_state = Some st, zlib_output = False, output_seen = False, pending_decoder_error = None\<rparr>)"

definition is_accepted_truncation :: "decoder_error \<Rightarrow> 'b IncomingReader \<Rightarrow> bool" where
  "is_accepted_truncation error reader \<longleftrightarrow>
     de_kind error = UnexpectedEof \<and> clean_eof reader \<and> transport_error reader = None"

definition is_flate_incomplete :: "decoder_error \<Rightarrow> bool" where
  "is_flate_incomplete error \<longleftrightarrow>
     de_kind error = UnexpectedEof \<or> (de_kind error = OtherKind \<and> de_display error = lit ''unexpected BufError'')"

definition is_accepted_flate_truncation :: "decoder_error \<Rightarrow> 'b IncomingReader \<Rightarrow> bool" where
  "is_accepted_flate_truncation error reader \<longleftrightarrow>
     clean_eof reader \<and> transport_error reader = None \<and> is_flate_incomplete error"

record DecoderRead =
  read_bytes :: bytes
  read_error :: "decoder_error option"

definition poll_decoder ::
  "('d, 'b) decoders \<Rightarrow> 'd \<Rightarrow> 'b IncomingReader \<Rightarrow> bool \<Rightarrow> DecoderRead Poll \<times> 'd \<times> 'b IncomingReader" where
  "poll_decoder dc decoder reader seen =
     (let output_limit = (if seen then DECODE_CHUNK_SIZE else INITIAL_DECODE_OUTPUT_LIMIT) in
      case dc_poll_read dc decoder reader output_limit of
        (Pending, _, d, r) \<Rightarrow> (Pending, d, r)
      | (Ready result, filled, d, r) \<Rightarrow> (Ready \<lparr>read_bytes = filled, read_error = result\<rparr>, d, r))"

text \<open>
  A turn of the loop of \<open>poll_next\<close>: it returns, or goes on with the state it has set. The body
  comes with its state taken out.
\<close>

datatype ('d, 'b) turn =
    Return "(Error + bytes) option Poll" "('d, 'b) DecodedBody" | Continue "('d, 'b) DecodedBody"

definition fail_with :: "Error \<Rightarrow> ('d, 'b) DecodedBody \<Rightarrow> ('d, 'b) turn" where
  "fail_with error self = Return (Ready (Some (Inl error))) (self\<lparr>db_state := None\<rparr>)"

text \<open>A decoder error: the transport's own error goes first, then truncation that is accepted.\<close>

definition decoder_failed ::
  "bool \<Rightarrow> 'b IncomingReader \<Rightarrow> ('d, 'b) DecodedBody \<Rightarrow> ('d, 'b) turn" where
  "decoder_failed accepted reader self =
     (case transport_error reader of
        Some error \<Rightarrow> fail_with error self
      | None \<Rightarrow>
          if accepted then Continue (self\<lparr>db_state := Some (Drain reader)\<rparr>)
          else fail_with content_decoding self)"

text \<open>The macro \<open>poll_multi_member\<close>, for gzip and zstandard.\<close>

definition multi_member_turn ::
  "('d, 'b) decoders \<Rightarrow> ('d \<Rightarrow> 'b IncomingReader \<Rightarrow> ('d, 'b) DecoderState) \<Rightarrow> ('d, 'b) DecodedBody \<Rightarrow> 'd \<Rightarrow>
   'b IncomingReader \<Rightarrow> ('d, 'b) turn" where
  "multi_member_turn dc variant self decoder reader =
     (case pending_decoder_error self of
        Some error \<Rightarrow>
          decoder_failed (is_accepted_truncation error reader) reader (self\<lparr>pending_decoder_error := None\<rparr>)
      | None \<Rightarrow>
          (case transport_error reader of
             Some error \<Rightarrow> fail_with error self
           | None \<Rightarrow>
               (case poll_decoder dc decoder reader (output_seen self) of
                  (Pending, d, r) \<Rightarrow> Return Pending (self\<lparr>db_state := Some (variant d r)\<rparr>)
                | (Ready read, d, r) \<Rightarrow>
                    if read_bytes read \<noteq> [] then
                      Return (Ready (Some (Inr (read_bytes read))))
                        (self\<lparr>output_seen := True, pending_decoder_error := read_error read,
                              db_state := Some (variant d r)\<rparr>)
                    else
                      case read_error read of
                        Some error \<Rightarrow> decoder_failed (is_accepted_truncation error r) r self
                      | None \<Rightarrow>
                          (case transport_error r of
                             Some error \<Rightarrow> fail_with error self
                           | None \<Rightarrow> Continue (self\<lparr>db_state := Some (Drain r)\<rparr>)))))"

definition zlib_turn ::
  "('d, 'b) decoders \<Rightarrow> ('d, 'b) DecodedBody \<Rightarrow> 'd \<Rightarrow> 'b IncomingReader \<Rightarrow> ('d, 'b) turn" where
  "zlib_turn dc self decoder reader =
     (case pending_decoder_error self of
        Some error \<Rightarrow>
          let reader = stop_tentative_recording reader in
          decoder_failed (is_accepted_flate_truncation error reader) reader
            (self\<lparr>pending_decoder_error := None\<rparr>)
      | None \<Rightarrow>
          (case transport_error reader of
             Some error \<Rightarrow> fail_with error self
           | None \<Rightarrow>
               (case poll_decoder dc decoder reader (output_seen self) of
                  (Pending, d, r) \<Rightarrow> Return Pending (self\<lparr>db_state := Some (Zlib d r)\<rparr>)
                | (Ready read, d, r) \<Rightarrow>
                    if read_bytes read \<noteq> [] then
                      Return (Ready (Some (Inr (read_bytes read))))
                        (self\<lparr>zlib_output := True, output_seen := True, pending_decoder_error := read_error read,
                              db_state := Some (Zlib d (stop_tentative_recording r))\<rparr>)
                    else
                      case read_error read of
                        None \<Rightarrow>
                          (case transport_error r of
                             Some error \<Rightarrow> fail_with error self
                           | None \<Rightarrow> Continue (self\<lparr>db_state := Some (Drain (stop_tentative_recording r))\<rparr>))
                      | Some error \<Rightarrow>
                          (case transport_error r of
                             Some error \<Rightarrow> fail_with error self
                           | None \<Rightarrow>
                               if is_accepted_flate_truncation error r then
                                 Continue (self\<lparr>db_state := Some (Drain (stop_tentative_recording r))\<rparr>)
                               else if \<not> zlib_output self then
                                 Continue (self\<lparr>db_state := Some (Deflate (dc_new dc DeflateCodec False)
                                   (install_tentative_replay r))\<rparr>)
                               else fail_with content_decoding self))))"

definition deflate_turn ::
  "('d, 'b) decoders \<Rightarrow> ('d, 'b) DecodedBody \<Rightarrow> 'd \<Rightarrow> 'b IncomingReader \<Rightarrow> ('d, 'b) turn" where
  "deflate_turn dc self decoder reader =
     (case pending_decoder_error self of
        Some error \<Rightarrow>
          decoder_failed (is_accepted_flate_truncation error reader) reader
            (self\<lparr>pending_decoder_error := None\<rparr>)
      | None \<Rightarrow>
          (case transport_error reader of
             Some error \<Rightarrow> fail_with error self
           | None \<Rightarrow>
               (case poll_decoder dc decoder reader (output_seen self) of
                  (Pending, d, r) \<Rightarrow> Return Pending (self\<lparr>db_state := Some (Deflate d r)\<rparr>)
                | (Ready read, d, r) \<Rightarrow>
                    if read_bytes read \<noteq> [] then
                      Return (Ready (Some (Inr (read_bytes read))))
                        (self\<lparr>output_seen := True, pending_decoder_error := read_error read,
                              db_state := Some (Deflate d r)\<rparr>)
                    else
                      case read_error read of
                        None \<Rightarrow>
                          (case transport_error r of
                             Some error \<Rightarrow> fail_with error self
                           | None \<Rightarrow> Continue (self\<lparr>db_state := Some (Drain r)\<rparr>))
                      | Some error \<Rightarrow> decoder_failed (is_accepted_flate_truncation error r) r self)))"

definition brotli_turn ::
  "('d, 'b) decoders \<Rightarrow> ('d, 'b) DecodedBody \<Rightarrow> 'd \<Rightarrow> 'b IncomingReader \<Rightarrow> ('d, 'b) turn" where
  "brotli_turn dc self decoder reader =
     (case pending_decoder_error self of
        Some error \<Rightarrow>
          decoder_failed (is_accepted_truncation error reader) reader (self\<lparr>pending_decoder_error := None\<rparr>)
      | None \<Rightarrow>
          (case transport_error reader of
             Some error \<Rightarrow> fail_with error self
           | None \<Rightarrow>
               (case poll_decoder dc decoder reader (output_seen self) of
                  (Pending, d, r) \<Rightarrow> Return Pending (self\<lparr>db_state := Some (Brotli d r)\<rparr>)
                | (Ready read, d, r) \<Rightarrow>
                    if read_bytes read \<noteq> [] then
                      Return (Ready (Some (Inr (read_bytes read))))
                        (self\<lparr>output_seen := True, pending_decoder_error := read_error read,
                              db_state := Some (Brotli d (remove_input_limit r))\<rparr>)
                    else
                      case read_error read of
                        Some error \<Rightarrow> decoder_failed (is_accepted_truncation error r) r self
                      | None \<Rightarrow> Continue (self\<lparr>db_state := Some (RejectTrailing r)\<rparr>))))"

text \<open>The two states that only look at the rest of the input.\<close>

definition rest_turn ::
  "('b IncomingReader \<Rightarrow> ('d, 'b) DecoderState) \<Rightarrow> ('d, 'b) DecodedBody \<Rightarrow> (Error + unit) Poll \<times> 'b IncomingReader \<Rightarrow>
   ('d, 'b) turn" where
  "rest_turn variant self result =
     (case result of
        (Pending, r) \<Rightarrow> Return Pending (self\<lparr>db_state := Some (variant r)\<rparr>)
      | (Ready (Inr ()), r) \<Rightarrow> Return (Ready None) (self\<lparr>db_state := None\<rparr>)
      | (Ready (Inl error), r) \<Rightarrow> fail_with error self)"

definition decode_turn ::
  "('d, 'b) decoders \<Rightarrow> 'b frame_source \<Rightarrow> ('d, 'b) DecodedBody \<Rightarrow> ('d, 'b) DecoderState \<Rightarrow> ('d, 'b) turn option" where
  "decode_turn dc pf self st =
     (case st of
        Gzip d r \<Rightarrow> Some (multi_member_turn dc Gzip self d r)
      | Zlib d r \<Rightarrow> Some (zlib_turn dc self d r)
      | Deflate d r \<Rightarrow> Some (deflate_turn dc self d r)
      | Brotli d r \<Rightarrow> Some (brotli_turn dc self d r)
      | Zstandard d r \<Rightarrow> Some (multi_member_turn dc Zstandard self d r)
      | Drain r \<Rightarrow> map_option (rest_turn Drain self) (poll_drain pf r)
      | RejectTrailing r \<Rightarrow> map_option (rest_turn RejectTrailing self) (poll_reject_trailing pf r))"

text \<open>How many turns are left at most.\<close>

definition state_rank :: "('d, 'b) DecoderState option \<Rightarrow> nat" where
  "state_rank st =
     (case st of None \<Rightarrow> 0 | Some (Drain _) \<Rightarrow> 1 | Some (RejectTrailing _) \<Rightarrow> 1 | Some (Zlib _ _) \<Rightarrow> 3
      | Some _ \<Rightarrow> 2)"

lemma rest_turn_returns: "rest_turn variant self result \<noteq> Continue self'"
proof -
  obtain q r where result: "result = (q, r)" by fastforce
  show ?thesis
  proof (cases q)
    case (Ready x)
    then show ?thesis by (cases x) (simp_all add: result rest_turn_def fail_with_def split: unit.split)
  qed (simp add: result rest_turn_def)
qed

lemma decode_turn_rank:
  "decode_turn dc pf self st = Some (Continue self') \<Longrightarrow> state_rank (db_state self') < state_rank (Some st)"
  by (cases st)
    (auto simp: decode_turn_def multi_member_turn_def zlib_turn_def deflate_turn_def brotli_turn_def
      rest_turn_returns decoder_failed_def fail_with_def state_rank_def Let_def
      split: option.splits prod.splits Poll.splits if_splits)

function decoded_poll_next ::
  "('d, 'b) decoders \<Rightarrow> 'b frame_source \<Rightarrow> ('d, 'b) DecodedBody \<Rightarrow>
   ((Error + bytes) option Poll \<times> ('d, 'b) DecodedBody) option" where
  "decoded_poll_next dc pf self =
     (case db_state self of
        None \<Rightarrow> Some (Ready None, self)
      | Some st \<Rightarrow>
          (case decode_turn dc pf (self\<lparr>db_state := None\<rparr>) st of
             None \<Rightarrow> None
           | Some (Return result self) \<Rightarrow> Some (result, self)
           | Some (Continue self) \<Rightarrow> decoded_poll_next dc pf self))"
  by auto
termination
  by (relation "measure (\<lambda>(_, _, self). state_rank (db_state self))") (auto dest: decode_turn_rank)

declare decoded_poll_next.simps [simp del]

definition decoded_take_wire_progress :: "('d, 'b) DecodedBody \<Rightarrow> bool \<times> ('d, 'b) DecodedBody" where
  "decoded_take_wire_progress self =
     (case db_state self of
        None \<Rightarrow> (False, self)
      | Some st \<Rightarrow>
          (wire_progress (state_reader st),
           self\<lparr>db_state := Some (map_reader (\<lambda>r. r\<lparr>wire_progress := False\<rparr>) st)\<rparr>))"


section \<open>Lemmas: the reader refines a queue of bytes\<close>

text \<open>
  What hyper documents of a body: the frames deliver its bytes in order, and after an error or
  the end there are none. \<open>rest\<close> is what a body still delivers.
\<close>

definition body_documented :: "'b frame_source \<Rightarrow> ('b \<Rightarrow> bytes) \<Rightarrow> bool" where
  "body_documented pf rest \<longleftrightarrow>
     (\<forall>b. case pf b of
        (Pending, b') \<Rightarrow> rest b' = rest b
      | (Ready (Some (Inr (DataFrame bs))), b') \<Rightarrow> rest b = bs @ rest b'
      | (Ready (Some (Inr TrailersFrame)), b') \<Rightarrow> rest b' = rest b
      | (Ready _, b') \<Rightarrow> rest b = [] \<and> rest b' = [])"

lemma body_documentedD:
  assumes "body_documented pf rest" and "pf b = (q, b')"
  shows "q = Pending \<Longrightarrow> rest b' = rest b"
    and "q = Ready (Some (Inr (DataFrame bs))) \<Longrightarrow> rest b = bs @ rest b'"
    and "q = Ready (Some (Inr TrailersFrame)) \<Longrightarrow> rest b' = rest b"
    and "q = Ready (Some (Inl e)) \<Longrightarrow> rest b = [] \<and> rest b' = []"
    and "q = Ready None \<Longrightarrow> rest b = [] \<and> rest b' = []"
  using assms by (auto simp: body_documented_def dest!: spec [of _ b])

text \<open>The queue a reader stands for, and the buffer it is at.\<close>

definition reader_bytes :: "('b \<Rightarrow> bytes) \<Rightarrow> 'b IncomingReader \<Rightarrow> bytes" where
  "reader_bytes rest r =
     drop (replay_offset r) (ir_replay r) @ drop (buffered_offset r) (ir_buffered r) @ rest (ir_body r)"

definition reader_current :: "'b IncomingReader \<Rightarrow> bytes" where
  "reader_current r = (if replay_offset r < length (ir_replay r) then drop (replay_offset r) (ir_replay r)
     else drop (buffered_offset r) (ir_buffered r))"

definition reader_ok :: "'b IncomingReader \<Rightarrow> bool" where
  "reader_ok r \<longleftrightarrow> replay_offset r \<le> length (ir_replay r) \<and> buffered_offset r \<le> length (ir_buffered r) \<and>
     input_limit r \<noteq> Some 0"

lemma limited_prefix: "prefix (limited limit offset bs) (drop offset bs)"
  by (simp add: limited_def Let_def take_is_prefix)

lemma limited_nonempty: "offset < length bs \<Longrightarrow> limit \<noteq> Some 0 \<Longrightarrow> limited limit offset bs \<noteq> []"
  by (auto simp: limited_def Let_def split: option.splits)

lemma on_frame_frame:
  "record_tentative (on_frame ev r) = record_tentative r" "tentative (on_frame ev r) = tentative r"
  "ir_replay (on_frame ev r) = ir_replay r" "replay_offset (on_frame ev r) = replay_offset r"
  "input_limit (on_frame ev r) = input_limit r" "ir_body (on_frame ev r) = ir_body r"
  by (auto simp: on_frame_def split: option.split sum.split Frame.split)

lemma on_frame_bytes:
  assumes "body_documented pf rest" and "pf (ir_body r) = (Ready ev, b)" and "reader_ok r"
    and "\<not> buffered_offset r < length (ir_buffered r)"
  shows "reader_ok (on_frame ev (r\<lparr>ir_body := b\<rparr>)) \<and>
    reader_bytes rest (on_frame ev (r\<lparr>ir_body := b\<rparr>)) = reader_bytes rest r"
proof -
  note d = body_documentedD [OF assms(1,2)]
  show ?thesis
  proof (cases ev)
    case None
    then show ?thesis using d(5) assms(3) by (auto simp: on_frame_def reader_ok_def reader_bytes_def)
  next
    case (Some x)
    show ?thesis
    proof (cases x)
      case (Inl e)
      then show ?thesis using d(4) Some assms(3) by (auto simp: on_frame_def reader_ok_def reader_bytes_def)
    next
      case (Inr f)
      then show ?thesis using d(2,3) Some assms(3,4)
        by (cases f) (auto simp: on_frame_def reader_ok_def reader_bytes_def)
    qed
  qed
qed

text \<open>Filling the buffer changes nothing of the queue and shows a prefix of it.\<close>

definition filled :: "('b \<Rightarrow> bytes) \<Rightarrow> 'b IncomingReader \<Rightarrow> (io_error + bytes) Poll \<times> 'b IncomingReader \<Rightarrow> bool" where
  "filled rest r result \<longleftrightarrow>
     (case result of (q, r') \<Rightarrow>
        reader_ok r' \<and> reader_bytes rest r' = reader_bytes rest r \<and> tentative r' = tentative r \<and>
        record_tentative r' = record_tentative r \<and> ir_replay r' = ir_replay r \<and> replay_offset r' = replay_offset r \<and>
        (case q of Pending \<Rightarrow> True
         | Ready (Inl _) \<Rightarrow> False
         | Ready (Inr bs) \<Rightarrow> prefix bs (reader_current r') \<and>
             (bs = [] \<longrightarrow> reader_current r' = [] \<and> (transport_error r' \<noteq> None \<or> clean_eof r'))))"

lemma poll_fill_buf_filled:
  assumes "poll_fill_buf pf r = Some result" and "body_documented pf rest" and "reader_ok r"
  shows "filled rest r result"
proof -
  have "body_documented pf rest \<longrightarrow> reader_ok r \<longrightarrow> filled rest r result"
  proof (rule poll_fill_buf.raw_induct [where P = "\<lambda>pf r result. body_documented pf rest \<longrightarrow> reader_ok r \<longrightarrow> filled rest r result",
        OF _ assms(1)], intro impI)
    fix fill pf r result
    assume IH: "\<And>pf r result. fill pf r = Some result \<Longrightarrow> body_documented pf rest \<longrightarrow> reader_ok r \<longrightarrow> filled rest r result"
      and hyps: "(if replay_offset r < length (ir_replay r)
       then Some (Ready (Inr (limited (input_limit r) (replay_offset r) (ir_replay r))), r)
       else if buffered_offset r < length (ir_buffered r)
       then Some (Ready (Inr (limited (input_limit r) (buffered_offset r) (ir_buffered r))), r)
       else if transport_error r \<noteq> None \<or> clean_eof r then Some (Ready (Inr []), r)
       else case pf (ir_body r) of
            (Pending, body) \<Rightarrow> Some (Pending, r\<lparr>ir_body := body\<rparr>)
          | (Ready event, body) \<Rightarrow> fill pf (on_frame event (r\<lparr>ir_body := body\<rparr>))) = Some result"
      and prems: "body_documented pf rest" "reader_ok r"
    consider (replay) "replay_offset r < length (ir_replay r)"
      | (buffer) "\<not> replay_offset r < length (ir_replay r)" "buffered_offset r < length (ir_buffered r)"
      | (over) "\<not> replay_offset r < length (ir_replay r)" "\<not> buffered_offset r < length (ir_buffered r)"
          "transport_error r \<noteq> None \<or> clean_eof r"
      | (poll) "\<not> replay_offset r < length (ir_replay r)" "\<not> buffered_offset r < length (ir_buffered r)"
          "\<not> (transport_error r \<noteq> None \<or> clean_eof r)" by blast
    then show "filled rest r result"
    proof cases
      case replay
      then have "result = (Ready (Inr (limited (input_limit r) (replay_offset r) (ir_replay r))), r)" using hyps by simp
      then show ?thesis using replay prems limited_prefix limited_nonempty
        by (simp add: filled_def reader_ok_def reader_current_def)
    next
      case buffer
      then have "result = (Ready (Inr (limited (input_limit r) (buffered_offset r) (ir_buffered r))), r)" using hyps by simp
      then show ?thesis using buffer prems limited_prefix limited_nonempty
        by (simp add: filled_def reader_ok_def reader_current_def)
    next
      case over
      then have "result = (Ready (Inr []), r)" using hyps by simp
      then show ?thesis using over prems by (simp add: filled_def reader_current_def)
    next
      case poll
      obtain q b where q: "pf (ir_body r) = (q, b)" by fastforce
      show ?thesis
      proof (cases q)
        case Pending
        then have "result = (Pending, r\<lparr>ir_body := b\<rparr>)" using hyps poll q by simp
        then show ?thesis using prems(2) body_documentedD(1) [OF prems(1) q Pending]
          by (simp add: filled_def reader_ok_def reader_bytes_def)
      next
        case (Ready ev)
        let ?r = "on_frame ev (r\<lparr>ir_body := b\<rparr>)"
        have f: "reader_ok ?r \<and> reader_bytes rest ?r = reader_bytes rest r"
          using on_frame_bytes [OF prems(1) _ prems(2) poll(2), of ev b] q Ready by simp
        have "fill pf ?r = Some result" using hyps poll q Ready by simp
        then have "filled rest ?r result" using IH prems(1) f by blast
        then show ?thesis using f by (simp add: filled_def on_frame_frame)
      qed
    qed
  qed
  then show ?thesis using assms(2,3) by blast
qed

text \<open>Consuming what was shown takes it from the front of the queue and records it.\<close>

lemma reader_current_bytes: "reader_ok r \<Longrightarrow> prefix (reader_current r) (reader_bytes rest r)"
  by (auto simp: reader_current_def reader_bytes_def reader_ok_def)

lemma reader_consume_spec:
  assumes "reader_ok r" and "n \<le> length (reader_current r)"
  obtains r' where "reader_consume n r = Some r'" "reader_ok r'"
    "reader_bytes rest r' = drop n (reader_bytes rest r)" "record_tentative r' = record_tentative r"
    "tentative r' = (if record_tentative r then tentative r @ take n (reader_bytes rest r) else tentative r)"
    "ir_replay r' = ir_replay r" "replay_offset r = length (ir_replay r) \<longrightarrow> replay_offset r' = replay_offset r"
proof (cases "replay_offset r < length (ir_replay r)")
  case True
  then show thesis using assms
    by (intro that [of "the (reader_consume n r)"])
      (simp_all add: reader_consume_def reader_current_def reader_ok_def reader_bytes_def add.commute)
next
  case False
  then show thesis using assms
    by (intro that [of "the (reader_consume n r)"])
      (auto simp: reader_consume_def reader_current_def reader_ok_def reader_bytes_def add.commute)
qed

text \<open>What a decoder may do with its reader: look at the buffer and consume of what it saw.\<close>

inductive reader_step :: "'b frame_source \<Rightarrow> 'b IncomingReader \<Rightarrow> 'b IncomingReader \<Rightarrow> bool" for pf where
  Fill: "poll_fill_buf pf r = Some (q, r') \<Longrightarrow> reader_step pf r r'"
| Consume: "poll_fill_buf pf r = Some (Ready (Inr bs), r1) \<Longrightarrow> n \<le> length bs \<Longrightarrow> reader_consume n r1 = Some r' \<Longrightarrow>
    reader_step pf r r'"

text \<open>A recording reader without replay: the bytes recorded and those left are the body.\<close>

definition recording :: "('b \<Rightarrow> bytes) \<Rightarrow> bytes \<Rightarrow> 'b IncomingReader \<Rightarrow> bool" where
  "recording rest whole r \<longleftrightarrow> reader_ok r \<and> record_tentative r \<and> replay_offset r = length (ir_replay r) \<and>
     tentative r @ reader_bytes rest r = whole"

lemma recording_step:
  assumes "body_documented pf rest" and "reader_step pf r r'" and "recording rest whole r"
  shows "recording rest whole r'"
  using assms(2)
proof cases
  case (Fill q)
  then show ?thesis using poll_fill_buf_filled [OF Fill assms(1)] assms(3) by (simp add: recording_def filled_def)
next
  case (Consume bs r1 n)
  have f: "filled rest r (Ready (Inr bs), r1)"
    using poll_fill_buf_filled [OF Consume(1) assms(1)] assms(3) by (simp add: recording_def)
  then have r1: "recording rest whole r1" "n \<le> length (reader_current r1)"
    using assms(3) Consume(2) by (auto simp: recording_def filled_def dest: prefix_length_le)
  obtain r2 where "reader_consume n r1 = Some r2" "reader_ok r2"
    "reader_bytes rest r2 = drop n (reader_bytes rest r1)" "record_tentative r2 = record_tentative r1"
    "tentative r2 = (if record_tentative r1 then tentative r1 @ take n (reader_bytes rest r1) else tentative r1)"
    "ir_replay r2 = ir_replay r1" "replay_offset r1 = length (ir_replay r1) \<longrightarrow> replay_offset r2 = replay_offset r1"
    using reader_consume_spec [OF _ r1(2), of rest] r1(1) unfolding recording_def by blast
  then show ?thesis using r1(1) Consume(3) by (simp add: recording_def)
qed

lemma recording_steps:
  assumes "(reader_step pf)\<^sup>*\<^sup>* r r'" and "body_documented pf rest" and "recording rest whole r"
  shows "recording rest whole r'"
  using assms(1,3) by (induction rule: rtranclp_induct) (auto intro: recording_step [OF assms(2)])

lemma recording_replay: "recording rest whole r \<Longrightarrow> reader_bytes rest (install_tentative_replay r) = whole"
  by (auto simp: recording_def install_tentative_replay_def reader_bytes_def)

section \<open>Lemmas: the loops over the body end\<close>

text \<open>A body with finitely many frames: there is a measure that every frame decreases.\<close>

definition body_finite :: "'b frame_source \<Rightarrow> ('b \<Rightarrow> nat) \<Rightarrow> bool" where
  "body_finite pf frames \<longleftrightarrow> (\<forall>b ev b'. pf b = (Ready (Some ev), b') \<longrightarrow> frames b' < frames b)"

text \<open>What a call of \<open>poll_fill_buf\<close> leaves: bytes it shows are in the reader, or a frame was read.\<close>

definition shown_by :: "('b \<Rightarrow> nat) \<Rightarrow> 'b IncomingReader \<Rightarrow> (io_error + bytes) Poll \<Rightarrow> 'b IncomingReader \<Rightarrow> bool" where
  "shown_by frames r q r' \<longleftrightarrow>
     (\<forall>e. q \<noteq> Ready (Inl e)) \<and>
     (\<forall>bs. q = Ready (Inr bs) \<and> bs \<noteq> [] \<longrightarrow>
        length bs \<le> length (reader_current r') \<and> (r' = r \<or> frames (ir_body r') < frames (ir_body r)))"

lemma limited_length: "length (limited limit offset bs) \<le> length bs - offset"
  using limited_prefix [THEN prefix_length_le, of limit offset bs] by simp

lemma poll_fill_buf_total:
  assumes "body_finite pf frames"
  shows "\<exists>q r'. poll_fill_buf pf r = Some (q, r') \<and> shown_by frames r q r'"
proof (induction "frames (ir_body r)" arbitrary: r rule: less_induct)
  case less
  note fill = poll_fill_buf.simps [of pf r]
  show ?case
  proof (cases "replay_offset r < length (ir_replay r) \<or> buffered_offset r < length (ir_buffered r) \<or>
      transport_error r \<noteq> None \<or> clean_eof r")
    case True
    then show ?thesis using limited_length
      by (auto simp: fill shown_by_def reader_current_def)
  next
    case False
    obtain q b where q: "pf (ir_body r) = (q, b)" by fastforce
    consider (pending) "q = Pending" | (over) "q = Ready None" | (more) ev where "q = Ready (Some ev)"
      by (metis Poll.exhaust option.exhaust)
    then show ?thesis
    proof cases
      case pending
      then show ?thesis using False q by (simp add: fill shown_by_def)
    next
      case over
      let ?r = "on_frame None (r\<lparr>ir_body := b\<rparr>)"
      have "poll_fill_buf pf ?r = Some (Ready (Inr []), ?r)"
        using False by (subst poll_fill_buf.simps) (simp add: on_frame_def)
      then show ?thesis using False q over by (simp add: fill shown_by_def)
    next
      case more
      let ?r = "on_frame (Some ev) (r\<lparr>ir_body := b\<rparr>)"
      have s: "frames (ir_body ?r) < frames (ir_body r)"
        using assms q more by (auto simp: body_finite_def on_frame_frame)
      obtain q' r' where f: "poll_fill_buf pf ?r = Some (q', r')" "shown_by frames ?r q' r'"
        using less.hyps [OF s] by blast
      then have "shown_by frames r q' r'" using s unfolding shown_by_def by (metis less_trans)
      then show ?thesis using False q more f(1) by (simp add: fill)
    qed
  qed
qed

text \<open>Whatever is shown can be consumed, and consuming leaves less.\<close>

definition reader_left :: "('b \<Rightarrow> nat) \<Rightarrow> 'b IncomingReader \<Rightarrow> nat \<times> nat" where
  "reader_left frames r =
     (frames (ir_body r), (length (ir_replay r) - replay_offset r) + (length (ir_buffered r) - buffered_offset r))"

lemma reader_consume_left:
  assumes "n \<le> length (reader_current r)" and "n \<noteq> 0"
  obtains r' where "reader_consume n r = Some r'"
    "(reader_left frames r', reader_left frames r) \<in> less_than <*lex*> less_than"
  using assms
  by (intro that [of "the (reader_consume n r)"])
    (auto simp: reader_consume_def reader_current_def reader_left_def split: if_splits)

lemma poll_drain_total:
  assumes "body_finite pf frames"
  shows "\<exists>q r'. poll_drain pf r = Some (q, r')"
proof (induction r rule: wf_induct_rule [OF wf_inv_image [OF wf_lex_prod [OF wf_less_than wf_less_than], of "reader_left frames"]])
  case (1 r)
  obtain q r1 where f: "poll_fill_buf pf (r\<lparr>transport_error := None\<rparr>) = Some (q, r1)"
    and s: "shown_by frames (r\<lparr>transport_error := None\<rparr>) q r1" using poll_fill_buf_total [OF assms] by blast
  note drain = poll_drain.simps [of pf r]
  consider (error) "transport_error r \<noteq> None" | (pending) "q = Pending" | (none) "q = Ready (Inr [])"
    | (more) bs where "transport_error r = None" "q = Ready (Inr bs)" "bs \<noteq> []"
    using s unfolding shown_by_def by (metis Poll.exhaust sum.exhaust)
  then show ?case
  proof cases
    case error
    then show ?thesis by (auto simp: drain take_transport_error_def)
  next
    case pending
    then show ?thesis using f by (cases "transport_error r") (auto simp: drain take_transport_error_def)
  next
    case none
    then show ?thesis using f
      by (cases "transport_error r"; cases "transport_error r1") (auto simp: drain take_transport_error_def)
  next
    case more
    have len: "length bs \<le> length (reader_current r1)" "length bs \<noteq> 0"
      and r1: "r1 = r\<lparr>transport_error := None\<rparr> \<or> frames (ir_body r1) < frames (ir_body r)"
      using s more by (auto simp: shown_by_def)
    obtain r2 where c: "reader_consume (length bs) r1 = Some r2"
      "(reader_left frames r2, reader_left frames r1) \<in> less_than <*lex*> less_than"
      using reader_consume_left [OF len] by blast
    have "(reader_left frames r2, reader_left frames r) \<in> less_than <*lex*> less_than"
      using c(2) r1 by (auto simp: reader_left_def)
    then obtain q' r' where "poll_drain pf r2 = Some (q', r')" using 1 [of r2] unfolding in_inv_image by blast
    then show ?thesis using f more c(1) by (simp add: drain take_transport_error_def)
  qed
qed

lemma poll_reject_trailing_total:
  assumes "body_finite pf frames"
  shows "\<exists>q r'. poll_reject_trailing pf r = Some (q, r')"
proof -
  obtain q r1 where f: "poll_fill_buf pf (r\<lparr>transport_error := None\<rparr>) = Some (q, r1)"
    using poll_fill_buf_total [OF assms] by blast
  then show ?thesis
    by (auto simp: poll_reject_trailing_def take_transport_error_def split: option.splits Poll.splits sum.splits)
qed

section \<open>Properties: polling the decoded body\<close>

text \<open>The answers of a poll and the state each leaves.\<close>

definition poll_outcome :: "(Error + bytes) option Poll \<Rightarrow> ('d, 'b) DecodedBody \<Rightarrow> bool" where
  "poll_outcome q self =
     (case q of
        Pending \<Rightarrow> db_state self \<noteq> None
      | Ready (Some (Inr bs)) \<Rightarrow> bs \<noteq> [] \<and> output_seen self \<and> db_state self \<noteq> None
      | Ready _ \<Rightarrow> db_state self = None)"

lemma rest_turn_outcome: "rest_turn variant self result = Return q self' \<Longrightarrow> poll_outcome q self'"
  by (cases result)
    (auto simp: rest_turn_def fail_with_def poll_outcome_def split: Poll.splits sum.splits unit.splits)

lemma decode_turn_outcome:
  "decode_turn dc pf self st = Some (Return q self') \<Longrightarrow> poll_outcome q self'"
  by (cases st)
    (auto simp: decode_turn_def multi_member_turn_def zlib_turn_def deflate_turn_def brotli_turn_def
      decoder_failed_def fail_with_def poll_outcome_def Let_def
      dest: rest_turn_outcome [unfolded poll_outcome_def]
      split: option.splits prod.splits Poll.splits if_splits)

lemma decode_turn_total:
  assumes "body_finite pf frames"
  shows "\<exists>t. decode_turn dc pf self st = Some t"
  using poll_drain_total [OF assms] poll_reject_trailing_total [OF assms]
  by (cases st) (fastforce simp: decode_turn_def)+

lemma decoded_poll_next_total:
  assumes "body_finite pf frames"
  shows "\<exists>q self'. decoded_poll_next dc pf self = Some (q, self') \<and> poll_outcome q self'"
  using assms
proof (induction dc pf self rule: decoded_poll_next.induct)
  case (1 dc pf self)
  note next_poll = decoded_poll_next.simps [of dc pf self]
  show ?case
  proof (cases "db_state self")
    case None
    then show ?thesis by (simp add: next_poll poll_outcome_def)
  next
    case (Some st)
    obtain t where t: "decode_turn dc pf (self\<lparr>db_state := None\<rparr>) st = Some t"
      using decode_turn_total [OF 1(2)] by blast
    then show ?thesis using Some 1(1) [OF Some _ _ 1(2)] decode_turn_outcome
      by (cases t) (auto simp: next_poll)
  qed
qed

text \<open>
  C25. Polling a decoded body always answers: when the body under it has finitely many frames, a poll
  returns, whatever state the decoders are in and whatever they answer. A chunk it returns is never
  empty and leaves the body open; after an error, and after the end, the body is finished and every
  further poll is the end.
\<close>
theorem decoded_poll_next_returns:
  assumes "body_finite pf frames"
  shows "\<exists>q self'. decoded_poll_next dc pf self = Some (q, self') \<and> poll_outcome q self' \<and>
    (db_state self' = None \<longrightarrow> decoded_poll_next dc pf self' = Some (Ready None, self'))"
  using decoded_poll_next_total [OF assms, of dc self] by (auto simp: decoded_poll_next.simps)

text \<open>A body that is a list of frames, and decoders that reject every zlib stream.\<close>

definition list_body :: "Frame list frame_source" where
  "list_body fs = (case fs of [] \<Rightarrow> (Ready None, []) | f # fs \<Rightarrow> (Ready (Some (Inr f)), fs))"

definition frame_bytes :: "Frame list \<Rightarrow> bytes" where
  "frame_bytes fs = concat (map (\<lambda>f. case f of DataFrame bs \<Rightarrow> bs | TrailersFrame \<Rightarrow> []) fs)"

definition reject_all :: "(codec, Frame list) decoders" where
  "reject_all = \<lparr>dc_new = (\<lambda>c _. c),
     dc_poll_read = (\<lambda>d r n.
       case poll_fill_buf list_body r of
         Some (Ready (Inr bs), r1) \<Rightarrow>
           (Ready (Some \<lparr>de_kind = AnyKind, de_display = []\<rparr>), [], d, the (reader_consume (min 1 (length bs)) r1))
       | Some (_, r1) \<Rightarrow> (Pending, [], d, r1)
       | None \<Rightarrow> (Pending, [], d, r))\<rparr>"

lemma list_body_documented: "body_documented list_body frame_bytes"
  by (auto simp: body_documented_def list_body_def frame_bytes_def split: list.splits Frame.splits)

lemma list_body_finite: "body_finite list_body length"
  by (auto simp: body_finite_def list_body_def split: list.splits)

theorem decoded_poll_next_returns_witness:
  "\<exists>q self'. decoded_poll_next reject_all list_body (decoded_new reject_all [DataFrame [1, 2]] EncGzip False) = Some (q, self') \<and>
    poll_outcome q self'"
  using decoded_poll_next_returns [OF list_body_finite] by blast

section \<open>Properties: the fallback from zlib to raw deflate\<close>

text \<open>
  What \<open>async_compression\<close> documents of its decoders over a buffered reader: they reach it by
  \<open>poll_fill_buf\<close> and \<open>consume\<close> only.
\<close>

definition decoders_documented :: "('d, 'b) decoders \<Rightarrow> 'b frame_source \<Rightarrow> bool" where
  "decoders_documented dc pf \<longleftrightarrow>
     (\<forall>d r n q out d' r'. dc_poll_read dc d r n = (q, out, d', r') \<longrightarrow> (reader_step pf)\<^sup>*\<^sup>* r r')"

text \<open>The life of a decoded body: it is polled, and asked whether bytes have arrived.\<close>

inductive decoded_step :: "('d, 'b) decoders \<Rightarrow> 'b frame_source \<Rightarrow> ('d, 'b) DecodedBody \<Rightarrow> ('d, 'b) DecodedBody \<Rightarrow> bool"
  for dc pf where
  Poll: "decoded_poll_next dc pf self = Some (q, self') \<Longrightarrow> decoded_step dc pf self self'"
| Progress: "decoded_take_wire_progress self = (p, self') \<Longrightarrow> decoded_step dc pf self self'"

inductive_cases decoded_stepE: "decoded_step dc pf self self'"

text \<open>In the zlib state nothing was put out yet and the body is recorded, or something was.\<close>

definition zlib_inv :: "('b \<Rightarrow> bytes) \<Rightarrow> bytes \<Rightarrow> ('d, 'b) DecodedBody \<Rightarrow> bool" where
  "zlib_inv rest whole self =
     (case db_state self of
        Some (Zlib d r) \<Rightarrow> output_seen self = zlib_output self \<and>
          (\<not> zlib_output self \<longrightarrow> recording rest whole r \<and> pending_decoder_error self = None)
      | _ \<Rightarrow> True)"

lemma poll_decoder_recording:
  assumes "decoders_documented dc pf" and "body_documented pf rest" and "poll_decoder dc d r seen = (q, d', r')"
    and "recording rest whole r"
  shows "recording rest whole r'"
proof -
  obtain p out d1 r1 where p: "dc_poll_read dc d r (if seen then DECODE_CHUNK_SIZE else INITIAL_DECODE_OUTPUT_LIMIT) = (p, out, d1, r1)"
    by (metis surj_pair)
  then have "(reader_step pf)\<^sup>*\<^sup>* r r1" using assms(1) by (auto simp: decoders_documented_def)
  moreover have "r' = r1" using assms(3) p by (auto simp: poll_decoder_def split: Poll.splits)
  ultimately show ?thesis using recording_steps [OF _ assms(2,4)] by simp
qed

lemma zlib_turn_inv:
  assumes "decoders_documented dc pf" and "body_documented pf rest"
    and "zlib_inv rest whole (self\<lparr>db_state := Some (Zlib d r)\<rparr>)"
  shows "zlib_turn dc self d r = Return q self' \<Longrightarrow> zlib_inv rest whole self'"
    and "zlib_turn dc self d r = Continue self' \<Longrightarrow> zlib_inv rest whole self'"
    and "zlib_turn dc self d r = Continue self' \<Longrightarrow> db_state self' = Some (Deflate d' r') \<Longrightarrow>
      \<not> output_seen self \<and> d' = dc_new dc DeflateCodec False \<and> reader_bytes rest r' = whole"
  using assms(3)
  by (auto simp: zlib_turn_def zlib_inv_def decoder_failed_def fail_with_def Let_def
      split: option.splits prod.splits Poll.splits if_splits)
    (metis poll_decoder_recording [OF assms(1,2)] recording_replay)+

lemma rest_turn_state:
  "rest_turn variant self result = Return q self' \<Longrightarrow> db_state self' = None \<or> (\<exists>r. db_state self' = Some (variant r))"
  by (cases result)
    (auto simp: rest_turn_def fail_with_def split: Poll.splits sum.splits unit.splits)

lemma other_turn_inv:
  assumes "decode_turn dc pf self st = Some t" and "\<And>d r. st \<noteq> Zlib d r"
    and "t = Return q self' \<or> t = Continue self'"
  shows "zlib_inv rest whole self'"
proof -
  have "db_state self' \<noteq> Some (Zlib d r)" for d r
    using assms
    by (cases st)
      (auto simp: decode_turn_def multi_member_turn_def deflate_turn_def brotli_turn_def rest_turn_returns
        decoder_failed_def fail_with_def Let_def dest: rest_turn_state
        split: option.splits prod.splits Poll.splits if_splits)
  then show ?thesis by (auto simp: zlib_inv_def split: option.splits DecoderState.splits)
qed

lemma decode_turn_inv:
  assumes "decoders_documented dc pf" and "body_documented pf rest" and "zlib_inv rest whole self"
    and "db_state self = Some st" and "decode_turn dc pf (self\<lparr>db_state := None\<rparr>) st = Some t"
    and "t = Return q self' \<or> t = Continue self'"
  shows "zlib_inv rest whole self'"
proof (cases "\<exists>d r. st = Zlib d r")
  case True
  then obtain d r where st: "st = Zlib d r" by blast
  have "zlib_inv rest whole (self\<lparr>db_state := None\<rparr>\<lparr>db_state := Some (Zlib d r)\<rparr>)"
    using assms(3,4) st by (simp add: zlib_inv_def)
  note inv = zlib_turn_inv(1,2) [OF assms(1,2) this]
  have "zlib_turn dc (self\<lparr>db_state := None\<rparr>) d r = t" using assms(5) st by (simp add: decode_turn_def)
  then show ?thesis using assms(6) inv by blast
next
  case False
  then show ?thesis using other_turn_inv [OF assms(5) _ assms(6)] by blast
qed

lemma decoded_poll_next_inv:
  assumes "decoded_poll_next dc pf self = Some (q, self')"
    and "decoders_documented dc pf" and "body_documented pf rest" and "zlib_inv rest whole self"
  shows "zlib_inv rest whole self'"
  using assms
proof (induction dc pf self rule: decoded_poll_next.induct)
  case (1 dc pf self)
  note next_poll = decoded_poll_next.simps [of dc pf self]
  show ?case
  proof (cases "db_state self")
    case None
    then show ?thesis using 1(2,5) by (simp add: next_poll)
  next
    case (Some st)
    obtain t where t: "decode_turn dc pf (self\<lparr>db_state := None\<rparr>) st = Some t"
      using 1(2) Some by (auto simp: next_poll split: option.splits)
    note inv = decode_turn_inv [OF 1(3,4,5) Some t]
    show ?thesis
    proof (cases t)
      case (Return p s)
      then show ?thesis using 1(2) Some t inv by (simp add: next_poll)
    next
      case (Continue s)
      then show ?thesis using 1(1) [OF Some t Continue _ 1(3,4)] 1(2) Some t inv by (simp add: next_poll)
    qed
  qed
qed

lemma take_progress_inv:
  assumes "decoded_take_wire_progress self = (p, self')" and "zlib_inv rest whole self"
  shows "zlib_inv rest whole self'"
proof -
  have recording: "recording rest whole (r\<lparr>wire_progress := False\<rparr>) = recording rest whole r" for r
    by (simp add: recording_def reader_ok_def reader_bytes_def)
  show ?thesis
  proof (cases "db_state self")
    case (Some st)
    then show ?thesis using assms recording
      by (cases st) (auto simp: decoded_take_wire_progress_def map_reader_def zlib_inv_def)
  qed (use assms in \<open>simp add: decoded_take_wire_progress_def\<close>)
qed

lemma decoded_step_inv:
  assumes "(decoded_step dc pf)\<^sup>*\<^sup>* self self'" and "decoders_documented dc pf" and "body_documented pf rest"
    and "zlib_inv rest whole self"
  shows "zlib_inv rest whole self'"
  using assms(1,4)
proof (induction rule: rtranclp_induct)
  case (step s t)
  from step.hyps(2) show ?case
  proof (rule decoded_stepE)
    fix q assume "decoded_poll_next dc pf s = Some (q, t)"
    then show ?thesis using decoded_poll_next_inv [OF _ assms(2,3)] step by blast
  next
    fix p assume "decoded_take_wire_progress s = (p, t)"
    then show ?thesis using take_progress_inv step by blast
  qed
qed

text \<open>
  C26. A body declared as deflate is first read as zlib. Whenever the decoded body then falls back to
  raw deflate, however it was polled before and however the frames cut the body, nothing has been
  put out yet and the reader the raw decoder gets stands for the whole body from its first byte: the
  reader refines a queue of bytes, and the bytes the zlib decoder consumed are replayed in front of
  those not yet read.
\<close>
theorem deflate_fallback_sees_whole_body:
  assumes "body_documented pf rest" and "decoders_documented dc pf"
    and "(decoded_step dc pf)\<^sup>*\<^sup>* (decoded_new dc b EncDeflate chunked) self"
    and "db_state self = Some (Zlib d r)"
    and "zlib_turn dc (self\<lparr>db_state := None\<rparr>) d r = Continue self'" and "db_state self' = Some (Deflate d' r')"
  shows "\<not> output_seen self \<and> d' = dc_new dc DeflateCodec False \<and> reader_bytes rest r' = rest b"
proof -
  have "zlib_inv rest (rest b) (decoded_new dc b EncDeflate chunked)"
    by (simp add: zlib_inv_def decoded_new_def Let_def start_tentative_recording_def reader_new_def recording_def
        reader_ok_def reader_bytes_def)
  then have "zlib_inv rest (rest b) self" using decoded_step_inv [OF assms(3,2,1)] by blast
  then have "zlib_inv rest (rest b) (self\<lparr>db_state := None\<rparr>\<lparr>db_state := Some (Zlib d r)\<rparr>)"
    using assms(4) by (simp add: zlib_inv_def)
  from zlib_turn_inv(3) [OF assms(2,1) this assms(5,6)] show ?thesis by simp
qed

lemma reject_all_documented: "decoders_documented reject_all list_body"
proof -
  have "(reader_step list_body)\<^sup>*\<^sup>* r r'" if "dc_poll_read reject_all d r n = (q, out, d', r')" for d r n q out d' r'
  proof -
    obtain p r1 where f: "poll_fill_buf list_body r = Some (p, r1)" and s: "shown_by length r p r1"
      using poll_fill_buf_total [OF list_body_finite] by blast
    have "reader_step list_body r r'" if "p = Ready (Inr bs)" for bs
    proof (cases "bs = []")
      case True
      have "reader_consume 0 r1 = Some r1" by (simp add: reader_consume_def)
      then show ?thesis using True that that f \<open>dc_poll_read reject_all d r n = (q, out, d', r')\<close>
        by (auto simp: reject_all_def intro: reader_step.intros)
    next
      case False
      then have len: "1 \<le> length (reader_current r1)" using s that by (auto simp: shown_by_def Suc_le_eq intro: less_le_trans)
      obtain r2 where "reader_consume 1 r1 = Some r2"
        using reader_consume_left [OF len] by blast
      then show ?thesis using False that f \<open>dc_poll_read reject_all d r n = (q, out, d', r')\<close>
        by (auto simp: reject_all_def min_def Suc_le_eq intro!: reader_step.Consume [of _ _ bs r1 1])
    qed
    then show ?thesis using that f
      by (cases p) (auto simp: reject_all_def intro: reader_step.Fill split: sum.splits)
  qed
  then show ?thesis unfolding decoders_documented_def by blast
qed

theorem deflate_fallback_sees_whole_body_witness:
  "let b = [DataFrame [120, 1], DataFrame [3]]; s = decoded_new reject_all b EncDeflate False in
   \<exists>d r self' r'. db_state s = Some (Zlib d r) \<and> zlib_turn reject_all (s\<lparr>db_state := None\<rparr>) d r = Continue self' \<and>
     db_state self' = Some (Deflate DeflateCodec r') \<and> ir_replay r' = [120] \<and> reader_bytes frame_bytes r' = [120, 1, 3]"
proof -
  let ?b = "[DataFrame [120, 1], DataFrame [3]]"
  let ?s = "decoded_new reject_all ?b EncDeflate False"
  let ?r = "start_tentative_recording (reader_new ?b False)"
  let ?r1 = "?r\<lparr>ir_body := [DataFrame [3]], wire_progress := True, ir_buffered := [120, 1]\<rparr>"
  let ?r2 = "install_tentative_replay (?r1\<lparr>tentative := [120], buffered_offset := 1\<rparr>)"
  have state: "db_state ?s = Some (Zlib ZlibCodec ?r)" by (simp add: decoded_new_def Let_def reject_all_def)
  have fill: "poll_fill_buf list_body ?r = Some (Ready (Inr [120, 1]), ?r1)"
    by (simp add: poll_fill_buf.simps list_body_def start_tentative_recording_def reader_new_def on_frame_def limited_def)
  have turn: "zlib_turn reject_all (?s\<lparr>db_state := None\<rparr>) ZlibCodec ?r =
      Continue (?s\<lparr>db_state := Some (Deflate DeflateCodec ?r2)\<rparr>)"
    using fill by (simp add: zlib_turn_def poll_decoder_def reject_all_def reader_consume_def decoded_new_def Let_def
        start_tentative_recording_def reader_new_def is_accepted_flate_truncation_def)
  have bytes: "reader_bytes frame_bytes ?r2 = frame_bytes ?b"
    using deflate_fallback_sees_whole_body [OF list_body_documented reject_all_documented rtranclp.rtrancl_refl
        state turn] by simp
  have replay: "ir_replay ?r2 = [120]" by (simp add: install_tentative_replay_def)
  have "reader_bytes frame_bytes ?r2 = [120, 1, 3]" using bytes by (simp add: frame_bytes_def)
  then show ?thesis unfolding Let_def using state turn replay
    by (intro exI [of _ ZlibCodec] exI [of _ ?r] exI [of _ "?s\<lparr>db_state := Some (Deflate DeflateCodec ?r2)\<rparr>"] exI [of _ ?r2] conjI)
      simp_all
qed

end
