(* ===== verification/Outgoing.thy ===== *)
theory Outgoing
  imports Decode
begin

text \<open>
  The outgoing half of an exchange in \<open>crates/requests/src/transport/mod.rs\<close>: validation of a
  request, the target and headers it is sent with, and the body that is polled frame by frame.
  The \<open>url\<close> and \<open>http\<close> crates are a record of their operations, the hooks of a session runtime
  another. A \<open>debug_assert!\<close> that fails in a build with debug assertions is \<open>None\<close>; the clock and
  the waker of the polling task are arguments of the operations that read them.
\<close>

section \<open>Validation\<close>

definition parsed_content_length :: "(HeaderValue \<Rightarrow> rstr option) \<Rightarrow> HeaderValue \<Rightarrow> u64 option" where
  "parsed_content_length to_str v =
     Option.bind (to_str v) (\<lambda>v.
       let v = trim v in
       if v = [] \<or> \<not> list_all is_ascii_digit v then None else parse_u64 v)"

fun lengths_agree :: "u64 option \<Rightarrow> u64 list \<Rightarrow> Error + unit" where
  "lengths_agree first [] = Inr ()"
| "lengths_agree first (v # vs) =
     (if (case first of None \<Rightarrow> False | Some f \<Rightarrow> v \<noteq> f) then Inl conflicting_content_length
      else lengths_agree (Some v) vs)"

definition validate_content_lengths ::
  "'h header_map \<Rightarrow> (HeaderValue \<Rightarrow> rstr option) \<Rightarrow> 'h \<Rightarrow> Error + unit" where
  "validate_content_lengths hm to_str headers =
     lengths_agree None (List.map_filter (parsed_content_length to_str) (hm_get_all hm headers (lit ''content-length'')))"

definition validate_request ::
  "'h header_map \<Rightarrow> (HeaderValue \<Rightarrow> rstr option) \<Rightarrow> ('h, 's) Request \<Rightarrow> Error + unit" where
  "validate_request hm to_str request =
     (if uri_scheme (rq_uri request) \<notin> {Some (lit ''http''), Some (lit ''https'')}
      then Inl (unsupported_scheme (rq_url request) (uri_scheme (rq_uri request)))
      else validate_content_lengths hm to_str (rq_headers request))"

section \<open>The request that is sent\<close>

text \<open>
  The operations of \<open>url::Url\<close> and \<open>http\<close>: the setters clear a component, \<open>oe_with_authority\<close>
  is \<open>into_parts\<close>, the new authority and \<open>from_parts\<close>.
\<close>

record ('h, 'u) outgoing_env =
  oe_headers :: "'h header_map"
  oe_url_parse :: "rstr \<Rightarrow> 'u option"
  oe_clear_fragment :: "'u \<Rightarrow> 'u"
  oe_clear_username :: "'u \<Rightarrow> 'u option"
  oe_clear_password :: "'u \<Rightarrow> 'u option"
  oe_url_str :: "'u \<Rightarrow> rstr"
  oe_parse_uri :: "rstr \<Rightarrow> Uri option"
  oe_authority_host :: "rstr \<Rightarrow> rstr"
  oe_parse_authority :: "rstr \<Rightarrow> rstr option"
  oe_with_authority :: "Uri \<Rightarrow> rstr \<Rightarrow> Uri option"
  oe_parse_header_value :: "rstr \<Rightarrow> HeaderValue option"

definition absolute_target :: "('h, 'u) outgoing_env \<Rightarrow> ('h, 's) RequestParts \<Rightarrow> Uri option" where
  "absolute_target env request =
     Option.bind (oe_url_parse env (rp_url request)) (\<lambda>url.
     Option.bind (oe_clear_username env (oe_clear_fragment env url)) (\<lambda>url.
     Option.bind (oe_clear_password env url) (\<lambda>url.
     Option.bind (oe_parse_uri env (oe_url_str env url)) (\<lambda>target.
       case (uri_port (rp_uri request), uri_port target) of
         (Some port, None) \<Rightarrow>
           Option.bind (uri_authority target) (\<lambda>authority.
           Option.bind (oe_parse_authority env
               (oe_authority_host env authority @ asc CHR '':'' # nat_to_decimal (unat port))) (\<lambda>authority.
             oe_with_authority env target authority))
       | _ \<Rightarrow> Some target))))"

definition origin_target :: "('h, 'u) outgoing_env \<Rightarrow> ('h, 's) RequestParts \<Rightarrow> Uri option" where
  "origin_target env request =
     oe_parse_uri env (case uri_path_and_query (rp_uri request) of None \<Rightarrow> lit ''/'' | Some p \<Rightarrow> p)"

definition host_header :: "('h, 'u) outgoing_env \<Rightarrow> ('h, 's) RequestParts \<Rightarrow> 'h option" where
  "host_header env request =
     (if hm_contains_key (oe_headers env) (rp_headers request) (lit ''host'') then Some (rp_headers request)
      else
        Option.bind (uri_authority (rp_uri request)) (\<lambda>authority.
          map_option (hm_insert (oe_headers env) (rp_headers request) (lit ''host''))
            (oe_parse_header_value env authority)))"

section \<open>Progress of a body\<close>

type_synonym waker = nat

record BodyProgress =
  completed_at :: "instant option"
  bp_waker :: "waker option"

definition progress_new :: "bool \<Rightarrow> instant \<Rightarrow> BodyProgress" where
  "progress_new complete now = \<lparr>completed_at = (if complete then Some now else None), bp_waker = None\<rparr>"

text \<open>The waker that is woken, if any, and the progress.\<close>

definition mark_complete :: "instant \<Rightarrow> BodyProgress \<Rightarrow> waker option \<times> BodyProgress" where
  "mark_complete now self =
     (if completed_at self \<noteq> None then (None, self)
      else (bp_waker self, self\<lparr>completed_at := Some now, bp_waker := None\<rparr>))"

definition poll_complete :: "waker \<Rightarrow> BodyProgress \<Rightarrow> instant Poll \<times> BodyProgress" where
  "poll_complete w self =
     (case completed_at self of
        Some t \<Rightarrow> (Ready t, self\<lparr>bp_waker := None\<rparr>)
      | None \<Rightarrow> (Pending, self\<lparr>bp_waker := Some w\<rparr>))"

section \<open>The body\<close>

text \<open>
  The hooks of a session runtime: \<open>wait\<close> is shown a checkpoint and makes a future, which is polled
  until it is ready. The future the trait gives is ready at once.
\<close>

record 'w hooks =
  hk_wait :: "SessionCheckpoint \<Rightarrow> 'w"
  hk_poll :: "'w \<Rightarrow> unit Poll \<times> 'w"

definition default_hooks :: "unit hooks" where
  "default_hooks = \<lparr>hk_wait = (\<lambda>_. ()), hk_poll = (\<lambda>w. (Ready (), w))\<rparr>"

definition wait_future :: "'w hooks \<Rightarrow> SessionCheckpoint \<Rightarrow> SessionRuntimeHarness \<Rightarrow> 'w \<times> SessionRuntimeHarness" where
  "wait_future hk cp h = (hk_wait hk cp, observe h cp)"

text \<open>
  The harness is shared: the body says by \<open>ob_session_runtime\<close> whether it has it, and the
  operations carry its state. The progress is shared with the \<open>BodyCompletion\<close>.
\<close>

record ('s, 'w) OutgoingBody =
  ob_source :: "'s BodySource"
  ob_progress :: "BodyProgress option"
  ob_upload_entered :: OriginUploadActionEntered
  ob_upload_counts :: UploadQueuedExecutedReplyCounts
  ob_session_runtime :: bool
  ob_session_identity :: "SessionExchangeIdentity option"
  ob_upload_wait :: "'w option"
  ob_upload_wait_complete :: bool

definition observe_upload ::
  "SessionPhase \<Rightarrow> bool \<Rightarrow> SessionExchangeIdentity option \<Rightarrow> SessionRuntimeHarness \<Rightarrow> SessionRuntimeHarness" where
  "observe_upload phase session_runtime session_identity h =
     (case session_identity of
        Some identity \<Rightarrow>
          if session_runtime then let (cp, h) = identity_checkpoint h identity phase in observe h cp else h
      | None \<Rightarrow> h)"

definition initially_complete :: "'s BodySource \<Rightarrow> bool" where
  "initially_complete source = (case source of Empty \<Rightarrow> True | Bytes bs \<Rightarrow> bs = [] | Stream _ \<Rightarrow> False)"

definition outgoing_body_new ::
  "'s BodySource \<Rightarrow> bool \<Rightarrow> bool \<Rightarrow> SessionExchangeIdentity option \<Rightarrow> instant \<Rightarrow> SessionRuntimeHarness \<Rightarrow>
   ('s, 'w) OutgoingBody \<times> SessionRuntimeHarness" where
  "outgoing_body_new source track session_runtime session_identity now h =
     (\<lparr>ob_source = source,
       ob_progress = (if track then Some (progress_new (initially_complete source) now) else None),
       ob_upload_entered = \<lparr>action_entered = False\<rparr>, ob_upload_counts = counts_default,
       ob_session_runtime = session_runtime, ob_session_identity = session_identity,
       ob_upload_wait = None, ob_upload_wait_complete = False\<rparr>,
      case source of
        Stream _ \<Rightarrow> observe_upload OriginUploadQueued session_runtime session_identity h
      | _ \<Rightarrow> h)"

definition body_mark_complete :: "instant \<Rightarrow> ('s, 'w) OutgoingBody \<Rightarrow> ('s, 'w) OutgoingBody" where
  "body_mark_complete now self = self\<lparr>ob_progress := map_option (\<lambda>p. snd (mark_complete now p)) (ob_progress self)\<rparr>"

text \<open>The wait before the first chunk: whether it is over, the body and the harness.\<close>

definition poll_upload_wait ::
  "'w hooks \<Rightarrow> ('s, 'w) OutgoingBody \<Rightarrow> SessionRuntimeHarness \<Rightarrow> bool \<times> ('s, 'w) OutgoingBody \<times> SessionRuntimeHarness" where
  "poll_upload_wait hk body h =
     (case ob_session_identity body of
        Some identity \<Rightarrow>
          if \<not> ob_upload_wait_complete body \<and> ob_session_runtime body then
            let (w, h) = (case ob_upload_wait body of
                  Some w \<Rightarrow> (w, h)
                | None \<Rightarrow> let (cp, h) = identity_checkpoint h identity OriginUploadExecuted in wait_future hk cp h) in
            case hk_poll hk w of
              (Pending, w) \<Rightarrow> (False, body\<lparr>ob_upload_wait := Some w\<rparr>, h)
            | (Ready _, _) \<Rightarrow> (True, body\<lparr>ob_upload_wait_complete := True, ob_upload_wait := None\<rparr>, h)
          else (True, body, h)
      | None \<Rightarrow> (True, body, h))"

text \<open>The poll of the stream: what it answers, and what becomes of the source.\<close>

definition poll_stream ::
  "instant \<Rightarrow> 's AsyncBody \<Rightarrow> ('s, 'w) OutgoingBody \<Rightarrow> (Error + Frame) option Poll \<times> ('s, 'w) OutgoingBody" where
  "poll_stream now stream body =
     (case ab_poll_next stream (ab_state stream) of
        (Pending, s) \<Rightarrow> (Pending, body\<lparr>ob_source := Stream (stream\<lparr>ab_state := s\<rparr>)\<rparr>)
      | (Ready (Some chunk), s) \<Rightarrow>
          (Ready (Some (map_sum id DataFrame chunk)), body\<lparr>ob_source := Stream (stream\<lparr>ab_state := s\<rparr>)\<rparr>)
      | (Ready None, s) \<Rightarrow> (Ready None, body_mark_complete now body))"

definition poll_frame ::
  "bool \<Rightarrow> 'w hooks \<Rightarrow> instant \<Rightarrow> ('s, 'w) OutgoingBody \<Rightarrow> SessionRuntimeHarness \<Rightarrow>
   ((Error + Frame) option Poll \<times> ('s, 'w) OutgoingBody \<times> SessionRuntimeHarness) option" where
  "poll_frame debug_assertions hk now body h =
     (let source = ob_source body; body = body\<lparr>ob_source := Empty\<rparr> in
      case source of
        Empty \<Rightarrow> Some (Ready None, body_mark_complete now body, h)
      | Bytes bs \<Rightarrow>
          if bs = [] then Some (Ready None, body_mark_complete now body, h)
          else Some (Ready (Some (Inr (DataFrame bs))), body_mark_complete now body, h)
      | Stream stream \<Rightarrow>
          let body = (if \<not> ob_upload_wait_complete body \<and> ob_upload_wait body = None then
                body\<lparr>ob_upload_counts := counts_executed (counts_queued (ob_upload_counts body)),
                     ob_upload_entered := action_enter (ob_upload_entered body)\<rparr>
              else body);
              (over, body, h) = poll_upload_wait hk body h in
          if \<not> over then Some (Pending, body\<lparr>ob_source := Stream stream\<rparr>, h)
          else if debug_assertions \<and> \<not> is_entered (ob_upload_entered body) then None
          else
            let (result, body) = poll_stream now stream body;
                (body, h) = (if result \<noteq> Pending
                  then (body\<lparr>ob_upload_counts := reply_observed (ob_upload_counts body)\<rparr>,
                        observe_upload OriginUploadReply (ob_session_runtime body) (ob_session_identity body) h)
                  else (body, h)) in
            if debug_assertions \<and> \<not> is_consistent (ob_upload_counts body) then None
            else Some (result, body, h))"

definition is_end_stream :: "('s, 'w) OutgoingBody \<Rightarrow> bool" where
  "is_end_stream self = (case ob_source self of Empty \<Rightarrow> True | _ \<Rightarrow> False)"

text \<open>The exact size, when there is one (\<open>len() as u64\<close> wraps).\<close>

definition size_hint :: "('s, 'w) OutgoingBody \<Rightarrow> u64 option" where
  "size_hint self =
     (case ob_source self of
        Empty \<Rightarrow> Some 0
      | Bytes bs \<Rightarrow> Some (word_of_nat (length bs))
      | Stream stream \<Rightarrow> ab_size_hint stream (ab_state stream))"

text \<open>The request handed to hyper: its target, its headers and its body, or the error.\<close>

record ('h, 's, 'w) outgoing_request =
  or_method :: Method
  or_uri :: Uri
  or_headers :: 'h
  or_body :: "('s, 'w) OutgoingBody"

definition outgoing_request_with_session_runtime ::
  "('h, 'u) outgoing_env \<Rightarrow> ('h, 's) RequestParts \<Rightarrow> bool \<Rightarrow> bool \<Rightarrow> bool \<Rightarrow> SessionExchangeIdentity option \<Rightarrow>
   instant \<Rightarrow> SessionRuntimeHarness \<Rightarrow>
   Error + (('h, 's, 'w) outgoing_request \<times> rstr \<times> SessionRuntimeHarness)" where
  "outgoing_request_with_session_runtime env request track absolute_form session_runtime session_identity now h =
     (case (if absolute_form then absolute_target env request else origin_target env request) of
        None \<Rightarrow> Inl (invalid_url (rp_url request))
      | Some target \<Rightarrow>
          (case host_header env request of
             None \<Rightarrow> Inl (invalid_url (rp_url request))
           | Some headers \<Rightarrow>
               let (body, h) = outgoing_body_new (rp_body request) track session_runtime session_identity now h in
               Inr (\<lparr>or_method = rp_method request, or_uri = target, or_headers = headers, or_body = body\<rparr>,
                    rp_url request, h)))"

section \<open>Lemmas: content lengths\<close>

lemma lengths_agree_Some:
  "lengths_agree (Some v) vs = (if set vs \<subseteq> {v} then Inr () else Inl conflicting_content_length)"
  by (induction vs arbitrary: v) auto

lemma lengths_agree_None:
  "lengths_agree None vs = (if card (set vs) \<le> 1 then Inr () else Inl conflicting_content_length)"
proof (cases vs)
  case (Cons v ws)
  have "card (insert v (set ws)) \<le> 1 \<longleftrightarrow> set ws \<subseteq> {v}"
  proof
    assume "card (insert v (set ws)) \<le> 1"
    then have "insert v (set ws) \<subseteq> {v}"
      by (metis List.finite_set card_le_Suc0_iff_eq finite_insert insertI1 One_nat_def singletonI subsetI)
    then show "set ws \<subseteq> {v}" by simp
  next
    assume "set ws \<subseteq> {v}"
    then have "insert v (set ws) = {v}" by blast
    then show "card (insert v (set ws)) \<le> 1" by (simp only: card.insert) simp
  qed
  then show ?thesis using Cons by (simp add: lengths_agree_Some)
qed simp

text \<open>
  A request is refused exactly for its scheme, when it is not http or https, or for its
  \<open>Content-Length\<close> values: the values that are not decimal numbers of 64 bits are passed over, and
  of the others no two may differ. Repeated equal values are accepted, and so is a request with none.
\<close>
lemma validate_request_iff:
  "validate_request hm to_str request =
     (if uri_scheme (rq_uri request) \<noteq> Some (lit ''http'') \<and> uri_scheme (rq_uri request) \<noteq> Some (lit ''https'')
      then Inl (unsupported_scheme (rq_url request) (uri_scheme (rq_uri request)))
      else if card {n. \<exists>v. List.member (hm_get_all hm (rq_headers request) (lit ''content-length'')) v \<and>
                         parsed_content_length to_str v = Some n} \<le> 1
      then Inr () else Inl conflicting_content_length)"
proof -
  have "{n. \<exists>v. List.member vs v \<and> parsed_content_length to_str v = Some n} =
      set (List.map_filter (parsed_content_length to_str) vs)" for vs
    by (force simp: map_filter_def)
  then show ?thesis by (simp add: validate_request_def validate_content_lengths_def lengths_agree_None)
qed

section \<open>Lemmas: the body delivers its source\<close>

text \<open>What a source answers to a poll, and what is left of it.\<close>

definition source_poll :: "'s BodySource \<Rightarrow> (Error + Frame) option Poll \<times> 's BodySource" where
  "source_poll source =
     (case source of
        Empty \<Rightarrow> (Ready None, Empty)
      | Bytes bs \<Rightarrow> (Ready (if bs = [] then None else Some (Inr (DataFrame bs))), Empty)
      | Stream stream \<Rightarrow>
          (case ab_poll_next stream (ab_state stream) of
             (Pending, s) \<Rightarrow> (Pending, Stream (stream\<lparr>ab_state := s\<rparr>))
           | (Ready (Some chunk), s) \<Rightarrow>
               (Ready (Some (map_sum id DataFrame chunk)), Stream (stream\<lparr>ab_state := s\<rparr>))
           | (Ready None, s) \<Rightarrow> (Ready None, Empty)))"

text \<open>A body with no session runtime, or none of whose waits is registered with it.\<close>

definition quiet :: "('s, 'w) OutgoingBody \<Rightarrow> bool" where
  "quiet body \<longleftrightarrow> (\<not> ob_session_runtime body \<or> ob_session_identity body = None) \<and>
     ob_upload_wait body = None \<and> \<not> ob_upload_wait_complete body \<and> is_consistent (ob_upload_counts body)"

lemma unat_saturating_inc: "unat (saturating_inc a) = min (unat a + 1) (2 ^ 64 - 1)"
proof (cases "a = - 1")
  case True
  then show ?thesis by (simp add: saturating_inc_def unsigned_minus_1_eq_mask mask_eq_exp_minus_1)
next
  case False
  then have "unat a \<noteq> unat (- 1 :: u64)" using word_unat_eq_iff by blast
  then have "unat a + 1 < 2 ^ 64" using unsigned_less [of a, where 'a = nat] by (simp add: unsigned_minus_1_eq_mask mask_eq_exp_minus_1)
  then show ?thesis using False by (simp add: saturating_inc_def unat_word_ariths)
qed

lemma counts_consistent:
  assumes "is_consistent c"
  shows "is_consistent (counts_executed (counts_queued c))"
    and "is_consistent (reply_observed (counts_executed (counts_queued c)))"
proof -
  have le: "a \<le> saturating_inc a" "a \<le> b \<Longrightarrow> saturating_inc a \<le> saturating_inc b" for a b
    using unsigned_less [of a, where 'a = nat] by (auto simp: word_le_nat_alt unat_saturating_inc)
  show "is_consistent (counts_executed (counts_queued c))"
    and "is_consistent (reply_observed (counts_executed (counts_queued c)))"
    using assms le
    by (auto simp: is_consistent_def counts_executed_def counts_queued_def reply_observed_def intro: order_trans)
qed

lemma poll_upload_wait_quiet:
  "\<not> ob_session_runtime body \<or> ob_session_identity body = None \<Longrightarrow> poll_upload_wait hk body h = (True, body, h)"
  by (auto simp: poll_upload_wait_def split: option.split)

lemma observe_upload_quiet: "\<not> sr \<or> i = None \<Longrightarrow> observe_upload phase sr i h = h"
  by (auto simp: observe_upload_def split: option.split)

text \<open>A poll of a quiet body, branch by branch.\<close>

lemma poll_frame_quiet:
  assumes "quiet body"
  shows "\<exists>c e. is_consistent c \<and> poll_frame dbg hk now body h =
     (case source_poll (ob_source body) of (q, source) \<Rightarrow>
        let b = body\<lparr>ob_source := source, ob_upload_counts := c, ob_upload_entered := e\<rparr> in
        Some (q, if initially_complete source then body_mark_complete now b else b, h))"
proof (cases "ob_source body")
  case (Stream stream)
  let ?c = "counts_executed (counts_queued (ob_upload_counts body))"
  let ?e = "action_enter (ob_upload_entered body)"
  have c: "is_consistent ?c" "is_consistent (reply_observed ?c)"
    using counts_consistent assms by (auto simp: quiet_def)
  have q: "\<not> ob_session_runtime body \<or> ob_session_identity body = None" "ob_upload_wait body = None"
    "\<not> ob_upload_wait_complete body" using assms by (auto simp: quiet_def)
  have e: "is_entered ?e" by (simp add: is_entered_def action_enter_def)
  obtain p s where p: "ab_poll_next stream (ab_state stream) = (p, s)" by fastforce
  consider "p = Pending" | chunk where "p = Ready (Some chunk)" | "p = Ready None"
    by (metis Poll.exhaust option.exhaust)
  then show ?thesis
  proof cases
    case 1
    then show ?thesis using Stream p q c e
      by (intro exI [of _ ?c] exI [of _ ?e])
        (simp add: poll_frame_def poll_upload_wait_quiet source_poll_def poll_stream_def initially_complete_def)
  next
    case 2
    then show ?thesis using Stream p q c e
      by (intro exI [of _ "reply_observed ?c"] exI [of _ ?e])
        (simp add: poll_frame_def poll_upload_wait_quiet observe_upload_quiet source_poll_def poll_stream_def initially_complete_def)
  next
    case 3
    then show ?thesis using Stream p q c e
      by (intro exI [of _ "reply_observed ?c"] exI [of _ ?e])
        (simp add: poll_frame_def poll_upload_wait_quiet observe_upload_quiet source_poll_def poll_stream_def
          initially_complete_def body_mark_complete_def)
  qed
qed (use assms in \<open>auto simp: poll_frame_def source_poll_def initially_complete_def quiet_def
  intro!: exI [of _ "ob_upload_counts body"] exI [of _ "ob_upload_entered body"]\<close>)

fun polls ::
  "bool \<Rightarrow> 'w hooks \<Rightarrow> instant list \<Rightarrow> ('s, 'w) OutgoingBody \<Rightarrow> SessionRuntimeHarness \<Rightarrow>
   ((Error + Frame) option Poll list \<times> ('s, 'w) OutgoingBody) option" where
  "polls dbg hk [] body h = Some ([], body)"
| "polls dbg hk (t # ts) body h =
     Option.bind (poll_frame dbg hk t body h) (\<lambda>(q, body, h).
       map_option (\<lambda>(qs, body). (q # qs, body)) (polls dbg hk ts body h))"

fun source_polls :: "nat \<Rightarrow> 's BodySource \<Rightarrow> (Error + Frame) option Poll list \<times> 's BodySource" where
  "source_polls 0 source = ([], source)"
| "source_polls (Suc n) source =
     (let (q, source) = source_poll source; (qs, source) = source_polls n source in (q # qs, source))"

text \<open>When nothing was left to send: at once, or at the first poll that leaves nothing.\<close>

fun completion_time :: "instant \<Rightarrow> instant list \<Rightarrow> 's BodySource \<Rightarrow> instant option" where
  "completion_time now [] source = (if initially_complete source then Some now else None)"
| "completion_time now (t # ts) source =
     (if initially_complete source then Some now else completion_time t ts (snd (source_poll source)))"

definition progress_at :: "instant option \<Rightarrow> ('s, 'w) OutgoingBody \<Rightarrow> bool" where
  "progress_at t body = (case ob_progress body of None \<Rightarrow> True | Some p \<Rightarrow> completed_at p = t)"

lemma initially_complete_poll: "initially_complete source \<Longrightarrow> snd (source_poll source) = Empty"
  by (auto simp: initially_complete_def source_poll_def split: BodySource.splits)

lemma completion_time_complete: "initially_complete source \<Longrightarrow> completion_time now ts source = Some now"
  by (cases ts) simp_all

lemma polls_quiet:
  assumes "quiet body" and "progress_at (if initially_complete (ob_source body) then Some now else None) body"
  shows "\<exists>body'. polls dbg hk ts body h = Some (fst (source_polls (length ts) (ob_source body)), body') \<and>
    ob_source body' = snd (source_polls (length ts) (ob_source body)) \<and>
    (ob_progress body' = None \<longleftrightarrow> ob_progress body = None) \<and>
    progress_at (completion_time now ts (ob_source body)) body'"
  using assms
proof (induction ts arbitrary: body now h)
  case (Cons t ts)
  obtain q source where s: "source_poll (ob_source body) = (q, source)" by fastforce
  obtain c e where c: "is_consistent c" and p: "poll_frame dbg hk t body h =
      (let b = body\<lparr>ob_source := source, ob_upload_counts := c, ob_upload_entered := e\<rparr> in
       Some (q, if initially_complete source then body_mark_complete t b else b, h))"
    using poll_frame_quiet [OF Cons.prems(1), of dbg hk t h] s by auto
  define b where "b = body\<lparr>ob_source := source, ob_upload_counts := c, ob_upload_entered := e\<rparr>"
  define b' where "b' = (if initially_complete source then body_mark_complete t b else b)"
  have p': "poll_frame dbg hk t body h = Some (q, b', h)" using p by (simp add: b_def b'_def)
  have b': "quiet b'" "ob_source b' = source" "ob_progress b' = None \<longleftrightarrow> ob_progress body = None"
    using Cons.prems(1) c by (auto simp: b'_def b_def quiet_def body_mark_complete_def)
  let ?t = "if initially_complete (ob_source body) then now else t"
  have source: "initially_complete (ob_source body) \<Longrightarrow> source = Empty"
    using s initially_complete_poll by (metis snd_conv)
  have "progress_at (if initially_complete (ob_source b') then Some ?t else None) b'"
    using Cons.prems(2) b'(2) source
    by (auto simp: b'_def b_def progress_at_def initially_complete_def body_mark_complete_def mark_complete_def
        split: option.splits)
  then obtain body' where "polls dbg hk ts b' h = Some (fst (source_polls (length ts) source), body')"
    "ob_source body' = snd (source_polls (length ts) source)" "ob_progress body' = None \<longleftrightarrow> ob_progress body = None"
    "progress_at (completion_time ?t ts source) body'"
    using Cons.IH [OF b'(1), of ?t h] b' by auto
  moreover have "completion_time now (t # ts) (ob_source body) = completion_time ?t ts source"
    using source s by (cases "initially_complete (ob_source body)") (simp_all add: completion_time_complete initially_complete_def)
  ultimately show ?case using p' s by (auto simp: Let_def split: prod.split)
qed (auto simp: progress_at_def)

section \<open>Properties: the body\<close>

text \<open>
  C27. A request body with no session runtime behind it delivers its source: however often and
  whenever it is polled, in a build with debug assertions or without, no assertion fails, the
  answers are the answers of the source in order (one frame with all the bytes, the chunks and the
  errors of a stream, then the end for ever), and when the completion is tracked its time is that
  of the first poll that left nothing to send, or of the creation when there was nothing.
\<close>
theorem outgoing_body_delivers:
  assumes "\<not> session_runtime \<or> identity = None"
    and "outgoing_body_new source track session_runtime identity now h = (body, h')"
  shows "\<exists>body'. polls dbg hk ts body h' = Some (fst (source_polls (length ts) source), body') \<and>
    is_end_stream body' = (case snd (source_polls (length ts) source) of Empty \<Rightarrow> True | _ \<Rightarrow> False) \<and>
    map_option completed_at (ob_progress body') = (if track then Some (completion_time now ts source) else None)"
proof -
  have b: "ob_source body = source" "quiet body" "ob_progress body = None \<longleftrightarrow> \<not> track"
    "progress_at (if initially_complete source then Some now else None) body"
    using assms by (auto simp: outgoing_body_new_def quiet_def is_consistent_def counts_default_def progress_at_def progress_new_def)
  obtain body' where "polls dbg hk ts body h' = Some (fst (source_polls (length ts) source), body')"
    "ob_source body' = snd (source_polls (length ts) source)" "ob_progress body' = None \<longleftrightarrow> \<not> track"
    "progress_at (completion_time now ts source) body'"
    using polls_quiet [OF b(2), of now dbg hk ts h'] b by auto
  then show ?thesis
    by (auto simp: is_end_stream_def progress_at_def split: option.splits)
qed

definition two_chunks :: "bytes list AsyncBody" where
  "two_chunks = \<lparr>ab_state = [[1], [2, 3]],
     ab_poll_next = (\<lambda>s. case s of [] \<Rightarrow> (Ready None, []) | c # cs \<Rightarrow> (Ready (Some (Inr c)), cs)),
     ab_size_hint = (\<lambda>s. None)\<rparr>"

definition sample_harness :: SessionRuntimeHarness where
  "sample_harness = fst (harness_new sample_process)"

lemma two_chunks_polls:
  "source_polls (length [10, 20, 30 :: instant]) (Stream two_chunks) =
     ([Ready (Some (Inr (DataFrame [1]))), Ready (Some (Inr (DataFrame [2, 3]))), Ready None], Empty)"
  "completion_time 5 [10, 20, 30] (Stream two_chunks) = Some 30"
  by (simp_all add: source_poll_def two_chunks_def initially_complete_def)

theorem outgoing_body_delivers_witness:
  "\<exists>body'. polls True default_hooks [10, 20, 30]
       (fst (outgoing_body_new (Stream two_chunks) True False None 5 sample_harness)) sample_harness =
     Some ([Ready (Some (Inr (DataFrame [1]))), Ready (Some (Inr (DataFrame [2, 3]))), Ready None], body') \<and>
     map_option completed_at (ob_progress body') = Some (Some 30)"
proof -
  have "outgoing_body_new (Stream two_chunks) True False None 5 sample_harness =
      (fst (outgoing_body_new (Stream two_chunks) True False None 5 sample_harness), sample_harness)"
    by (simp add: outgoing_body_new_def observe_upload_def)
  from outgoing_body_delivers [OF _ this, of True default_hooks "[10, 20, 30]"]
  show ?thesis unfolding two_chunks_polls by auto
qed

text \<open>
  With a session runtime behind it the body counts a reply for every chunk of a stream but a
  queued and executed action for the first alone: in a build with debug assertions the second chunk
  fails the assertion that replies do not outnumber the executed actions, although in a release
  build it is delivered.
\<close>
lemma upload_counts_second_chunk:
  assumes "ab_poll_next stream (ab_state stream) = (Ready (Some (Inr c)), s)"
    and "ab_poll_next stream s = (Ready (Some (Inr c')), s')"
    and "outgoing_body_new (Stream stream) track True (Some identity) now h = (body, h')"
  shows "\<exists>b h1 b2 h2. poll_frame dbg default_hooks t body h' = Some (Ready (Some (Inr (DataFrame c))), b, h1) \<and>
    poll_frame False default_hooks u b h1 = Some (Ready (Some (Inr (DataFrame c'))), b2, h2) \<and>
    \<not> is_consistent (ob_upload_counts b2) \<and> poll_frame True default_hooks u b h1 = None"
proof -
  have b: "body = \<lparr>ob_source = Stream stream,
       ob_progress = (if track then Some (progress_new False now) else None),
       ob_upload_entered = \<lparr>action_entered = False\<rparr>, ob_upload_counts = counts_default,
       ob_session_runtime = True, ob_session_identity = Some identity,
       ob_upload_wait = None, ob_upload_wait_complete = False\<rparr>"
    using assms(3) [THEN arg_cong [where f = fst], symmetric] by (simp add: outgoing_body_new_def initially_complete_def)
  let ?b = "body\<lparr>ob_source := Stream (stream\<lparr>ab_state := s\<rparr>), ob_upload_entered := \<lparr>action_entered = True\<rparr>,
     ob_upload_counts := \<lparr>uc_queued = 1, uc_executed = 1, uc_replies = 1\<rparr>, ob_upload_wait_complete := True\<rparr>"
  have step: "\<exists>h1. poll_frame dbg default_hooks t body h' = Some (Ready (Some (Inr (DataFrame c))), ?b, h1)"
    using assms(1)
    by (simp add: b poll_frame_def poll_upload_wait_def poll_stream_def default_hooks_def counts_default_def counts_queued_def
        counts_executed_def reply_observed_def saturating_inc_def is_consistent_def action_enter_def is_entered_def
        identity_checkpoint_def checkpoint_def wait_future_def)
  have second: "\<exists>b2 h2. poll_frame False default_hooks u ?b h1 = Some (Ready (Some (Inr (DataFrame c'))), b2, h2) \<and>
      \<not> is_consistent (ob_upload_counts b2) \<and> poll_frame True default_hooks u ?b h1 = None" for h1
    using assms(2)
    by (simp add: b poll_frame_def poll_upload_wait_def poll_stream_def reply_observed_def saturating_inc_def
        is_consistent_def is_entered_def word_le_nat_alt)
  then show ?thesis using step by blast
qed

end
