(* ===== verification/Response_Head.thy ===== *)
theory Response_Head
  imports Http_Types
begin

text \<open>
  The response-head observer of \<open>crates/requests/src/transport/mod.rs\<close>: it reads along with the
  HTTP library to recover raw headers, to detect conflicting lengths, to repair heads for the
  Python path, and it rewrites the spelling of the request head on the way out. The parser of
  the crate \<open>httparse\<close> and the stream underneath are arguments. A loop that the parser drives
  takes fuel; \<open>None\<close> is running out of it.
\<close>

section \<open>Byte helpers\<close>

definition crlf :: bytes where
  "crlf = [13, 10]"

definition trim_ascii :: "bytes \<Rightarrow> bytes" where
  "trim_ascii bs = trim_end is_ascii_whitespace (trim_start is_ascii_whitespace bs)"

definition trim_leading_ascii_zeroes :: "bytes \<Rightarrow> bytes" where
  "trim_leading_ascii_zeroes bs =
     (let first_nonzero = (case position (\<lambda>byte. byte \<noteq> asc CHR ''0'') bs of
        Some i \<Rightarrow> i | None \<Rightarrow> length bs - 1) in
      drop first_nonzero bs)"

definition python_default_header_spelling :: "rstr \<Rightarrow> rstr" where
  "python_default_header_spelling lower =
     join [asc CHR ''-''] (map (\<lambda>part. case part of [] \<Rightarrow> [] | c # cs \<Rightarrow> to_ascii_uppercase c # cs)
       (split_by (\<lambda>c. c = asc CHR ''-'') lower))"

section \<open>Parsing a response head\<close>

definition MAX_RESPONSE_HEAD_BYTES :: nat where
  "MAX_RESPONSE_HEAD_BYTES = 8192 + 4096 * 100"

text \<open>
  \<open>httparse::Response::parse\<close> with room for 100 headers: \<open>None\<close> when it fails or is incomplete,
  else the bytes consumed, the status code and the headers.
\<close>

record parsed_http =
  ph_consumed :: nat
  ph_code :: "u16 option"
  ph_headers :: "(rstr \<times> bytes) list"

type_synonym httparse = "bytes \<Rightarrow> parsed_http option"

datatype ContentLengthNormalization = NormNone | Ignore | Overflow

record ParsedResponseHead =
  consumed :: nat
  status :: u16
  content_length_normalization :: ContentLengthNormalization
  conflicting_content_length :: "rstr option"
  raw_headers :: "(rstr \<times> bytes) list"

text \<open>The variables the loop over the headers updates.\<close>

record head_scan =
  content_lengths :: "bytes list"
  content_length_values :: "rstr list"
  invalid_content_length :: bool
  overflowing_content_length :: bool
  chunked :: bool

definition scan_start :: head_scan where
  "scan_start = \<lparr>content_lengths = [], content_length_values = [], invalid_content_length = False,
     overflowing_content_length = False, chunked = False\<rparr>"

definition fits_u64 :: "bytes \<Rightarrow> bool" where
  "fits_u64 canonical =
     (case from_utf8 canonical of None \<Rightarrow> False | Some value \<Rightarrow> parse_u64 value \<noteq> None)"

definition scan_token :: "bytes \<Rightarrow> head_scan \<Rightarrow> head_scan" where
  "scan_token token sc =
     (let token = trim_ascii token in
      if token = [] \<or> \<not> list_all is_ascii_digit token then sc\<lparr>invalid_content_length := True\<rparr>
      else
        let canonical = trim_leading_ascii_zeroes token in
        sc\<lparr>overflowing_content_length := (overflowing_content_length sc \<or> \<not> fits_u64 canonical),
           content_lengths := content_lengths sc @ [canonical]\<rparr>)"

definition scan_header :: "rstr \<times> bytes \<Rightarrow> head_scan \<Rightarrow> head_scan" where
  "scan_header header sc =
     (case header of (name, value) \<Rightarrow>
        if eq_ignore_ascii_case name (lit ''content-length'') then
          fold scan_token (split_by (\<lambda>byte. byte = asc CHR '','') value)
            (sc\<lparr>content_length_values := content_length_values sc @ [from_utf8_lossy value]\<rparr>)
        else if eq_ignore_ascii_case name (lit ''transfer-encoding'') then
          sc\<lparr>chunked := (chunked sc \<or>
            list_ex (\<lambda>coding. eq_ignore_ascii_case (trim_ascii coding) (lit ''chunked''))
              (split_by (\<lambda>byte. byte = asc CHR '','') value))\<rparr>
        else sc)"

definition scan_conflicting :: "head_scan \<Rightarrow> bool" where
  "scan_conflicting sc \<longleftrightarrow>
     \<not> invalid_content_length sc \<and> \<not> chunked sc \<and>
     (case content_lengths sc of [] \<Rightarrow> False | first # _ \<Rightarrow> list_ex (\<lambda>v. v \<noteq> first) (content_lengths sc))"

definition scan_normalization :: "head_scan \<Rightarrow> ContentLengthNormalization" where
  "scan_normalization sc =
     (if invalid_content_length sc then Ignore
      else if overflowing_content_length sc \<and> \<not> scan_conflicting sc then
        (if chunked sc then Ignore else Overflow)
      else NormNone)"

definition parsed_response_head :: "httparse \<Rightarrow> bytes \<Rightarrow> ParsedResponseHead option" where
  "parsed_response_head parse bs =
     (case parse bs of
        None \<Rightarrow> None
      | Some response \<Rightarrow>
          (case ph_code response of
             None \<Rightarrow> None
           | Some code \<Rightarrow>
               let sc = fold scan_header (ph_headers response) scan_start in
               Some \<lparr>consumed = ph_consumed response, status = code,
                 content_length_normalization = scan_normalization sc,
                 conflicting_content_length =
                   (if scan_conflicting sc then
                      Some (lit ''Content-Length contained multiple unmatching values ('' @
                        join (lit '', '') (content_length_values sc) @ lit '')'')
                    else None),
                 raw_headers = ph_headers response\<rparr>))"

section \<open>The observer\<close>

record ResponseHeadState =
  rh_generation :: u64
  rh_active :: bool
  captured :: bytes
  final_head_start :: nat
  final_head_consumed :: nat
  rh_normalization :: ContentLengthNormalization
  rh_conflicting :: "rstr option"
  rh_raw_headers :: "(rstr \<times> bytes) list"
  python_header_names :: "(rstr \<rightharpoonup> rstr) option"

definition head_state_default :: ResponseHeadState where
  "head_state_default = \<lparr>rh_generation = 0, rh_active = False, captured = [], final_head_start = 0,
     final_head_consumed = 0, rh_normalization = NormNone, rh_conflicting = None, rh_raw_headers = [],
     python_header_names = None\<rparr>"

definition head_begin :: "rstr list option \<Rightarrow> ResponseHeadState \<Rightarrow> ResponseHeadState" where
  "head_begin names state =
     \<lparr>rh_generation = rh_generation state + 1, rh_active = True, captured = [], final_head_start = 0,
      final_head_consumed = 0, rh_normalization = NormNone, rh_conflicting = None, rh_raw_headers = [],
      python_header_names =
        map_option (\<lambda>names. map_of (rev (map (\<lambda>name. (map to_ascii_lowercase name, name)) names))) names\<rparr>"

definition is_interim :: "u16 \<Rightarrow> bool" where
  "is_interim code \<longleftrightarrow> 100 \<le> code \<and> code < 200 \<and> code \<noteq> 101"

fun inspect_loop :: "httparse \<Rightarrow> nat \<Rightarrow> nat \<Rightarrow> ResponseHeadState \<Rightarrow> ResponseHeadState option" where
  "inspect_loop parse 0 start state = None"
| "inspect_loop parse (Suc fuel) start state =
     (case parsed_response_head parse (drop start (captured state)) of
        None \<Rightarrow> Some state
      | Some parsed \<Rightarrow>
          if is_interim (status parsed) then inspect_loop parse fuel (start + consumed parsed) state
          else Some (state\<lparr>final_head_start := start, final_head_consumed := consumed parsed,
            rh_normalization := content_length_normalization parsed,
            rh_conflicting := conflicting_content_length parsed,
            rh_raw_headers := raw_headers parsed, rh_active := False\<rparr>))"

text \<open>One turn per interim head, and each consumes at least a byte.\<close>

definition inspect_complete_response_head :: "httparse \<Rightarrow> ResponseHeadState \<Rightarrow> ResponseHeadState option" where
  "inspect_complete_response_head parse state = inspect_loop parse (length (captured state) + 2) 0 state"

definition head_observe :: "httparse \<Rightarrow> bytes \<Rightarrow> ResponseHeadState \<Rightarrow> ResponseHeadState option" where
  "head_observe parse bs state =
     (if \<not> rh_active state then Some state
      else
        let room = MAX_RESPONSE_HEAD_BYTES - length (captured state) in
        inspect_complete_response_head parse
          (state\<lparr>captured := captured state @ take (min (length bs) room) bs\<rparr>))"

definition buffers_python_response_head :: "ResponseHeadState \<Rightarrow> bool" where
  "buffers_python_response_head state \<longleftrightarrow> rh_active state \<and> python_header_names state \<noteq> None"

text \<open>The header lines of a normalised head.\<close>

fun normalized_headers :: "ContentLengthNormalization \<Rightarrow> bool \<Rightarrow> (rstr \<times> bytes) list \<Rightarrow> bytes" where
  "normalized_headers norm wrote_overflow [] = []"
| "normalized_headers norm wrote_overflow ((name, value) # headers) =
     (if eq_ignore_ascii_case name (lit ''content-length'') then
        (if norm = Overflow \<and> \<not> wrote_overflow then
           lit ''Content-Length: 9223372036854775807'' @ crlf @ normalized_headers norm True headers
         else normalized_headers norm wrote_overflow headers)
      else as_bytes name @ lit '': '' @ value @ crlf @ normalized_headers norm wrote_overflow headers)"

definition take_normalized_python_response :: "ResponseHeadState \<Rightarrow> bytes option \<times> ResponseHeadState" where
  "take_normalized_python_response state =
     (if rh_active state then (None, state)
      else
        let cap = captured state;
            state' = state\<lparr>captured := []\<rparr> in
        if rh_normalization state = NormNone then (Some cap, state')
        else
          let start = final_head_start state;
              end' = start + final_head_consumed state;
              final_head = take (end' - start) (drop start cap) in
          (case find_sub crlf final_head of
             None \<Rightarrow> (None, state')
           | Some first_line_end \<Rightarrow>
               (Some (take start cap @ take (first_line_end + 2) final_head @
                  normalized_headers (rh_normalization state) False (rh_raw_headers state) @ crlf @
                  drop end' cap), state')))"

definition buffer_python_response_bytes ::
  "httparse \<Rightarrow> bytes \<Rightarrow> ResponseHeadState \<Rightarrow> (bytes option \<times> ResponseHeadState) option" where
  "buffer_python_response_bytes parse bs state =
     (let room = MAX_RESPONSE_HEAD_BYTES - length (captured state) in
      if length bs > room then
        Some (Some (captured state @ bs),
              state\<lparr>captured := [], rh_active := False, python_header_names := None\<rparr>)
      else
        map_option take_normalized_python_response
          (inspect_complete_response_head parse (state\<lparr>captured := captured state @ bs\<rparr>)))"

definition eof_suffix :: "bytes \<Rightarrow> bytes" where
  "eof_suffix cap = (if ends_with cap crlf then crlf else crlf @ crlf)"

definition complete_python_response_on_eof ::
  "httparse \<Rightarrow> ResponseHeadState \<Rightarrow> (bytes option \<times> ResponseHeadState) option" where
  "complete_python_response_on_eof parse state =
     (if \<not> rh_active state \<or> captured state = [] then Some (None, state)
      else
        let sfx = eof_suffix (captured state) in
        if length (captured state) + length sfx > MAX_RESPONSE_HEAD_BYTES then Some (None, state)
        else
          map_option take_normalized_python_response
            (inspect_complete_response_head parse (state\<lparr>captured := captured state @ sfx\<rparr>)))"

definition complete_on_eof :: "httparse \<Rightarrow> ResponseHeadState \<Rightarrow> bytes option \<times> ResponseHeadState" where
  "complete_on_eof parse state =
     (if \<not> rh_active state \<or> captured state = [] then (None, state)
      else
        let sfx = eof_suffix (captured state) in
        if length (captured state) + length sfx > MAX_RESPONSE_HEAD_BYTES then (None, state)
        else
          (case parsed_response_head parse (captured state @ sfx) of
             None \<Rightarrow> (None, state)
           | Some parsed \<Rightarrow>
               if is_interim (status parsed) then (None, state)
               else (Some sfx, state\<lparr>rh_conflicting := conflicting_content_length parsed,
                  rh_raw_headers := raw_headers parsed, rh_active := False\<rparr>)))"

definition take_raw_headers :: "ResponseHeadState \<Rightarrow> (rstr \<times> bytes) list \<times> ResponseHeadState" where
  "take_raw_headers state =
     (rh_raw_headers state, state\<lparr>captured := [], python_header_names := None, rh_raw_headers := []\<rparr>)"

section \<open>Rewriting the request head\<close>

text \<open>The header lines between the request line and the empty line, without their line ends.\<close>

function header_lines :: "bytes \<Rightarrow> bytes list" where
  "header_lines region =
     (if length region \<le> 2 then []
      else case find_sub crlf region of
        None \<Rightarrow> []
      | Some e \<Rightarrow> take e region # header_lines (drop (e + 2) region))"
  by auto
termination by (relation "measure length") auto

definition respell_line :: "(rstr \<rightharpoonup> rstr) \<Rightarrow> bytes \<Rightarrow> bool \<times> bytes" where
  "respell_line names line =
     (case position (\<lambda>byte. byte = asc CHR '':'') line of
        None \<Rightarrow> (False, line)
      | Some colon \<Rightarrow>
          let lower = map to_ascii_lowercase (from_utf8_lossy (take colon line));
              host = (lower = lit ''host'' \<and> names (lit ''host'') = None);
              spelling = as_bytes (case names lower of Some s \<Rightarrow> s | None \<Rightarrow> python_default_header_spelling lower) in
          (host, if length spelling = colon then spelling @ drop colon line else line))"

definition rewrite_python_request_head :: "ResponseHeadState \<Rightarrow> bytes \<Rightarrow> bytes" where
  "rewrite_python_request_head state bs =
     (case python_header_names state of
        None \<Rightarrow> bs
      | Some names \<Rightarrow>
          (case find_sub (crlf @ crlf) bs of
             None \<Rightarrow> bs
           | Some head_end \<Rightarrow>
               (case find_sub crlf (take head_end bs) of
                  None \<Rightarrow> bs
                | Some first_line_end \<Rightarrow>
                    let start = first_line_end + 2;
                        headers = map (respell_line names)
                          (header_lines (take (head_end + 2 - start) (drop start bs)));
                        print = concat \<circ> map (\<lambda>(_, line). line @ crlf) in
                    take first_line_end bs @ crlf @ print (filter fst headers) @
                      print (filter (\<lambda>h. \<not> fst h) headers) @ crlf @ drop (head_end + 4) bs)))"


section \<open>Lemmas: the loop over heads\<close>

text \<open>What the documentation of \<open>httparse\<close> promises of the bytes consumed.\<close>

definition httparse_documented :: "httparse \<Rightarrow> bool" where
  "httparse_documented parse \<longleftrightarrow>
     (\<forall>bs response. parse bs = Some response \<longrightarrow> 0 < ph_consumed response \<and> ph_consumed response \<le> length bs)"

lemma parsed_head_consumed:
  "httparse_documented parse \<Longrightarrow> parsed_response_head parse bs = Some h \<Longrightarrow>
     0 < consumed h \<and> consumed h \<le> length bs"
  by (auto simp: parsed_response_head_def httparse_documented_def Let_def split: option.splits)

text \<open>A chain of interim heads from one offset to another.\<close>

inductive interim_chain :: "httparse \<Rightarrow> bytes \<Rightarrow> nat \<Rightarrow> nat \<Rightarrow> bool" for parse bs where
  Here: "interim_chain parse bs i i"
| Skip: "parsed_response_head parse (drop i bs) = Some h \<Longrightarrow> is_interim (status h) \<Longrightarrow>
    interim_chain parse bs (i + consumed h) j \<Longrightarrow> interim_chain parse bs i j"

text \<open>What finding the final head at an offset leaves.\<close>

definition settle :: "nat \<Rightarrow> ParsedResponseHead \<Rightarrow> ResponseHeadState \<Rightarrow> ResponseHeadState" where
  "settle j h st = st\<lparr>final_head_start := j, final_head_consumed := consumed h,
     rh_normalization := content_length_normalization h,
     rh_conflicting := conflicting_content_length h,
     rh_raw_headers := raw_headers h, rh_active := False\<rparr>"

definition inspected :: "httparse \<Rightarrow> nat \<Rightarrow> ResponseHeadState \<Rightarrow> ResponseHeadState option \<Rightarrow> bool" where
  "inspected parse j st result \<longleftrightarrow>
     (case parsed_response_head parse (drop j (captured st)) of
        None \<Rightarrow> result = Some st
      | Some h \<Rightarrow> \<not> is_interim (status h) \<and> result = Some (settle j h st))"

lemma inspect_loop_spec:
  assumes "httparse_documented parse" and "length (captured st) - start < fuel" and "start \<le> length (captured st)"
  shows "\<exists>j. interim_chain parse (captured st) start j \<and> inspected parse j st (inspect_loop parse fuel start st)"
  using assms(2,3)
proof (induction fuel arbitrary: start)
  case (Suc fuel)
  show ?case
  proof (cases "parsed_response_head parse (drop start (captured st))")
    case None
    then show ?thesis by (intro exI [of _ start]) (simp add: interim_chain.Here inspected_def)
  next
    case (Some h)
    have c: "0 < consumed h" "consumed h \<le> length (captured st) - start"
      using parsed_head_consumed [OF assms(1) Some] by simp_all
    show ?thesis
    proof (cases "is_interim (status h)")
      case False
      then show ?thesis using Some
        by (intro exI [of _ start]) (simp add: interim_chain.Here inspected_def settle_def)
    next
      case True
      have "length (captured st) - (start + consumed h) < fuel" "start + consumed h \<le> length (captured st)"
        using c Suc.prems by simp_all
      from Suc.IH [OF this] show ?thesis using interim_chain.Skip [OF Some True] Some True by auto
    qed
  qed
qed simp

lemma inspect_spec:
  assumes "httparse_documented parse"
  shows "\<exists>j. interim_chain parse (captured st) 0 j \<and> inspected parse j st (inspect_complete_response_head parse st)"
  unfolding inspect_complete_response_head_def by (rule inspect_loop_spec [OF assms]) simp_all

section \<open>Lemmas: content lengths as numbers\<close>

text \<open>The number a token of digits denotes.\<close>

definition decimal_value :: "bytes \<Rightarrow> nat" where
  "decimal_value = foldl (\<lambda>n b. 10 * n + (unat b - 48)) 0"

lemma decimal_value_snoc [simp]:
  "decimal_value [] = 0" "decimal_value (xs @ [b]) = 10 * decimal_value xs + (unat b - 48)"
  by (simp_all add: decimal_value_def)

lemma digit_unat: "is_ascii_digit (b :: u8) \<longleftrightarrow> 48 \<le> unat b \<and> unat b \<le> 57"
  by (simp add: is_ascii_digit_def word_le_nat_alt)

lemma decimal_value_bound: "list_all is_ascii_digit xs \<Longrightarrow> decimal_value xs < 10 ^ length xs"
  by (induction xs rule: rev_induct) (auto simp: digit_unat)

lemma decimal_value_Cons_bound:
  assumes "list_all is_ascii_digit (b # xs)" and "b \<noteq> 48"
  shows "10 ^ length xs \<le> decimal_value (b # xs)"
  using assms
proof (induction xs rule: rev_induct)
  case Nil
  then have "unat b \<noteq> 48" by (simp add: word_eq_iff_unsigned [where 'a = nat])
  then show ?case using Nil by (auto simp: decimal_value_def digit_unat)
next
  case (snoc c cs)
  then show ?case using decimal_value_snoc(2) [of "b # cs" c] by simp
qed

lemma decimal_value_inj:
  assumes "list_all is_ascii_digit xs" "list_all is_ascii_digit ys" "length xs = length ys"
    and "decimal_value xs = decimal_value ys"
  shows "xs = ys"
  using assms(3,1,2,4)
proof (induction xs arbitrary: ys rule: rev_induct)
  case (snoc x xs)
  then obtain y zs where ys: "ys = zs @ [y]" "length zs = length xs" by (cases ys rule: rev_cases) auto
  have d: "48 \<le> unat x" "unat x \<le> 57" "48 \<le> unat y" "unat y \<le> 57" using snoc.prems ys by (auto simp: digit_unat)
  have e: "10 * decimal_value xs + (unat x - 48) = 10 * decimal_value zs + (unat y - 48)"
    using snoc.prems ys by simp
  then have "decimal_value xs = decimal_value zs" using d by presburger
  moreover from this have "x = y" using d e by (simp add: word_eq_iff_unsigned [where 'a = nat])
  ultimately show ?case using snoc.IH [of zs] snoc.prems ys by simp
qed simp

text \<open>The canonical spelling: without leading zeroes, except for zero itself.\<close>

lemma trim_zeroes_Cons:
  "trim_leading_ascii_zeroes (b # bs) = (if b = 48 \<and> bs \<noteq> [] then trim_leading_ascii_zeroes bs else b # bs)"
proof (cases "b = 48 \<and> bs \<noteq> []")
  case True
  then show ?thesis
    by (cases "position (\<lambda>byte. byte \<noteq> 48) bs"; cases bs)
      (simp_all add: trim_leading_ascii_zeroes_def del: position_None_iff position.simps(2),
       simp_all add: trim_leading_ascii_zeroes_def)
qed (auto simp: trim_leading_ascii_zeroes_def)

lemma trim_zeroes_canonical:
  assumes "list_all is_ascii_digit bs" and "bs \<noteq> []"
  obtains b cs where "trim_leading_ascii_zeroes bs = b # cs" "list_all is_ascii_digit (b # cs)"
    "b = 48 \<longrightarrow> cs = []" "decimal_value (b # cs) = decimal_value bs"
proof -
  have "\<exists>b cs. trim_leading_ascii_zeroes bs = b # cs \<and> list_all is_ascii_digit (b # cs) \<and>
      (b = 48 \<longrightarrow> cs = []) \<and> decimal_value (b # cs) = decimal_value bs"
    using assms
  proof (induction bs)
    case (Cons a bs)
    show ?case
    proof (cases "a = 48 \<and> bs \<noteq> []")
      case True
      moreover have "decimal_value (48 # bs) = decimal_value bs" by (simp add: decimal_value_def)
      ultimately show ?thesis using Cons by (simp add: trim_zeroes_Cons)
    next
      case False
      then have "trim_leading_ascii_zeroes (a # bs) = a # bs" by (auto simp: trim_zeroes_Cons)
      then show ?thesis using Cons.prems False by (intro exI [of _ a] exI [of _ bs]) simp
    qed
  qed simp
  then show thesis using that by blast
qed

lemma trim_zeroes_eq_iff:
  assumes "list_all is_ascii_digit xs" "xs \<noteq> []" and "list_all is_ascii_digit ys" "ys \<noteq> []"
  shows "trim_leading_ascii_zeroes xs = trim_leading_ascii_zeroes ys \<longleftrightarrow> decimal_value xs = decimal_value ys"
proof -
  obtain b cs where x: "trim_leading_ascii_zeroes xs = b # cs" "list_all is_ascii_digit (b # cs)"
    "b = 48 \<longrightarrow> cs = []" "decimal_value (b # cs) = decimal_value xs"
    using trim_zeroes_canonical [OF assms(1,2)] by blast
  obtain d es where y: "trim_leading_ascii_zeroes ys = d # es" "list_all is_ascii_digit (d # es)"
    "d = 48 \<longrightarrow> es = []" "decimal_value (d # es) = decimal_value ys"
    using trim_zeroes_canonical [OF assms(3,4)] by blast
  have len: "length us \<le> length vs" if "decimal_value (u # us) = decimal_value (v # vs)"
    "list_all is_ascii_digit (u # us)" "list_all is_ascii_digit (v # vs)" "u = 48 \<longrightarrow> us = []" for u us v vs
  proof (cases "u = 48")
    case False
    have "(10::nat) ^ length us < 10 ^ length (v # vs)"
      using decimal_value_Cons_bound [OF that(2) False] decimal_value_bound [OF that(3)] that(1) by linarith
    then have "length us < length (v # vs)" by (rule power_less_imp_less_exp [rotated]) simp
    then show ?thesis by simp
  qed (use that in simp)
  show ?thesis
  proof
    assume "decimal_value xs = decimal_value ys"
    then have v: "decimal_value (b # cs) = decimal_value (d # es)" using x y by simp
    then have "length (b # cs) = length (d # es)" using len [of b cs d es] len [of d es b cs] x y by simp
    then show "trim_leading_ascii_zeroes xs = trim_leading_ascii_zeroes ys"
      using decimal_value_inj [OF x(2) y(2)] v x(1) y(1) by simp
  next
    assume "trim_leading_ascii_zeroes xs = trim_leading_ascii_zeroes ys"
    then show "decimal_value xs = decimal_value ys" using x y by simp
  qed
qed

lemma digits_value_chars:
  "list_all is_ascii_digit bs \<Longrightarrow>
     digits_value n (map char_from bs) = Some (foldl (\<lambda>n b. 10 * n + (unat b - 48)) n bs)"
  by (induction bs arbitrary: n) (simp_all add: char_from_def)

lemma fits_u64_iff:
  assumes "list_all is_ascii_digit bs" and "bs \<noteq> []"
  shows "fits_u64 bs \<longleftrightarrow> decimal_value bs < 2 ^ 64"
proof -
  have "\<forall>b\<in>set bs. b < 128" using assms(1) by (auto simp: list_all_iff digit_unat word_less_nat_alt)
  then have "from_utf8 bs = Some (map char_from bs)" by (rule from_utf8_ascii)
  then have u: "fits_u64 bs \<longleftrightarrow> parse_u64 (map char_from bs) \<noteq> None" by (simp add: fits_u64_def)
  obtain b cs where bs: "bs = b # cs" using assms(2) by (cases bs) auto
  have "char_from b \<noteq> 43" using assms(1) bs by (auto simp: char_from_def digit_unat)
  then have "parse_u64 (map char_from bs) \<noteq> None \<longleftrightarrow> decimal_value bs < 2 ^ 64"
    using digits_value_chars [OF assms(1), of 0] bs
    by (simp add: parse_u64_def parse_unsigned_def decimal_value_def Let_def del: digits_value.simps)
  then show ?thesis using u by simp
qed


section \<open>Lemmas: the scan of the headers\<close>

text \<open>The elements of all Content-Length values, and whether the coding \<open>chunked\<close> is named.\<close>

definition is_length_token :: "bytes \<Rightarrow> bool" where
  "is_length_token token \<longleftrightarrow> token \<noteq> [] \<and> list_all is_ascii_digit token"

definition length_tokens :: "(rstr \<times> bytes) list \<Rightarrow> bytes list" where
  "length_tokens headers =
     concat (map (\<lambda>(name, value). map trim_ascii (split_by (\<lambda>byte. byte = asc CHR '','') value))
       (filter (\<lambda>(name, _). eq_ignore_ascii_case name (lit ''content-length'')) headers))"

definition names_chunked :: "(rstr \<times> bytes) list \<Rightarrow> bool" where
  "names_chunked headers \<longleftrightarrow>
     (\<exists>(name, value) \<in> set headers. eq_ignore_ascii_case name (lit ''transfer-encoding'') \<and>
        (\<exists>coding \<in> set (split_by (\<lambda>byte. byte = asc CHR '','') value).
           eq_ignore_ascii_case (trim_ascii coding) (lit ''chunked'')))"

lemma scan_token_fields:
  "content_lengths (scan_token t sc) = content_lengths sc @
     (if is_length_token (trim_ascii t) then [trim_leading_ascii_zeroes (trim_ascii t)] else [])"
  "invalid_content_length (scan_token t sc) \<longleftrightarrow> invalid_content_length sc \<or> \<not> is_length_token (trim_ascii t)"
  "overflowing_content_length (scan_token t sc) \<longleftrightarrow> overflowing_content_length sc \<or>
     is_length_token (trim_ascii t) \<and> \<not> fits_u64 (trim_leading_ascii_zeroes (trim_ascii t))"
  "chunked (scan_token t sc) = chunked sc"
  by (auto simp: scan_token_def is_length_token_def Let_def)

lemma scan_tokens_fields:
  "content_lengths (fold scan_token ts sc) =
     content_lengths sc @ map trim_leading_ascii_zeroes (filter is_length_token (map trim_ascii ts))"
  "invalid_content_length (fold scan_token ts sc) \<longleftrightarrow>
     invalid_content_length sc \<or> (\<exists>t\<in>set (map trim_ascii ts). \<not> is_length_token t)"
  "overflowing_content_length (fold scan_token ts sc) \<longleftrightarrow> overflowing_content_length sc \<or>
     (\<exists>t\<in>set (map trim_ascii ts). is_length_token t \<and> \<not> fits_u64 (trim_leading_ascii_zeroes t))"
  "chunked (fold scan_token ts sc) = chunked sc"
  by (induction ts arbitrary: sc) (auto simp: scan_token_fields)

lemma length_not_encoding:
  "eq_ignore_ascii_case name (lit ''content-length'') \<Longrightarrow>
     \<not> eq_ignore_ascii_case name (lit ''transfer-encoding'' :: rstr)"
  by (auto simp: eq_ignore_ascii_case_def ascii_simps)

text \<open>What the scan computes, field by field.\<close>

lemma scan_header_fields:
  "content_lengths (scan_header h sc) =
     content_lengths sc @ map trim_leading_ascii_zeroes (filter is_length_token (length_tokens [h]))"
  "invalid_content_length (scan_header h sc) \<longleftrightarrow>
     invalid_content_length sc \<or> (\<exists>t\<in>set (length_tokens [h]). \<not> is_length_token t)"
  "overflowing_content_length (scan_header h sc) \<longleftrightarrow> overflowing_content_length sc \<or>
     (\<exists>t\<in>set (length_tokens [h]). is_length_token t \<and> \<not> fits_u64 (trim_leading_ascii_zeroes t))"
  "chunked (scan_header h sc) \<longleftrightarrow> chunked sc \<or> names_chunked [h]"
  using length_not_encoding [of "fst h"]
  by (cases h; auto simp: scan_header_def length_tokens_def names_chunked_def scan_tokens_fields list_ex_iff)+

lemma length_tokens_step: "length_tokens (h # hs) = length_tokens [h] @ length_tokens hs"
  by (simp add: length_tokens_def)

lemma names_chunked_step: "names_chunked (h # hs) \<longleftrightarrow> names_chunked [h] \<or> names_chunked hs"
  by (simp add: names_chunked_def)

lemma scan_empty [simp]: "length_tokens [] = []" "\<not> names_chunked []"
  by (simp_all add: length_tokens_def names_chunked_def)

lemma scan_headers:
  "content_lengths (fold scan_header hs sc) =
     content_lengths sc @ map trim_leading_ascii_zeroes (filter is_length_token (length_tokens hs))"
  "invalid_content_length (fold scan_header hs sc) \<longleftrightarrow>
     invalid_content_length sc \<or> (\<exists>t\<in>set (length_tokens hs). \<not> is_length_token t)"
  "overflowing_content_length (fold scan_header hs sc) \<longleftrightarrow>
     overflowing_content_length sc \<or>
     (\<exists>t\<in>set (length_tokens hs). is_length_token t \<and> \<not> fits_u64 (trim_leading_ascii_zeroes t))"
  "chunked (fold scan_header hs sc) \<longleftrightarrow> chunked sc \<or> names_chunked hs"
proof (induction hs arbitrary: sc)
  case (Cons h hs)
  note step = length_tokens_step [of h hs] names_chunked_step [of h hs]
  {
    case 1
    show ?case by (simp add: Cons scan_header_fields step)
  next
    case 2
    show ?case by (simp add: Cons scan_header_fields step bex_Un disj_assoc)
  next
    case 3
    show ?case by (simp add: Cons scan_header_fields step bex_Un disj_assoc)
  next
    case 4
    show ?case by (simp add: Cons scan_header_fields step disj_assoc)
  }
qed simp_all

text \<open>Whether two of the lengths differ, decided on their canonical spellings.\<close>

definition some_differ :: "'a list \<Rightarrow> bool" where
  "some_differ xs \<longleftrightarrow> (case xs of [] \<Rightarrow> False | x # _ \<Rightarrow> list_ex (\<lambda>v. v \<noteq> x) xs)"

lemma some_differ_iff: "some_differ xs \<longleftrightarrow> (\<exists>x\<in>set xs. \<exists>y\<in>set xs. x \<noteq> y)"
proof (cases xs)
  case (Cons x ys)
  have "some_differ xs \<longleftrightarrow> (\<exists>v\<in>set xs. v \<noteq> x)" by (simp add: some_differ_def Cons list_ex_iff)
  moreover have "x \<in> set xs" by (simp add: Cons)
  ultimately show ?thesis by metis
qed (simp add: some_differ_def)

lemma scan_conflicting_iff:
  assumes "sc = fold scan_header hs scan_start"
  shows "scan_conflicting sc \<longleftrightarrow>
    (\<forall>t\<in>set (length_tokens hs). is_length_token t) \<and> \<not> names_chunked hs \<and>
    (\<exists>s\<in>set (length_tokens hs). \<exists>t\<in>set (length_tokens hs). decimal_value s \<noteq> decimal_value t)"
proof (cases "(\<forall>t\<in>set (length_tokens hs). is_length_token t) \<and> \<not> names_chunked hs")
  case True
  then have f: "content_lengths sc = map trim_leading_ascii_zeroes (length_tokens hs)"
    "\<not> invalid_content_length sc" "\<not> chunked sc"
    by (simp_all add: assms scan_headers scan_start_def)
  have "trim_leading_ascii_zeroes s = trim_leading_ascii_zeroes t \<longleftrightarrow> decimal_value s = decimal_value t"
    if "s \<in> set (length_tokens hs)" "t \<in> set (length_tokens hs)" for s t
    using that True trim_zeroes_eq_iff by (simp add: is_length_token_def)
  moreover have "scan_conflicting sc \<longleftrightarrow>
      (\<exists>s\<in>set (length_tokens hs). \<exists>t\<in>set (length_tokens hs).
         trim_leading_ascii_zeroes s \<noteq> trim_leading_ascii_zeroes t)"
    unfolding scan_conflicting_def f(1) some_differ_def [symmetric] some_differ_iff using f by simp
  ultimately show ?thesis using True by metis
next
  case False
  then show ?thesis by (auto simp: assms scan_conflicting_def scan_headers scan_start_def)
qed

lemma scan_overflow_iff:
  "overflowing_content_length (fold scan_header hs scan_start) \<longleftrightarrow>
     (\<exists>t\<in>set (length_tokens hs). is_length_token t \<and> 2 ^ 64 \<le> decimal_value t)"
proof -
  have "fits_u64 (trim_leading_ascii_zeroes t) \<longleftrightarrow> decimal_value t < 2 ^ 64" if "is_length_token t" for t
  proof -
    have "list_all is_ascii_digit t" "t \<noteq> []" using that by (simp_all add: is_length_token_def)
    then obtain b cs where "trim_leading_ascii_zeroes t = b # cs" "list_all is_ascii_digit (b # cs)"
      "decimal_value (b # cs) = decimal_value t" by (rule trim_zeroes_canonical)
    then show ?thesis using fits_u64_iff [of "b # cs"] by simp
  qed
  then show ?thesis by (auto simp: scan_headers scan_start_def not_less)
qed

lemma several_values:
  assumes "finite S"
  shows "1 < card (f ` S) \<longleftrightarrow> (\<exists>s\<in>S. \<exists>t\<in>S. f s \<noteq> f t)"
proof -
  have "card (f ` S) \<le> Suc 0 \<longleftrightarrow> (\<forall>x\<in>f ` S. \<forall>y\<in>f ` S. x = y)"
    by (intro card_le_Suc0_iff_eq finite_imageI assms)
  also have "\<dots> \<longleftrightarrow> (\<forall>s\<in>S. \<forall>t\<in>S. f s = f t)" by blast
  finally show ?thesis by (simp only: not_le [symmetric] One_nat_def ball_simps)
qed

lemma one_value:
  fixes f :: "'a \<Rightarrow> nat"
  assumes "finite S"
  shows "(\<exists>n\<ge>b. f ` S = {n}) \<longleftrightarrow> \<not> 1 < card (f ` S) \<and> (\<exists>t\<in>S. b \<le> f t)"
proof
  assume "\<not> 1 < card (f ` S) \<and> (\<exists>t\<in>S. b \<le> f t)"
  then obtain t where t: "t \<in> S" "b \<le> f t" and "\<forall>s\<in>S. f s = f t"
    using several_values [OF assms, of f] by blast
  then have "f ` S = {f t}" by (metis (no_types, lifting) image_cong image_constant)
  then show "\<exists>n\<ge>b. f ` S = {n}" using t(2) by blast
next
  assume "\<exists>n\<ge>b. f ` S = {n}"
  then obtain n where n: "b \<le> n" "f ` S = {n}" by blast
  then obtain t where "t \<in> S" "f t = n" by blast
  then show "\<not> 1 < card (f ` S) \<and> (\<exists>t\<in>S. b \<le> f t)" using n by auto
qed

section \<open>Properties of the observer\<close>

text \<open>
  C33. What the observer reports of a response's framing is decided by the numbers the
  Content-Length elements denote: a conflict is reported if and only if every element of every
  such header is a decimal number, the message is not chunked and two of the numbers differ
  (leading zeroes do not matter); the lengths are to be ignored if and only if some element is
  not a number, or one is beyond 64 bits in a chunked message; and a length is replaced by the
  sentinel if and only if all elements denote one number that is beyond 64 bits and the message
  is not chunked.
\<close>

theorem content_length_outcome:
  assumes "parse bs = Some r" and "ph_code r = Some code"
  shows "\<exists>h ts. parsed_response_head parse bs = Some h \<and> ts = length_tokens (ph_headers r) \<and>
    raw_headers h = ph_headers r \<and>
    (conflicting_content_length h \<noteq> None \<longleftrightarrow>
       list_all is_length_token ts \<and> \<not> names_chunked (ph_headers r) \<and> 1 < card (decimal_value ` set ts)) \<and>
    (content_length_normalization h = Ignore \<longleftrightarrow>
       \<not> list_all is_length_token ts \<or>
       names_chunked (ph_headers r) \<and> (\<exists>t\<in>set ts. 2 ^ 64 \<le> decimal_value t)) \<and>
    (content_length_normalization h = Overflow \<longleftrightarrow>
       list_all is_length_token ts \<and> \<not> names_chunked (ph_headers r) \<and>
       (\<exists>n\<ge>2 ^ 64. decimal_value ` set ts = {n}))"
proof -
  let ?hs = "ph_headers r" let ?sc = "fold scan_header ?hs scan_start" let ?ts = "length_tokens ?hs"
  let ?V = "decimal_value ` set ?ts"
  have two: "1 < card ?V \<longleftrightarrow> (\<exists>s\<in>set ?ts. \<exists>t\<in>set ?ts. decimal_value s \<noteq> decimal_value t)"
    by (rule several_values) simp
  have one: "(\<exists>n\<ge>2 ^ 64. ?V = {n}) \<longleftrightarrow> \<not> 1 < card ?V \<and> (\<exists>t\<in>set ?ts. 2 ^ 64 \<le> decimal_value t)"
    by (rule one_value) simp
  have inv: "invalid_content_length ?sc \<longleftrightarrow> \<not> list_all is_length_token ?ts"
    by (simp add: scan_headers scan_start_def list_all_iff)
  have chk: "chunked ?sc \<longleftrightarrow> names_chunked ?hs" by (simp add: scan_headers scan_start_def)
  have con: "scan_conflicting ?sc \<longleftrightarrow> list_all is_length_token ?ts \<and> \<not> names_chunked ?hs \<and> 1 < card ?V"
    unfolding two using scan_conflicting_iff [OF refl, of ?hs] by (simp add: list_all_iff)
  have ovf: "list_all is_length_token ?ts \<Longrightarrow>
      overflowing_content_length ?sc \<longleftrightarrow> (\<exists>t\<in>set ?ts. 2 ^ 64 \<le> decimal_value t)"
    by (auto simp: scan_overflow_iff list_all_iff)
  have "scan_normalization ?sc = Ignore \<longleftrightarrow> \<not> list_all is_length_token ?ts \<or>
       names_chunked ?hs \<and> (\<exists>t\<in>set ?ts. 2 ^ 64 \<le> decimal_value t)"
    unfolding scan_normalization_def inv chk con using ovf by auto
  moreover have "scan_normalization ?sc = Overflow \<longleftrightarrow> list_all is_length_token ?ts \<and> \<not> names_chunked ?hs \<and>
       (\<exists>n\<ge>2 ^ 64. ?V = {n})"
    unfolding one scan_normalization_def inv chk con using ovf by auto
  moreover obtain h where "parsed_response_head parse bs = Some h" "raw_headers h = ?hs"
    "conflicting_content_length h \<noteq> None \<longleftrightarrow> scan_conflicting ?sc"
    "content_length_normalization h = scan_normalization ?sc"
    by (simp add: parsed_response_head_def assms Let_def)
  ultimately show ?thesis using con by (intro exI [of _ h] exI [of _ ?ts]) (simp only: simp_thms)
qed

definition sample_http :: parsed_http where
  "sample_http = \<lparr>ph_consumed = 10, ph_code = Some 200,
     ph_headers = [(lit ''Content-Length'', lit ''5, 007''), (lit ''content-length'', lit ''5'')]\<rparr>"

theorem content_length_outcome_witness:
  "\<exists>h. parsed_response_head (\<lambda>_. Some sample_http) [1] = Some h \<and> conflicting_content_length h \<noteq> None"
proof -
  have "length_tokens (ph_headers sample_http) = [lit ''5'', lit ''007'', lit ''5'']" by code_simp
  moreover have "\<not> names_chunked (ph_headers sample_http)" by code_simp
  moreover have "list_all is_length_token [lit ''5'', lit ''007'', lit ''5'']" by code_simp
  moreover have "card (decimal_value ` set [lit ''5'', lit ''007'', lit ''5'']) = 2" by code_simp
  ultimately show ?thesis
    using content_length_outcome [of "\<lambda>_. Some sample_http" "[1]" sample_http 200, OF refl]
    by (simp only: sample_http_def parsed_http.simps) auto
qed

text \<open>
  C38. Feeding bytes to an active observer always returns, keeps at most the configured number of
  bytes, and looks at the heads in the captured bytes in order: it skips interim heads (status
  100 to 199 other than 101) and either stays active, because the bytes after them are not a
  complete head, or becomes inactive with the headers, the framing verdict and the position of
  the first head that is not interim.
\<close>

theorem observe_stops_at_final_head:
  assumes "httparse_documented parse" and "rh_active state" and "length (captured state) \<le> MAX_RESPONSE_HEAD_BYTES"
  shows "\<exists>st j. head_observe parse bs state = Some st \<and>
    length (captured st) \<le> MAX_RESPONSE_HEAD_BYTES \<and>
    captured st = captured state @ take (MAX_RESPONSE_HEAD_BYTES - length (captured state)) bs \<and>
    interim_chain parse (captured st) 0 j \<and>
    (case parsed_response_head parse (drop j (captured st)) of
       None \<Rightarrow> st = state\<lparr>captured := captured st\<rparr>
     | Some h \<Rightarrow> \<not> is_interim (status h) \<and> \<not> rh_active st \<and> final_head_start st = j \<and>
         final_head_consumed st = consumed h \<and> rh_raw_headers st = raw_headers h \<and>
         rh_normalization st = content_length_normalization h \<and>
         rh_conflicting st = conflicting_content_length h)"
proof -
  let ?room = "MAX_RESPONSE_HEAD_BYTES - length (captured state)"
  let ?st = "state\<lparr>captured := captured state @ take (min (length bs) ?room) bs\<rparr>"
  have t: "take (min (length bs) ?room) bs = take ?room bs" by (simp add: min_def)
  have o: "head_observe parse bs state = inspect_complete_response_head parse ?st"
    using assms(2) by (simp add: head_observe_def Let_def)
  obtain j where j: "interim_chain parse (captured ?st) 0 j"
    "inspected parse j ?st (inspect_complete_response_head parse ?st)"
    using inspect_spec [OF assms(1), of ?st] by blast
  have room: "length (captured ?st) \<le> MAX_RESPONSE_HEAD_BYTES" using assms(3) by simp
  show ?thesis
  proof (cases "parsed_response_head parse (drop j (captured ?st))")
    case None
    then show ?thesis using j o room
      by (intro exI [of _ ?st] exI [of _ j]) (simp add: t inspected_def)
  next
    case (Some h)
    then show ?thesis using j o room
      by (intro exI [of _ "settle j h ?st"] exI [of _ j]) (simp add: t inspected_def settle_def)
  qed
qed

definition sample_httparse :: httparse where
  "sample_httparse bs = (case bs of [] \<Rightarrow> None
     | b # _ \<Rightarrow> Some \<lparr>ph_consumed = 1, ph_code = Some (if b = 1 then 100 else 200), ph_headers = []\<rparr>)"

theorem observe_stops_at_final_head_witness:
  "\<exists>st j. head_observe sample_httparse [1, 2] (head_begin None head_state_default) = Some st \<and>
     captured st = [1, 2] \<and> interim_chain sample_httparse [1, 2] 0 j"
proof -
  have "httparse_documented sample_httparse"
    by (auto simp: httparse_documented_def sample_httparse_def split: list.splits)
  from observe_stops_at_final_head [OF this, of "head_begin None head_state_default" "[1, 2]"]
  show ?thesis by (auto simp: head_begin_def MAX_RESPONSE_HEAD_BYTES_def)
qed

section \<open>Lemmas: the request head\<close>

text \<open>A head as lines, and what a header line says: its name whatever the case, and its value.\<close>

definition render_lines :: "bytes list \<Rightarrow> bytes" where
  "render_lines ls = concat (map (\<lambda>l. l @ crlf) ls)"

lemma render_lines_simps [simp]:
  "render_lines [] = []" "render_lines (l # ls) = l @ crlf @ render_lines ls"
  "render_lines (ks @ ls) = render_lines ks @ render_lines ls"
  by (simp_all add: render_lines_def)

definition line_name :: "bytes \<Rightarrow> rstr" where
  "line_name l = map (to_ascii_lowercase \<circ> char_from) (takeWhile (\<lambda>b. b \<noteq> 58) l)"

definition line_field :: "bytes \<Rightarrow> rstr \<times> bytes" where
  "line_field l = (line_name l, dropWhile (\<lambda>b. b \<noteq> 58) l)"

definition header_line :: "bytes \<Rightarrow> bool" where
  "header_line l \<longleftrightarrow> 13 \<notin> set l \<and> 58 \<in> set l \<and> list_all (\<lambda>b. b < 128) (takeWhile (\<lambda>b. b \<noteq> 58) l)"

text \<open>The keys of the table are the lower-case spellings, as \<open>begin\<close> builds it.\<close>

definition lower_keys :: "(rstr \<rightharpoonup> rstr) \<Rightarrow> bool" where
  "lower_keys names \<longleftrightarrow> (\<forall>k v. names k = Some v \<longrightarrow> map to_ascii_lowercase v = k)"

lemma head_begin_lower_keys: "python_header_names (head_begin (Some ns) st) = Some names \<Longrightarrow> lower_keys names"
  by (auto simp: head_begin_def lower_keys_def dest!: map_of_SomeD)

definition spelled :: "(rstr \<rightharpoonup> rstr) \<Rightarrow> rstr \<Rightarrow> rstr" where
  "spelled names lower = (case names lower of Some s \<Rightarrow> s | None \<Rightarrow> python_default_header_spelling lower)"

lemma find_crlf: "13 \<notin> set l \<Longrightarrow> find_sub crlf (l @ crlf @ rest) = Some (length l)"
  by (induction l) (auto simp: crlf_def)

lemma find_crlf_none: "13 \<notin> set l \<Longrightarrow> find_sub crlf l = None"
  by (induction l) (auto simp: crlf_def)

lemma header_line_facts:
  assumes "header_line l"
  shows "13 \<notin> set l" "l \<noteq> []" "\<not> prefix crlf (l @ rest)"
  using assms by (cases l; auto simp: header_line_def crlf_def)+

lemma find_blank_line:
  assumes "13 \<notin> set l" and "list_all header_line ls"
  shows "find_sub (crlf @ crlf) (render_lines (l # ls) @ crlf @ body) = Some (length (render_lines (l # ls)) - 2)"
  using assms
proof (induction ls arbitrary: l)
  case Nil
  then show ?case by (induction l) (auto simp: crlf_def)
next
  case (Cons k ls)
  have hop: "find_sub (crlf @ crlf) (l @ crlf @ rest) = map_option (\<lambda>n. Suc (Suc (length l + n))) (find_sub (crlf @ crlf) rest)"
    if "\<not> prefix crlf rest" for rest
    using Cons.prems(1) that
    by (induction l) (auto simp: crlf_def option.map_comp comp_def)
  have "\<not> prefix crlf (render_lines (k # ls) @ crlf @ body)"
    using Cons.prems header_line_facts(3) [of k "crlf @ render_lines ls @ crlf @ body"] by simp
  from hop [OF this] Cons.IH [of k] Cons.prems show ?case
    by (simp add: header_line_facts crlf_def)
qed

lemma header_lines_render: "list_all header_line ls \<Longrightarrow> header_lines (render_lines ls) = ls"
proof (induction ls)
  case (Cons l ls)
  have "0 < length l" using Cons.prems header_line_facts(2) [of l] by simp
  moreover have "find_sub crlf (render_lines (l # ls)) = Some (length l)"
    using Cons.prems find_crlf [of l] by (simp add: header_line_facts)
  ultimately show ?case using Cons
    by (subst header_lines.simps) (simp add: crlf_def)
qed simp

lemma lower_upper [simp]: "to_ascii_lowercase (to_ascii_uppercase c) = to_ascii_lowercase (c :: nat)"
  by (auto simp: ascii_simps)

lemma lower_lower [simp]: "to_ascii_lowercase (to_ascii_lowercase c) = to_ascii_lowercase (c :: nat)"
  by (auto simp: ascii_simps)

lemma default_spelling_lower:
  "map to_ascii_lowercase (python_default_header_spelling s) = map to_ascii_lowercase s"
proof -
  have cap: "map to_ascii_lowercase (case part of [] \<Rightarrow> [] | c # cs \<Rightarrow> to_ascii_uppercase c # cs) =
      map to_ascii_lowercase part" for part :: rstr
    by (cases part) simp_all
  have "map to_ascii_lowercase (join [45] (map (\<lambda>part. case part of [] \<Rightarrow> [] | c # cs \<Rightarrow> to_ascii_uppercase c # cs) ps)) =
      map to_ascii_lowercase (join [45] ps)" for ps :: "rstr list"
    by (induction "[45 :: nat]" ps rule: join.induct) (simp_all add: cap)
  moreover have "split_by (\<lambda>c. c = asc CHR ''-'') s = split_by ((=) 45) s"
    by (rule arg_cong [where f = "\<lambda>P. split_by P s"]) auto
  ultimately show ?thesis unfolding python_default_header_spelling_def
    using join_split_by [of 45 s] by simp
qed

lemma spelled_lower:
  assumes "lower_keys names" and "map to_ascii_lowercase lower = lower"
  shows "map to_ascii_lowercase (spelled names lower) = lower"
  using assms default_spelling_lower [of lower]
  by (auto simp: spelled_def lower_keys_def split: option.split)

lemma from_utf8_lossy_ascii: "\<forall>b\<in>set bs. b < 128 \<Longrightarrow> from_utf8_lossy bs = map char_from bs"
proof (induction bs)
  case (Cons b bs)
  then have "utf8_step (b # bs) = (Some (char_from b), 1)"
    by (simp add: utf8_step_def char_from_def word_less_nat_alt)
  then show ?case using Cons by simp
qed simp

lemma lower_ascii: "is_ascii (map to_ascii_lowercase s) \<longleftrightarrow> is_ascii s"
  by (induction s) (auto simp: ascii_simps)

lemma lower_colon: "58 \<in> set (map to_ascii_lowercase s) \<longleftrightarrow> 58 \<in> set (s :: rstr)"
  by (induction s) (auto simp: ascii_simps)

text \<open>A respelled line says what the line said, under the spelling asked for.\<close>

lemma respell_line_spec:
  assumes "header_line l" and "lower_keys names"
  obtains l' where "respell_line names l = (line_name l = lit ''host'' \<and> names (lit ''host'') = None, l')"
    "line_field l' = line_field l" "takeWhile (\<lambda>b. b \<noteq> 58) l' = as_bytes (spelled names (line_name l))"
    "length l' = length l"
proof -
  obtain name val where l: "l = name @ 58 # val" "58 \<notin> set name"
    using assms(1) by (auto simp: header_line_def dest: split_list_first)
  have name: "takeWhile (\<lambda>b. b \<noteq> 58) l = name" "dropWhile (\<lambda>b. b \<noteq> 58) l = 58 # val"
    using l by (auto simp: takeWhile_append dropWhile_append)
  have pos: "position (\<lambda>byte. byte = asc CHR '':'') l = Some (length name)"
    using l position_append_hit [of name "\<lambda>byte. byte = 58" 58 val] by auto
  have ascii: "\<forall>b\<in>set name. b < 128" using assms(1) name by (simp add: header_line_def list_all_iff)
  have lower: "map to_ascii_lowercase (from_utf8_lossy (take (length name) l)) = line_name l"
    unfolding line_name_def name using l(1) ascii by (simp add: from_utf8_lossy_ascii)
  let ?s = "spelled names (line_name l)"
  have idem: "map to_ascii_lowercase (line_name l) = line_name l" by (simp add: line_name_def comp_def)
  have s: "map to_ascii_lowercase ?s = line_name l" by (rule spelled_lower [OF assms(2) idem])
  have na: "is_ascii (map char_from name)"
    using ascii by (auto simp: is_ascii_iff char_from_def word_less_nat_alt)
  then have "is_ascii (line_name l)" using lower_ascii [of "map char_from name"] by (simp add: line_name_def name)
  then have sa: "is_ascii ?s" using s lower_ascii by metis
  have "char_from b = 58 \<longleftrightarrow> b = 58" for b by (simp add: char_from_def word_eq_iff_unsigned [where 'a = nat])
  then have "58 \<notin> set (map char_from name)" using l(2) unfolding list.set_map image_iff by metis
  then have "58 \<notin> set (line_name l)" using lower_colon [of "map char_from name"] by (simp add: line_name_def name)
  then have "58 \<notin> set ?s" using s lower_colon by metis
  then have sc: "58 \<notin> set (as_bytes ?s)" using ascii_mem_bytes [OF sa, of 58] by simp
  have len: "length (as_bytes ?s) = length name"
    using arg_cong [OF s, of length] as_bytes_ascii [OF sa] by (simp add: line_name_def name)
  have chars: "map char_from (as_bytes ?s) = ?s" unfolding as_bytes_ascii [OF sa] by (rule map_char_from_as_bytes [OF sa])
  let ?l = "as_bytes ?s @ 58 # val"
  have new: "takeWhile (\<lambda>b. b \<noteq> 58) ?l = as_bytes ?s" "dropWhile (\<lambda>b. b \<noteq> 58) ?l = 58 # val"
    using sc by (auto simp: takeWhile_append dropWhile_append)
  have "line_name ?l = map to_ascii_lowercase (map char_from (as_bytes ?s))" using new(1) by (simp only: line_name_def [of ?l] map_map)
  then have "line_field ?l = line_field l" unfolding line_field_def new name by (simp add: chars s)
  moreover have "respell_line names l = (line_name l = lit ''host'' \<and> names (lit ''host'') = None, ?l)"
    unfolding respell_line_def pos lower option.case Let_def spelled_def [symmetric] using len l by simp
  ultimately show thesis using that [of ?l] new len l by simp
qed

lemma respell_lines:
  assumes "list_all header_line ls" and "lower_keys names"
    and "host = (\<lambda>n. n = lit ''host'' \<and> names (lit ''host'') = None)"
  shows "\<exists>ks. map (respell_line names) ls = map (\<lambda>k. (host (line_name k), k)) ks \<and>
    map line_field ks = map line_field ls \<and> map length ks = map length ls \<and>
    (\<forall>k\<in>set ks. takeWhile (\<lambda>b. b \<noteq> 58) k = as_bytes (spelled names (line_name k)))"
  using assms(1)
proof (induction ls)
  case (Cons l ls)
  then obtain ks where ks: "map (respell_line names) ls = map (\<lambda>k. (host (line_name k), k)) ks"
    "map line_field ks = map line_field ls" "map length ks = map length ls"
    "\<forall>k\<in>set ks. takeWhile (\<lambda>b. b \<noteq> 58) k = as_bytes (spelled names (line_name k))" by auto
  obtain k where k: "respell_line names l = (host (line_name l), k)" "line_field k = line_field l"
    "takeWhile (\<lambda>b. b \<noteq> 58) k = as_bytes (spelled names (line_name l))" "length k = length l"
    using respell_line_spec [of l names] Cons.prems assms(2,3) by auto
  have "line_name k = line_name l" using k(2) by (simp add: line_field_def)
  then show ?case using ks k by (intro exI [of _ "k # ks"]) simp
qed simp

lemma concat_pairs: "concat (map (\<lambda>(_, line). line @ crlf) (map (\<lambda>k. (h k, k)) ks)) = render_lines ks"
  by (simp add: render_lines_def comp_def)

lemma rewrite_render:
  assumes "python_header_names state = Some names" and "13 \<notin> set l" and "list_all header_line ls"
  shows "rewrite_python_request_head state (render_lines (l # ls) @ crlf @ body) =
    (let hs = map (respell_line names) ls; print = concat \<circ> map (\<lambda>(_, line). line @ crlf) in
     l @ crlf @ print (filter fst hs) @ print (filter (\<lambda>h. \<not> fst h) hs) @ crlf @ body)"
proof (cases ls rule: rev_cases)
  case Nil
  have "find_sub (crlf @ crlf) (render_lines (l # ls) @ crlf @ body) = Some (length l)"
    using find_blank_line [OF assms(2), of "[]" body] Nil by (simp add: crlf_def)
  then show ?thesis using assms(1) find_crlf_none [OF assms(2)] Nil
    by (simp add: rewrite_python_request_head_def)
next
  case (snoc ks k)
  let ?bs = "render_lines (l # ls) @ crlf @ body"
  let ?e = "length (render_lines (l # ls)) - 2"
  have e: "find_sub (crlf @ crlf) ?bs = Some ?e" by (rule find_blank_line [OF assms(2,3)])
  have head: "take ?e ?bs = l @ crlf @ render_lines ks @ k" by (simp add: snoc crlf_def)
  have first: "find_sub crlf (take ?e ?bs) = Some (length l)" unfolding head by (rule find_crlf [OF assms(2)])
  have region: "take (?e + 2 - (length l + 2)) (drop (length l + 2) ?bs) = render_lines ls"
    by (simp add: snoc crlf_def)
  have "?e + 4 = length (render_lines (l # ls) @ crlf)" by (simp add: snoc crlf_def)
  then have tail: "drop (?e + 4) ?bs = body" by (metis append_assoc append_eq_conv_conj)
  have line: "take (length l) ?bs = l" by simp
  show ?thesis
    unfolding rewrite_python_request_head_def assms(1) option.case e first Let_def region tail line
      header_lines_render [OF assms(3)] ..
qed

text \<open>
  C34. Respelling a request head for Python keeps the message: the request line and the body are
  untouched, the header lines say the same fields in the same order, except that \<open>Host\<close> goes
  first when the caller did not name it, every name is spelled as the caller spelled it or else
  with capitals after each dash, and the length of the head does not change.
\<close>

theorem rewrite_keeps_fields:
  assumes "python_header_names state = Some names" and "lower_keys names"
    and "13 \<notin> set l" and "list_all header_line ls"
    and "host = (\<lambda>(n, _). n = lit ''host'' \<and> names (lit ''host'') = None)"
  shows "\<exists>ks. rewrite_python_request_head state (render_lines (l # ls) @ crlf @ body) =
      render_lines (l # ks) @ crlf @ body \<and>
    map line_field ks = filter host (map line_field ls) @ filter (\<lambda>f. \<not> host f) (map line_field ls) \<and>
    (\<forall>k\<in>set ks. takeWhile (\<lambda>b. b \<noteq> 58) k = as_bytes (spelled names (line_name k))) \<and>
    length (render_lines ks) = length (render_lines ls)"
proof -
  let ?h = "\<lambda>n. n = lit ''host'' \<and> names (lit ''host'') = None"
  obtain ks where ks: "map (respell_line names) ls = map (\<lambda>k. (?h (line_name k), k)) ks"
    "map line_field ks = map line_field ls" "map length ks = map length ls"
    "\<forall>k\<in>set ks. takeWhile (\<lambda>b. b \<noteq> 58) k = as_bytes (spelled names (line_name k))"
    using respell_lines [OF assms(4,2) refl] by blast
  let ?a = "filter (\<lambda>k. ?h (line_name k)) ks" and ?b = "filter (\<lambda>k. \<not> ?h (line_name k)) ks"
  have h: "host (line_field k) \<longleftrightarrow> ?h (line_name k)" for k by (simp add: assms(5) line_field_def)
  have "rewrite_python_request_head state (render_lines (l # ls) @ crlf @ body) = render_lines (l # ?a @ ?b) @ crlf @ body"
    unfolding rewrite_render [OF assms(1,3,4)] Let_def ks(1) comp_apply filter_map concat_pairs
    by (simp add: comp_def)
  moreover have "map line_field (?a @ ?b) = filter host (map line_field ls) @ filter (\<lambda>f. \<not> host f) (map line_field ls)"
    unfolding ks(2) [symmetric] filter_map comp_def h by simp
  moreover have "length (render_lines (?a @ ?b)) = length (render_lines ls)"
  proof -
    have sum: "length (render_lines us) = sum_list (map length us) + 2 * length us" for us
      by (induction us) (simp_all add: crlf_def)
    have "sum_list (map length (?a @ ?b)) = sum_list (map length ks)"
      by (induction ks) auto
    moreover have "length (?a @ ?b) = length ks" unfolding length_append by (rule sum_length_filter_compl)
    ultimately show ?thesis using ks(3) map_eq_imp_length_eq [OF ks(3)] unfolding sum by simp
  qed
  ultimately show ?thesis using ks(4) by (intro exI [of _ "?a @ ?b"]) auto
qed

theorem rewrite_keeps_fields_witness:
  "\<exists>ks. rewrite_python_request_head (head_begin (Some [lit ''X-a'']) head_state_default)
      (lit ''GET / HTTP/1.1'' @ crlf @ lit ''x-a: 1'' @ crlf @ lit ''host: h'' @ crlf @ crlf) =
      render_lines (lit ''GET / HTTP/1.1'' # ks) @ crlf \<and>
    map line_field ks = [line_field (lit ''host: h''), line_field (lit ''x-a: 1'')]"
proof -
  obtain names where n: "python_header_names (head_begin (Some [lit ''X-a'']) head_state_default) = Some names"
    "names (lit ''host'') = None" by (simp add: head_begin_def ascii_simps)
  have "list_all header_line [lit ''x-a: 1'', lit ''host: h'']" by code_simp
  moreover have "(13 :: u8) \<notin> set (lit ''GET / HTTP/1.1'')" by code_simp
  moreover have "line_name (lit ''x-a: 1'') \<noteq> lit ''host''" "line_name (lit ''host: h'') = lit ''host''" by code_simp+
  ultimately show ?thesis
    using rewrite_keeps_fields [OF n(1) head_begin_lower_keys [OF n(1)], of "lit ''GET / HTTP/1.1''"
      "[lit ''x-a: 1'', lit ''host: h'']" _ "[]", OF _ _ refl] n(2)
    by (simp add: line_field_def del: lit_simps) (elim exE conjE, intro exI conjI, assumption+)
qed

end
