(* ===== verification/Lease.thy ===== *)
theory Lease
  imports Outgoing Response_Head
begin

text \<open>
  Connections and leases of \<open>crates/requests/src/transport/mod.rs\<close>: deadlines, the guard of an
  exchange, the driver of a connection and the lease that gives the connection back to the pool or
  shuts it down. A connection is its sender and its driver; tokio's tasks and the sockets are
  arguments. The effects on them are a log. The pool, the harness, the counter of identities and the
  log are the \<open>world\<close> that the operations carry; a panic is \<open>None\<close>.
\<close>

section \<open>Deadlines\<close>

datatype DeadlineSource = DeadlineRead | DeadlineTotal

definition select_deadline_source :: "instant option \<Rightarrow> instant option \<Rightarrow> DeadlineSource option" where
  "select_deadline_source read_deadline total_deadline =
     (case (read_deadline, total_deadline) of
        (Some r, Some t) \<Rightarrow> Some (if r \<le> t then DeadlineRead else DeadlineTotal)
      | (Some _, None) \<Rightarrow> Some DeadlineRead
      | (None, Some _) \<Rightarrow> Some DeadlineTotal
      | (None, None) \<Rightarrow> None)"

definition deadline_for :: "DeadlineSource option \<Rightarrow> instant option \<Rightarrow> instant option \<Rightarrow> instant option" where
  "deadline_for source read_deadline total_deadline =
     (case source of Some DeadlineRead \<Rightarrow> read_deadline | Some DeadlineTotal \<Rightarrow> total_deadline | None \<Rightarrow> None)"

section \<open>The driver of a connection\<close>

text \<open>A tokio task's own error, and the answers of \<open>TcpStream::peek\<close> for one byte.\<close>

record join_error =
  je_display :: rstr
  je_is_cancelled :: bool

datatype peek_answer = Peeked nat | WouldBlock | Interrupted | PeekFailed

type_synonym task_result = "join_error + (Error + unit)"

record ('h, 't, 's) network_ops =
  no_sender_is_closed :: "'h \<Rightarrow> bool"
  no_task_is_finished :: "'t \<Rightarrow> bool"
  no_poll_task :: "'t \<Rightarrow> task_result Poll \<times> 't"
  no_await_aborted :: "'t \<Rightarrow> task_result"
  no_peek :: "'s \<Rightarrow> peek_answer"

datatype ('t, 's) effect = SocketShutdown 's | TaskAborted 't

text \<open>The head observation is shared with the stream; the driver keeps its state.\<close>

record ('t, 's) ConnectionDriver =
  cd_task :: "'t option"
  cd_shutdown :: "'s option"
  cd_response_head :: "ResponseHeadState option"

definition driver_with_shutdown :: "'s option \<Rightarrow> ('t, 's) ConnectionDriver" where
  "driver_with_shutdown shutdown = \<lparr>cd_task = None, cd_shutdown = shutdown, cd_response_head = None\<rparr>"

definition driver_start :: "'t \<Rightarrow> ('t, 's) ConnectionDriver \<Rightarrow> ('t, 's) ConnectionDriver" where
  "driver_start task self = self\<lparr>cd_task := Some task\<rparr>"

definition observe_response_head :: "ResponseHeadState \<Rightarrow> ('t, 's) ConnectionDriver \<Rightarrow> ('t, 's) ConnectionDriver" where
  "observe_response_head observation self = self\<lparr>cd_response_head := Some observation\<rparr>"

definition begin_response_head :: "rstr list option \<Rightarrow> ('t, 's) ConnectionDriver \<Rightarrow> ('t, 's) ConnectionDriver" where
  "begin_response_head names self = self\<lparr>cd_response_head := map_option (head_begin names) (cd_response_head self)\<rparr>"

definition driver_conflicting_content_length :: "('t, 's) ConnectionDriver \<Rightarrow> rstr option" where
  "driver_conflicting_content_length self =
     Option.bind (cd_response_head self) rh_conflicting"

definition take_raw_response_headers ::
  "('t, 's) ConnectionDriver \<Rightarrow> (rstr \<times> bytes) list \<times> ('t, 's) ConnectionDriver" where
  "take_raw_response_headers self =
     (case cd_response_head self of
        None \<Rightarrow> ([], self)
      | Some st \<Rightarrow> let (headers, st) = take_raw_headers st in (headers, self\<lparr>cd_response_head := Some st\<rparr>))"

definition driver_is_reusable :: "('h, 't, 's) network_ops \<Rightarrow> ('t, 's) ConnectionDriver \<Rightarrow> bool" where
  "driver_is_reusable ops self = (case cd_task self of None \<Rightarrow> False | Some task \<Rightarrow> \<not> no_task_is_finished ops task)"

definition driver_peer_is_open :: "('h, 't, 's) network_ops \<Rightarrow> ('t, 's) ConnectionDriver \<Rightarrow> bool" where
  "driver_peer_is_open ops self =
     (case cd_shutdown self of
        None \<Rightarrow> False
      | Some stream \<Rightarrow>
          (case no_peek ops stream of
             Peeked n \<Rightarrow> n \<noteq> 0
           | WouldBlock \<Rightarrow> True
           | Interrupted \<Rightarrow> True
           | PeekFailed \<Rightarrow> False))"

definition driver_finish :: "task_result \<Rightarrow> ('t, 's) ConnectionDriver \<Rightarrow> (Error + unit) \<times> ('t, 's) ConnectionDriver" where
  "driver_finish result self =
     (case result of Inr r \<Rightarrow> r | Inl e \<Rightarrow> Inl (connection_error (je_display e)),
      self\<lparr>cd_task := None, cd_shutdown := None\<rparr>)"

definition shutdown_socket_once :: "('t, 's) ConnectionDriver \<Rightarrow> ('t, 's) effect list \<times> ('t, 's) ConnectionDriver" where
  "shutdown_socket_once self =
     (case cd_shutdown self of
        Some stream \<Rightarrow> ([SocketShutdown stream], self\<lparr>cd_shutdown := None\<rparr>)
      | None \<Rightarrow> ([], self))"

definition take_and_abort_task_once ::
  "('t, 's) ConnectionDriver \<Rightarrow> 't option \<times> ('t, 's) effect list \<times> ('t, 's) ConnectionDriver" where
  "take_and_abort_task_once self =
     (case cd_task self of
        Some task \<Rightarrow> (Some task, [TaskAborted task], self\<lparr>cd_task := None\<rparr>)
      | None \<Rightarrow> (None, [], self))"

definition driver_abort_and_wait ::
  "('h, 't, 's) network_ops \<Rightarrow> ('t, 's) ConnectionDriver \<Rightarrow>
   (Error + unit) \<times> ('t, 's) effect list \<times> ('t, 's) ConnectionDriver" where
  "driver_abort_and_wait ops self =
     (let (closed, self) = shutdown_socket_once self;
          (task, aborted, self) = take_and_abort_task_once self;
          result = (case task of
              None \<Rightarrow> Inr ()
            | Some task \<Rightarrow>
                (case no_await_aborted ops task of
                   Inr r \<Rightarrow> r
                 | Inl e \<Rightarrow> if je_is_cancelled e then Inr () else Inl (connection_error (je_display e)))) in
      (result, closed @ aborted, self))"

text \<open>\<open>shutdown_now\<close> is also what dropping a driver does.\<close>

definition shutdown_now :: "('t, 's) ConnectionDriver \<Rightarrow> ('t, 's) effect list \<times> ('t, 's) ConnectionDriver" where
  "shutdown_now self =
     (let (closed, self) = shutdown_socket_once self;
          (_, aborted, self) = take_and_abort_task_once self in
      (closed @ aborted, self))"

record ('h, 't, 's) network =
  nw_sender :: 'h
  nw_driver :: "('t, 's) ConnectionDriver"

definition network_view :: "('h, 't, 's) network_ops \<Rightarrow> ('h, 't, 's) network conn_view" where
  "network_view ops =
     \<lparr>cv_sender_is_closed = (\<lambda>c. no_sender_is_closed ops (nw_sender c)),
      cv_driver_is_reusable = (\<lambda>c. driver_is_reusable ops (nw_driver c)),
      cv_driver_peer_is_open = (\<lambda>c. driver_peer_is_open ops (nw_driver c))\<rparr>"

section \<open>The guard of an exchange\<close>

datatype 'w ResponseRemainderGate = Uninitialized | Waiting 'w | Completed

record 'w ActiveExchangeGuard =
  ag_session_runtime :: bool
  ag_connection :: "u64 option"
  ag_lease :: "u64 option"
  ag_correlation :: u64
  ag_released :: bool
  ag_gate :: "'w ResponseRemainderGate"

definition guard_new :: "bool \<Rightarrow> 'c ConnectionLease \<Rightarrow> process \<Rightarrow> 'w ActiveExchangeGuard \<times> process" where
  "guard_new session_runtime lease p =
     (let (correlation, p) = (if session_runtime then next_process_identity p else (0, p)) in
      (\<lparr>ag_session_runtime = session_runtime, ag_connection = session_connection_identity lease,
        ag_lease = cl_session_lease_identity lease, ag_correlation = correlation, ag_released = False,
        ag_gate = Uninitialized\<rparr>, p))"

definition guard_release ::
  "bool \<Rightarrow> 'w ActiveExchangeGuard \<Rightarrow> SessionRuntimeHarness \<Rightarrow> 'w ActiveExchangeGuard \<times> SessionRuntimeHarness" where
  "guard_release reusable self h =
     (if ag_released self then (self, h)
      else
        (self\<lparr>ag_released := True\<rparr>,
         if ag_session_runtime self then
           let (cp, h) = checkpoint h (if reusable then PoolReleaseClean else PoolReleaseDirty)
                 (ag_connection self) (ag_lease self) (ag_correlation self) in
           observe h cp
         else h))"

definition guard_poll_response_remainder ::
  "'w hooks \<Rightarrow> 'w ActiveExchangeGuard \<Rightarrow> SessionRuntimeHarness \<Rightarrow>
   unit Poll \<times> 'w ActiveExchangeGuard \<times> SessionRuntimeHarness" where
  "guard_poll_response_remainder hk self h =
     (if \<not> ag_session_runtime self then (Ready (), self, h)
      else
        let (gate, h) = (case ag_gate self of
              Uninitialized \<Rightarrow>
                (let (cp, h) = checkpoint h ResponseRemainder (ag_connection self) (ag_lease self) (ag_correlation self);
                     (w, h) = wait_future hk cp h in (Waiting w, h))
            | gate \<Rightarrow> (gate, h)) in
        case gate of
          Waiting w \<Rightarrow>
            (case hk_poll hk w of
               (Ready _, _) \<Rightarrow> (Ready (), self\<lparr>ag_gate := Completed\<rparr>, h)
             | (Pending, w) \<Rightarrow> (Pending, self\<lparr>ag_gate := Waiting w\<rparr>, h))
        | _ \<Rightarrow> (Ready (), self\<lparr>ag_gate := gate\<rparr>, h))"

section \<open>The lease\<close>

record ('h, 't, 's) world =
  w_pool :: "('h, 't, 's) network Pool"
  w_harness :: SessionRuntimeHarness
  w_process :: process
  w_effects :: "('t, 's) effect list"

record ('h, 't, 's, 'w) TransportLease =
  tl_lease :: "('h, 't, 's) network ConnectionLease option"
  tl_active_exchange :: "'w ActiveExchangeGuard"

definition transport_lease_new ::
  "('h, 't, 's) network ConnectionLease \<Rightarrow> bool \<Rightarrow> ('h, 't, 's) world \<Rightarrow>
   ('h, 't, 's, 'w) TransportLease \<times> ('h, 't, 's) world" where
  "transport_lease_new lease session_runtime w =
     (let (active_exchange, p) = guard_new session_runtime lease (w_process w) in
      (\<lparr>tl_lease = Some lease, tl_active_exchange = active_exchange\<rparr>, w\<lparr>w_process := p\<rparr>))"

definition lease_poll_response_remainder ::
  "'w hooks \<Rightarrow> ('h, 't, 's, 'w) TransportLease \<Rightarrow> ('h, 't, 's) world \<Rightarrow>
   unit Poll \<times> ('h, 't, 's, 'w) TransportLease \<times> ('h, 't, 's) world" where
  "lease_poll_response_remainder hk self w =
     (let (q, g, h) = guard_poll_response_remainder hk (tl_active_exchange self) (w_harness w) in
      (q, self\<lparr>tl_active_exchange := g\<rparr>, w\<lparr>w_harness := h\<rparr>))"

text \<open>
  \<open>driver_mut\<close>: the driver in the lease, and the lease with another driver; no lease or no
  connection is a panic.
\<close>

definition connection_driver :: "('h, 't, 's) network ConnectionLease \<Rightarrow> ('t, 's) ConnectionDriver option" where
  "connection_driver lease = map_option (\<lambda>c. nw_driver (ic_inner c)) (cl_connection lease)"

definition set_driver ::
  "('t, 's) ConnectionDriver \<Rightarrow> ('h, 't, 's) network ConnectionLease \<Rightarrow> ('h, 't, 's) network ConnectionLease" where
  "set_driver d lease =
     lease\<lparr>cl_connection := map_option (\<lambda>c. c\<lparr>ic_inner := (ic_inner c)\<lparr>nw_driver := d\<rparr>\<rparr>) (cl_connection lease)\<rparr>"

definition driver_mut :: "('h, 't, 's, 'w) TransportLease \<Rightarrow> ('t, 's) ConnectionDriver option" where
  "driver_mut self = Option.bind (tl_lease self) connection_driver"

definition put_driver ::
  "('t, 's) ConnectionDriver \<Rightarrow> ('h, 't, 's, 'w) TransportLease \<Rightarrow> ('h, 't, 's, 'w) TransportLease" where
  "put_driver d self = self\<lparr>tl_lease := map_option (set_driver d) (tl_lease self)\<rparr>"

definition lease_poll_result ::
  "('h, 't, 's) network_ops \<Rightarrow> ('h, 't, 's, 'w) TransportLease \<Rightarrow>
   ((Error + unit) Poll \<times> ('h, 't, 's, 'w) TransportLease) option" where
  "lease_poll_result ops self =
     Option.bind (driver_mut self) (\<lambda>driver.
       case cd_task driver of
         None \<Rightarrow> Some (Pending, self)
       | Some task \<Rightarrow>
           (case no_poll_task ops task of
              (Ready result, _) \<Rightarrow>
                let (r, driver) = driver_finish result driver in Some (Ready r, put_driver driver self)
            | (Pending, task) \<Rightarrow> Some (Pending, put_driver (driver\<lparr>cd_task := Some task\<rparr>) self)))"

text \<open>Dropping a lease drops its connection, hence its driver.\<close>

definition drop_effects :: "('h, 't, 's) network ConnectionLease option \<Rightarrow> ('t, 's) effect list" where
  "drop_effects lease =
     (case Option.bind lease connection_driver of None \<Rightarrow> [] | Some d \<Rightarrow> fst (shutdown_now d))"

text \<open>
  \<open>release\<close> asks whether the connection is live and its peer open (\<open>ops\<close>), and the pool asks again
  whether it is live (\<open>ops'\<close>).
\<close>

definition give_back ::
  "('h, 't, 's) network_ops \<Rightarrow> ('h, 't, 's) network ConnectionLease \<Rightarrow> ('h, 't, 's) world \<Rightarrow> ('h, 't, 's) world" where
  "give_back ops' lease w =
     (let (rejected, pool) = release (network_view ops') (w_pool w) lease in
      w\<lparr>w_pool := pool, w_effects := w_effects w @ drop_effects rejected\<rparr>)"

definition lease_release ::
  "('h, 't, 's) network_ops \<Rightarrow> ('h, 't, 's) network_ops \<Rightarrow> bool \<Rightarrow> DirtyLeaseCause \<Rightarrow>
   ('h, 't, 's, 'w) TransportLease \<Rightarrow> ('h, 't, 's) world \<Rightarrow> ('h, 't, 's, 'w) TransportLease \<times> ('h, 't, 's) world" where
  "lease_release ops ops' reusable cause self w =
     (case tl_lease self of
        None \<Rightarrow> (self, w)
      | Some lease \<Rightarrow>
          let reusable = (reusable \<and> lease_is_live (network_view ops) lease \<and> lease_peer_is_open (network_view ops) lease);
              (g, h) = guard_release reusable (tl_active_exchange self) (w_harness w);
              lease = (if reusable then lease_complete lease LeaseCleanEof else complete_dirty lease cause) in
          (self\<lparr>tl_lease := None, tl_active_exchange := g\<rparr>, give_back ops' lease (w\<lparr>w_harness := h\<rparr>)))"

text \<open>\<open>Drop\<close>.\<close>

definition lease_drop ::
  "('h, 't, 's) network_ops \<Rightarrow> ('h, 't, 's, 'w) TransportLease \<Rightarrow> ('h, 't, 's) world \<Rightarrow>
   (('h, 't, 's, 'w) TransportLease \<times> ('h, 't, 's) world) option" where
  "lease_drop ops' self w =
     (case tl_lease self of
        None \<Rightarrow> Some (self, w)
      | Some lease \<Rightarrow>
          map_option (\<lambda>driver.
            let (effects, driver) = shutdown_now driver;
                (g, h) = guard_release False (tl_active_exchange self) (w_harness w);
                lease = complete_dirty (set_driver driver lease) Cancellation in
            (self\<lparr>tl_lease := None, tl_active_exchange := g\<rparr>,
             give_back ops' lease (w\<lparr>w_harness := h, w_effects := w_effects w @ effects\<rparr>)))
          (connection_driver lease))"

text \<open>
  The operations that consume the lease: they end with its \<open>Drop\<close>.
\<close>

definition lease_abort ::
  "DirtyLeaseCause \<Rightarrow> ('h, 't, 's) network_ops \<Rightarrow> ('h, 't, 's) network_ops \<Rightarrow> ('h, 't, 's, 'w) TransportLease \<Rightarrow>
   ('h, 't, 's) world \<Rightarrow> ((Error + unit) \<times> ('h, 't, 's, 'w) TransportLease \<times> ('h, 't, 's) world) option" where
  "lease_abort cause ops ops' self w =
     Option.bind (driver_mut self) (\<lambda>driver.
       let (result, effects, driver) = driver_abort_and_wait ops driver;
           (self, w) = lease_release ops ops' False cause (put_driver driver self)
             (w\<lparr>w_effects := w_effects w @ effects\<rparr>) in
       map_option (Pair result) (lease_drop ops' self w))"

definition lease_abort_and_wait where
  "lease_abort_and_wait = lease_abort Cancellation"

definition abort_upload_and_wait where
  "abort_upload_and_wait = lease_abort Upload"

definition lease_finish_now ::
  "bool \<Rightarrow> ('h, 't, 's) network_ops \<Rightarrow> ('h, 't, 's) network_ops \<Rightarrow> ('h, 't, 's, 'w) TransportLease \<Rightarrow>
   ('h, 't, 's) world \<Rightarrow> (('h, 't, 's, 'w) TransportLease \<times> ('h, 't, 's) world) option" where
  "lease_finish_now reusable ops ops' self w =
     Option.bind
       (if reusable then Some (self, w)
        else map_option (\<lambda>driver.
               let (effects, driver) = shutdown_now driver in
               (put_driver driver self, w\<lparr>w_effects := w_effects w @ effects\<rparr>)) (driver_mut self))
       (\<lambda>(self, w).
          let (self, w) = lease_release ops ops' reusable Cancellation self w in
          lease_drop ops' self w)"

definition finish_incomplete_body_now ::
  "('h, 't, 's) network_ops \<Rightarrow> ('h, 't, 's) network_ops \<Rightarrow> ('h, 't, 's, 'w) TransportLease \<Rightarrow>
   ('h, 't, 's) world \<Rightarrow> (('h, 't, 's, 'w) TransportLease \<times> ('h, 't, 's) world) option" where
  "finish_incomplete_body_now ops ops' self w =
     Option.bind (driver_mut self) (\<lambda>driver.
       let (effects, driver) = shutdown_now driver;
           (self, w) = lease_release ops ops' False IncompleteBody (put_driver driver self)
             (w\<lparr>w_effects := w_effects w @ effects\<rparr>) in
       lease_drop ops' self w)"

section \<open>Lemmas\<close>

lemma shutdown_now_effects:
  "fst (shutdown_now d) =
     (case cd_shutdown d of Some s \<Rightarrow> [SocketShutdown s] | None \<Rightarrow> []) @ (case cd_task d of Some t \<Rightarrow> [TaskAborted t] | None \<Rightarrow> [])"
  "cd_shutdown (snd (shutdown_now d)) = None" "cd_task (snd (shutdown_now d)) = None"
  by (auto simp: shutdown_now_def shutdown_socket_once_def take_and_abort_task_once_def split: option.splits)

lemma shutdown_now_again: "fst (shutdown_now (snd (shutdown_now d))) = []"
  by (subst shutdown_now_effects(1)) (simp add: shutdown_now_effects(2,3))

lemma driver_abort_effects: "snd (driver_abort_and_wait ops d) = shutdown_now d"
  by (auto simp: driver_abort_and_wait_def shutdown_now_def shutdown_socket_once_def take_and_abort_task_once_def
      split: option.splits)

lemma release_taken_iff:
  assumes "pool_ok p"
  shows "fst (release cv p l) = None \<longleftrightarrow> cl_terminal l = LeaseCleanEof \<and> cl_dirty_identity l = None \<and>
    cl_generation l = generation_number p \<and> lease_is_live cv l \<and> length (idle_of p (cl_key l)) < max_idle_per_key p"
  using pool_ok_lookup [OF assms, of "cl_key l"]
  by (auto simp: release_def Let_def idle_of_def lease_is_live_def split: option.splits)

text \<open>Giving a lease back: its connection is idle again, or dropped.\<close>

lemma give_back_spec:
  fixes ops' :: "('h, 't, 's) network_ops"
  assumes "pool_ok (w_pool w)" and "cl_connection l = Some c"
  defines "taken \<equiv> fst (release (network_view ops') (w_pool w) l) = None"
  shows "pool_ok (w_pool (give_back ops' l w))"
    and "idle_of (w_pool (give_back ops' l w)) = (if taken
      then (idle_of (w_pool w))(cl_key l := idle_of (w_pool w) (cl_key l) @ [c]) else idle_of (w_pool w))"
    and "w_effects (give_back ops' l w) = w_effects w @ (if taken then [] else fst (shutdown_now (nw_driver (ic_inner c))))"
    and "w_harness (give_back ops' l w) = w_harness w"
proof -
  obtain rej p where r: "release (network_view ops') (w_pool w) l = (rej, p)" by fastforce
  have w: "give_back ops' l w = w\<lparr>w_pool := p, w_effects := w_effects w @ drop_effects rej\<rparr>"
    by (simp add: give_back_def r)
  have "pool_ok p \<and> idle_of p = (if taken then (idle_of (w_pool w))(cl_key l := idle_of (w_pool w) (cl_key l) @ [c])
      else idle_of (w_pool w)) \<and> drop_effects rej = (if taken then [] else fst (shutdown_now (nw_driver (ic_inner c))))"
  proof (cases rej)
    case None
    then show ?thesis using release_takenD [OF assms(1), of "network_view ops'" l p] r assms(2)
      by (auto simp: taken_def drop_effects_def)
  next
    case (Some l')
    then show ?thesis using release_refusedD [OF assms(1), of "network_view ops'" l l' p] r assms(2)
      by (simp add: taken_def drop_effects_def connection_driver_def)
  qed
  then show "pool_ok (w_pool (give_back ops' l w))"
    and "idle_of (w_pool (give_back ops' l w)) = (if taken
      then (idle_of (w_pool w))(cl_key l := idle_of (w_pool w) (cl_key l) @ [c]) else idle_of (w_pool w))"
    and "w_effects (give_back ops' l w) = w_effects w @ (if taken then [] else fst (shutdown_now (nw_driver (ic_inner c))))"
    and "w_harness (give_back ops' l w) = w_harness w"
    by (simp_all add: w)
qed

lemma give_back_dirty:
  assumes "pool_ok (w_pool w)" and "cl_connection l = Some c"
  shows "pool_ok (w_pool (give_back ops' (complete_dirty l cause) w))"
    and "cl_terminal l \<noteq> LeaseCleanEof \<Longrightarrow> idle_of (w_pool (give_back ops' (complete_dirty l cause) w)) = idle_of (w_pool w)"
    and "cl_terminal l \<noteq> LeaseCleanEof \<Longrightarrow> w_effects (give_back ops' (complete_dirty l cause) w) = w_effects w @ fst (shutdown_now (nw_driver (ic_inner c)))"
    and "w_harness (give_back ops' (complete_dirty l cause) w) = w_harness w"
  using give_back_spec [OF assms(1), of "complete_dirty l cause" c ops'] assms(2)
    release_taken_iff [OF assms(1), of "network_view ops'" "complete_dirty l cause"]
  by (auto simp: complete_dirty_def)

lemma guard_release_shown:
  "\<not> ag_released g \<Longrightarrow> map cp_phase (shown (snd (guard_release reusable g h))) = map cp_phase (shown h) @
     (if ag_session_runtime g then [if reusable then PoolReleaseClean else PoolReleaseDirty] else [])"
  by (simp add: guard_release_def checkpoint_def observe_def)

section \<open>Properties: the end of a lease\<close>

text \<open>The ways a lease ends; each consumes it.\<close>

datatype ending = EndFinish bool | EndIncomplete | EndDrop | EndAbort | EndUpload

definition end_lease ::
  "('h, 't, 's) network_ops \<Rightarrow> ('h, 't, 's) network_ops \<Rightarrow> ending \<Rightarrow> ('h, 't, 's, 'w) TransportLease \<Rightarrow>
   ('h, 't, 's) world \<Rightarrow> (('h, 't, 's, 'w) TransportLease \<times> ('h, 't, 's) world) option" where
  "end_lease ops ops' e self w =
     (case e of
        EndFinish reusable \<Rightarrow> lease_finish_now reusable ops ops' self w
      | EndIncomplete \<Rightarrow> finish_incomplete_body_now ops ops' self w
      | EndDrop \<Rightarrow> lease_drop ops' self w
      | EndAbort \<Rightarrow> map_option snd (lease_abort_and_wait ops ops' self w)
      | EndUpload \<Rightarrow> map_option snd (abort_upload_and_wait ops ops' self w))"

text \<open>A lease in use: it holds a connection and no end was recorded.\<close>

definition in_use ::
  "('h, 't, 's) network ConnectionLease \<Rightarrow> ('h, 't, 's) network IdleConnection \<Rightarrow> ('h, 't, 's, 'w) TransportLease \<Rightarrow> bool" where
  "in_use l c self \<longleftrightarrow> tl_lease self = Some l \<and> cl_connection l = Some c \<and> cl_terminal l = Active \<and>
     cl_dirty_identity l = None \<and> \<not> ag_released (tl_active_exchange self)"

text \<open>What a world is after the end: the connection kept, or shut down.\<close>

definition ended ::
  "bool \<Rightarrow> bool \<Rightarrow> ('h, 't, 's) network ConnectionLease \<Rightarrow> ('h, 't, 's) network IdleConnection \<Rightarrow>
   'w ActiveExchangeGuard \<Rightarrow> ('h, 't, 's) world \<Rightarrow> ('h, 't, 's) world \<Rightarrow> bool" where
  "ended clean kept l c g w w' \<longleftrightarrow>
     pool_ok (w_pool w') \<and>
     idle_of (w_pool w') = (if kept then (idle_of (w_pool w))(cl_key l := idle_of (w_pool w) (cl_key l) @ [c])
       else idle_of (w_pool w)) \<and>
     w_effects w' = w_effects w @ (if kept then [] else fst (shutdown_now (nw_driver (ic_inner c)))) \<and>
     map cp_phase (shown (w_harness w')) = map cp_phase (shown (w_harness w)) @
       (if ag_session_runtime g then [if clean then PoolReleaseClean else PoolReleaseDirty] else [])"

lemma lease_drop_None: "tl_lease self = None \<Longrightarrow> lease_drop ops' self w = Some (self, w)"
  by (simp add: lease_drop_def)

text \<open>Every end but a reusable one: the driver is shut down first, the lease is given back dirty.\<close>

lemma dirty_end:
  assumes "pool_ok (w_pool w)" and "in_use l c self"
  defines "d \<equiv> nw_driver (ic_inner c)"
  shows "ended False False l c (tl_active_exchange self) w
    (give_back ops' (complete_dirty (set_driver (snd (shutdown_now d)) l) cause)
       (w\<lparr>w_harness := snd (guard_release False (tl_active_exchange self) (w_harness w)),
          w_effects := w_effects w @ fst (shutdown_now d)\<rparr>))"
proof -
  let ?l = "set_driver (snd (shutdown_now d)) l"
  let ?c = "c\<lparr>ic_inner := (ic_inner c)\<lparr>nw_driver := snd (shutdown_now d)\<rparr>\<rparr>"
  have l: "cl_connection ?l = Some ?c" "cl_terminal ?l \<noteq> LeaseCleanEof"
    using assms(2) by (simp_all add: in_use_def set_driver_def)
  let ?w = "w\<lparr>w_harness := snd (guard_release False (tl_active_exchange self) (w_harness w)),
    w_effects := w_effects w @ fst (shutdown_now d)\<rparr>"
  have "pool_ok (w_pool ?w)" using assms(1) by simp
  from give_back_dirty [OF this l(1), of ops' cause] l(2) show ?thesis using assms(2)
    by (simp add: ended_def in_use_def guard_release_shown d_def shutdown_now_again)
qed

lemma world_updates: "w\<lparr>w_effects := e, w_harness := h\<rparr> = w\<lparr>w_harness := h, w_effects := e\<rparr>"
  by simp

lemma dirty_release:
  assumes "in_use l c self"
  defines "d \<equiv> nw_driver (ic_inner c)"
  shows "driver_mut self = Some d" "connection_driver l = Some d"
    and "lease_release ops ops' False cause (put_driver (snd (shutdown_now d)) self) (w\<lparr>w_effects := w_effects w @ fst (shutdown_now d)\<rparr>) =
      (self\<lparr>tl_lease := None, tl_active_exchange := fst (guard_release False (tl_active_exchange self) (w_harness w))\<rparr>,
       give_back ops' (complete_dirty (set_driver (snd (shutdown_now d)) l) cause)
       (w\<lparr>w_harness := snd (guard_release False (tl_active_exchange self) (w_harness w)),
          w_effects := w_effects w @ fst (shutdown_now d)\<rparr>))"
  using assms(1)
  by (simp_all add: in_use_def driver_mut_def connection_driver_def d_def lease_release_def put_driver_def case_prod_beta Let_def world_updates)

lemma clean_release:
  fixes ops ops' :: "('h, 't, 's) network_ops"
  assumes "pool_ok (w_pool w)" and "in_use l c self" 
  defines "clean \<equiv> lease_is_live (network_view ops) l \<and> lease_peer_is_open (network_view ops) l"
  defines "kept \<equiv> clean \<and> cl_generation l = generation_number (w_pool w) \<and> lease_is_live (network_view ops') l \<and>
    length (idle_of (w_pool w) (cl_key l)) < max_idle_per_key (w_pool w)"
  obtains self' w' where "lease_release ops ops' True Cancellation self w = (self', w')" "tl_lease self' = None"
    "ended clean kept l c (tl_active_exchange self) w w'"
proof -
  let ?h = "snd (guard_release clean (tl_active_exchange self) (w_harness w))"
  let ?l = "if clean then lease_complete l LeaseCleanEof else complete_dirty l Cancellation"
  have l: "cl_connection ?l = Some c" "cl_key ?l = cl_key l"
    using assms(2) by (auto simp: in_use_def)
  have "pool_ok (w_pool (w\<lparr>w_harness := ?h\<rparr>))" using assms(1) by simp
  note g = give_back_spec [OF this l(1), of ops'] and t = release_taken_iff [OF this, of "network_view ops'" ?l]
  have taken: "fst (release (network_view ops') (w_pool (w\<lparr>w_harness := ?h\<rparr>)) ?l) = None \<longleftrightarrow> kept"
    unfolding t using assms(2) by (auto simp: kept_def in_use_def lease_complete_def complete_dirty_def lease_is_live_def Let_def)
  have "ended clean kept l c (tl_active_exchange self) w (give_back ops' ?l (w\<lparr>w_harness := ?h\<rparr>))"
    using assms(2) unfolding ended_def g(1) g(2) g(3) g(4) taken l(2) by (simp add: in_use_def guard_release_shown g(1))
  then show thesis using assms(2)
    by (intro that [of "self\<lparr>tl_lease := None, tl_active_exchange := fst (guard_release clean (tl_active_exchange self) (w_harness w))\<rparr>"
          "give_back ops' ?l (w\<lparr>w_harness := ?h\<rparr>)"])
      (simp_all add: lease_release_def in_use_def clean_def case_prod_beta Let_def)
qed

lemma end_lease_ended:
  assumes "pool_ok (w_pool w)" and "in_use l c self"
  shows "\<exists>self' w'. end_lease ops ops' e self w = Some (self', w') \<and> tl_lease self' = None \<and>
    ended (e = EndFinish True \<and> lease_is_live (network_view ops) l \<and> lease_peer_is_open (network_view ops) l)
      (e = EndFinish True \<and> lease_is_live (network_view ops) l \<and> lease_peer_is_open (network_view ops) l \<and>
       cl_generation l = generation_number (w_pool w) \<and> lease_is_live (network_view ops') l \<and>
       length (idle_of (w_pool w) (cl_key l)) < max_idle_per_key (w_pool w))
      l c (tl_active_exchange self) w w'"
proof (cases "e = EndFinish True")
  case True
  obtain self' w' where r: "lease_release ops ops' True Cancellation self w = (self', w')" "tl_lease self' = None"
    "ended (lease_is_live (network_view ops) l \<and> lease_peer_is_open (network_view ops) l)
      ((lease_is_live (network_view ops) l \<and> lease_peer_is_open (network_view ops) l) \<and>
       cl_generation l = generation_number (w_pool w) \<and> lease_is_live (network_view ops') l \<and>
       length (idle_of (w_pool w) (cl_key l)) < max_idle_per_key (w_pool w)) l c (tl_active_exchange self) w w'"
    using clean_release [OF assms] by metis
  then show ?thesis using True by (simp add: end_lease_def lease_finish_now_def lease_drop_None)
next
  case False
  note r = dirty_release [OF assms(2)] and d = dirty_end [OF assms]
  have s: "snd (snd (driver_abort_and_wait ops (nw_driver (ic_inner c)))) = snd (shutdown_now (nw_driver (ic_inner c)))"
    "fst (snd (driver_abort_and_wait ops (nw_driver (ic_inner c)))) = fst (shutdown_now (nw_driver (ic_inner c)))"
    by (simp_all add: driver_abort_effects)
  show ?thesis
  proof (cases e)
    case (EndFinish reusable)
    then show ?thesis using False r d
      by (simp add: end_lease_def lease_finish_now_def case_prod_beta Let_def lease_drop_None)
  next
    case EndIncomplete
    then show ?thesis using r d
      by (simp add: end_lease_def finish_incomplete_body_now_def case_prod_beta Let_def lease_drop_None)
  next
    case EndDrop
    then show ?thesis using r(2) d assms(2)
      by (simp add: end_lease_def lease_drop_def in_use_def case_prod_beta Let_def)
  next
    case EndAbort
    then show ?thesis using r d s
      by (simp add: end_lease_def lease_abort_and_wait_def lease_abort_def case_prod_beta Let_def lease_drop_None)
  next
    case EndUpload
    then show ?thesis using r d s
      by (simp add: end_lease_def abort_upload_and_wait_def lease_abort_def case_prod_beta Let_def lease_drop_None)
  qed
qed

text \<open>
  C20. A lease ends exactly once, whichever way it ends: finished, finished with an incomplete body,
  dropped, or aborted with or without a pending upload. The connection goes back to the idle
  connections of its key if and only if it was finished as reusable, is live and its peer open, the
  pool was not cleared in between and has room; in every other case the pool keeps what it had and
  the connection's socket is shut down and its task aborted, once each. A session runtime is shown
  one release, and the drop that follows the end changes nothing.
\<close>
theorem lease_ends_once:
  assumes "pool_ok (w_pool w)" and "in_use l c self"
    and "kept \<longleftrightarrow> e = EndFinish True \<and> lease_is_live (network_view ops) l \<and> lease_peer_is_open (network_view ops) l \<and>
       cl_generation l = generation_number (w_pool w) \<and> lease_is_live (network_view ops') l \<and>
       length (idle_of (w_pool w) (cl_key l)) < max_idle_per_key (w_pool w)"
  shows "\<exists>self' w' released. end_lease ops ops' e self w = Some (self', w') \<and>
    idle_of (w_pool w') = (if kept then (idle_of (w_pool w))(cl_key l := idle_of (w_pool w) (cl_key l) @ [c])
      else idle_of (w_pool w)) \<and>
    w_effects w' = w_effects w @ (if kept then [] else
      (case cd_shutdown (nw_driver (ic_inner c)) of Some s \<Rightarrow> [SocketShutdown s] | None \<Rightarrow> []) @
      (case cd_task (nw_driver (ic_inner c)) of Some t \<Rightarrow> [TaskAborted t] | None \<Rightarrow> [])) \<and>
    map cp_phase (shown (w_harness w')) = map cp_phase (shown (w_harness w)) @
      (if ag_session_runtime (tl_active_exchange self) then [released] else []) \<and>
    (released = PoolReleaseClean \<or> released = PoolReleaseDirty) \<and>
    end_lease ops ops' EndDrop self' w' = Some (self', w')"
proof -
  obtain self' w' where e: "end_lease ops ops' e self w = Some (self', w')" "tl_lease self' = None"
    "ended (e = EndFinish True \<and> lease_is_live (network_view ops) l \<and> lease_peer_is_open (network_view ops) l)
      kept l c (tl_active_exchange self) w w'"
    using end_lease_ended [OF assms(1,2), of ops ops' e] unfolding assms(3) by blast
  then show ?thesis
    by (intro exI [of _ self'] exI [of _ w'] exI [of _ "if e = EndFinish True \<and> lease_is_live (network_view ops) l \<and>
        lease_peer_is_open (network_view ops) l then PoolReleaseClean else PoolReleaseDirty"])
      (simp add: ended_def shutdown_now_effects end_lease_def lease_drop_None)
qed

section \<open>A lease at work\<close>

definition calm_ops :: "(unit, nat, nat) network_ops" where
  "calm_ops = \<lparr>no_sender_is_closed = (\<lambda>_. False), no_task_is_finished = (\<lambda>_. False),
     no_poll_task = (\<lambda>t. (Pending, t)), no_await_aborted = (\<lambda>_. Inl \<lparr>je_display = [], je_is_cancelled = True\<rparr>),
     no_peek = (\<lambda>_. WouldBlock)\<rparr>"

definition sample_network :: "(unit, nat, nat) network IdleConnection" where
  "sample_network = \<lparr>ic_inner = \<lparr>nw_sender = (), nw_driver =
     \<lparr>cd_task = Some 1, cd_shutdown = Some 2, cd_response_head = None\<rparr>\<rparr>, ic_session_identity = None\<rparr>"

definition sample_world :: "(unit, nat, nat) world" where
  "sample_world = \<lparr>w_pool = pool_new 1 None, w_harness = sample_harness, w_process = sample_process, w_effects = []\<rparr>"

definition sample_lease :: "(unit, nat, nat, unit) TransportLease" where
  "sample_lease = fst (transport_lease_new (with_session_lease_identity sample_key 0 sample_network None) True sample_world)"

lemma sample_in_use:
  "in_use (with_session_lease_identity sample_key 0 sample_network None) sample_network sample_lease"
  "pool_ok (w_pool sample_world)"
  by (simp_all add: in_use_def sample_lease_def transport_lease_new_def guard_new_def with_session_lease_identity_def
      case_prod_beta sample_world_def pool_ok_def pool_new_def)

theorem lease_ends_once_witness:
  "(\<exists>self' w'. end_lease calm_ops calm_ops (EndFinish True) sample_lease sample_world = Some (self', w') \<and>
      idle_of (w_pool w') sample_key = [sample_network] \<and> w_effects w' = []) \<and>
   (\<exists>self' w'. end_lease calm_ops calm_ops EndAbort sample_lease sample_world = Some (self', w') \<and>
      idle_of (w_pool w') sample_key = [] \<and> w_effects w' = [SocketShutdown 2, TaskAborted 1])"
proof -
  let ?l = "with_session_lease_identity sample_key 0 sample_network None"
  have live: "lease_is_live (network_view calm_ops) ?l" "lease_peer_is_open (network_view calm_ops) ?l"
    "cl_generation ?l = generation_number (w_pool sample_world)" "cl_key ?l = sample_key"
    "length (idle_of (w_pool sample_world) sample_key) < max_idle_per_key (w_pool sample_world)"
    "idle_of (w_pool sample_world) sample_key = []" "w_effects sample_world = []"
    by (simp_all add: lease_is_live_def lease_peer_is_open_def conn_is_live_def conn_peer_is_open_def network_view_def
        driver_is_reusable_def driver_peer_is_open_def calm_ops_def with_session_lease_identity_def sample_network_def
        sample_world_def pool_new_def idle_of_def)
  show ?thesis
    using lease_ends_once [OF sample_in_use(2,1), of True "EndFinish True" calm_ops calm_ops]
      lease_ends_once [OF sample_in_use(2,1), of False EndAbort calm_ops calm_ops] live
    by (auto simp: sample_network_def)
qed

end
