(* ===== verification/Response_State.thy ===== *)
theory Response_State
  imports Prelude Once
begin

text \<open>
  The state machine of \<open>crates/requests/src/response.rs\<close> that decides whether a connection may
  be reused after a response, with the classification of the cached content and the waits a
  body enters. \<open>response_disposition\<close> interprets the contract \<open>once\<close>.
\<close>

section \<open>Waits\<close>

record ResponseHeadWaitEntered =
  rhw_entered :: bool

definition rhw_enter :: "ResponseHeadWaitEntered \<Rightarrow> ResponseHeadWaitEntered" where
  "rhw_enter self = self\<lparr>rhw_entered := True\<rparr>"

definition permits_post_head :: "ResponseHeadWaitEntered \<Rightarrow> bool" where
  "permits_post_head self = rhw_entered self"

record ResponseRemainderWaitEntered =
  declared :: u64
  received :: u64

definition remainder_checked :: "u64 \<Rightarrow> u64 \<Rightarrow> ResponseRemainderWaitEntered option" where
  "remainder_checked d r = (if r < d then Some \<lparr>declared = d, received = r\<rparr> else None)"

definition remainder_remaining :: "ResponseRemainderWaitEntered \<Rightarrow> u64" where
  "remainder_remaining self = declared self - received self"

section \<open>Cached content\<close>

datatype ResponseContent = Streaming | ExhaustedUncached | Cached | EmptyNone

datatype ResponseCache = FalseSentinel | CacheEmptyNone | CacheCached

definition from_python_fields :: "ResponseCache \<Rightarrow> bool \<Rightarrow> ResponseContent" where
  "from_python_fields cache content_consumed =
     (case cache of
        FalseSentinel \<Rightarrow> if content_consumed then ExhaustedUncached else Streaming
      | CacheEmptyNone \<Rightarrow> EmptyNone
      | CacheCached \<Rightarrow> Cached)"

section \<open>The disposition\<close>

datatype ResponseEvent =
    Partial | CleanEof | Close | Drop | ReadError | DecodeError | ProtocolError | Cancel
  | ActionDisconnect | ReplyDisconnect | PythonExact

datatype ResponseDisposition = Open | PartialState | Reusable | CloseDirty | PythonExactState

datatype ResponseDecision = DReusable | DCloseDirty

record ResponseDispositionState =
  state :: ResponseDisposition
  decision :: "ResponseDecision option"
  decision_count :: u8
  native_lease :: bool

definition disposition_default :: ResponseDispositionState where
  "disposition_default = \<lparr>state = Open, decision = None, decision_count = 0, native_lease = True\<rparr>"

definition decide :: "ResponseDispositionState \<Rightarrow> ResponseDecision \<Rightarrow> ResponseDispositionState" where
  "decide self d =
     self\<lparr>decision := Some d, decision_count := decision_count self + 1,
          state := (case d of DReusable \<Rightarrow> Reusable | DCloseDirty \<Rightarrow> CloseDirty)\<rparr>"

definition apply_event :: "ResponseDispositionState \<Rightarrow> ResponseEvent \<Rightarrow> ResponseDispositionState" where
  "apply_event self event =
     (if state self \<in> {Reusable, CloseDirty, PythonExactState} then self
      else
        (case event of
           PythonExact \<Rightarrow>
             if state self = Open then self\<lparr>state := PythonExactState, native_lease := False\<rparr>
             else decide self DCloseDirty
         | Partial \<Rightarrow> self\<lparr>state := PartialState\<rparr>
         | CleanEof \<Rightarrow> decide self DReusable
         | Close \<Rightarrow> decide self DCloseDirty
         | Drop \<Rightarrow> decide self DCloseDirty
         | ReadError \<Rightarrow> decide self DCloseDirty
         | DecodeError \<Rightarrow> decide self DCloseDirty
         | ProtocolError \<Rightarrow> decide self DCloseDirty
         | Cancel \<Rightarrow> decide self DCloseDirty
         | ActionDisconnect \<Rightarrow> decide self DCloseDirty
         | ReplyDisconnect \<Rightarrow> decide self DCloseDirty))"

section \<open>Lemmas\<close>

definition disposition_terminal :: "ResponseDispositionState \<Rightarrow> bool" where
  "disposition_terminal s \<longleftrightarrow> state s \<in> {Reusable, CloseDirty, PythonExactState}"

text \<open>Before a terminal state no decision has been taken.\<close>

definition disposition_inv :: "ResponseDispositionState \<Rightarrow> bool" where
  "disposition_inv s \<longleftrightarrow>
     (state s \<in> {Open, PartialState} \<longrightarrow> decision s = None \<and> decision_count s = 0 \<and> native_lease s) \<and>
     (state s = Reusable \<longrightarrow> decision s = Some DReusable \<and> decision_count s = 1 \<and> native_lease s) \<and>
     (state s = CloseDirty \<longrightarrow> decision s = Some DCloseDirty \<and> decision_count s = 1 \<and> native_lease s) \<and>
     (state s = PythonExactState \<longrightarrow> decision s = None \<and> decision_count s = 0 \<and> \<not> native_lease s)"

lemma disposition_inv_default: "disposition_inv disposition_default"
  by (simp add: disposition_inv_def disposition_default_def)

lemma disposition_inv_apply: "disposition_inv s \<Longrightarrow> disposition_inv (apply_event s e)"
  by (cases "state s"; cases e)
    (simp_all add: disposition_inv_def apply_event_def decide_def)

lemma apply_event_terminal: "disposition_terminal s \<Longrightarrow> apply_event s e = s"
  by (simp add: apply_event_def disposition_terminal_def)

interpretation response_disposition: once apply_event disposition_terminal "\<lambda>s. if decision s = None then 0 else 1"
proof
  show "disposition_terminal s \<Longrightarrow> disposition_terminal (apply_event s e) \<and>
      (if decision (apply_event s e) = None then 0 else 1 :: nat) = (if decision s = None then 0 else 1)" for s e
    by (simp add: apply_event_terminal)
  show "\<not> disposition_terminal s \<Longrightarrow> (if decision (apply_event s e) = None then 0 else 1)
      \<le> (if decision s = None then 0 else 1) + (if disposition_terminal (apply_event s e) then 1 else 0 :: nat)" for s e
    by (cases "state s"; cases e) (simp_all add: disposition_terminal_def apply_event_def decide_def)
qed

text \<open>From an open state, a run of partial reads and the event that ends them.\<close>

lemma apply_partials:
  "disposition_inv s \<Longrightarrow> \<not> disposition_terminal s \<Longrightarrow>
     foldl apply_event s (replicate n Partial) = (if n = 0 then s else s\<lparr>state := PartialState\<rparr>)"
proof (induction n arbitrary: s)
  case (Suc n)
  have "apply_event s Partial = s\<lparr>state := PartialState\<rparr>"
    using Suc.prems(2) by (simp add: apply_event_def disposition_terminal_def)
  moreover have "disposition_inv (s\<lparr>state := PartialState\<rparr>)" "\<not> disposition_terminal (s\<lparr>state := PartialState\<rparr>)"
    using Suc.prems by (cases "state s"; simp add: disposition_inv_def disposition_terminal_def)+
  ultimately show ?case using Suc.IH by simp
qed simp

lemma events_split:
  "es = replicate (length (takeWhile (\<lambda>e. e = Partial) es)) Partial @ dropWhile (\<lambda>e. e = Partial) es"
  by (induction es) auto

section \<open>Properties\<close>

text \<open>
  C18. The decision about a connection is made exactly once and by the first event that is not a
  partial read: the connection is reusable if and only if that event is a clean end of the
  body, it is given up without a decision if the response was handed to the Python path before
  anything was read, and it is closed dirty in every other case; nothing after that event
  changes the state, the decision or its count.
\<close>

theorem response_decision_exactly_once:
  "foldl apply_event disposition_default es =
     (case dropWhile (\<lambda>e. e = Partial) es of
        [] \<Rightarrow> \<lparr>state = (if es = [] then Open else PartialState), decision = None, decision_count = 0,
              native_lease = True\<rparr>
      | e # _ \<Rightarrow>
          if e = CleanEof then
            \<lparr>state = Reusable, decision = Some DReusable, decision_count = 1, native_lease = True\<rparr>
          else if e = PythonExact \<and> hd es = PythonExact then
            \<lparr>state = PythonExactState, decision = None, decision_count = 0, native_lease = False\<rparr>
          else
            \<lparr>state = CloseDirty, decision = Some DCloseDirty, decision_count = 1, native_lease = True\<rparr>)"
proof -
  let ?n = "length (takeWhile (\<lambda>e. e = Partial) es)" and ?rest = "dropWhile (\<lambda>e. e = Partial) es"
  let ?s = "if ?n = 0 then disposition_default else disposition_default\<lparr>state := PartialState\<rparr>"
  have "foldl apply_event disposition_default (replicate ?n Partial) = ?s"
    by (rule apply_partials [OF disposition_inv_default]) (simp add: disposition_terminal_def disposition_default_def)
  then have run: "foldl apply_event disposition_default es = foldl apply_event ?s ?rest"
    using arg_cong [OF events_split [of es], of "foldl apply_event disposition_default"] by (simp only: foldl_append)
  show ?thesis
  proof (cases ?rest)
    case Nil
    then show ?thesis using run by (cases es) (auto simp: disposition_default_def split: if_splits)
  next
    case (Cons e es')
    have e: "e \<noteq> Partial" using Cons by (auto simp: dropWhile_eq_Cons_conv)
    have n: "?n = 0 \<longleftrightarrow> hd es = e"
      using Cons e by (cases es) (auto split: if_splits)
    have fin: "disposition_terminal (apply_event ?s e)"
      using e by (cases e) (auto simp: disposition_terminal_def apply_event_def decide_def disposition_default_def)
    have stay: "disposition_terminal s \<Longrightarrow> foldl apply_event s es'' = s" for s es''
      by (induction es'') (simp_all add: apply_event_terminal)
    have "foldl apply_event disposition_default es = apply_event ?s e"
      using run stay [OF fin] by (simp add: Cons)
    then show ?thesis using e n unfolding Cons
      by (cases e) (auto simp: apply_event_def decide_def disposition_default_def)
  qed
qed

end
