(* ===== verification/Response_Body.thy ===== *)
theory Response_Body
  imports Lease Response_State
begin

text \<open>
  The response and its body in \<open>crates/requests/src/response.rs\<close>: a body polls its source (hyper's
  body, or a decoder over it), its deadlines and the driver of its connection, and ends once, giving
  the lease back. The clock is read three times in a poll: the readings are arguments. The production
  build has one kind of driver, the lease. A panic is \<open>None\<close>, and so is a poll that never returns.
\<close>

section \<open>Headers\<close>

record 'hd response_env =
  re_headers :: "'hd header_map"
  re_to_str :: "HeaderValue \<Rightarrow> rstr option"
  re_canonical_reason :: "u16 \<Rightarrow> rstr option"

definition has_chunked_transfer_encoding :: "'hd response_env \<Rightarrow> 'hd \<Rightarrow> bool" where
  "has_chunked_transfer_encoding env headers =
     list_ex (\<lambda>coding. eq_ignore_ascii_case (trim coding) (lit ''chunked''))
       (concat (map (split_by (\<lambda>c. c = asc CHR '','')) (List.map_filter (re_to_str env)
          (hm_get_all (re_headers env) headers (lit ''transfer-encoding'')))))"

record 'hd parts =
  pt_status :: u16
  pt_version :: rstr
  pt_headers :: 'hd
  pt_reason_phrase :: "bytes option"

section \<open>The response\<close>

record ('hd, 'b, 'h, 't, 's, 'w) Response =
  rs_head :: "'hd parts"
  rs_body :: "'b option"
  rs_url :: rstr
  rs_driver :: "('h, 't, 's, 'w) TransportLease option"
  rs_read_timeout :: "duration option"
  rs_total_timeout :: "duration option"
  rs_total_deadline :: "instant option"
  rs_disposition :: "ResponseDispositionState option"
  rs_content_codecs :: ContentCodecs
  rs_raw_headers :: "(rstr \<times> bytes) list"

record ('hd, 'b, 'h, 't, 's, 'w) TransportResponse =
  tp_head :: "'hd parts"
  tp_body :: 'b
  tp_url :: rstr
  tp_lease :: "('h, 't, 's, 'w) TransportLease"
  tp_read_timeout :: "duration option"
  tp_total_timeout :: "duration option"
  tp_total_deadline :: "instant option"
  tp_content_codecs :: ContentCodecs
  tp_raw_headers :: "(rstr \<times> bytes) list"

definition from_transport :: "('hd, 'b, 'h, 't, 's, 'w) TransportResponse \<Rightarrow> ('hd, 'b, 'h, 't, 's, 'w) Response" where
  "from_transport response =
     \<lparr>rs_head = tp_head response, rs_body = Some (tp_body response), rs_url = tp_url response,
      rs_driver = Some (tp_lease response), rs_read_timeout = tp_read_timeout response,
      rs_total_timeout = tp_total_timeout response, rs_total_deadline = tp_total_deadline response,
      rs_disposition = Some disposition_default, rs_content_codecs = tp_content_codecs response,
      rs_raw_headers = tp_raw_headers response\<rparr>"

definition reason :: "'hd response_env \<Rightarrow> ('hd, 'b, 'h, 't, 's, 'w) Response \<Rightarrow> rstr" where
  "reason env self =
     (case Option.bind (pt_reason_phrase (rs_head self)) from_utf8 of
        Some r \<Rightarrow> r
      | None \<Rightarrow> (case re_canonical_reason env (pt_status (rs_head self)) of Some r \<Rightarrow> r | None \<Rightarrow> []))"

definition content_length :: "'hd response_env \<Rightarrow> ('hd, 'b, 'h, 't, 's, 'w) Response \<Rightarrow> u64 option" where
  "content_length env self =
     (if has_chunked_transfer_encoding env (pt_headers (rs_head self)) then None
      else
        Option.bind (hm_get (re_headers env) (pt_headers (rs_head self)) (lit ''content-length'')) (\<lambda>v.
        Option.bind (re_to_str env v) (\<lambda>v. parse_u64 (trim v))))"

section \<open>The body\<close>

datatype ('d, 'b) ResponseBodySource = Incoming 'b | Decoded "('d, 'b) DecodedBody"

record ('d, 'b, 'h, 't, 's, 'w) ResponseBody =
  rb_source :: "('d, 'b) ResponseBodySource option"
  rb_driver :: "('h, 't, 's, 'w) TransportLease option"
  rb_read_timeout :: "duration option"
  rb_read_deadline :: "instant option"
  rb_total_timeout :: "duration option"
  rb_total_deadline :: "instant option"
  rb_chunked :: bool
  expected_content_length :: "u64 option"
  declared_completion_length :: "u64 option"
  encoded_completion :: bool
  received_body_bytes :: u64
  remainder_wait :: "ResponseRemainderWaitEntered option"
  rb_terminal :: bool
  rb_disposition :: ResponseDispositionState

text \<open>\<open>take_body\<close> moves the body, the driver, the timeouts and the disposition out of the response.\<close>

definition take_body ::
  "'hd response_env \<Rightarrow> ('d, 'b) decoders \<Rightarrow> bool \<Rightarrow> ('hd, 'b, 'h, 't, 's, 'w) Response \<Rightarrow>
   (('d, 'b, 'h, 't, 's, 'w) ResponseBody \<times> ('hd, 'b, 'h, 't, 's, 'w) Response) option" where
  "take_body env dc decoded self =
     (case rs_disposition self of
        None \<Rightarrow> None
      | Some disposition \<Rightarrow>
          let headers = pt_headers (rs_head self);
              chunked = has_chunked_transfer_encoding env headers;
              expected = content_length env self;
              wire_encoding = Option.bind (hm_get (re_headers env) headers (lit ''content-encoding'')) (\<lambda>v.
                Option.bind (re_to_str env v) (\<lambda>v. encoding_enabled v (rs_content_codecs self)));
              encoding = (if decoded then wire_encoding else None) in
          Some
            (\<lparr>rb_source = map_option (\<lambda>body. case encoding of
                   Some encoding \<Rightarrow> Decoded (decoded_new dc body encoding chunked)
                 | None \<Rightarrow> Incoming body) (rs_body self),
              rb_driver = rs_driver self, rb_read_timeout = rs_read_timeout self, rb_read_deadline = None,
              rb_total_timeout = rs_total_timeout self, rb_total_deadline = rs_total_deadline self,
              rb_chunked = chunked, expected_content_length = expected, declared_completion_length = expected,
              encoded_completion = (wire_encoding \<noteq> None), received_body_bytes = 0, remainder_wait = None,
              rb_terminal = False, rb_disposition = disposition\<rparr>,
             self\<lparr>rs_body := None, rs_driver := None, rs_read_timeout := None, rs_total_timeout := None,
                  rs_total_deadline := None, rs_disposition := None\<rparr>))"

record ('d, 'b, 'h, 't, 's, 'w) body_env =
  be_decoders :: "('d, 'b) decoders"
  be_frames :: "'b frame_source"
  be_hooks :: "'w hooks"
  be_ops :: "('h, 't, 's) network_ops"
  be_pool_ops :: "('h, 't, 's) network_ops"

definition driver_finish_now ::
  "('d, 'b, 'h, 't, 's, 'w) body_env \<Rightarrow> bool \<Rightarrow> bool \<Rightarrow> ('h, 't, 's, 'w) TransportLease \<Rightarrow> ('h, 't, 's) world \<Rightarrow>
   ('h, 't, 's) world option" where
  "driver_finish_now env reusable incomplete lease w =
     map_option snd (if incomplete then finish_incomplete_body_now (be_ops env) (be_pool_ops env) lease w
       else lease_finish_now reusable (be_ops env) (be_pool_ops env) lease w)"

text \<open>\<open>Drop\<close> of a response whose body was not taken.\<close>

definition response_drop ::
  "('d, 'b, 'h, 't, 's, 'w) body_env \<Rightarrow> ('hd, 'b, 'h, 't, 's, 'w) Response \<Rightarrow> ('h, 't, 's) world \<Rightarrow>
   (('hd, 'b, 'h, 't, 's, 'w) Response \<times> ('h, 't, 's) world) option" where
  "response_drop env self w =
     (let self = self\<lparr>rs_disposition := map_option (\<lambda>d. apply_event d Drop) (rs_disposition self)\<rparr> in
      case rs_driver self of
        None \<Rightarrow> Some (self, w)
      | Some driver \<Rightarrow> map_option (Pair (self\<lparr>rs_driver := None\<rparr>)) (driver_finish_now env False False driver w))"

definition begin_terminal ::
  "ResponseEvent \<Rightarrow> ('d, 'b, 'h, 't, 's, 'w) ResponseBody \<Rightarrow>
   ('h, 't, 's, 'w) TransportLease option \<times> ('d, 'b, 'h, 't, 's, 'w) ResponseBody" where
  "begin_terminal event self =
     (if rb_terminal self then (None, self)
      else
        (rb_driver self,
         self\<lparr>rb_terminal := True, rb_source := None, rb_read_deadline := None, rb_total_deadline := None,
              rb_disposition := apply_event (rb_disposition self) event, rb_driver := None\<rparr>))"

definition body_finish_now ::
  "('d, 'b, 'h, 't, 's, 'w) body_env \<Rightarrow> ResponseEvent \<Rightarrow> ('d, 'b, 'h, 't, 's, 'w) ResponseBody \<Rightarrow> ('h, 't, 's) world \<Rightarrow>
   (('d, 'b, 'h, 't, 's, 'w) ResponseBody \<times> ('h, 't, 's) world) option" where
  "body_finish_now env event self w =
     (let incomplete = (event \<noteq> CleanEof \<and>
            (case expected_content_length self of
               None \<Rightarrow> False
             | Some n \<Rightarrow> remainder_checked n (received_body_bytes self) \<noteq> None));
          (driver, self) = begin_terminal event self in
      case driver of
        None \<Rightarrow> Some (self, w)
      | Some driver \<Rightarrow>
          map_option (Pair self)
            (driver_finish_now env (decision (rb_disposition self) = Some DReusable) incomplete driver w))"

definition finish_declared_length ::
  "('d, 'b, 'h, 't, 's, 'w) body_env \<Rightarrow> bool \<Rightarrow> ('d, 'b, 'h, 't, 's, 'w) ResponseBody \<Rightarrow> ('h, 't, 's) world \<Rightarrow>
   (('d, 'b, 'h, 't, 's, 'w) ResponseBody \<times> ('h, 't, 's) world) option" where
  "finish_declared_length env allow_encoded_completion self w =
     (if \<not> rb_terminal self \<and> (\<not> encoded_completion self \<or> allow_encoded_completion) \<and>
         declared_completion_length self = Some (received_body_bytes self)
      then body_finish_now env CleanEof (self\<lparr>remainder_wait := None\<rparr>) w
      else Some (self, w))"

text \<open>\<open>Drop\<close>, and \<open>close\<close>, which consumes the body and so ends with its \<open>Drop\<close>.\<close>

definition body_drop where
  "body_drop env = body_finish_now env Drop"

definition body_close ::
  "('d, 'b, 'h, 't, 's, 'w) body_env \<Rightarrow> ('d, 'b, 'h, 't, 's, 'w) ResponseBody \<Rightarrow> ('h, 't, 's) world \<Rightarrow>
   ((Error + unit) \<times> ('d, 'b, 'h, 't, 's, 'w) ResponseBody \<times> ('h, 't, 's) world) option" where
  "body_close env self w =
     (case begin_terminal Close self of
        (None, self) \<Rightarrow> map_option (Pair (Inr ())) (body_drop env self w)
      | (Some driver, self) \<Rightarrow>
          (case lease_abort_and_wait (be_ops env) (be_pool_ops env) driver w of
             None \<Rightarrow> None
           | Some (result, _, w) \<Rightarrow> map_option (Pair result) (body_drop env self w)))"

text \<open>The loop over the frames of an undecoded body skips trailers.\<close>

partial_function (option) next_data :: "'b frame_source \<Rightarrow> 'b \<Rightarrow> ((hyper_error + bytes) option Poll \<times> 'b) option" where
  "next_data pf body =
     (case pf body of
        (Ready (Some (Inr (DataFrame bs))), body) \<Rightarrow> Some (Ready (Some (Inr bs)), body)
      | (Ready (Some (Inr TrailersFrame)), body) \<Rightarrow> next_data pf body
      | (Ready (Some (Inl error)), body) \<Rightarrow> Some (Ready (Some (Inl error)), body)
      | (Ready None, body) \<Rightarrow> Some (Ready None, body)
      | (Pending, body) \<Rightarrow> Some (Pending, body))"

definition source_error :: "('d, 'b, 'h, 't, 's, 'w) ResponseBody \<Rightarrow> hyper_error \<Rightarrow> Error" where
  "source_error self error =
     (if rb_chunked self then chunked_encoding (he_display error)
      else
        response_body_hyper error
          (Option.bind (expected_content_length self) (\<lambda>expected.
             let remaining = (if received_body_bytes self \<le> expected then expected - received_body_bytes self else 0) in
             if remaining \<noteq> 0 then Some (received_body_bytes self, remaining) else None)))"

definition poll_source ::
  "('d, 'b, 'h, 't, 's, 'w) body_env \<Rightarrow> ('d, 'b, 'h, 't, 's, 'w) ResponseBody \<Rightarrow>
   (((Error + bytes) option Poll \<times> bool) \<times> ('d, 'b, 'h, 't, 's, 'w) ResponseBody) option" where
  "poll_source env self =
     (case rb_source self of
        None \<Rightarrow> Some ((Ready (Some (Inl (response_body_error (lit ''response body was already consumed'')))), False), self)
      | Some (Decoded body) \<Rightarrow>
          map_option (\<lambda>(result, body).
            let (progress, body) = decoded_take_wire_progress body in
            ((result, result = Pending \<and> progress), self\<lparr>rb_source := Some (Decoded body)\<rparr>))
          (decoded_poll_next (be_decoders env) (be_frames env) body)
      | Some (Incoming body) \<Rightarrow>
          map_option (\<lambda>(result, body).
            ((case result of
                Pending \<Rightarrow> Pending
              | Ready r \<Rightarrow> Ready (map_option (map_sum (source_error self) id) r), False),
             self\<lparr>rb_source := Some (Incoming body)\<rparr>))
          (next_data (be_frames env) body))"

text \<open>
  A deadline is polled ready when it has passed. The timeouts are there when their deadlines are: else
  the code panics.
\<close>

definition poll_timeout :: "instant \<Rightarrow> ('d, 'b, 'h, 't, 's, 'w) ResponseBody \<Rightarrow> Error option option" where
  "poll_timeout now self =
     (case select_deadline_source (rb_read_deadline self) (rb_total_deadline self) of
        None \<Rightarrow> Some None
      | Some DeadlineRead \<Rightarrow>
          (case rb_read_deadline self of
             None \<Rightarrow> None
           | Some at \<Rightarrow>
               if at \<le> now then map_option (\<lambda>t. Some (read_timeout_error t)) (rb_read_timeout self) else Some None)
      | Some DeadlineTotal \<Rightarrow>
          (case rb_total_deadline self of
             None \<Rightarrow> None
           | Some at \<Rightarrow>
               if at \<le> now then map_option (\<lambda>t. Some (response_body_total_timeout t)) (rb_total_timeout self)
               else Some None))"

definition finish_error ::
  "('d, 'b, 'h, 't, 's, 'w) body_env \<Rightarrow> ResponseEvent \<Rightarrow> Error \<Rightarrow> ('d, 'b, 'h, 't, 's, 'w) ResponseBody \<Rightarrow> ('h, 't, 's) world \<Rightarrow>
   ((Error + bytes) option Poll \<times> ('d, 'b, 'h, 't, 's, 'w) ResponseBody \<times> ('h, 't, 's) world) option" where
  "finish_error env event error self w =
     map_option (Pair (Ready (Some (Inl error)))) (body_finish_now env event self w)"

definition error_event :: "Error \<Rightarrow> ResponseEvent" where
  "error_event error =
     (if kind error = ChunkedEncoding then ProtocolError
      else if kind error = ContentDecoding then DecodeError else ReadError)"

definition checked_remainder :: "('d, 'b, 'h, 't, 's, 'w) ResponseBody \<Rightarrow> ResponseRemainderWaitEntered option" where
  "checked_remainder self =
     Option.bind (expected_content_length self) (\<lambda>n. remainder_checked n (received_body_bytes self))"

text \<open>The number of bytes of a chunk as \<open>u64\<close>, and the saturating sum.\<close>

definition add_received :: "u64 \<Rightarrow> nat \<Rightarrow> u64" where
  "add_received r n = word_of_nat (min (unat r + min n (2 ^ 64 - 1)) (2 ^ 64 - 1))"

text \<open>After a source that is pending: the read deadline, the deadlines again, and the driver.\<close>

definition poll_rest ::
  "('d, 'b, 'h, 't, 's, 'w) body_env \<Rightarrow> instant \<Rightarrow> instant \<Rightarrow> ('d, 'b, 'h, 't, 's, 'w) ResponseBody \<Rightarrow> ('h, 't, 's) world \<Rightarrow>
   ((Error + bytes) option Poll \<times> ('d, 'b, 'h, 't, 's, 'w) ResponseBody \<times> ('h, 't, 's) world) option" where
  "poll_rest env now later self w =
     (let self = (if rb_read_deadline self = None
            then self\<lparr>rb_read_deadline := Option.bind (rb_read_timeout self) (instant_checked_add now)\<rparr> else self) in
      case poll_timeout later self of
        None \<Rightarrow> None
      | Some (Some error) \<Rightarrow> finish_error env ReadError error self w
      | Some None \<Rightarrow>
          (case rb_driver self of
             None \<Rightarrow> Some (Pending, self, w)
           | Some driver \<Rightarrow>
               (case lease_poll_result (be_ops env) driver of
                  None \<Rightarrow> None
                | Some (Ready (Inl error), driver) \<Rightarrow> finish_error env ReadError error (self\<lparr>rb_driver := Some driver\<rparr>) w
                | Some (_, driver) \<Rightarrow> Some (Pending, self\<lparr>rb_driver := Some driver\<rparr>, w))))"

definition body_poll_next ::
  "('d, 'b, 'h, 't, 's, 'w) body_env \<Rightarrow> instant \<Rightarrow> instant \<Rightarrow> instant \<Rightarrow> ('d, 'b, 'h, 't, 's, 'w) ResponseBody \<Rightarrow>
   ('h, 't, 's) world \<Rightarrow>
   ((Error + bytes) option Poll \<times> ('d, 'b, 'h, 't, 's, 'w) ResponseBody \<times> ('h, 't, 's) world) option" where
  "body_poll_next env first now later self w =
     (if rb_terminal self then Some (Ready None, self, w)
      else
        case poll_timeout first self of
          None \<Rightarrow> None
        | Some (Some error) \<Rightarrow> finish_error env ReadError error self w
        | Some None \<Rightarrow>
            (case poll_source env self of
               None \<Rightarrow> None
             | Some ((Ready (Some (Inr bs)), _), self) \<Rightarrow>
                 let self = self\<lparr>received_body_bytes := add_received (received_body_bytes self) (length bs)\<rparr> in
                 Some (Ready (Some (Inr bs)),
                   self\<lparr>remainder_wait := checked_remainder self, rb_read_deadline := None,
                        rb_disposition := apply_event (rb_disposition self) Partial\<rparr>, w)
             | Some ((Ready (Some (Inl error)), _), self) \<Rightarrow> finish_error env (error_event error) error self w
             | Some ((Ready None, _), self) \<Rightarrow>
                 map_option (Pair (Ready None)) (body_finish_now env CleanEof (self\<lparr>remainder_wait := None\<rparr>) w)
             | Some ((Pending, progress), self) \<Rightarrow>
                 let self = self\<lparr>remainder_wait := checked_remainder self\<rparr>;
                     self = (if progress then self\<lparr>rb_read_deadline := None\<rparr> else self) in
                 (case rb_driver self of
                    None \<Rightarrow> poll_rest env now later self w
                  | Some driver \<Rightarrow>
                      let (q, driver, w) = lease_poll_response_remainder (be_hooks env) driver w;
                          self = self\<lparr>rb_driver := Some driver\<rparr> in
                      if q = Pending then Some (Pending, self, w) else poll_rest env now later self w)))"

section \<open>Lemmas: the lease of an open body\<close>

lemma lease_poll_result_in_use:
  assumes "in_use l c ls"
  obtains q ls' l' c' where "lease_poll_result ops ls = Some (q, ls')" "in_use l' c' ls'"
    "ag_session_runtime (tl_active_exchange ls') = ag_session_runtime (tl_active_exchange ls)"
proof -
  have set: "in_use (set_driver d l) (c\<lparr>ic_inner := (ic_inner c)\<lparr>nw_driver := d\<rparr>\<rparr>) (put_driver d ls)" for d
    using assms by (simp add: in_use_def set_driver_def put_driver_def)
  have keep: "tl_active_exchange (put_driver d ls) = tl_active_exchange ls" for d by (simp add: put_driver_def)
  have d: "driver_mut ls = Some (nw_driver (ic_inner c))" by (rule dirty_release(1) [OF assms])
  show thesis
  proof (cases "cd_task (nw_driver (ic_inner c))")
    case None
    then show thesis using assms d by (intro that [of Pending ls l c]) (simp_all add: lease_poll_result_def)
  next
    case (Some task)
    obtain q task' where q: "no_poll_task ops task = (q, task')" by fastforce
    show thesis
    proof (cases q)
      case Pending
      then show thesis using Some q d set keep
        by (intro that [of Pending "put_driver ((nw_driver (ic_inner c))\<lparr>cd_task := Some task'\<rparr>) ls"])
          (simp_all add: lease_poll_result_def)
    next
      case (Ready result)
      obtain r d' where "driver_finish result (nw_driver (ic_inner c)) = (r, d')" by fastforce
      then show thesis using Some q d set keep Ready
        by (intro that [of "Ready r" "put_driver d' ls"]) (simp_all add: lease_poll_result_def)
    qed
  qed
qed

text \<open>The releases a session runtime has been shown.\<close>

definition releases :: "('h, 't, 's) world \<Rightarrow> nat" where
  "releases w = length (filter (\<lambda>p. p = PoolReleaseClean \<or> p = PoolReleaseDirty) (map cp_phase (shown (w_harness w))))"

lemma lease_poll_remainder_in_use:
  assumes "in_use l c ls" and "lease_poll_response_remainder hk ls w = (q, ls', w')"
  shows "in_use l c ls'" "ag_session_runtime (tl_active_exchange ls') = ag_session_runtime (tl_active_exchange ls)"
    "w_pool w' = w_pool w" "w_effects w' = w_effects w" "releases w' = releases w"
  using assms
  by (auto simp: lease_poll_response_remainder_def guard_poll_response_remainder_def in_use_def releases_def
      checkpoint_def wait_future_def observe_def Let_def split: if_splits ResponseRemainderGate.splits prod.splits Poll.splits)

section \<open>Lemmas: the end of a body\<close>

text \<open>A body that has not ended: its lease is in use, and its decision open.\<close>

definition open_body :: "('d, 'b, 'h, 't, 's, 'w) ResponseBody \<Rightarrow> ('h, 't, 's) world \<Rightarrow> bool" where
  "open_body self w \<longleftrightarrow> \<not> rb_terminal self \<and> rb_source self \<noteq> None \<and> pool_ok (w_pool w) \<and>
     (\<exists>ls l c. rb_driver self = Some ls \<and> in_use l c ls) \<and>
     disposition_inv (rb_disposition self) \<and> \<not> disposition_terminal (rb_disposition self) \<and>
     (rb_read_deadline self \<noteq> None \<longrightarrow> rb_read_timeout self \<noteq> None) \<and>
     (rb_total_deadline self \<noteq> None \<longrightarrow> rb_total_timeout self \<noteq> None)"

definition body_session :: "('d, 'b, 'h, 't, 's, 'w) ResponseBody \<Rightarrow> bool" where
  "body_session self = (case rb_driver self of Some ls \<Rightarrow> ag_session_runtime (tl_active_exchange ls) | None \<Rightarrow> False)"

text \<open>The end of it: the decision is made and the lease has been given back.\<close>

definition body_ended ::
  "bool \<Rightarrow> ('h, 't, 's) world \<Rightarrow> ('d, 'b, 'h, 't, 's, 'w) ResponseBody \<Rightarrow> ('h, 't, 's) world \<Rightarrow> bool" where
  "body_ended session w self' w' \<longleftrightarrow>
     rb_terminal self' \<and> rb_source self' = None \<and> rb_driver self' = None \<and>
     decision (rb_disposition self') \<noteq> None \<and> decision_count (rb_disposition self') = 1 \<and>
     releases w' = releases w + (if session then 1 else 0) \<and>
     (idle_of (w_pool w') = idle_of (w_pool w) \<or>
      decision (rb_disposition self') = Some DReusable \<and> w_effects w' = w_effects w \<and>
      (\<exists>k c. idle_of (w_pool w') = (idle_of (w_pool w))(k := idle_of (w_pool w) k @ [c])))"

lemma ended_releases:
  "ended clean kept l c g w w' \<Longrightarrow> releases w' = releases w + (if ag_session_runtime g then 1 else 0)"
  by (auto simp: ended_def releases_def)

lemma ended_idle:
  assumes "ended clean kept l c g w w'" and "kept \<Longrightarrow> P"
  shows "idle_of (w_pool w') = idle_of (w_pool w) \<or> P \<and> w_effects w' = w_effects w \<and>
    (\<exists>k c. idle_of (w_pool w') = (idle_of (w_pool w))(k := idle_of (w_pool w) k @ [c]))"
  using assms by (cases kept) (auto simp: ended_def)

lemma decision_apply:
  assumes "disposition_inv d" and "\<not> disposition_terminal d" and "ev \<noteq> Partial" and "ev \<noteq> PythonExact"
  shows "decision (apply_event d ev) = Some (if ev = CleanEof then DReusable else DCloseDirty)"
    and "decision_count (apply_event d ev) = 1"
  using assms by (cases "state d"; cases ev; simp add: disposition_inv_def disposition_terminal_def apply_event_def decide_def)+

lemma driver_finish_now_end:
  "driver_finish_now env reusable incomplete ls w =
     map_option snd (end_lease (be_ops env) (be_pool_ops env) (if incomplete then EndIncomplete else EndFinish reusable) ls w)"
  by (simp add: driver_finish_now_def end_lease_def)

text \<open>A lease in use, ended in any way: one release, and the connection idle only if it was reusable.\<close>

lemma end_lease_body:
  assumes "pool_ok (w_pool w)" and "in_use l c ls"
  obtains ls' w' where "end_lease ops ops' e ls w = Some (ls', w')"
    "releases w' = releases w + (if ag_session_runtime (tl_active_exchange ls) then 1 else 0)"
    "idle_of (w_pool w') = idle_of (w_pool w) \<or> e = EndFinish True \<and> w_effects w' = w_effects w \<and>
      (\<exists>k c. idle_of (w_pool w') = (idle_of (w_pool w))(k := idle_of (w_pool w) k @ [c]))"
proof -
  let ?clean = "e = EndFinish True \<and> lease_is_live (network_view ops) l \<and> lease_peer_is_open (network_view ops) l"
  let ?kept = "e = EndFinish True \<and> lease_is_live (network_view ops) l \<and> lease_peer_is_open (network_view ops) l \<and>
       cl_generation l = generation_number (w_pool w) \<and> lease_is_live (network_view ops') l \<and>
       length (idle_of (w_pool w) (cl_key l)) < max_idle_per_key (w_pool w)"
  obtain ls' w' where e: "end_lease ops ops' e ls w = Some (ls', w')" "ended ?clean ?kept l c (tl_active_exchange ls) w w'"
    using end_lease_ended [OF assms, of ops ops' e] by metis
  show thesis by (rule that [OF e(1) ended_releases [OF e(2)] ended_idle [OF e(2)]]) simp
qed

lemma body_finish_now_ended:
  assumes "open_body self w" and "ev \<noteq> Partial" and "ev \<noteq> PythonExact"
  obtains self' w' where "body_finish_now env ev self w = Some (self', w')" "body_ended (body_session self) w self' w'"
    "decision (rb_disposition self') = Some (if ev = CleanEof then DReusable else DCloseDirty)"
proof -
  obtain ls l c where o: "\<not> rb_terminal self" "pool_ok (w_pool w)" "rb_driver self = Some ls" "in_use l c ls"
    "disposition_inv (rb_disposition self)" "\<not> disposition_terminal (rb_disposition self)"
    using assms(1) by (auto simp: open_body_def)
  note d = decision_apply [OF o(5,6) assms(2,3)]
  let ?incomplete = "ev \<noteq> CleanEof \<and> (case expected_content_length self of None \<Rightarrow> False
     | Some n \<Rightarrow> remainder_checked n (received_body_bytes self) \<noteq> None)"
  let ?e = "if ?incomplete then EndIncomplete else EndFinish (ev = CleanEof)"
  obtain ls' w' where e: "end_lease (be_ops env) (be_pool_ops env) ?e ls w = Some (ls', w')"
    "releases w' = releases w + (if ag_session_runtime (tl_active_exchange ls) then 1 else 0)"
    "idle_of (w_pool w') = idle_of (w_pool w) \<or> ?e = EndFinish True \<and>
      w_effects w' = w_effects w \<and> (\<exists>k c. idle_of (w_pool w') = (idle_of (w_pool w))(k := idle_of (w_pool w) k @ [c]))"
    by (rule end_lease_body [OF o(2,4), of "be_ops env" "be_pool_ops env" ?e])
  have reusable: "?e = EndFinish True \<Longrightarrow> ev = CleanEof" by (simp split: if_splits)
  have finish: "body_finish_now env ev self w = Some (snd (begin_terminal ev self), w')"
    using e(1) o(1,3) d(1)
    by (cases "ev = CleanEof"; cases ?incomplete)
      (simp_all add: body_finish_now_def begin_terminal_def driver_finish_now_end)
  have dec: "decision (rb_disposition (snd (begin_terminal ev self))) = Some (if ev = CleanEof then DReusable else DCloseDirty)"
    using o(1) d(1) by (simp add: begin_terminal_def)
  let ?appended = "\<exists>k c. idle_of (w_pool w') = (idle_of (w_pool w))(k := idle_of (w_pool w) k @ [c])"
  have idle: "idle_of (w_pool w') = idle_of (w_pool w) \<or>
      decision (rb_disposition (snd (begin_terminal ev self))) = Some DReusable \<and> w_effects w' = w_effects w \<and> ?appended"
    using e(3)
  proof (elim disjE conjE)
    assume "?e = EndFinish True" and a: "w_effects w' = w_effects w" "?appended"
    then have "ev = CleanEof" by (intro reusable)
    then show ?thesis using a dec by (intro disjI2 conjI) simp_all
  qed (rule disjI1)
  have "body_ended (body_session self) w (snd (begin_terminal ev self)) w'"
    unfolding body_ended_def
  proof (intro conjI)
    show "releases w' = releases w + (if body_session self then 1 else 0)" using e(2) o(3) by (simp add: body_session_def)
  qed (use idle dec d(2) o(1) in \<open>simp_all add: begin_terminal_def\<close>)
  then show thesis using finish dec by (intro that)
qed

section \<open>Lemmas: polling an open body\<close>

lemma next_data_total:
  assumes "body_finite pf frames"
  shows "\<exists>q b'. next_data pf b = Some (q, b')"
proof (induction "frames b" arbitrary: b rule: less_induct)
  case less
  obtain q b1 where q: "pf b = (q, b1)" by fastforce
  show ?case
  proof (cases "q = Ready (Some (Inr TrailersFrame))")
    case True
    then have "frames b1 < frames b" using assms q by (auto simp: body_finite_def)
    then show ?thesis using less q True by (subst next_data.simps) simp
  next
    case False
    then show ?thesis using q
      by (subst next_data.simps) (auto split: Poll.split option.split sum.split Frame.split)
  qed
qed

lemma poll_source_total:
  assumes "body_finite (be_frames env) frames" and "rb_source self \<noteq> None"
  obtains q p src where "poll_source env self = Some ((q, p), self\<lparr>rb_source := Some src\<rparr>)"
proof (cases "the (rb_source self)")
  case (Incoming b)
  obtain r b' where "next_data (be_frames env) b = Some (r, b')" using next_data_total [OF assms(1)] by blast
  then show thesis using assms(2) Incoming that [of _ False "Incoming b'"] by (auto simp: poll_source_def)
next
  case (Decoded b)
  obtain r b' where r: "decoded_poll_next (be_decoders env) (be_frames env) b = Some (r, b')"
    using decoded_poll_next_total [OF assms(1)] by blast
  obtain p b'' where "decoded_take_wire_progress b' = (p, b'')" by fastforce
  then show thesis using assms(2) Decoded r that [of r "r = Pending \<and> p" "Decoded b''"] by (auto simp: poll_source_def)
qed

lemma poll_timeout_total:
  assumes "open_body self w"
  shows "\<exists>e. poll_timeout now self = Some e"
  using assms
  by (auto simp: open_body_def poll_timeout_def select_deadline_source_def split: option.splits if_splits)

lemma body_session_update [simp]:
  "body_session (self\<lparr>rb_source := src\<rparr>) = body_session self" "body_session (self\<lparr>remainder_wait := r\<rparr>) = body_session self"
  "body_session (self\<lparr>rb_read_deadline := d\<rparr>) = body_session self"
  "body_session (self\<lparr>received_body_bytes := n\<rparr>) = body_session self"
  "body_session (self\<lparr>rb_disposition := s\<rparr>) = body_session self"
  by (simp_all add: body_session_def)

lemma open_body_update:
  assumes "open_body self w"
  shows "open_body (self\<lparr>rb_source := Some src\<rparr>) w" "open_body (self\<lparr>remainder_wait := r\<rparr>) w"
    "open_body (self\<lparr>rb_read_deadline := None\<rparr>) w" "open_body (self\<lparr>received_body_bytes := n\<rparr>) w"
    "rb_read_timeout self \<noteq> None \<or> d = None \<Longrightarrow> open_body (self\<lparr>rb_read_deadline := d\<rparr>) w"
  using assms by (auto simp: open_body_def)

lemma open_body_partial:
  assumes "open_body self w"
  shows "open_body (self\<lparr>rb_disposition := apply_event (rb_disposition self) Partial\<rparr>) w"
proof -
  have "\<not> disposition_terminal (apply_event (rb_disposition self) Partial)"
    using assms by (auto simp: open_body_def disposition_terminal_def apply_event_def)
  then show ?thesis using assms disposition_inv_apply by (auto simp: open_body_def)
qed

text \<open>The outcome of an operation on an open body: it is still open and nothing was given back, or it ended.\<close>

definition body_outcome ::
  "('d, 'b, 'h, 't, 's, 'w) ResponseBody \<Rightarrow> ('h, 't, 's) world \<Rightarrow> ('d, 'b, 'h, 't, 's, 'w) ResponseBody \<Rightarrow> ('h, 't, 's) world \<Rightarrow> bool" where
  "body_outcome self w self' w' \<longleftrightarrow>
     open_body self' w' \<and> body_session self' = body_session self \<and> w_pool w' = w_pool w \<and> w_effects w' = w_effects w \<and>
       releases w' = releases w \<or>
     body_ended (body_session self) w self' w'"

lemma finish_error_outcome:
  assumes "open_body self w" and "ev \<noteq> Partial" and "ev \<noteq> PythonExact"
  obtains self' w' where "finish_error env ev error self w = Some (Ready (Some (Inl error)), self', w')"
    "body_ended (body_session self) w self' w'" "decision (rb_disposition self') = Some (if ev = CleanEof then DReusable else DCloseDirty)"
  using body_finish_now_ended [OF assms, of env] that by (auto simp: finish_error_def)

lemma poll_rest_outcome:
  assumes "open_body self w"
  shows "\<exists>q self' w'. poll_rest env now later self w = Some (q, self', w') \<and> body_outcome self w self' w' \<and>
    (rb_terminal self' \<longrightarrow> (\<exists>e. q = Ready (Some (Inl e))) \<and> decision (rb_disposition self') = Some DCloseDirty) \<and>
    (\<not> rb_terminal self' \<longrightarrow> q = Pending)"
proof -
  define self1 where "self1 = (if rb_read_deadline self = None
    then self\<lparr>rb_read_deadline := Option.bind (rb_read_timeout self) (instant_checked_add now)\<rparr> else self)"
  have o: "open_body self1 w" "body_session self1 = body_session self"
    using assms open_body_update(5) [OF assms, of "Option.bind (rb_read_timeout self) (instant_checked_add now)"]
    by (cases "rb_read_timeout self"; auto simp: self1_def)+
  obtain e where e: "poll_timeout later self1 = Some e" using poll_timeout_total [OF o(1)] by blast
  obtain ls l c where ls: "rb_driver self1 = Some ls" "in_use l c ls" using o(1) by (auto simp: open_body_def)
  obtain q ls' l' c' where p: "lease_poll_result (be_ops env) ls = Some (q, ls')" "in_use l' c' ls'"
    "ag_session_runtime (tl_active_exchange ls') = ag_session_runtime (tl_active_exchange ls)"
    by (rule lease_poll_result_in_use [OF ls(2)])
  let ?self = "self1\<lparr>rb_driver := Some ls'\<rparr>"
  have o': "open_body ?self w" "body_session ?self = body_session self"
    using o ls p by (auto simp: open_body_def body_session_def)
  note rest = poll_rest_def [of env now later self w, folded self1_def, unfolded Let_def e option.case]
  have ended: "rb_terminal self' \<and> body_outcome self w self' w'" if "body_ended (body_session self) w self' w'" for self' w'
    using that by (simp add: body_outcome_def body_ended_def)
  consider (timeout) err where "e = Some err" | (driver) err where "e = None" "q = Ready (Inl err)"
    | (pending) "e = None" "\<And>err. q \<noteq> Ready (Inl err)" by blast
  then show ?thesis
  proof cases
    case timeout
    obtain self' w' where "finish_error env ReadError err self1 w = Some (Ready (Some (Inl err)), self', w')"
      "body_ended (body_session self1) w self' w'" "decision (rb_disposition self') = Some DCloseDirty"
      using finish_error_outcome [OF o(1), of ReadError env err] by auto
    then show ?thesis using timeout ended o(2) by (simp add: rest)
  next
    case driver
    obtain self' w' where "finish_error env ReadError err ?self w = Some (Ready (Some (Inl err)), self', w')"
      "body_ended (body_session ?self) w self' w'" "decision (rb_disposition self') = Some DCloseDirty"
      using finish_error_outcome [OF o'(1), of ReadError env err] by auto
    then show ?thesis using driver ended o'(2) ls p by (simp add: rest)
  next
    case pending
    have "poll_rest env now later self w = Some (Pending, ?self, w)"
      using pending ls p by (cases q) (auto simp: rest split: sum.split)
    then show ?thesis using o' by (simp add: body_outcome_def open_body_def)
  qed
qed

text \<open>What a poll answers, by the state it leaves.\<close>

definition poll_answer :: "(Error + bytes) option Poll \<Rightarrow> ('d, 'b, 'h, 't, 's, 'w) ResponseBody \<Rightarrow> bool" where
  "poll_answer q self' =
     (case q of
        Pending \<Rightarrow> \<not> rb_terminal self'
      | Ready None \<Rightarrow> rb_terminal self' \<and> decision (rb_disposition self') = Some DReusable
      | Ready (Some (Inr _)) \<Rightarrow> \<not> rb_terminal self'
      | Ready (Some (Inl _)) \<Rightarrow> rb_terminal self' \<and> decision (rb_disposition self') = Some DCloseDirty)"

lemma body_outcome_ended:
  "body_ended (body_session self) w self' w' \<Longrightarrow> body_outcome self w self' w' \<and> rb_terminal self'"
  by (simp add: body_outcome_def body_ended_def)

lemma error_event_cases: "error_event e \<noteq> Partial" "error_event e \<noteq> PythonExact" "error_event e \<noteq> CleanEof"
  by (simp_all add: error_event_def)

lemma poll_rest_answer:
  assumes "open_body self w"
  obtains q self' w' where "poll_rest env now later self w = Some (q, self', w')" "body_outcome self w self' w'" "poll_answer q self'"
proof -
  obtain q self' w' where r: "poll_rest env now later self w = Some (q, self', w')" "body_outcome self w self' w'"
    "rb_terminal self' \<longrightarrow> (\<exists>e. q = Ready (Some (Inl e))) \<and> decision (rb_disposition self') = Some DCloseDirty"
    "\<not> rb_terminal self' \<longrightarrow> q = Pending" using poll_rest_outcome [OF assms] by metis
  have "poll_answer q self'" using r(3,4) by (cases "rb_terminal self'") (auto simp: poll_answer_def)
  then show thesis using r by (intro that)
qed

lemma body_poll_outcome:
  assumes "open_body self w" and "body_finite (be_frames env) frames"
  obtains q self' w' where "body_poll_next env first now later self w = Some (q, self', w')" "body_outcome self w self' w'"
    "poll_answer q self'"
proof -
  have live: "\<not> rb_terminal self" "rb_source self \<noteq> None" using assms(1) by (simp_all add: open_body_def)
  obtain e where e: "poll_timeout first self = Some e" using poll_timeout_total [OF assms(1)] by blast
  obtain q p src where s: "poll_source env self = Some ((q, p), self\<lparr>rb_source := Some src\<rparr>)"
    by (rule poll_source_total [OF assms(2) live(2)])
  let ?self = "self\<lparr>rb_source := Some src\<rparr>"
  have o: "open_body ?self w" by (rule open_body_update(1) [OF assms(1)])
  note nxt = body_poll_next_def [of env first now later self w, unfolded e s Let_def option.case]
  consider (timeout) err where "e = Some err" | (data) bs where "e = None" "q = Ready (Some (Inr bs))"
    | (error) err where "e = None" "q = Ready (Some (Inl err))" | (over) "e = None" "q = Ready None"
    | (pending) "e = None" "q = Pending"
    by (metis Poll.exhaust option.exhaust sum.exhaust)
  then show thesis
  proof cases
    case timeout
    obtain self' w' where f: "finish_error env ReadError err self w = Some (Ready (Some (Inl err)), self', w')"
      "body_ended (body_session self) w self' w'" "decision (rb_disposition self') = Some DCloseDirty"
      using finish_error_outcome [OF assms(1), of ReadError env err] by auto
    show thesis
      by (rule that [of "Ready (Some (Inl err))" self' w'])
        (use timeout live f body_outcome_ended [OF f(2)] in \<open>simp_all add: nxt poll_answer_def\<close>)
  next
    case data
    let ?n = "add_received (received_body_bytes self) (length bs)"
    let ?s1 = "?self\<lparr>received_body_bytes := ?n\<rparr>"
    let ?s2 = "?s1\<lparr>remainder_wait := checked_remainder ?s1, rb_read_deadline := None,
      rb_disposition := apply_event (rb_disposition self) Partial\<rparr>"
    have "open_body ?s2 w"
      using open_body_partial [OF open_body_update(3) [OF open_body_update(2) [OF open_body_update(4) [OF o]]]] by simp
    then show thesis
      by (intro that [of "Ready (Some (Inr bs))" ?s2 w])
        (use data live in \<open>simp_all add: nxt body_outcome_def poll_answer_def open_body_def\<close>)
  next
    case error
    obtain self' w' where f: "finish_error env (error_event err) err ?self w = Some (Ready (Some (Inl err)), self', w')"
      "body_ended (body_session ?self) w self' w'" "decision (rb_disposition self') = Some DCloseDirty"
      using finish_error_outcome [OF o, of "error_event err" env err] error_event_cases by auto
    have "body_ended (body_session self) w self' w'" using f(2) by simp
    then show thesis
      by (intro that [of "Ready (Some (Inl err))" self' w'])
        (use error live f body_outcome_ended in \<open>auto simp: nxt poll_answer_def\<close>)
  next
    case over
    obtain self' w' where f: "body_finish_now env CleanEof (?self\<lparr>remainder_wait := None\<rparr>) w = Some (self', w')"
      "body_ended (body_session (?self\<lparr>remainder_wait := None\<rparr>)) w self' w'" "decision (rb_disposition self') = Some DReusable"
      using body_finish_now_ended [OF open_body_update(2) [OF o], of CleanEof env None] by auto
    have "body_ended (body_session self) w self' w'" using f(2) by simp
    then show thesis
      by (intro that [of "Ready None" self' w'])
        (use over live f body_outcome_ended in \<open>auto simp: nxt poll_answer_def\<close>)
  next
    case pending
    define s1 where "s1 = (if p then ?self\<lparr>remainder_wait := checked_remainder ?self, rb_read_deadline := None\<rparr>
      else ?self\<lparr>remainder_wait := checked_remainder ?self\<rparr>)"
    have o1: "open_body s1 w" "body_session s1 = body_session self"
      using open_body_update(3) [OF open_body_update(2) [OF o]] open_body_update(2) [OF o] by (simp_all add: s1_def)
    then obtain ls l c where ls: "rb_driver s1 = Some ls" "in_use l c ls" by (auto simp: open_body_def)
    obtain r ls' w1 where r: "lease_poll_response_remainder (be_hooks env) ls w = (r, ls', w1)" by (metis prod_cases3)
    note kept = lease_poll_remainder_in_use [OF ls(2) r]
    let ?s2 = "s1\<lparr>rb_driver := Some ls'\<rparr>"
    have o2: "open_body ?s2 w1" "body_session ?s2 = body_session self"
      using o1 ls kept by (auto simp: open_body_def body_session_def)
    have step: "body_poll_next env first now later self w =
        (if r = Pending then Some (Pending, ?s2, w1) else poll_rest env now later ?s2 w1)"
      using pending live ls r by (simp add: nxt s1_def [symmetric])
    show thesis
    proof (cases "r = Pending")
      case True
      then show thesis using o2 kept
        by (intro that [of Pending ?s2 w1]) (simp_all add: step body_outcome_def poll_answer_def, simp add: open_body_def)
    next
      case False
      obtain q' self' w' where "poll_rest env now later ?s2 w1 = Some (q', self', w')" "body_outcome ?s2 w1 self' w'" "poll_answer q' self'"
        by (rule poll_rest_answer [OF o2(1)])
      then show thesis using False o2 kept
        by (intro that [of q' self' w']) (auto simp: step body_outcome_def body_ended_def)
    qed
  qed
qed

section \<open>Properties: a body ends once\<close>

datatype body_op = PollBody instant instant instant | DeclaredLength bool | DropBody | CloseBody

text \<open>An operation: the answers of polls, the body and the world.\<close>

definition body_exec ::
  "('d, 'b, 'h, 't, 's, 'w) body_env \<Rightarrow> body_op \<Rightarrow> ('d, 'b, 'h, 't, 's, 'w) ResponseBody \<Rightarrow> ('h, 't, 's) world \<Rightarrow>
   ((Error + bytes) option Poll list \<times> ('d, 'b, 'h, 't, 's, 'w) ResponseBody \<times> ('h, 't, 's) world) option" where
  "body_exec env op self w =
     (case op of
        PollBody t u v \<Rightarrow> map_option (\<lambda>(q, s). ([q], s)) (body_poll_next env t u v self w)
      | DeclaredLength allow \<Rightarrow> map_option (Pair []) (finish_declared_length env allow self w)
      | DropBody \<Rightarrow> map_option (Pair []) (body_drop env self w)
      | CloseBody \<Rightarrow> map_option (\<lambda>(_, s). ([], s)) (body_close env self w))"

fun body_run ::
  "('d, 'b, 'h, 't, 's, 'w) body_env \<Rightarrow> body_op list \<Rightarrow> ('d, 'b, 'h, 't, 's, 'w) ResponseBody \<Rightarrow> ('h, 't, 's) world \<Rightarrow>
   ((Error + bytes) option Poll list \<times> ('d, 'b, 'h, 't, 's, 'w) ResponseBody \<times> ('h, 't, 's) world) option" where
  "body_run env [] self w = Some ([], self, w)"
| "body_run env (op # ops) self w =
     Option.bind (body_exec env op self w) (\<lambda>(qs, self, w).
       map_option (\<lambda>(qs', s). (qs @ qs', s)) (body_run env ops self w))"

lemma finish_terminal: "rb_terminal self \<Longrightarrow> body_finish_now env ev self w = Some (self, w)"
  by (simp add: body_finish_now_def begin_terminal_def)

lemma body_exec_terminal:
  assumes "rb_terminal self"
  shows "body_exec env op self w = Some (case op of PollBody _ _ _ \<Rightarrow> [Ready None] | _ \<Rightarrow> [], self, w)"
  using assms
  by (cases op)
    (simp_all add: body_exec_def body_poll_next_def finish_declared_length_def body_drop_def body_close_def begin_terminal_def
      finish_terminal)

lemma body_run_terminal:
  "rb_terminal self \<Longrightarrow> \<exists>n. body_run env ops self w = Some (replicate n (Ready None), self, w)"
proof (induction ops)
  case (Cons op ops)
  then obtain n where "body_run env ops self w = Some (replicate n (Ready None), self, w)" by blast
  then show ?case using Cons.prems
    by (cases op) (auto simp: body_exec_terminal intro: exI [of _ "Suc n"] exI [of _ n])
qed simp

lemma body_exec_outcome:
  assumes "open_body self w" and "body_finite (be_frames env) frames"
  obtains qs self' w' where "body_exec env op self w = Some (qs, self', w')" "body_outcome self w self' w'"
    "\<forall>e. Ready (Some (Inl e)) \<in> set qs \<longrightarrow> rb_terminal self' \<and> decision (rb_disposition self') = Some DCloseDirty"
proof (cases op)
  case (PollBody t u v)
  obtain q self' w' where "body_poll_next env t u v self w = Some (q, self', w')" "body_outcome self w self' w'" "poll_answer q self'"
    by (rule body_poll_outcome [OF assms])
  then show thesis using PollBody
    by (intro that [of "[q]" self' w']) (auto simp: body_exec_def poll_answer_def)
next
  case (DeclaredLength allow)
  show thesis
  proof (cases "finish_declared_length env allow self w = Some (self, w)")
    case True
    then show thesis using DeclaredLength assms(1)
      by (intro that [of "[]" self w]) (simp_all add: body_exec_def body_outcome_def)
  next
    case False
    obtain self' w' where "body_finish_now env CleanEof (self\<lparr>remainder_wait := None\<rparr>) w = Some (self', w')"
      "body_ended (body_session (self\<lparr>remainder_wait := None\<rparr>)) w self' w'" "decision (rb_disposition self') = Some DReusable"
      using body_finish_now_ended [OF open_body_update(2) [OF assms(1)], of CleanEof env None] by auto
    then show thesis using DeclaredLength False
      by (intro that [of "[]" self' w'])
        (auto simp: body_exec_def finish_declared_length_def body_outcome_def split: if_splits)
  qed
next
  case DropBody
  obtain self' w' where "body_finish_now env Drop self w = Some (self', w')" "body_ended (body_session self) w self' w'"
    "decision (rb_disposition self') = Some DCloseDirty"
    using body_finish_now_ended [OF assms(1), of Drop env] by auto
  then show thesis using DropBody
    by (intro that [of "[]" self' w']) (simp_all add: body_exec_def body_drop_def body_outcome_def)
next
  case CloseBody
  obtain ls l c where o: "\<not> rb_terminal self" "pool_ok (w_pool w)" "rb_driver self = Some ls" "in_use l c ls"
    "disposition_inv (rb_disposition self)" "\<not> disposition_terminal (rb_disposition self)"
    using assms(1) by (auto simp: open_body_def)
  obtain ls' w' where e: "end_lease (be_ops env) (be_pool_ops env) EndAbort ls w = Some (ls', w')"
    "releases w' = releases w + (if ag_session_runtime (tl_active_exchange ls) then 1 else 0)"
    "idle_of (w_pool w') = idle_of (w_pool w)"
    using end_lease_body [OF o(2,4), of "be_ops env" "be_pool_ops env" EndAbort] by auto
  define s1 where "s1 = snd (begin_terminal Close self)"
  have b: "begin_terminal Close self = (Some ls, s1)" "rb_terminal s1" using o by (simp_all add: s1_def begin_terminal_def)
  obtain r where r: "lease_abort_and_wait (be_ops env) (be_pool_ops env) ls w = Some (r, ls', w')"
    using e(1) by (auto simp: end_lease_def)
  have c: "body_close env self w = Some (r, s1, w')"
    using b(2) by (simp add: body_close_def b(1) r body_drop_def finish_terminal)
  have "body_ended (body_session self) w s1 w'"
    unfolding body_ended_def
  proof (intro conjI)
    show "releases w' = releases w + (if body_session self then 1 else 0)" using e(2) o(3) by (simp add: body_session_def)
    show "idle_of (w_pool w') = idle_of (w_pool w) \<or> decision (rb_disposition s1) = Some DReusable \<and>
        w_effects w' = w_effects w \<and> (\<exists>k c. idle_of (w_pool w') = (idle_of (w_pool w))(k := idle_of (w_pool w) k @ [c]))"
      by (rule disjI1 [OF e(3)])
  qed (use o(1) decision_apply [OF o(5,6), of Close] in \<open>simp_all add: s1_def begin_terminal_def\<close>)
  then show thesis using CloseBody c by (intro that [of "[]" s1 w']) (simp_all add: body_exec_def body_outcome_def)
qed

text \<open>
  C3. A response body ends once. However it is polled, finished at its declared length, dropped or
  closed, over a source that sends finitely many frames: no operation panics or runs for ever; as
  long as the body is open nothing of the pool changes, no socket is touched and no release is shown;
  it ends at most once, with one decision and one release of its lease, the connection becoming idle
  only after a decision that it is reusable; after an error there is no such decision and the
  connection is not idle again; and nothing that is done after the end changes anything.
\<close>
theorem response_body_ends_once:
  assumes "open_body self w" and "body_finite (be_frames env) frames"
  shows "\<exists>qs self' w'. body_run env ops self w = Some (qs, self', w') \<and>
    (if rb_terminal self'
     then body_ended (body_session self) w self' w' \<and> (\<exists>n. body_run env ops' self' w' = Some (replicate n (Ready None), self', w'))
     else w_pool w' = w_pool w \<and> w_effects w' = w_effects w \<and> releases w' = releases w) \<and>
    (Ready (Some (Inl e)) \<in> set qs \<longrightarrow>
       rb_terminal self' \<and> decision (rb_disposition self') = Some DCloseDirty \<and> idle_of (w_pool w') = idle_of (w_pool w))"
  using assms(1)
proof (induction ops arbitrary: self w)
  case Nil
  then show ?case by (simp add: open_body_def)
next
  case (Cons op ops)
  obtain qs s1 w1 where x: "body_exec env op self w = Some (qs, s1, w1)" and o: "body_outcome self w s1 w1"
    and err: "\<forall>e. Ready (Some (Inl e)) \<in> set qs \<longrightarrow> rb_terminal s1 \<and> decision (rb_disposition s1) = Some DCloseDirty"
    by (rule body_exec_outcome [where op = op, OF Cons.prems assms(2)])
  show ?case
  proof (cases "rb_terminal s1")
    case True
    then have ended: "body_ended (body_session self) w s1 w1" using o by (auto simp: body_outcome_def open_body_def)
    obtain n where "body_run env ops s1 w1 = Some (replicate n (Ready None), s1, w1)" using body_run_terminal [OF True] by blast
    then show ?thesis using x True ended body_run_terminal [OF True, of env ops' w1] err
      by (auto simp: body_ended_def)
  next
    case False
    then have open1: "open_body s1 w1" and same: "body_session s1 = body_session self" "w_pool w1 = w_pool w"
      "w_effects w1 = w_effects w" "releases w1 = releases w"
      using o by (auto simp: body_outcome_def body_ended_def)
    obtain qs' self' w' where "body_run env ops s1 w1 = Some (qs', self', w')"
      "if rb_terminal self' then body_ended (body_session s1) w1 self' w' \<and>
         (\<exists>n. body_run env ops' self' w' = Some (replicate n (Ready None), self', w'))
       else w_pool w' = w_pool w1 \<and> w_effects w' = w_effects w1 \<and> releases w' = releases w1"
      "Ready (Some (Inl e)) \<in> set qs' \<longrightarrow>
         rb_terminal self' \<and> decision (rb_disposition self') = Some DCloseDirty \<and> idle_of (w_pool w') = idle_of (w_pool w1)"
      using Cons.IH [OF open1] by blast
    then show ?thesis using x False same err by (auto simp: body_ended_def split: if_splits)
  qed
qed

text \<open>A response of two frames over the sample lease, polled and dropped.\<close>

definition sample_response :: "(HeaderName \<Rightarrow> HeaderValue list, Frame list, unit, nat, nat, unit) TransportResponse" where
  "sample_response = \<lparr>tp_head = \<lparr>pt_status = 200, pt_version = lit ''HTTP/1.1'',
       pt_headers = (\<lambda>n. if n = lit ''content-length'' then [[51]] else []), pt_reason_phrase = None\<rparr>,
     tp_body = [DataFrame [1, 2], DataFrame [3]], tp_url = [], tp_lease = sample_lease, tp_read_timeout = Some 5,
     tp_total_timeout = None, tp_total_deadline = None, tp_content_codecs = codecs_new True True, tp_raw_headers = []\<rparr>"

definition sample_response_env :: "(HeaderName \<Rightarrow> HeaderValue list) response_env" where
  "sample_response_env = \<lparr>re_headers = multi_map, re_to_str = (\<lambda>v. Some (map char_from v)), re_canonical_reason = (\<lambda>_. None)\<rparr>"

definition sample_body_env :: "(codec, Frame list, unit, nat, nat, unit) body_env" where
  "sample_body_env = \<lparr>be_decoders = reject_all, be_frames = list_body, be_hooks = default_hooks, be_ops = calm_ops,
     be_pool_ops = calm_ops\<rparr>"

definition sample_body :: "(codec, Frame list, unit, nat, nat, unit) ResponseBody" where
  "sample_body = fst (the (take_body sample_response_env reject_all True (from_transport sample_response)))"

lemma sample_body_open: "open_body sample_body sample_world" "body_session sample_body"
proof -
  have "rb_driver sample_body = Some sample_lease" "rb_disposition sample_body = disposition_default"
    "\<not> rb_terminal sample_body" "rb_source sample_body \<noteq> None" "rb_read_deadline sample_body = None"
    "rb_total_deadline sample_body = None"
    by (simp_all add: sample_body_def take_body_def from_transport_def sample_response_def Let_def)
  then show "open_body sample_body sample_world" "body_session sample_body"
    using sample_in_use disposition_inv_default
    by (auto simp: open_body_def disposition_terminal_def disposition_default_def body_session_def sample_lease_def
        transport_lease_new_def guard_new_def case_prod_beta)
qed

lemma drop_terminal:
  "body_run env (op # [DropBody]) self w = Some (qs, self', w') \<Longrightarrow> rb_terminal self'"
  by (auto simp: body_exec_def body_drop_def body_finish_now_def begin_terminal_def Let_def
      split: Option.bind_splits if_splits option.splits)

theorem response_body_ends_once_witness:
  "\<exists>qs self' w'. body_run sample_body_env [PollBody 1 1 1, DropBody] sample_body sample_world = Some (qs, self', w') \<and>
     rb_terminal self' \<and> releases w' = releases sample_world + 1"
proof -
  have "body_finite (be_frames sample_body_env) length" using list_body_finite by (simp add: sample_body_env_def)
  from response_body_ends_once [OF sample_body_open(1) this, of "[PollBody 1 1 1, DropBody]" "[]"]
  obtain qs self' w' where run: "body_run sample_body_env [PollBody 1 1 1, DropBody] sample_body sample_world = Some (qs, self', w')"
    and e: "rb_terminal self' \<Longrightarrow> body_ended (body_session sample_body) sample_world self' w'"
    by meson
  then show ?thesis using drop_terminal [OF run] sample_body_open(2) by (auto simp: body_ended_def)
qed

end
