(* ===== verification/Ip_Addr.thy ===== *)
theory Ip_Addr
  imports Prelude
begin

text \<open>
  Textual IP addresses, as \<open>str::parse\<close> of the standard library reads them: a parser takes the
  remaining text and returns a value and the text after it, or \<open>None\<close> with nothing consumed.
\<close>

datatype IpAddr = V4 bytes | V6 "u16 list"

fun take_digits :: "nat \<Rightarrow> (rchar \<Rightarrow> nat option) \<Rightarrow> rstr \<Rightarrow> nat list \<times> rstr" where
  "take_digits 0 digit s = ([], s)"
| "take_digits (Suc n) digit s =
     (case s of
        [] \<Rightarrow> ([], [])
      | c # s' \<Rightarrow>
          (case digit c of
             None \<Rightarrow> ([], s)
           | Some d \<Rightarrow> (case take_digits n digit s' of (ds, rest) \<Rightarrow> (d # ds, rest))))"

definition decimal_digit :: "rchar \<Rightarrow> nat option" where
  "decimal_digit c = (if is_ascii_digit c then Some (c - 48) else None)"

definition hex_digit :: "rchar \<Rightarrow> nat option" where
  "hex_digit c =
     (if is_ascii_digit c then Some (c - 48)
      else if 97 \<le> c \<and> c \<le> 102 then Some (c - 87)
      else if 65 \<le> c \<and> c \<le> 70 then Some (c - 55)
      else None)"

text \<open>
  \<open>read_number\<close>: at least one digit and at most the given number of them, a further digit being
  an error, with or without leading zeroes, and no overflow.
\<close>

definition read_number ::
  "nat \<Rightarrow> (rchar \<Rightarrow> nat option) \<Rightarrow> nat \<Rightarrow> bool \<Rightarrow> nat \<Rightarrow> rstr \<Rightarrow> (nat \<times> rstr) option" where
  "read_number radix digit max_digits allow_zero_prefix bound s =
     (case take_digits (Suc max_digits) digit s of (ds, rest) \<Rightarrow>
        let value = foldl (\<lambda>n d. radix * n + d) 0 ds in
        if ds = [] \<or> length ds > max_digits \<or> bound \<le> value \<or>
           (\<not> allow_zero_prefix \<and> hd ds = 0 \<and> length ds > 1)
        then None else Some (value, rest))"

definition read_octet :: "rstr \<Rightarrow> (nat \<times> rstr) option" where
  "read_octet = read_number 10 decimal_digit 3 False 256"

definition read_group :: "rstr \<Rightarrow> (nat \<times> rstr) option" where
  "read_group = read_number 16 hex_digit 4 True 65536"

text \<open>\<open>read_separator\<close>: the separator before every element but the first.\<close>

definition read_separator :: "rchar \<Rightarrow> bool \<Rightarrow> (rstr \<Rightarrow> ('a \<times> rstr) option) \<Rightarrow> rstr \<Rightarrow> ('a \<times> rstr) option" where
  "read_separator sep first inner s =
     (if first then inner s
      else case s of c # rest \<Rightarrow> if c = sep then inner rest else None | [] \<Rightarrow> None)"

fun read_octets :: "nat \<Rightarrow> bool \<Rightarrow> rstr \<Rightarrow> (bytes \<times> rstr) option" where
  "read_octets 0 first s = Some ([], s)"
| "read_octets (Suc n) first s =
     (case read_separator (asc CHR ''.'') first read_octet s of
        None \<Rightarrow> None
      | Some (o1, rest) \<Rightarrow> map_option (\<lambda>(os, rest). (word_of_nat o1 # os, rest)) (read_octets n False rest))"

definition read_ipv4_addr :: "rstr \<Rightarrow> (bytes \<times> rstr) option" where
  "read_ipv4_addr s = read_octets 4 True s"

text \<open>\<open>read_groups\<close>: the groups read into the slots left, and whether an embedded IPv4 address ended them.\<close>

fun read_groups :: "nat \<Rightarrow> bool \<Rightarrow> rstr \<Rightarrow> u16 list \<times> bool \<times> rstr" where
  "read_groups 0 first s = ([], False, s)"
| "read_groups (Suc slots) first s =
     (case (if slots > 0 then read_separator (asc CHR '':'') first read_ipv4_addr s else None) of
        Some ([a, b, c, d], rest) \<Rightarrow>
          ([ucast a * 256 + ucast b, ucast c * 256 + ucast d], True, rest)
      | _ \<Rightarrow>
          (case read_separator (asc CHR '':'') first read_group s of
             None \<Rightarrow> ([], False, s)
           | Some (g, rest) \<Rightarrow>
               (case read_groups slots False rest of (gs, v4, rest) \<Rightarrow> (word_of_nat g # gs, v4, rest))))"

definition read_ipv6_addr :: "rstr \<Rightarrow> (u16 list \<times> rstr) option" where
  "read_ipv6_addr s =
     (case read_groups 8 True s of (groups, v4, rest) \<Rightarrow>
        if length groups = 8 then Some (groups, rest)
        else if v4 then None
        else case strip_prefix (lit ''::'') rest of
            None \<Rightarrow> None
          | Some rest \<Rightarrow>
              (case read_groups (8 - (length groups + 1)) True rest of (later, _, rest) \<Rightarrow>
                 Some (groups @ replicate (8 - length groups - length later) 0 @ later, rest)))"

definition parse_ip_addr :: "rstr \<Rightarrow> IpAddr option" where
  "parse_ip_addr s =
     (case read_ipv4_addr s of
        Some (os, rest) \<Rightarrow> if rest = [] then Some (V4 os) else None
      | None \<Rightarrow>
          (case read_ipv6_addr s of
             Some (gs, rest) \<Rightarrow> if rest = [] then Some (V6 gs) else None
           | None \<Rightarrow> None))"

text \<open>\<open>octets\<close> and \<open>u16::to_be_bytes\<close>.\<close>

definition to_be_bytes :: "u16 \<Rightarrow> bytes" where
  "to_be_bytes w = [ucast (drop_bit 8 w), ucast w]"

definition octets :: "IpAddr \<Rightarrow> bytes" where
  "octets a = (case a of V4 os \<Rightarrow> os | V6 gs \<Rightarrow> concat (map to_be_bytes gs))"

section \<open>Lemmas\<close>

lemma read_octets_length: "read_octets n first s = Some (os, rest) \<Longrightarrow> length os = n"
  by (induction n first s arbitrary: os rest rule: read_octets.induct) (auto split: option.splits)

lemma read_groups_length: "read_groups n first s = (gs, v4, rest) \<Longrightarrow> length gs \<le> n"
  by (induction n first s arbitrary: gs v4 rest rule: read_groups.induct)
    (fastforce split: option.splits list.splits prod.splits if_splits)+

text \<open>An IPv4 address has four octets and an IPv6 address sixteen.\<close>

lemma parse_ip_addr_octets:
  assumes "parse_ip_addr s = Some a"
  shows "length (octets a) = (case a of V4 _ \<Rightarrow> 4 | V6 _ \<Rightarrow> 16)"
proof (cases "read_ipv4_addr s")
  case (Some p)
  then show ?thesis using assms read_octets_length [of 4 True s]
    by (auto simp: parse_ip_addr_def read_ipv4_addr_def octets_def split: if_splits prod.splits)
next
  case None
  then obtain gs where gs: "read_ipv6_addr s = Some (gs, [])" "a = V6 gs"
    using assms by (auto simp: parse_ip_addr_def split: option.splits if_splits prod.splits)
  obtain head v4 rest where head: "read_groups 8 True s = (head, v4, rest)" by (metis prod_cases3)
  have "length gs = 8"
  proof (cases "length head = 8")
    case True
    then show ?thesis using gs(1) head by (simp add: read_ipv6_addr_def)
  next
    case False
    then have "length head < 8" using read_groups_length [OF head] by simp
    then show ?thesis using gs(1) head False
      by (auto simp: read_ipv6_addr_def split: if_splits option.splits prod.splits dest!: read_groups_length)
  qed
  then show ?thesis by (simp add: gs(2) octets_def to_be_bytes_def length_concat comp_def sum_list_triv)
qed

lemma parse_ip_addr_examples:
  "parse_ip_addr (lit ''127.0.0.1'') = Some (V4 [127, 0, 0, 1])"
  "parse_ip_addr (lit ''127.0.0.01'') = None"
  "parse_ip_addr (lit ''::1'') = Some (V6 [0, 0, 0, 0, 0, 0, 0, 1])"
  "parse_ip_addr (lit ''fe80::1.2.3.4'') = Some (V6 [0xfe80, 0, 0, 0, 0, 0, 0x102, 0x304])"
  "parse_ip_addr (lit ''example.com'') = None"
  by code_simp+

end
