(* ===== verification/Head_Io.thy ===== *)
theory Head_Io
  imports Response_Head
begin

text \<open>
  The stream \<open>ResponseHeadIo\<close> of \<open>crates/requests/src/transport/mod.rs\<close>, which puts the observer of
  \<open>Response_Head\<close> between the HTTP library and the connection. The connection underneath is an
  argument.
\<close>

section \<open>The stream\<close>

text \<open>
  The stream under the observer, with the traits \<open>AsyncRead\<close> and \<open>AsyncWrite\<close>: a read is given the
  room of the caller's buffer and yields the bytes it puts there.
\<close>

record 'io async_io =
  as_poll_read :: "'io \<Rightarrow> nat \<Rightarrow> (io_error + bytes) Poll \<times> 'io"
  as_poll_write :: "'io \<Rightarrow> bytes \<Rightarrow> (io_error + nat) Poll \<times> 'io"
  as_poll_flush :: "'io \<Rightarrow> (io_error + unit) Poll \<times> 'io"
  as_poll_shutdown :: "'io \<Rightarrow> (io_error + unit) Poll \<times> 'io"

record 'io ResponseHeadIo =
  io_inner :: 'io
  observation :: ResponseHeadState
  injected :: bytes
  outgoing :: bytes
  outgoing_offset :: nat
  outgoing_head_complete :: bool
  io_generation :: u64

definition head_io_new :: "'io \<Rightarrow> ResponseHeadState \<Rightarrow> 'io ResponseHeadIo" where
  "head_io_new inner obs =
     \<lparr>io_inner = inner, observation = obs, injected = [], outgoing = [], outgoing_offset = 0,
      outgoing_head_complete = False, io_generation = 0\<rparr>"

text \<open>What both directions do first: a new exchange has begun.\<close>

definition sync_generation :: "'io ResponseHeadIo \<Rightarrow> 'io ResponseHeadIo" where
  "sync_generation this =
     (if rh_generation (observation this) \<noteq> io_generation this then
        this\<lparr>outgoing := [], outgoing_offset := 0, outgoing_head_complete := False,
             io_generation := rh_generation (observation this)\<rparr>
      else this)"

definition fill_injected :: "nat \<Rightarrow> 'io ResponseHeadIo \<Rightarrow> bytes \<times> 'io ResponseHeadIo" where
  "fill_injected room this =
     (let amount = min room (length (injected this)) in
      (take amount (injected this), this\<lparr>injected := drop amount (injected this)\<rparr>))"

definition write_zero :: io_error where
  "write_zero = \<lparr>io_display = lit ''write zero'', io_raw_os_error = None\<rparr>"

text \<open>The loop of \<open>poll_drain_outgoing\<close>: each turn that goes on has written at least a byte.\<close>

function drain_loop ::
  "'io async_io \<Rightarrow> bytes \<Rightarrow> nat \<Rightarrow> 'io \<Rightarrow> (io_error + unit) Poll \<times> nat \<times> 'io" where
  "drain_loop io out offset inner =
     (if offset < length out then
        (case as_poll_write io inner (drop offset out) of
           (Ready (Inr 0), inner') \<Rightarrow> (Ready (Inl write_zero), offset, inner')
         | (Ready (Inr (Suc n)), inner') \<Rightarrow> drain_loop io out (offset + Suc n) inner'
         | (Ready (Inl error), inner') \<Rightarrow> (Ready (Inl error), offset, inner')
         | (Pending, inner') \<Rightarrow> (Pending, offset, inner'))
      else (Ready (Inr ()), offset, inner))"
  by pat_completeness auto
termination by (relation "measure (\<lambda>(_, out, offset, _). length out - offset)") auto

declare drain_loop.simps [simp del]

definition poll_drain_outgoing ::
  "'io async_io \<Rightarrow> 'io ResponseHeadIo \<Rightarrow> (io_error + unit) Poll \<times> 'io ResponseHeadIo" where
  "poll_drain_outgoing io this =
     (case drain_loop io (outgoing this) (outgoing_offset this) (io_inner this) of
        (Ready (Inr ()), _, inner) \<Rightarrow>
          (Ready (Inr ()), this\<lparr>io_inner := inner, outgoing := [], outgoing_offset := 0\<rparr>)
      | (r, offset, inner) \<Rightarrow> (r, this\<lparr>io_inner := inner, outgoing_offset := offset\<rparr>))"

definition head_poll_write ::
  "'io async_io \<Rightarrow> 'io ResponseHeadIo \<Rightarrow> bytes \<Rightarrow> (io_error + nat) Poll \<times> 'io ResponseHeadIo" where
  "head_poll_write io self buffer =
     (let this = sync_generation self;
          (drained, this) =
            (if outgoing_offset this < length (outgoing this) then poll_drain_outgoing io this
             else (Ready (Inr ()), this)) in
      case drained of
        Ready (Inl error) \<Rightarrow> (Ready (Inl error), this)
      | Pending \<Rightarrow> (Pending, this)
      | Ready (Inr ()) \<Rightarrow>
          if outgoing_head_complete this then
            (let (r, inner) = as_poll_write io (io_inner this) buffer in (r, this\<lparr>io_inner := inner\<rparr>))
          else
            let out = outgoing this @ buffer in
            if contains_sub out (crlf @ crlf) then
              (Ready (Inr (length buffer)),
               this\<lparr>outgoing := rewrite_python_request_head (observation this) out,
                    outgoing_head_complete := True\<rparr>)
            else (Ready (Inr (length buffer)), this\<lparr>outgoing := out\<rparr>))"

definition head_poll_flush ::
  "'io async_io \<Rightarrow> 'io ResponseHeadIo \<Rightarrow> (io_error + unit) Poll \<times> 'io ResponseHeadIo" where
  "head_poll_flush io this =
     (case poll_drain_outgoing io this of
        (Ready (Inr ()), this) \<Rightarrow>
          (let (r, inner) = as_poll_flush io (io_inner this) in (r, this\<lparr>io_inner := inner\<rparr>))
      | result \<Rightarrow> result)"

definition head_poll_shutdown ::
  "'io async_io \<Rightarrow> 'io ResponseHeadIo \<Rightarrow> (io_error + unit) Poll \<times> 'io ResponseHeadIo" where
  "head_poll_shutdown io this =
     (case poll_drain_outgoing io this of
        (Ready (Inr ()), this) \<Rightarrow>
          (let (r, inner) = as_poll_shutdown io (io_inner this) in (r, this\<lparr>io_inner := inner\<rparr>))
      | result \<Rightarrow> result)"

text \<open>\<open>poll_read\<close>: the poll, the bytes put into the caller's buffer and the stream after it.\<close>

definition head_poll_read ::
  "httparse \<Rightarrow> 'io async_io \<Rightarrow> 'io ResponseHeadIo \<Rightarrow> nat \<Rightarrow>
   ((io_error + unit) Poll \<times> bytes \<times> 'io ResponseHeadIo) option" where
  "head_poll_read parse io self room =
     (let this = sync_generation self in
      if injected this \<noteq> [] then
        (let (bs, this) = fill_injected room this in Some (Ready (Inr ()), bs, this))
      else if buffers_python_response_head (observation this) then
        (case as_poll_read io (io_inner this) 8192 of
           (Ready (Inr []), inner) \<Rightarrow>
             (case complete_python_response_on_eof parse (observation this) of
                None \<Rightarrow> None
              | Some (extra, obs) \<Rightarrow>
                  let this = this\<lparr>io_inner := inner, observation := obs\<rparr> in
                  case extra of
                    None \<Rightarrow> Some (Ready (Inr ()), [], this)
                  | Some i \<Rightarrow>
                      (let (bs, this) = fill_injected room (this\<lparr>injected := injected this @ i\<rparr>) in
                       Some (Ready (Inr ()), bs, this)))
         | (Ready (Inr filled), inner) \<Rightarrow>
             (case buffer_python_response_bytes parse filled (observation this) of
                None \<Rightarrow> None
              | Some (extra, obs) \<Rightarrow>
                  let this = this\<lparr>io_inner := inner, observation := obs\<rparr> in
                  case extra of
                    None \<Rightarrow> Some (Pending, [], this)
                  | Some i \<Rightarrow>
                      (let (bs, this) = fill_injected room (this\<lparr>injected := injected this @ i\<rparr>) in
                       Some (Ready (Inr ()), bs, this)))
         | (Ready (Inl error), inner) \<Rightarrow> Some (Ready (Inl error), [], this\<lparr>io_inner := inner\<rparr>)
         | (Pending, inner) \<Rightarrow> Some (Pending, [], this\<lparr>io_inner := inner\<rparr>))
      else
        (case as_poll_read io (io_inner this) room of
           (Ready (Inr []), inner) \<Rightarrow>
             (let (extra, obs) = complete_on_eof parse (observation this);
                  this = this\<lparr>io_inner := inner, observation := obs\<rparr> in
              case extra of
                None \<Rightarrow> Some (Ready (Inr ()), [], this)
              | Some i \<Rightarrow>
                  (let (bs, this) = fill_injected room (this\<lparr>injected := injected this @ i\<rparr>) in
                   Some (Ready (Inr ()), bs, this)))
         | (Ready (Inr read), inner) \<Rightarrow>
             (case head_observe parse read (observation this) of
                None \<Rightarrow> None
              | Some obs \<Rightarrow> Some (Ready (Inr ()), read, this\<lparr>io_inner := inner, observation := obs\<rparr>))
         | (Ready (Inl error), inner) \<Rightarrow> Some (Ready (Inl error), [], this\<lparr>io_inner := inner\<rparr>)
         | (Pending, inner) \<Rightarrow> Some (Pending, [], this\<lparr>io_inner := inner\<rparr>)))"



section \<open>The write side as a pipe\<close>

text \<open>
  What the trait \<open>AsyncWrite\<close> documents: an accepted write takes a prefix of the buffer and any
  other outcome takes nothing. \<open>written\<close> is the observation of all bytes taken so far.
\<close>

definition write_documented :: "'io async_io \<Rightarrow> ('io \<Rightarrow> bytes) \<Rightarrow> bool" where
  "write_documented io written \<longleftrightarrow>
     (\<forall>inner bs. case as_poll_write io inner bs of
        (Ready (Inr n), inner') \<Rightarrow> n \<le> length bs \<and> written inner' = written inner @ take n bs
      | (_, inner') \<Rightarrow> written inner' = written inner) \<and>
     (\<forall>inner. written (snd (as_poll_flush io inner)) = written inner) \<and>
     (\<forall>inner. written (snd (as_poll_shutdown io inner)) = written inner)"

lemma write_documentedD:
  assumes "write_documented io written"
  shows "as_poll_write io inner bs = (Ready (Inr n), inner') \<Longrightarrow>
      n \<le> length bs \<and> written inner' = written inner @ take n bs"
    and "as_poll_write io inner bs = (Ready (Inl e), inner') \<Longrightarrow> written inner' = written inner"
    and "as_poll_write io inner bs = (Pending, inner') \<Longrightarrow> written inner' = written inner"
  using assms by (auto simp: write_documented_def dest!: spec [of _ inner] spec [of _ bs])

text \<open>The bytes accepted and not yet passed on.\<close>

definition unsent :: "'io ResponseHeadIo \<Rightarrow> bytes" where
  "unsent this = drop (outgoing_offset this) (outgoing this)"

definition io_ok :: "'io ResponseHeadIo \<Rightarrow> bool" where
  "io_ok this \<longleftrightarrow> (if outgoing this = [] then outgoing_offset this = 0
     else outgoing_offset this < length (outgoing this))"

lemma poll_cases:
  obtains "q = Pending" | e where "q = Ready (Inl e)" | "q = Ready (Inr ())"
proof (cases q)
  case (Ready x)
  then show thesis using that(2,3) by (cases x) auto
qed (use that(1) in blast)

lemma drain_loop_spec:
  assumes "write_documented io written" and "offset \<le> length out"
    and "drain_loop io out offset inner = (r, offset', inner')"
  shows "offset \<le> offset' \<and> offset' \<le> length out \<and>
    written inner' @ drop offset' out = written inner @ drop offset out \<and>
    (r = Ready (Inr ()) \<longleftrightarrow> offset' = length out)"
  using assms(2,3)
proof (induction "length out - offset" arbitrary: offset inner rule: less_induct)
  case less
  show ?case
  proof (cases "offset < length out")
    case False
    then show ?thesis using less.prems by (simp add: drain_loop.simps)
  next
    case True
    note w = write_documentedD [OF assms(1), of inner "drop offset out"]
    obtain q inner1 where q: "as_poll_write io inner (drop offset out) = (q, inner1)" by fastforce
    consider (more) n where "q = Ready (Inr (Suc n))" | (zero) "q = Ready (Inr 0)" | (error) e where "q = Ready (Inl e)"
      | (pending) "q = Pending" by (metis Poll.exhaust old.nat.exhaust sum.exhaust)
    then show ?thesis
    proof cases
      case more
      have d: "Suc n \<le> length out - offset" "written inner1 = written inner @ take (Suc n) (drop offset out)"
        using w(1) q more by auto
      have step: "drain_loop io out (offset + Suc n) inner1 = (r, offset', inner')"
        using less.prems(2) q more True by (simp add: drain_loop.simps [of io out offset])
      have "written inner1 @ drop (offset + Suc n) out = written inner @ drop offset out"
        using d(2) append_take_drop_id [of "Suc n" "drop offset out"] by (simp add: add.commute del: append_take_drop_id)
      moreover have "length out - (offset + Suc n) < length out - offset" "offset + Suc n \<le> length out"
        using d(1) True by linarith+
      ultimately show ?thesis using less.hyps [OF _ _ step] by (metis add_leD1)
    next
      case zero
      then show ?thesis using w(1) q True less.prems by (auto simp: drain_loop.simps [of io out offset])
    next
      case error
      then show ?thesis using w(2) q True less.prems by (auto simp: drain_loop.simps [of io out offset])
    next
      case pending
      then show ?thesis using w(3) q True less.prems by (auto simp: drain_loop.simps [of io out offset])
    qed
  qed
qed

text \<open>Draining moves bytes from the buffer to the stream and nothing else.\<close>

lemma poll_drain_spec:
  assumes "write_documented io written" and "io_ok this" and "poll_drain_outgoing io this = (r, this')"
  shows "written (io_inner this') @ unsent this' = written (io_inner this) @ unsent this"
    and "io_ok this'" and "(r = Ready (Inr ())) = (unsent this' = [])"
    and "observation this' = observation this" "outgoing_head_complete this' = outgoing_head_complete this"
      "io_generation this' = io_generation this"
proof -
  obtain q off inner where q: "drain_loop io (outgoing this) (outgoing_offset this) (io_inner this) = (q, off, inner)"
    by (metis prod_cases3)
  have "outgoing_offset this \<le> length (outgoing this)" using assms(2) by (auto simp: io_ok_def split: if_splits)
  note d = drain_loop_spec [OF assms(1) this q]
  let ?new = "if q = Ready (Inr ()) then this\<lparr>io_inner := inner, outgoing := [], outgoing_offset := 0\<rparr>
      else this\<lparr>io_inner := inner, outgoing_offset := off\<rparr>"
  consider (pending) "q = Pending" | (error) e where "q = Ready (Inl e)" | (drained) "q = Ready (Inr ())"
    by (rule poll_cases [of q])
  then have "poll_drain_outgoing io this = (q, ?new)" by cases (simp_all add: poll_drain_outgoing_def q split: unit.split)
  then have r: "r = q" and this': "this' = ?new" using assms(3) by (simp_all only: prod.inject)
  show "written (io_inner this') @ unsent this' = written (io_inner this) @ unsent this"
    unfolding this' unsent_def using d by (cases "q = Ready (Inr ())") auto
  show "io_ok this'" "(r = Ready (Inr ())) = (unsent this' = [])"
    unfolding r this' io_ok_def unsent_def using d assms(2) [unfolded io_ok_def]
    by (cases "q = Ready (Inr ())"; auto split: if_splits)+
  show "observation this' = observation this" "outgoing_head_complete this' = outgoing_head_complete this"
      "io_generation this' = io_generation this"
    by (simp_all add: this')
qed

lemma sync_same: "rh_generation (observation this) = io_generation this \<Longrightarrow> sync_generation this = this"
  by (simp add: sync_generation_def)

text \<open>Whatever was pending goes first; then the write sees an empty buffer.\<close>

lemma drain_first:
  assumes "write_documented io written" and "io_ok this"
    and "(if outgoing_offset this < length (outgoing this) then poll_drain_outgoing io this
          else (Ready (Inr ()), this)) = (r, this')"
  shows "written (io_inner this') @ unsent this' = written (io_inner this) @ unsent this \<and> io_ok this' \<and>
    (r = Ready (Inr ()) \<longrightarrow> outgoing this' = [] \<and> outgoing_offset this' = 0) \<and>
    observation this' = observation this \<and> outgoing_head_complete this' = outgoing_head_complete this \<and>
    io_generation this' = io_generation this"
proof (cases "outgoing_offset this < length (outgoing this)")
  case True
  then have "poll_drain_outgoing io this = (r, this')" using assms(3) by simp
  note d = poll_drain_spec [OF assms(1,2) this]
  have "unsent this' = [] \<Longrightarrow> outgoing this' = [] \<and> outgoing_offset this' = 0"
    using d(2) by (auto simp: io_ok_def unsent_def split: if_splits)
  then show ?thesis using d by blast
next
  case False
  then have "r = Ready (Inr ())" "this' = this" using assms(3) by simp_all
  then show ?thesis using assms(2) False by (simp add: io_ok_def split: if_splits)
qed

lemma head_write_step:
  assumes "write_documented io written" and "io_ok self"
    and "rh_generation (observation self) = io_generation self"
    and "head_poll_write io self buffer = (r, self')"
  shows "io_ok self' \<and> observation self' = observation self \<and> io_generation self' = io_generation self \<and>
    (case r of
       Ready (Inr n) \<Rightarrow>
         n \<le> length buffer \<and>
         (if outgoing_head_complete self
          then written (io_inner self') @ unsent self' = written (io_inner self) @ unsent self @ take n buffer
          else n = length buffer \<and> written (io_inner self') = written (io_inner self) @ unsent self \<and>
            unsent self' = (if contains_sub buffer (crlf @ crlf)
              then rewrite_python_request_head (observation self) buffer else buffer))
     | _ \<Rightarrow> written (io_inner self') @ unsent self' = written (io_inner self) @ unsent self)"
proof -
  obtain q this where q: "(if outgoing_offset self < length (outgoing self) then poll_drain_outgoing io self
      else (Ready (Inr ()), self)) = (q, this)" by fastforce
  note d = drain_first [OF assms(1,2) q]
  have w: "head_poll_write io self buffer = (case q of Ready (Inl error) \<Rightarrow> (Ready (Inl error), this)
      | Pending \<Rightarrow> (Pending, this)
      | Ready (Inr ()) \<Rightarrow>
          if outgoing_head_complete this then
            (let (r, inner) = as_poll_write io (io_inner this) buffer in (r, this\<lparr>io_inner := inner\<rparr>))
          else
            let out = outgoing this @ buffer in
            if contains_sub out (crlf @ crlf) then
              (Ready (Inr (length buffer)),
               this\<lparr>outgoing := rewrite_python_request_head (observation this) out,
                    outgoing_head_complete := True\<rparr>)
            else (Ready (Inr (length buffer)), this\<lparr>outgoing := out\<rparr>))"
    by (simp only: head_poll_write_def sync_same [OF assms(3)] Let_def q prod.case)
  consider (pending) "q = Pending" | (error) e where "q = Ready (Inl e)" | (drained) "q = Ready (Inr ())"
    by (rule poll_cases [of q])
  then show ?thesis
  proof cases
    case pending
    then show ?thesis using d w assms(4) by simp
  next
    case error
    then show ?thesis using d w assms(4) by simp
  next
    case drained
    then have empty: "outgoing this = []" "outgoing_offset this = 0" "unsent this = []"
      using d by (simp_all add: unsent_def)
    show ?thesis
    proof (cases "outgoing_head_complete self")
      case False
      then have "(r, self') = (Ready (Inr (length buffer)), if contains_sub buffer (crlf @ crlf)
          then this\<lparr>outgoing := rewrite_python_request_head (observation self) buffer, outgoing_head_complete := True\<rparr>
          else this\<lparr>outgoing := buffer\<rparr>)"
        using d empty unfolding assms(4) [symmetric] w drained by (simp add: Let_def split: unit.split)
      then show ?thesis using False d empty by (auto simp: io_ok_def unsent_def)
    next
      case True
      obtain p inner where p: "as_poll_write io (io_inner this) buffer = (p, inner)" by fastforce
      have rs: "r = p" "self' = this\<lparr>io_inner := inner\<rparr>"
        using assms(4) d True p unfolding w drained by (auto split: unit.splits)
      note doc = write_documentedD [OF assms(1), of "io_inner this" buffer]
      have same: "io_ok self'" "unsent self' = []" "observation self' = observation self"
        "io_generation self' = io_generation self" using d empty by (simp_all add: rs io_ok_def unsent_def)
      show ?thesis using same doc p rs d empty True by (auto split: Poll.split sum.split)
    qed
  qed
qed

text \<open>Writes, flushes and a shutdown in any order; the bytes the caller was told are taken.\<close>

datatype io_op = OpWrite bytes | OpFlush | OpShutdown

fun io_run :: "'io async_io \<Rightarrow> io_op list \<Rightarrow> 'io ResponseHeadIo \<Rightarrow> bytes \<times> 'io ResponseHeadIo" where
  "io_run io [] this = ([], this)"
| "io_run io (OpWrite buffer # ops) this =
     (case head_poll_write io this buffer of (r, this') \<Rightarrow>
        case io_run io ops this' of (accepted, final) \<Rightarrow>
          ((case r of Ready (Inr n) \<Rightarrow> take n buffer | _ \<Rightarrow> []) @ accepted, final))"
| "io_run io (OpFlush # ops) this = io_run io ops (snd (head_poll_flush io this))"
| "io_run io (OpShutdown # ops) this = io_run io ops (snd (head_poll_shutdown io this))"

text \<open>The state in which the stream is a pipe: no exchange began since and no respelling.\<close>

definition pipe_state :: "'io ResponseHeadIo \<Rightarrow> bool" where
  "pipe_state this \<longleftrightarrow> io_ok this \<and> rh_generation (observation this) = io_generation this \<and>
     python_header_names (observation this) = None"

lemma flush_pipe:
  assumes "write_documented io written" and "pipe_state this"
  shows "pipe_state (snd (head_poll_flush io this)) \<and>
      written (io_inner (snd (head_poll_flush io this))) @ unsent (snd (head_poll_flush io this)) =
      written (io_inner this) @ unsent this"
    and "fst (head_poll_flush io this) = Ready (Inr ()) \<Longrightarrow> unsent (snd (head_poll_flush io this)) = []"
    and "pipe_state (snd (head_poll_shutdown io this)) \<and>
      written (io_inner (snd (head_poll_shutdown io this))) @ unsent (snd (head_poll_shutdown io this)) =
      written (io_inner this) @ unsent this"
proof -
  obtain q t where q: "poll_drain_outgoing io this = (q, t)" by fastforce
  have "io_ok this" using assms(2) by (simp add: pipe_state_def)
  note d = poll_drain_spec [OF assms(1) this q]
  have p: "pipe_state t" using d assms(2) by (simp add: pipe_state_def)
  have w: "written (snd (as_poll_flush io i)) = written i" "written (snd (as_poll_shutdown io i)) = written i" for i
    using assms(1) by (simp_all add: write_documented_def)
  have same: "pipe_state (t\<lparr>io_inner := i\<rparr>)" "unsent (t\<lparr>io_inner := i\<rparr>) = unsent t" for i
    using p by (simp_all add: pipe_state_def io_ok_def unsent_def)
  have f: "head_poll_flush io this = (if q = Ready (Inr ())
      then (fst (as_poll_flush io (io_inner t)), t\<lparr>io_inner := snd (as_poll_flush io (io_inner t))\<rparr>) else (q, t))"
    by (rule poll_cases [of q]) (simp_all add: head_poll_flush_def q case_prod_beta split: unit.split)
  have g: "head_poll_shutdown io this = (if q = Ready (Inr ())
      then (fst (as_poll_shutdown io (io_inner t)), t\<lparr>io_inner := snd (as_poll_shutdown io (io_inner t))\<rparr>) else (q, t))"
    by (rule poll_cases [of q]) (simp_all add: head_poll_shutdown_def q case_prod_beta split: unit.split)
  show "pipe_state (snd (head_poll_flush io this)) \<and>
      written (io_inner (snd (head_poll_flush io this))) @ unsent (snd (head_poll_flush io this)) =
      written (io_inner this) @ unsent this"
    using d(1) p w same by (simp add: f)
  show "pipe_state (snd (head_poll_shutdown io this)) \<and>
      written (io_inner (snd (head_poll_shutdown io this))) @ unsent (snd (head_poll_shutdown io this)) =
      written (io_inner this) @ unsent this"
    using d(1) p w same by (simp add: g)
  show "unsent (snd (head_poll_flush io this)) = []" if "fst (head_poll_flush io this) = Ready (Inr ())"
    using d(3) that same by (simp add: f split: if_splits)
qed

lemma write_pipe:
  assumes "write_documented io written" and "pipe_state this" and "head_poll_write io this buffer = (r, this')"
  shows "pipe_state this' \<and> written (io_inner this') @ unsent this' =
    written (io_inner this) @ unsent this @ (case r of Ready (Inr n) \<Rightarrow> take n buffer | _ \<Rightarrow> [])"
proof -
  have p: "io_ok this" "rh_generation (observation this) = io_generation this"
    "python_header_names (observation this) = None" using assms(2) by (simp_all add: pipe_state_def)
  have "rewrite_python_request_head (observation this) buffer = buffer"
    using p(3) by (simp add: rewrite_python_request_head_def)
  then show ?thesis using head_write_step [OF assms(1) p(1,2) assms(3)] p
    by (auto simp: pipe_state_def split: Poll.splits sum.splits if_splits)
qed

text \<open>A connection that takes one byte at a time.\<close>

definition byte_io :: "bytes async_io" where
  "byte_io = \<lparr>as_poll_read = (\<lambda>i n. (Pending, i)),
     as_poll_write = (\<lambda>i bs. (Ready (Inr (min 1 (length bs))), i @ take 1 bs)),
     as_poll_flush = (\<lambda>i. (Ready (Inr ()), i)), as_poll_shutdown = (\<lambda>i. (Ready (Inr ()), i))\<rparr>"

lemma byte_io_documented: "write_documented byte_io (\<lambda>i. i)"
  by (simp add: write_documented_def byte_io_def min_def)

definition sample_io :: "bytes ResponseHeadIo" where
  "sample_io = head_io_new [] head_state_default"

lemma sample_io_ok: "pipe_state sample_io"
  by (simp add: pipe_state_def io_ok_def sample_io_def head_io_new_def head_state_default_def)

text \<open>
  A write passes on what was pending and then takes the new bytes. Before the end of the
  request head has been seen, a write that is accepted takes its whole buffer, and only this
  buffer is searched for the end of the head and respelled: bytes of an earlier write have
  already left as they were. After it, the bytes reach the connection unchanged and in order. A
  write that is not accepted takes nothing, and no byte is lost or repeated.
\<close>

lemma head_write_outcome:
  assumes "write_documented io written" and "io_ok self"
    and "rh_generation (observation self) = io_generation self"
    and "head_poll_write io self buffer = (r, self')"
  shows "io_ok self' \<and> observation self' = observation self \<and> io_generation self' = io_generation self \<and>
    (case r of
       Ready (Inr n) \<Rightarrow>
         n \<le> length buffer \<and>
         (if outgoing_head_complete self
          then written (io_inner self') @ unsent self' = written (io_inner self) @ unsent self @ take n buffer
          else n = length buffer \<and> written (io_inner self') = written (io_inner self) @ unsent self \<and>
            unsent self' = (if contains_sub buffer (crlf @ crlf)
              then rewrite_python_request_head (observation self) buffer else buffer))
     | _ \<Rightarrow> written (io_inner self') @ unsent self' = written (io_inner self) @ unsent self)"
  by (rule head_write_step [OF assms])

text \<open>
  C35. When no respelling is asked for, the stream is a pipe: after any sequence of writes,
  flushes and shutdowns, whatever they return, the bytes that reached the connection followed by
  those still buffered are exactly the bytes accepted, in order; and a flush that succeeds
  leaves nothing buffered.
\<close>

theorem head_io_pipe:
  assumes "write_documented io written" and "pipe_state this" and "io_run io ops this = (accepted, final)"
  shows "written (io_inner final) @ unsent final = written (io_inner this) @ unsent this @ accepted \<and>
    (fst (head_poll_flush io final) = Ready (Inr ()) \<longrightarrow>
       written (io_inner (snd (head_poll_flush io final))) = written (io_inner this) @ unsent this @ accepted)"
proof -
  have run: "io_run io ops t = (acc, final) \<Longrightarrow> pipe_state t \<Longrightarrow> pipe_state final \<and>
      written (io_inner final) @ unsent final = written (io_inner t) @ unsent t @ acc" for acc t
  proof (induction ops arbitrary: t acc)
    case (Cons op ops)
    show ?case
    proof (cases op)
      case (OpWrite buffer)
      obtain r t' where w: "head_poll_write io t buffer = (r, t')" by fastforce
      obtain acc' where "io_run io ops t' = (acc', final)"
        "acc = (case r of Ready (Inr n) \<Rightarrow> take n buffer | _ \<Rightarrow> []) @ acc'"
        using Cons.prems(1) w OpWrite by (auto split: prod.splits)
      then show ?thesis using Cons.IH [of t' acc'] write_pipe [OF assms(1) Cons.prems(2) w] by simp
    next
      case OpFlush
      then show ?thesis using Cons flush_pipe(1) [OF assms(1)] by fastforce
    next
      case OpShutdown
      then show ?thesis using Cons flush_pipe(3) [OF assms(1)] by fastforce
    qed
  qed simp
  note final = run [OF assms(3,2)]
  then show ?thesis using flush_pipe(1,2) [OF assms(1), of final] by auto
qed

theorem head_io_pipe_witness:
  "\<exists>final. io_run byte_io [OpWrite (lit ''GET''), OpFlush, OpWrite (lit '' /'')] sample_io = (lit ''GET /'', final) \<and>
     io_inner final @ unsent final = lit ''GET /''"
proof -
  obtain acc final where run: "io_run byte_io [OpWrite (lit ''GET''), OpFlush, OpWrite (lit '' /'')] sample_io = (acc, final)"
    by fastforce
  have "fst (io_run byte_io [OpWrite (lit ''GET''), OpFlush, OpWrite (lit '' /'')] sample_io) = lit ''GET /''"
    by code_simp
  then have "acc = lit ''GET /''" using run by simp
  moreover have "io_inner sample_io = []" "unsent sample_io = []" by code_simp+
  ultimately show ?thesis using head_io_pipe [OF byte_io_documented sample_io_ok run] run by simp
qed

end
