(* ===== verification/Proxy_Connect.thy ===== *)
theory Proxy_Connect
  imports Ip_Addr Pool Models Head_Io
begin

text \<open>
  The model of \<open>crates/requests/src/transport/proxy.rs\<close>: proxy credentials, and the CONNECT, SOCKS4
  and SOCKS5 handshakes. Code outside the repository enters as arguments: the URL parser, header
  values, name resolution (\<open>proxy_env\<close>), and the awaited operations of a stream (\<open>proxy_io\<close>).
\<close>

section \<open>Credentials\<close>

definition proxy_hex :: "u8 \<Rightarrow> u8 option" where
  "proxy_hex byte =
     (if asc CHR ''0'' \<le> byte \<and> byte \<le> asc CHR ''9'' then Some (byte - asc CHR ''0'')
      else if asc CHR ''a'' \<le> byte \<and> byte \<le> asc CHR ''f'' then Some (byte - asc CHR ''a'' + 10)
      else if asc CHR ''A'' \<le> byte \<and> byte \<le> asc CHR ''F'' then Some (byte - asc CHR ''A'' + 10)
      else None)"

definition escape_error :: Error where
  "escape_error = invalid_proxy [Text (lit ''invalid percent escape in credentials'')]"

function percent_decode_loop :: "bytes \<Rightarrow> Error + bytes" where
  "percent_decode_loop [] = Inr []"
| "percent_decode_loop (byte # bs) =
     (if byte = asc CHR ''%'' then
        (case bs of
           [] \<Rightarrow> Inl escape_error
         | h # bs1 \<Rightarrow>
             (case proxy_hex h of
                None \<Rightarrow> Inl escape_error
              | Some high \<Rightarrow>
                  (case bs1 of
                     [] \<Rightarrow> Inl escape_error
                   | l # bs2 \<Rightarrow>
                       (case proxy_hex l of
                          None \<Rightarrow> Inl escape_error
                        | Some low \<Rightarrow>
                            map_sum id ((#) (push_bit 4 high OR low)) (percent_decode_loop bs2)))))
      else map_sum id ((#) byte) (percent_decode_loop bs))"
  by pat_completeness auto
termination by (relation "measure length") auto

definition percent_decode :: "rstr \<Rightarrow> Error + rstr" where
  "percent_decode v =
     (case percent_decode_loop (as_bytes v) of
        Inl e \<Rightarrow> Inl e
      | Inr decoded \<Rightarrow>
          (case from_utf8 decoded of
             Some s \<Rightarrow> Inr s
           | None \<Rightarrow> Inl (invalid_proxy [Text (lit ''proxy credentials are not valid UTF-8'')])))"

definition ALPHABET :: rstr where
  "ALPHABET = lit ''ABCDEFGHIJKLMNOPQRSTUVWXYZabcdefghijklmnopqrstuvwxyz0123456789+/''"

definition base64_chunk :: "bytes \<Rightarrow> rstr" where
  "base64_chunk chunk =
     (let first = chunk ! 0;
          second = (if 1 < length chunk then chunk ! 1 else 0);
          third = (if 2 < length chunk then chunk ! 2 else 0) in
      [ALPHABET ! unat (drop_bit 2 first),
       ALPHABET ! unat (push_bit 4 (first AND 0x03) OR drop_bit 4 second),
       if length chunk > 1 then ALPHABET ! unat (push_bit 2 (second AND 0x0f) OR drop_bit 6 third)
       else asc CHR ''='',
       if length chunk > 2 then ALPHABET ! unat (third AND 0x3f) else asc CHR ''=''])"

function base64 :: "bytes \<Rightarrow> rstr" where
  "base64 bs = (if bs = [] then [] else base64_chunk (take 3 bs) @ base64 (drop 3 bs))"
  by auto
termination by (relation "measure length") auto

declare base64.simps [simp del]

section \<open>The proxy\<close>

text \<open>What the accessors of a parsed \<open>url::Url\<close> return.\<close>

record proxy_url =
  pu_host_str :: "rstr option"
  pu_port_or_known_default :: "u16 option"
  pu_username :: rstr
  pu_password :: "rstr option"

text \<open>
  \<open>Url::parse\<close>, \<open>HeaderValue::from_str\<close> and \<open>to_str\<close>, \<open>tokio::net::lookup_host\<close>; a failure is the
  text its error prints.
\<close>

record proxy_env =
  pe_parse :: "rstr \<Rightarrow> rstr + proxy_url"
  pe_from_str :: "rstr \<Rightarrow> rstr + HeaderValue"
  pe_to_str :: "HeaderValue \<Rightarrow> rstr + rstr"
  pe_lookup_host :: "rstr \<Rightarrow> u16 \<Rightarrow> rstr + IpAddr list"

record Endpoint =
  ep_host :: rstr
  ep_port :: u16

definition foreign :: "rstr + 'a \<Rightarrow> Error + 'a" where
  "foreign r = map_sum (\<lambda>e. invalid_proxy [Text e]) id r"

definition parse_proxy :: "proxy_env \<Rightarrow> Proxy \<Rightarrow> Error + proxy_url" where
  "parse_proxy env proxy = foreign (pe_parse env (uri_display (proxy_uri proxy)))"

definition endpoint :: "proxy_env \<Rightarrow> Proxy \<Rightarrow> Error + Endpoint" where
  "endpoint env proxy =
     (case parse_proxy env proxy of
        Inl e \<Rightarrow> Inl e
      | Inr parsed \<Rightarrow>
          (case pu_host_str parsed of
             None \<Rightarrow> Inl (invalid_proxy [Text (lit ''proxy URL has no host'')])
           | Some host \<Rightarrow>
               Inr \<lparr>ep_host = host,
                 ep_port = (case pu_port_or_known_default parsed of Some p \<Rightarrow> p | None \<Rightarrow> 1080)\<rparr>))"

definition needs_tls :: "Proxy \<Rightarrow> bool" where
  "needs_tls proxy = (case proxy of ProxyHttps _ \<Rightarrow> True | _ \<Rightarrow> False)"

definition uses_absolute_form :: "Proxy option \<Rightarrow> bool \<Rightarrow> bool" where
  "uses_absolute_form proxy target_is_https \<longleftrightarrow> \<not> target_is_https \<and>
     (case proxy of Some (ProxyHttp _) \<Rightarrow> True | Some (ProxyHttps _) \<Rightarrow> True | _ \<Rightarrow> False)"

definition authorization :: "proxy_env \<Rightarrow> Proxy \<Rightarrow> Error + HeaderValue option" where
  "authorization env proxy =
     (if \<not> (case proxy of ProxyHttp _ \<Rightarrow> True | ProxyHttps _ \<Rightarrow> True | _ \<Rightarrow> False) then Inr None
      else
        case parse_proxy env proxy of
          Inl e \<Rightarrow> Inl e
        | Inr parsed \<Rightarrow>
            if pu_username parsed = [] then Inr None
            else
              case percent_decode (pu_username parsed) of
                Inl e \<Rightarrow> Inl e
              | Inr username \<Rightarrow>
                  (case percent_decode (case pu_password parsed of Some p \<Rightarrow> p | None \<Rightarrow> []) of
                     Inl e \<Rightarrow> Inl e
                   | Inr password \<Rightarrow>
                       let encoded = base64 (as_bytes (username @ asc CHR '':'' # password)) in
                       map_sum id Some (foreign (pe_from_str env (lit ''Basic '' @ encoded)))))"

definition authority :: "rstr \<Rightarrow> u16 \<Rightarrow> rstr" where
  "authority host port =
     (if asc CHR '':'' \<in> set host then asc CHR ''['' # host @ lit '']:'' @ nat_to_decimal (unat port)
      else host @ asc CHR '':'' # nat_to_decimal (unat port))"

definition length_prefixed :: "bytes \<Rightarrow> rstr \<Rightarrow> Error + bytes" where
  "length_prefixed v role =
     (if length v < 256 then Inr (word_of_nat (length v) # v)
      else Inl (proxy_error [Text role, Text (lit '' exceeds 255 bytes'')]))"

definition resolve :: "proxy_env \<Rightarrow> rstr \<Rightarrow> u16 \<Rightarrow> Error + IpAddr list" where
  "resolve env host port =
     map_sum (\<lambda>error. proxy_error [Text (lit ''local DNS resolution failed: ''), Text error]) id
       (pe_lookup_host env host port)"

section \<open>Streams\<close>

datatype ('p, 't) ProxyStream = Plain 'p | TlsStream 't

text \<open>The traits \<open>AsyncRead\<close> and \<open>AsyncWrite\<close> of \<open>ProxyStream\<close>.\<close>

definition proxy_stream_io :: "'p async_io \<Rightarrow> 't async_io \<Rightarrow> ('p, 't) ProxyStream async_io" where
  "proxy_stream_io pio tio =
     \<lparr>as_poll_read = (\<lambda>self room. case self of
          Plain stream \<Rightarrow> map_prod id Plain (as_poll_read pio stream room)
        | TlsStream stream \<Rightarrow> map_prod id TlsStream (as_poll_read tio stream room)),
      as_poll_write = (\<lambda>self buffer. case self of
          Plain stream \<Rightarrow> map_prod id Plain (as_poll_write pio stream buffer)
        | TlsStream stream \<Rightarrow> map_prod id TlsStream (as_poll_write tio stream buffer)),
      as_poll_flush = (\<lambda>self. case self of
          Plain stream \<Rightarrow> map_prod id Plain (as_poll_flush pio stream)
        | TlsStream stream \<Rightarrow> map_prod id TlsStream (as_poll_flush tio stream)),
      as_poll_shutdown = (\<lambda>self. case self of
          Plain stream \<Rightarrow> map_prod id Plain (as_poll_shutdown pio stream)
        | TlsStream stream \<Rightarrow> map_prod id TlsStream (as_poll_shutdown tio stream))\<rparr>"

text \<open>The awaited operations \<open>write_all\<close>, \<open>flush\<close>, \<open>read\<close> and \<open>read_exact\<close>; a read is given its length.\<close>

record 's proxy_io =
  px_write_all :: "bytes \<Rightarrow> 's \<Rightarrow> (io_error + unit) \<times> 's"
  px_flush :: "'s \<Rightarrow> (io_error + unit) \<times> 's"
  px_read :: "nat \<Rightarrow> 's \<Rightarrow> (io_error + bytes) \<times> 's"
  px_read_exact :: "nat \<Rightarrow> 's \<Rightarrow> (io_error + bytes) \<times> 's"

text \<open>
  An async function over a stream: its \<open>Result\<close> and the stream after it. \<open>aio_bind\<close> is the
  sequence of a step and the rest, with the early return of \<open>?\<close>.
\<close>

type_synonym ('s, 'a) aio = "'s \<Rightarrow> (Error + 'a) \<times> 's"

definition aio_of :: "Error + 'a \<Rightarrow> ('s, 'a) aio" where
  "aio_of r = Pair r"

definition aio_bind :: "('s, 'a) aio \<Rightarrow> ('a \<Rightarrow> ('s, 'b) aio) \<Rightarrow> ('s, 'b) aio" where
  "aio_bind m f = (\<lambda>s. case m s of (Inl e, s') \<Rightarrow> (Inl e, s') | (Inr a, s') \<Rightarrow> f a s')"

text \<open>\<open>.await.map_err(Error::proxy)\<close>.\<close>

definition aio_io :: "('s \<Rightarrow> (io_error + 'a) \<times> 's) \<Rightarrow> ('s, 'a) aio" where
  "aio_io m = (\<lambda>s. map_prod (map_sum (\<lambda>e. proxy_error [Text (io_display e)]) id) id (m s))"

section \<open>The handshakes\<close>

definition MAX_RESPONSE_HEAD :: nat where
  "MAX_RESPONSE_HEAD = 16 * 1024"

text \<open>
  The loop of \<open>read_head\<close>: each turn adds one byte to a head that starts empty, so that reaching
  the bound and being at least the bound are the same.
\<close>

function read_head_loop :: "'s proxy_io \<Rightarrow> bytes \<Rightarrow> ('s, bytes) aio" where
  "read_head_loop px response s =
     (if ends_with response (crlf @ crlf) then (Inr response, s)
      else if length response \<ge> MAX_RESPONSE_HEAD then
        (Inl (proxy_error [Text (lit ''proxy response head exceeded 16 KiB'')]), s)
      else
        case aio_io (px_read px 1) s of
          (Inl e, s') \<Rightarrow> (Inl e, s')
        | (Inr [], s') \<Rightarrow>
            (Inl (proxy_error [Text (lit ''proxy closed before completing the response head'')]), s')
        | (Inr (byte # _), s') \<Rightarrow> read_head_loop px (response @ [byte]) s')"
  by pat_completeness auto
termination by (relation "measure (\<lambda>(px, response, s). MAX_RESPONSE_HEAD - length response)") auto

declare read_head_loop.simps [simp del]

definition read_head :: "'s proxy_io \<Rightarrow> ('s, bytes) aio" where
  "read_head px = read_head_loop px []"

definition connect_status :: "bytes \<Rightarrow> u16 option" where
  "connect_status response =
     (case split_by (\<lambda>byte. byte = asc CHR '' '') response of
        _ # v # _ \<Rightarrow> (case from_utf8 v of Some s \<Rightarrow> parse_u16 s | None \<Rightarrow> None)
      | _ \<Rightarrow> None)"

definition connect_request :: "rstr \<Rightarrow> rstr option \<Rightarrow> rstr" where
  "connect_request auth credentials =
     lit ''CONNECT '' @ auth @ lit '' HTTP/1.1'' @ [13, 10] @ lit ''Host: '' @ auth @ [13, 10] @
     (case credentials of None \<Rightarrow> [] | Some c \<Rightarrow> lit ''Proxy-Authorization: '' @ c @ [13, 10]) @ [13, 10]"

definition http_connect :: "proxy_env \<Rightarrow> 's proxy_io \<Rightarrow> Proxy \<Rightarrow> rstr \<Rightarrow> u16 \<Rightarrow> ('s, unit) aio" where
  "http_connect env px proxy host port =
     (let auth = authority host port in
      aio_bind (aio_of (authorization env proxy)) (\<lambda>authorization.
      aio_bind (aio_of (case authorization of None \<Rightarrow> Inr None
          | Some v \<Rightarrow> map_sum id Some (foreign (pe_to_str env v)))) (\<lambda>credentials.
      aio_bind (aio_io (px_write_all px (as_bytes (connect_request auth credentials)))) (\<lambda>_.
      aio_bind (aio_io (px_flush px)) (\<lambda>_.
      aio_bind (read_head px) (\<lambda>response.
      aio_of (case connect_status response of
          None \<Rightarrow> Inl (proxy_error [Text (lit ''CONNECT response has no valid status'')])
        | Some code \<Rightarrow>
            if \<not> (200 \<le> code \<and> code < 300) then
              Inl (proxy_error [Text (lit ''CONNECT proxy returned status ''), Text (nat_to_decimal (unat code))])
            else Inr ())))))))"

fun first_v4 :: "IpAddr list \<Rightarrow> bytes option" where
  "first_v4 [] = None"
| "first_v4 (V4 a # _) = Some a"
| "first_v4 (V6 _ # rest) = first_v4 rest"

definition socks4_connect ::
  "proxy_env \<Rightarrow> 's proxy_io \<Rightarrow> Proxy \<Rightarrow> rstr \<Rightarrow> u16 \<Rightarrow> bool \<Rightarrow> ('s, unit) aio" where
  "socks4_connect env px proxy host port remote =
     aio_bind (aio_of (parse_proxy env proxy)) (\<lambda>parsed.
     aio_bind (aio_of (percent_decode (pu_username parsed))) (\<lambda>user.
     aio_bind (aio_of (if 0 \<in> set (as_bytes user) \<or> 0 \<in> set (as_bytes host)
        then Inl (proxy_error [Text (lit ''SOCKS4 credentials or host contain NUL'')]) else Inr ())) (\<lambda>_.
     aio_bind (aio_of (if remote then Inr [0, 0, 0, 1]
        else case resolve env host port of
            Inl e \<Rightarrow> Inl e
          | Inr addresses \<Rightarrow>
              (case first_v4 addresses of
                 Some a \<Rightarrow> Inr a
               | None \<Rightarrow> Inl (proxy_error [Text (lit ''SOCKS4 local DNS returned no IPv4 address'')])))) (\<lambda>address.
     aio_bind (aio_io (px_write_all px ([4, 1] @ to_be_bytes port @ address @ as_bytes user @ [0] @
        (if remote then as_bytes host @ [0] else [])))) (\<lambda>_.
     aio_bind (aio_io (px_read_exact px 8)) (\<lambda>response.
     aio_of (if response ! 0 \<noteq> 0 \<or> response ! 1 \<noteq> 90
        then Inl (proxy_error [Text (lit ''SOCKS4 proxy rejected connection with code ''),
               Text (nat_to_decimal (unat (response ! 1)))])
        else Inr ())))))))"

definition socks5_address :: "proxy_env \<Rightarrow> rstr \<Rightarrow> u16 \<Rightarrow> bool \<Rightarrow> Error + bytes" where
  "socks5_address env host port remote =
     (if remote \<and> parse_ip_addr host = None then
        map_sum id ((#) 3) (length_prefixed (as_bytes host) (lit ''SOCKS5 hostname''))
      else
        case (case parse_ip_addr host of
                Some a \<Rightarrow> Inr a
              | None \<Rightarrow>
                  (case resolve env host port of
                     Inl e \<Rightarrow> Inl e
                   | Inr [] \<Rightarrow> Inl (proxy_error [Text (lit ''SOCKS5 local DNS returned no address'')])
                   | Inr (a # _) \<Rightarrow> Inr a)) of
          Inl e \<Rightarrow> Inl e
        | Inr address \<Rightarrow> Inr ((case address of V4 _ \<Rightarrow> 1 | V6 _ \<Rightarrow> 4) # octets address))"

definition socks5_authenticate :: "'s proxy_io \<Rightarrow> rstr \<Rightarrow> rstr \<Rightarrow> u8 \<Rightarrow> ('s, unit) aio" where
  "socks5_authenticate px username password method =
     (if method = 2 then
        aio_bind (aio_of (length_prefixed (as_bytes username) (lit ''SOCKS5 username''))) (\<lambda>username.
        aio_bind (aio_of (length_prefixed (as_bytes password) (lit ''SOCKS5 password''))) (\<lambda>password.
        aio_bind (aio_io (px_write_all px ([1] @ username @ password))) (\<lambda>_.
        aio_bind (aio_io (px_read_exact px 2)) (\<lambda>response.
        aio_of (if response \<noteq> [1, 0]
           then Inl (proxy_error [Text (lit ''SOCKS5 username/password authentication failed'')])
           else Inr ())))))
      else aio_of (Inr ()))"

definition socks5_reply_address :: "'s proxy_io \<Rightarrow> u8 \<Rightarrow> ('s, nat) aio" where
  "socks5_reply_address px address_type =
     (if address_type = 1 then aio_of (Inr 4)
      else if address_type = 4 then aio_of (Inr 16)
      else if address_type = 3 then
        aio_bind (aio_io (px_read_exact px 1)) (\<lambda>len. aio_of (Inr (unat (len ! 0))))
      else aio_of (Inl (proxy_error [Text (lit ''SOCKS5 proxy returned unknown address type ''),
             Text (nat_to_decimal (unat address_type))])))"

text \<open>The second half of \<open>socks5_connect\<close>: the request and its reply.\<close>

definition socks5_request :: "proxy_env \<Rightarrow> 's proxy_io \<Rightarrow> rstr \<Rightarrow> u16 \<Rightarrow> bool \<Rightarrow> ('s, unit) aio" where
  "socks5_request env px host port remote =
     aio_bind (aio_of (socks5_address env host port remote)) (\<lambda>address.
     aio_bind (aio_io (px_write_all px ([5, 1, 0] @ address @ to_be_bytes port))) (\<lambda>_.
     aio_bind (aio_io (px_read_exact px 4)) (\<lambda>response.
     aio_bind (aio_of (if response ! 0 \<noteq> 5 \<or> response ! 1 \<noteq> 0
        then Inl (proxy_error [Text (lit ''SOCKS5 proxy rejected connection with code ''),
               Text (nat_to_decimal (unat (response ! 1)))])
        else Inr ())) (\<lambda>_.
     aio_bind (socks5_reply_address px (response ! 3)) (\<lambda>address_length.
     aio_bind (aio_io (px_read_exact px (address_length + 2))) (\<lambda>_.
     aio_of (Inr ())))))))"

definition socks5_connect ::
  "proxy_env \<Rightarrow> 's proxy_io \<Rightarrow> Proxy \<Rightarrow> rstr \<Rightarrow> u16 \<Rightarrow> bool \<Rightarrow> ('s, unit) aio" where
  "socks5_connect env px proxy host port remote =
     aio_bind (aio_of (parse_proxy env proxy)) (\<lambda>parsed.
     aio_bind (aio_of (percent_decode (pu_username parsed))) (\<lambda>username.
     aio_bind (aio_of (percent_decode (case pu_password parsed of Some p \<Rightarrow> p | None \<Rightarrow> []))) (\<lambda>password.
     let authenticated = (username \<noteq> [] \<and> password \<noteq> []) in
     aio_bind (aio_io (px_write_all px (if authenticated then [5, 2, 0, 2] else [5, 1, 0]))) (\<lambda>_.
     aio_bind (aio_io (px_read_exact px 2)) (\<lambda>method.
     aio_bind (aio_of (if method ! 0 \<noteq> 5 \<or> (method ! 1 \<noteq> 0 \<and> (\<not> authenticated \<or> method ! 1 \<noteq> 2))
        then Inl (proxy_error [Text (lit ''SOCKS5 proxy selected unsupported authentication method ''),
               Text (nat_to_decimal (unat (method ! 1)))])
        else Inr ())) (\<lambda>_.
     aio_bind (socks5_authenticate px username password (method ! 1)) (\<lambda>_.
     socks5_request env px host port remote)))))))"

text \<open>\<open>establish\<close>; the TLS handshake with a proxy is an argument.\<close>

definition establish ::
  "proxy_env \<Rightarrow> ('p, 't) ProxyStream proxy_io \<Rightarrow> ('l \<Rightarrow> rstr \<Rightarrow> 'p \<Rightarrow> Error + 't) \<Rightarrow> Proxy \<Rightarrow> 'p \<Rightarrow>
   'l option \<Rightarrow> rstr \<Rightarrow> u16 \<Rightarrow> bool \<Rightarrow> Error + ('p, 't) ProxyStream" where
  "establish env px handshake proxy stream proxy_tls target_host target_port target_is_https =
     (case (case proxy of
              ProxyHttps _ \<Rightarrow>
                (case endpoint env proxy of
                   Inl e \<Rightarrow> Inl e
                 | Inr ep \<Rightarrow>
                     (case proxy_tls of
                        None \<Rightarrow> Inl (proxy_error [Text (lit ''HTTPS proxy TLS was not configured'')])
                      | Some loaded \<Rightarrow> map_sum id TlsStream (handshake loaded (ep_host ep) stream)))
            | _ \<Rightarrow> Inr (Plain stream)) of
        Inl e \<Rightarrow> Inl e
      | Inr stream \<Rightarrow>
          (let run = (\<lambda>m. case m stream of (Inl e, _) \<Rightarrow> Inl e | (Inr (), stream) \<Rightarrow> Inr stream);
               tunnel = (\<lambda>_::unit. if target_is_https
                 then run (http_connect env px proxy target_host target_port) else Inr stream) in
           case proxy of
             ProxyHttp _ \<Rightarrow> tunnel ()
           | ProxyHttps _ \<Rightarrow> tunnel ()
           | Socks4 uri \<Rightarrow>
               run (socks4_connect env px proxy target_host target_port
                 (case uri_scheme uri of Some s \<Rightarrow> eq_ignore_ascii_case s (lit ''socks4a'') | None \<Rightarrow> False))
           | Socks5 _ remote \<Rightarrow> run (socks5_connect env px proxy target_host target_port remote)))"



section \<open>Lemmas: credentials\<close>

lemma proxy_hex_is_hex: "proxy_hex b = hex_value b"
  by (simp add: proxy_hex_def hex_value_def)

text \<open>The twenty-two digits, by evaluation.\<close>

lemma hex_digit_small:
  assumes "is_ascii_hexdigit b"
  shows "unat (hex_digit_value b) \<in> set [0..<16]"
proof -
  have "unat b \<in> set ([48..<58] @ [65..<71] @ [97..<103])"
    using assms unfolding set_append set_upt Un_iff atLeastLessThan_iff
    by (auto simp: ascii_simps word_le_nat_alt)
  moreover have "\<forall>n\<in>set ([48..<58] @ [65..<71] @ [97..<103]).
      unat (hex_digit_value (word_of_nat n)) \<in> set [0..<16]" by code_simp
  ultimately have "unat (hex_digit_value (word_of_nat (unat b))) \<in> set [0..<16]" by blast
  then show ?thesis by simp
qed

lemma proxy_nibbles:
  assumes "is_ascii_hexdigit h" "is_ascii_hexdigit l"
  shows "push_bit 4 (hex_digit_value h) OR hex_digit_value l = hex_digit_value h * 16 + hex_digit_value l"
proof -
  have "\<forall>n\<in>set [0..<16]. \<forall>m\<in>set [0..<16]. push_bit 4 (word_of_nat n :: u8) OR word_of_nat m =
      word_of_nat n * 16 + word_of_nat m" by code_simp
  from bspec [OF bspec [OF this hex_digit_small [OF assms(1)]] hex_digit_small [OF assms(2)]]
  show ?thesis by simp
qed

lemma proxy_hex_value: "proxy_hex b = (if is_ascii_hexdigit b then Some (hex_digit_value b) else None)"
  by (auto simp: proxy_hex_is_hex hex_value_iff hex_digit_value_def)

lemma percent_decode_loop_eq:
  "percent_decode_loop bs = (if escapes_complete bs then Inr (pct_octets bs) else Inl escape_error)"
proof (induction bs rule: percent_decode_loop.induct)
  case (2 byte bs)
  show ?case
  proof (cases "byte = 37")
    case False
    then show ?thesis using 2 by (cases bs; cases "tl bs") auto
  next
    case True
    show ?thesis
    proof (cases "\<exists>h l rest. bs = h # l # rest \<and> is_ascii_hexdigit h \<and> is_ascii_hexdigit l")
      case yes: True
      then obtain h l rest where b: "bs = h # l # rest" "is_ascii_hexdigit h" "is_ascii_hexdigit l" by blast
      have "percent_decode_loop rest = (if escapes_complete rest then Inr (pct_octets rest) else Inl escape_error)"
        using 2(1) [of h "l # rest" _ l rest] True b proxy_hex_value by simp
      moreover have "push_bit 4 (hex_digit_value h) OR hex_digit_value l = hex_digit_value h * 16 + hex_digit_value l"
        using b(2,3) by (rule proxy_nibbles)
      ultimately show ?thesis using True b proxy_hex_value [of h] proxy_hex_value [of l] by simp
    next
      case False
      then show ?thesis using True proxy_hex_value by (cases bs; cases "tl bs") (auto split: option.splits)
    qed
  qed
qed simp

section \<open>Lemmas: base64\<close>

text \<open>The bits of the four sextets of a chunk.\<close>

lemma u8_bitI:
  fixes x y :: u8
  assumes "bit x 0 = bit y 0" "bit x 1 = bit y 1" "bit x 2 = bit y 2" "bit x 3 = bit y 3"
    "bit x 4 = bit y 4" "bit x 5 = bit y 5" "bit x 6 = bit y 6" "bit x 7 = bit y 7"
  shows "x = y"
proof (rule bit_word_eqI)
  fix n assume "n < LENGTH(8)"
  then have "n \<in> {0, 1, 2, 3, 4, 5, 6, 7}" by auto
  then show "bit x n = bit y n" using assms by auto
qed

lemma masks: "(3 :: u8) = mask 2" "(0x0f :: u8) = mask 4" "(0x3f :: u8) = mask 6"
  by (simp_all add: mask_eq_exp_minus_1)

definition sextet1 :: "u8 \<Rightarrow> u8" where "sextet1 a = drop_bit 2 a"
definition sextet2 :: "u8 \<Rightarrow> u8 \<Rightarrow> u8" where "sextet2 a b = push_bit 4 (a AND 0x03) OR drop_bit 4 b"
definition sextet3 :: "u8 \<Rightarrow> u8 \<Rightarrow> u8" where "sextet3 b c = push_bit 2 (b AND 0x0f) OR drop_bit 6 c"
definition sextet4 :: "u8 \<Rightarrow> u8" where "sextet4 c = c AND 0x3f"

lemmas sextet_defs = sextet1_def sextet2_def sextet3_def sextet4_def

lemma base64_chunks:
  "base64_chunk [a] = [ALPHABET ! unat (sextet1 a), ALPHABET ! unat (sextet2 a 0), 61, 61]"
  "base64_chunk [a, b] =
     [ALPHABET ! unat (sextet1 a), ALPHABET ! unat (sextet2 a b), ALPHABET ! unat (sextet3 b 0), 61]"
  "base64_chunk [a, b, c] =
     [ALPHABET ! unat (sextet1 a), ALPHABET ! unat (sextet2 a b), ALPHABET ! unat (sextet3 b c),
      ALPHABET ! unat (sextet4 c)]"
  by (simp_all add: base64_chunk_def sextet_defs Let_def)

lemma sextets:
  "push_bit 2 (sextet1 a) OR drop_bit 4 (sextet2 a b) = a"
  "push_bit 4 (sextet2 a b) OR drop_bit 2 (sextet3 b c) = b"
  "push_bit 6 (sextet3 b c) OR sextet4 c = c"
  unfolding sextet_defs masks by (rule u8_bitI; simp add: bit_simps)+

lemma sextet_bound:
  "unat (sextet1 a) < 64" "unat (sextet2 a b) < 64" "unat (sextet3 b c) < 64" "unat (sextet4 c) < 64"
proof -
  have six: "unat x < 64" if "\<And>n. bit x n \<Longrightarrow> n < 6" for x :: u8
  proof -
    have "take_bit 6 x = x" using that by (intro bit_eqI) (auto simp: bit_take_bit_iff)
    then have "unat x = take_bit 6 (unat x)" by (metis unsigned_take_bit_eq)
    also have "\<dots> < 2 ^ 6" by (rule take_bit_nat_less_exp)
    finally show ?thesis by simp
  qed
  show "unat (sextet1 a) < 64" "unat (sextet2 a b) < 64" "unat (sextet3 b c) < 64" "unat (sextet4 c) < 64"
    unfolding sextet_defs masks by (rule six; auto simp: bit_simps dest: bit_imp_le_length)+
qed

text \<open>The decoder of RFC 4648, padding required.\<close>

definition sextet_of :: "rchar \<Rightarrow> u8 option" where
  "sextet_of c = map_option word_of_nat (position (\<lambda>x. x = c) ALPHABET)"

fun unbase64 :: "rstr \<Rightarrow> bytes option" where
  "unbase64 [] = Some []"
| "unbase64 (a # b # c # d # rest) =
     (case (sextet_of a, sextet_of b, sextet_of c, sextet_of d) of
        (Some x, Some y, Some z, Some w) \<Rightarrow>
          map_option (\<lambda>bs. (push_bit 2 x OR drop_bit 4 y) # (push_bit 4 y OR drop_bit 2 z) #
            (push_bit 6 z OR w) # bs) (unbase64 rest)
      | (Some x, Some y, Some z, None) \<Rightarrow>
          if d = asc CHR ''='' \<and> rest = [] then Some [push_bit 2 x OR drop_bit 4 y, push_bit 4 y OR drop_bit 2 z]
          else None
      | (Some x, Some y, None, None) \<Rightarrow>
          if c = asc CHR ''='' \<and> d = asc CHR ''='' \<and> rest = [] then Some [push_bit 2 x OR drop_bit 4 y] else None
      | _ \<Rightarrow> None)"
| "unbase64 _ = None"

lemma sextet_alphabet: "unat w < 64 \<Longrightarrow> sextet_of (ALPHABET ! unat w) = Some w"
proof -
  assume w: "unat w < 64"
  have "list_all (\<lambda>n. position (\<lambda>x. x = ALPHABET ! n) ALPHABET = Some n) [0..<64]" by code_simp
  then have "position (\<lambda>x. x = ALPHABET ! unat w) ALPHABET = Some (unat w)"
    using w by (simp only: list_all_iff set_upt atLeastLessThan_iff) simp
  then show ?thesis by (simp add: sextet_of_def)
qed

lemma sextet_pad: "sextet_of 61 = None"
  by code_simp

lemma base64_simps:
  "base64 [] = []"
  "base64 [a] = base64_chunk [a]" "base64 [a, b] = base64_chunk [a, b]"
  "base64 (a # b # c # rest) = base64_chunk [a, b, c] @ base64 rest"
  by (subst base64.simps; simp add: base64.simps [of "[]"])+

text \<open>
  Decoding what \<open>base64\<close> prints, by the decoder of RFC 4648, gives the bytes back, for any
  bytes; and the text consists of letters, digits, plus, slash and equals signs, four for every
  three bytes begun, so it never ends a header line.
\<close>

lemma base64_roundtrip:
  "unbase64 (base64 bs) = Some bs \<and> set (base64 bs) \<subseteq> insert 61 (set ALPHABET) \<and>
   length (base64 bs) = 4 * ((length bs + 2) div 3)"
proof (induction bs rule: base64.induct)
  case (1 bs)
  note s = sextet_alphabet [OF sextet_bound(1)] sextet_alphabet [OF sextet_bound(2)]
    sextet_alphabet [OF sextet_bound(3)] sextet_alphabet [OF sextet_bound(4)] sextet_pad
  have len: "length ALPHABET = 64" by code_simp
  have m: "ALPHABET ! unat w \<in> set ALPHABET" if "unat w < 64" for w :: u8 using that len by simp
  note mem = m [OF sextet_bound(1)] m [OF sextet_bound(2)] m [OF sextet_bound(3)] m [OF sextet_bound(4)]
  show ?case
  proof (cases bs)
    case Nil
    then show ?thesis by (simp add: base64_simps)
  next
    case (Cons a bs1)
    show ?thesis
    proof (cases bs1)
      case Nil
      then show ?thesis using Cons s mem sextets(1)
        by (simp add: base64_simps base64_chunks)
    next
      case c2: (Cons b bs2)
      show ?thesis
      proof (cases bs2)
        case Nil
        then show ?thesis using Cons c2 s mem sextets(1,2)
          by (simp add: base64_simps base64_chunks)
      next
        case c3: (Cons c rest)
        have "unbase64 (base64 rest) = Some rest \<and> set (base64 rest) \<subseteq> insert 61 (set ALPHABET) \<and>
          length (base64 rest) = 4 * ((length rest + 2) div 3)" using 1 Cons c2 c3 by simp
        moreover have "(5 + length rest) div 3 = Suc (Suc (Suc (length rest)) div 3)" by presburger
        ultimately show ?thesis using Cons c2 c3 s mem sextets
          by (simp add: base64_simps base64_chunks)
      qed
    qed
  qed
qed

text \<open>
  Proxy credentials are percent-decoded exactly: the result is the text whose bytes are the
  octets the escapes denote; an escape that is not complete is an error, and so are octets that
  are not UTF-8.
\<close>

lemma percent_decode_outcome:
  "percent_decode v =
     (if \<not> escapes_complete (as_bytes v) then Inl escape_error
      else case from_utf8 (pct_octets (as_bytes v)) of
          Some s \<Rightarrow> Inr s
        | None \<Rightarrow> Inl (invalid_proxy [Text (lit ''proxy credentials are not valid UTF-8'')]))"
  by (simp add: percent_decode_def percent_decode_loop_eq)

section \<open>Lemmas: streams\<close>

text \<open>
  A working connection: writes and flushes succeed, and reads give the bytes the peer sends, in
  order. \<open>unread\<close> is what the peer sends from here on, \<open>sent\<close> what has been written.
\<close>

definition working_stream :: "'s proxy_io \<Rightarrow> ('s \<Rightarrow> bytes) \<Rightarrow> ('s \<Rightarrow> bytes) \<Rightarrow> bool" where
  "working_stream px unread sent \<longleftrightarrow>
     (\<forall>bs s. fst (px_write_all px bs s) = Inr () \<and>
        unread (snd (px_write_all px bs s)) = unread s \<and> sent (snd (px_write_all px bs s)) = sent s @ bs) \<and>
     (\<forall>s. fst (px_flush px s) = Inr () \<and>
        unread (snd (px_flush px s)) = unread s \<and> sent (snd (px_flush px s)) = sent s) \<and>
     (\<forall>n s. \<exists>k\<le>n. fst (px_read px n s) = Inr (take k (unread s)) \<and>
        unread (snd (px_read px n s)) = drop k (unread s) \<and> sent (snd (px_read px n s)) = sent s \<and>
        (0 < n \<longrightarrow> 0 < k)) \<and>
     (\<forall>n s. n \<le> length (unread s) \<longrightarrow> fst (px_read_exact px n s) = Inr (take n (unread s)) \<and>
        unread (snd (px_read_exact px n s)) = drop n (unread s) \<and> sent (snd (px_read_exact px n s)) = sent s) \<and>
     (\<forall>n s. length (unread s) < n \<longrightarrow> (\<exists>e. fst (px_read_exact px n s) = Inl e))"

lemma working_streamD:
  assumes "working_stream px unread sent"
  shows "fst (px_write_all px bs s) = Inr ()" "unread (snd (px_write_all px bs s)) = unread s"
    "sent (snd (px_write_all px bs s)) = sent s @ bs"
    and "fst (px_flush px s) = Inr ()" "unread (snd (px_flush px s)) = unread s" "sent (snd (px_flush px s)) = sent s"
    and "n \<le> length (unread s) \<Longrightarrow> fst (px_read_exact px n s) = Inr (take n (unread s))"
      "n \<le> length (unread s) \<Longrightarrow> unread (snd (px_read_exact px n s)) = drop n (unread s)"
      "n \<le> length (unread s) \<Longrightarrow> sent (snd (px_read_exact px n s)) = sent s"
    and "length (unread s) < n \<Longrightarrow> \<exists>e. fst (px_read_exact px n s) = Inl e"
  using assms unfolding working_stream_def by blast+

text \<open>One byte at a time.\<close>

lemma working_read_byte:
  assumes "working_stream px unread sent"
  shows "fst (px_read px 1 s) = Inr (take 1 (unread s))" "unread (snd (px_read px 1 s)) = drop 1 (unread s)"
    "sent (snd (px_read px 1 s)) = sent s"
proof -
  obtain k where "k \<le> 1" "0 < k" "fst (px_read px 1 s) = Inr (take k (unread s))"
    "unread (snd (px_read px 1 s)) = drop k (unread s)" "sent (snd (px_read px 1 s)) = sent s"
    using assms unfolding working_stream_def by (metis zero_less_one)
  moreover from this have "k = 1" by simp
  ultimately show "fst (px_read px 1 s) = Inr (take 1 (unread s))"
    "unread (snd (px_read px 1 s)) = drop 1 (unread s)" "sent (snd (px_read px 1 s)) = sent s" by blast+
qed

text \<open>A run that succeeds, with the bytes it leaves to read and all bytes sent.\<close>

definition ends :: "('s \<Rightarrow> bytes) \<Rightarrow> ('s \<Rightarrow> bytes) \<Rightarrow> ('s, 'a) aio \<Rightarrow> 's \<Rightarrow> 'a \<Rightarrow> bytes \<Rightarrow> bytes \<Rightarrow> bool" where
  "ends unread sent m s a u out \<longleftrightarrow> fst (m s) = Inr a \<and> unread (snd (m s)) = u \<and> sent (snd (m s)) = out"

lemma ends_of:
  "ends unread sent (aio_of r) s a u out \<longleftrightarrow> r = Inr a \<and> unread s = u \<and> sent s = out"
  "ends unread sent (aio_bind (aio_of q) f) s b u out \<longleftrightarrow> (\<exists>c. q = Inr c \<and> ends unread sent (f c) s b u out)"
  by (simp add: ends_def aio_of_def) (cases q; simp add: ends_def aio_bind_def aio_of_def)

lemma ends_bind:
  "ends unread sent (aio_bind m f) s a u out \<longleftrightarrow>
     (\<exists>b. fst (m s) = Inr b \<and> ends unread sent (f b) (snd (m s)) a u out)"
  by (cases "m s"; cases "fst (m s)") (simp_all add: ends_def aio_bind_def)

lemma ends_io:
  assumes "working_stream px unread sent"
  shows "ends unread sent (aio_bind (aio_io (px_write_all px bs)) f) s a u out \<longleftrightarrow>
      ends unread sent (f ()) (snd (px_write_all px bs s)) a u out"
    and "ends unread sent (aio_bind (aio_io (px_flush px)) f) s a u out \<longleftrightarrow>
      ends unread sent (f ()) (snd (px_flush px s)) a u out"
    and "ends unread sent (aio_bind (aio_io (px_read_exact px n)) g) s a u out \<longleftrightarrow>
      n \<le> length (unread s) \<and> ends unread sent (g (take n (unread s))) (snd (px_read_exact px n s)) a u out"
proof -
  note d = working_streamD [OF assms]
  show "ends unread sent (aio_bind (aio_io (px_write_all px bs)) f) s a u out \<longleftrightarrow>
      ends unread sent (f ()) (snd (px_write_all px bs s)) a u out"
    using d(1) [of bs s] by (simp add: ends_bind aio_io_def map_prod_def split_beta)
  show "ends unread sent (aio_bind (aio_io (px_flush px)) f) s a u out \<longleftrightarrow>
      ends unread sent (f ()) (snd (px_flush px s)) a u out"
    using d(4) [of s] by (simp add: ends_bind aio_io_def map_prod_def split_beta)
  show "ends unread sent (aio_bind (aio_io (px_read_exact px n)) g) s a u out \<longleftrightarrow>
      n \<le> length (unread s) \<and> ends unread sent (g (take n (unread s))) (snd (px_read_exact px n s)) a u out"
    using d(7) [of n s] d(10) [of s n]
    by (cases "n \<le> length (unread s)") (auto simp: ends_bind aio_io_def map_prod_def split_beta)
qed

section \<open>Lemmas: the handshakes\<close>

lemma accepted: "(if c then Inl e else Inr ()) = Inr x \<longleftrightarrow> \<not> c"
  by simp

text \<open>The SOCKS4 request and a granting reply.\<close>

lemma socks4_ends:
  assumes ws: "working_stream px unread sent"
    and "parse_proxy env proxy = Inr parsed" and "percent_decode (pu_username parsed) = Inr user"
    and "0 \<notin> set (as_bytes user)" "0 \<notin> set (as_bytes host)"
    and "if remote then address = [0, 0, 0, 1]
      else \<exists>as. resolve env host port = Inr as \<and> first_v4 as = Some address"
  shows "ends unread sent (socks4_connect env px proxy host port remote) s () u out \<longleftrightarrow>
    (\<exists>r. length r = 6 \<and> unread s = [0, 90] @ r @ u) \<and>
    out = sent s @ [4, 1] @ to_be_bytes port @ address @ as_bytes user @ [0] @
      (if remote then as_bytes host @ [0] else [])"
proof -
  have a: "(if remote then Inr [0, 0, 0, 1]
        else case resolve env host port of
            Inl e \<Rightarrow> Inl e
          | Inr addresses \<Rightarrow>
              (case first_v4 addresses of
                 Some a \<Rightarrow> Inr a
               | None \<Rightarrow> Inl (proxy_error [Text (lit ''SOCKS4 local DNS returned no IPv4 address'')]))) = Inr address"
    using assms(6) by (auto split: if_splits)
  let ?v = "unread s"
  have reply: "(\<exists>r. length r = 6 \<and> ?v = [0, 90] @ r @ u) \<longleftrightarrow>
      8 \<le> length ?v \<and> ?v ! 0 = 0 \<and> ?v ! Suc 0 = 90 \<and> drop 8 ?v = u"
  proof
    assume l: "8 \<le> length ?v \<and> ?v ! 0 = 0 \<and> ?v ! Suc 0 = 90 \<and> drop 8 ?v = u"
    then obtain x y w where v: "?v = x # y # w" by (cases ?v; cases "tl ?v") auto
    then have "length (take 6 w) = 6 \<and> ?v = [0, 90] @ take 6 w @ u" using l by (auto simp: append_take_drop_id)
    then show "\<exists>r. length r = 6 \<and> ?v = [0, 90] @ r @ u" by blast
  qed auto
  show ?thesis
    unfolding socks4_connect_def
    unfolding reply
    by (simp add: ends_of ends_io [OF ws] assms(2,3,4,5) a working_streamD [OF ws] accepted cong: conj_cong) auto
qed

text \<open>A SOCKS5 reply that grants: the bound address has one of three forms.\<close>

definition socks5_bound :: "u8 \<Rightarrow> bytes \<Rightarrow> bool" where
  "socks5_bound t addr \<longleftrightarrow> t = 1 \<and> length addr = 4 \<or> t = 4 \<and> length addr = 16 \<or>
     t = 3 \<and> (\<exists>name. length name < 256 \<and> addr = word_of_nat (length name) # name)"

definition socks5_grant :: "bytes \<Rightarrow> bool" where
  "socks5_grant reply \<longleftrightarrow>
     (\<exists>rsv t addr port. reply = [5, 0, rsv, t] @ addr @ port \<and> socks5_bound t addr \<and> length port = 2)"

lemma aio_bind_assoc: "aio_bind (aio_bind m g) f = aio_bind m (\<lambda>x. aio_bind (g x) f)"
  by (rule ext) (simp add: aio_bind_def split: prod.split sum.split)

lemma split_at: "n \<le> length v \<and> P (take n v) (drop n v) \<longleftrightarrow> (\<exists>r w. length r = n \<and> v = r @ w \<and> P r w)"
proof
  assume "n \<le> length v \<and> P (take n v) (drop n v)"
  then show "\<exists>r w. length r = n \<and> v = r @ w \<and> P r w"
    by (intro exI [of _ "take n v"] exI [of _ "drop n v"]) simp
qed auto

lemma ends_skip:
  assumes "working_stream px unread sent"
  shows "ends unread sent (aio_bind (aio_io (px_read_exact px n)) (\<lambda>_. aio_of (Inr ()))) s () u out \<longleftrightarrow>
    (\<exists>x. length x = n \<and> unread s = x @ u) \<and> sent s = out"
  using split_at [of n "unread s" "\<lambda>_ w. w = u"]
  by (simp add: ends_of ends_io [OF assms] working_streamD [OF assms] cong: conj_cong) auto

lemma socks5_bound_ends:
  assumes ws: "working_stream px unread sent"
  shows "ends unread sent (aio_bind (socks5_reply_address px t)
      (\<lambda>n. aio_bind (aio_io (px_read_exact px (n + 2))) (\<lambda>_. aio_of (Inr ())))) s () u out \<longleftrightarrow>
    (\<exists>addr port. socks5_bound t addr \<and> length port = 2 \<and> unread s = addr @ port @ u) \<and> sent s = out"
proof -
  have fixed: "(\<exists>x. length x = n + 2 \<and> v = x @ u) \<longleftrightarrow>
      (\<exists>addr port. length addr = n \<and> length port = 2 \<and> v = addr @ port @ u)" for n and v :: bytes
  proof
    assume "\<exists>x. length x = n + 2 \<and> v = x @ u"
    then obtain x where x: "length x = n + 2" "v = x @ u" by blast
    then show "\<exists>addr port. length addr = n \<and> length port = 2 \<and> v = addr @ port @ u"
      by (intro exI [of _ "take n x"] exI [of _ "drop n x"]) simp
  next
    assume "\<exists>addr port. length addr = n \<and> length port = 2 \<and> v = addr @ port @ u"
    then obtain addr port where "length addr = n" "length port = 2" "v = addr @ port @ u" by blast
    then show "\<exists>x. length x = n + 2 \<and> v = x @ u" by (intro exI [of _ "addr @ port"]) simp
  qed
  consider "t = 1" | "t = 4" | (name) "t = 3" | (bad) "t \<noteq> 1" "t \<noteq> 4" "t \<noteq> 3" by blast
  then show ?thesis
  proof cases
    case 1
    then show ?thesis using fixed [of 4]
      by (simp add: socks5_reply_address_def ends_of ends_skip [OF ws] socks5_bound_def conj_assoc)
  next
    case 2
    then show ?thesis using fixed [of 16]
      by (simp add: socks5_reply_address_def ends_of ends_skip [OF ws] socks5_bound_def conj_assoc)
  next
    case bad
    then show ?thesis by (simp add: socks5_reply_address_def ends_of socks5_bound_def)
  next
    case name
    have "ends unread sent (aio_bind (socks5_reply_address px t)
        (\<lambda>n. aio_bind (aio_io (px_read_exact px (n + 2))) (\<lambda>_. aio_of (Inr ())))) s () u out \<longleftrightarrow>
      1 \<le> length (unread s) \<and>
      (\<exists>x. length x = unat (take 1 (unread s) ! 0) + 2 \<and> drop 1 (unread s) = x @ u) \<and> sent s = out"
      unfolding name socks5_reply_address_def
      by (simp add: aio_bind_assoc ends_of(2) ends_io(3) [OF ws, where n = 1] ends_skip [OF ws]
          working_streamD [OF ws] del: One_nat_def cong: conj_cong)
    also have "\<dots> \<longleftrightarrow> (\<exists>l v. unread s = l # v \<and>
        (\<exists>addr port. length addr = unat l \<and> length port = 2 \<and> v = addr @ port @ u)) \<and> sent s = out"
      unfolding fixed [symmetric] by (cases "unread s") auto
    also have "\<dots> \<longleftrightarrow>
        (\<exists>addr port. socks5_bound t addr \<and> length port = 2 \<and> unread s = addr @ port @ u) \<and> sent s = out"
    proof -
      have "(\<exists>l v. unread s = l # v \<and> (\<exists>addr port. length addr = unat l \<and> length port = 2 \<and> v = addr @ port @ u)) \<longleftrightarrow>
          (\<exists>addr port. socks5_bound t addr \<and> length port = 2 \<and> unread s = addr @ port @ u)"
      proof
        assume "\<exists>l v. unread s = l # v \<and> (\<exists>addr port. length addr = unat l \<and> length port = 2 \<and> v = addr @ port @ u)"
        then obtain l addr port where "unread s = l # addr @ port @ u" "length addr = unat l" "length port = 2" by blast
        moreover from this have "socks5_bound t (l # addr)" by (auto simp: name socks5_bound_def)
        ultimately show "\<exists>addr port. socks5_bound t addr \<and> length port = 2 \<and> unread s = addr @ port @ u"
          by (intro exI [of _ "l # addr"] exI [of _ port]) simp
      next
        assume "\<exists>addr port. socks5_bound t addr \<and> length port = 2 \<and> unread s = addr @ port @ u"
        then show "\<exists>l v. unread s = l # v \<and> (\<exists>addr port. length addr = unat l \<and> length port = 2 \<and> v = addr @ port @ u)"
          by (fastforce simp: name socks5_bound_def)
      qed
      then show ?thesis by simp
    qed
    finally show ?thesis .
  qed
qed

lemma socks5_request_ends:
  assumes ws: "working_stream px unread sent"
  shows "ends unread sent (socks5_request env px host port remote) s () u out \<longleftrightarrow>
    (\<exists>address reply. socks5_address env host port remote = Inr address \<and> socks5_grant reply \<and>
       unread s = reply @ u \<and> out = sent s @ [5, 1, 0] @ address @ to_be_bytes port)"
proof -
  have four: "4 \<le> length v \<and> v ! 0 = 5 \<and> v ! Suc 0 = 0 \<and> Q (v ! 3) (drop 4 v) \<longleftrightarrow>
      (\<exists>rsv t w. v = [5, 0, rsv, t] @ w \<and> Q t w)" for v :: bytes and Q
  proof
    assume l: "4 \<le> length v \<and> v ! 0 = 5 \<and> v ! Suc 0 = 0 \<and> Q (v ! 3) (drop 4 v)"
    then obtain a b c d w where "v = a # b # c # d # w"
      by (cases v; cases "tl v"; cases "tl (tl v)"; cases "tl (tl (tl v))") auto
    then show "\<exists>rsv t w. v = [5, 0, rsv, t] @ w \<and> Q t w" using l by auto
  qed auto
  let ?B = "\<lambda>t w. \<exists>addr port. socks5_bound t addr \<and> length port = 2 \<and> w = addr @ port @ u"
  have "ends unread sent (socks5_request env px host port remote) s () u out \<longleftrightarrow>
      (\<exists>address. socks5_address env host port remote = Inr address \<and>
        out = sent s @ [5, 1, 0] @ address @ to_be_bytes port) \<and>
      4 \<le> length (unread s) \<and> unread s ! 0 = 5 \<and> unread s ! Suc 0 = 0 \<and> ?B (unread s ! 3) (drop 4 (unread s))"
    unfolding socks5_request_def ends_of ends_io(1) [OF ws] ends_io(3) [OF ws, where n = 4]
      socks5_bound_ends [OF ws] accepted
    by (auto simp: working_streamD [OF ws] cong: conj_cong)
  also have "\<dots> \<longleftrightarrow> (\<exists>address reply. socks5_address env host port remote = Inr address \<and> socks5_grant reply \<and>
       unread s = reply @ u \<and> out = sent s @ [5, 1, 0] @ address @ to_be_bytes port)"
    unfolding four [of "unread s" ?B] socks5_grant_def by fastforce
  finally show ?thesis .
qed

lemma socks5_authenticate_ends:
  assumes ws: "working_stream px unread sent"
  shows "ends unread sent (socks5_authenticate px user pass m) s () u out \<longleftrightarrow>
    (if m = 2 then length (as_bytes user) < 256 \<and> length (as_bytes pass) < 256 \<and> unread s = [1, 0] @ u \<and>
         out = sent s @ [1] @ (word_of_nat (length (as_bytes user)) # as_bytes user) @
           (word_of_nat (length (as_bytes pass)) # as_bytes pass)
     else unread s = u \<and> out = sent s)"
proof (cases "m = 2")
  case True
  have two: "2 \<le> length v \<and> take 2 v = [1, 0] \<and> drop 2 v = u \<longleftrightarrow> v = [1, 0] @ u" for v :: bytes
    by (cases v; cases "tl v") auto
  have lp: "length_prefixed v role = Inr w \<longleftrightarrow> length v < 256 \<and> w = word_of_nat (length v) # v" for v role w
    by (auto simp: length_prefixed_def)
  show ?thesis unfolding two [symmetric]
    by (simp add: True socks5_authenticate_def ends_of ends_io [OF ws] lp working_streamD [OF ws] accepted
        cong: conj_cong) auto
qed (auto simp: socks5_authenticate_def ends_of)

lemma ends_known: "q = Inr c \<Longrightarrow> ends unread sent (aio_bind (aio_of q) f) s b u out \<longleftrightarrow> ends unread sent (f c) s b u out"
  by (simp add: ends_of)

lemma ends_seq:
  assumes "\<And>b t. ends unread sent (f b) t a u out \<longleftrightarrow> F b (unread t) (sent t)"
  shows "ends unread sent (aio_bind m f) s a u out \<longleftrightarrow> (\<exists>b v w. ends unread sent m s b v w \<and> F b v w)"
proof -
  have "ends unread sent (aio_bind m f) s a u out \<longleftrightarrow>
      (\<exists>b. fst (m s) = Inr b \<and> F b (unread (snd (m s))) (sent (snd (m s))))"
    by (simp only: ends_bind assms)
  then show ?thesis by (auto simp: ends_def)
qed

section \<open>Properties of \<open>proxy.rs\<close>\<close>

text \<open>
  C36. Over a working connection the SOCKS5 handshake succeeds if and only if the target can be
  encoded and the proxy answers as the protocol demands: it selects no authentication, or
  username and password when both were offered and fit in 255 bytes each, and accepts them, and
  it grants the request with a well-formed bound address. Then exactly the greeting, the
  credentials when they were asked for and the request have been sent, and exactly the proxy's
  answers have been read: the first byte of the tunnelled traffic is still unread.
\<close>

theorem socks5_handshake:
  assumes "working_stream px unread sent"
    and "parse_proxy env proxy = Inr parsed" and "percent_decode (pu_username parsed) = Inr user"
    and "percent_decode (case pu_password parsed of Some p \<Rightarrow> p | None \<Rightarrow> []) = Inr pass"
    and "offered \<longleftrightarrow> user \<noteq> [] \<and> pass \<noteq> []"
  shows "ends unread sent (socks5_connect env px proxy host port remote) s () u out \<longleftrightarrow>
    (\<exists>address reply choice credentials.
       socks5_address env host port remote = Inr address \<and> socks5_grant reply \<and>
       unread s = choice @ reply @ u \<and>
       (choice = [5, 0] \<and> credentials = [] \<or>
        offered \<and> choice = [5, 2, 1, 0] \<and> length (as_bytes user) < 256 \<and> length (as_bytes pass) < 256 \<and>
          credentials = [1] @ (word_of_nat (length (as_bytes user)) # as_bytes user) @
            (word_of_nat (length (as_bytes pass)) # as_bytes pass)) \<and>
       out = sent s @ (if offered then [5, 2, 0, 2] else [5, 1, 0]) @ credentials @
         [5, 1, 0] @ address @ to_be_bytes port)"
    (is "?L \<longleftrightarrow> ?R")
proof -
  note ws = assms(1)
  let ?hello = "if offered then [5, 2, 0, 2] else [5, 1, 0]"
  let ?login = "[1] @ (word_of_nat (length (as_bytes user)) # as_bytes user) @
    (word_of_nat (length (as_bytes pass)) # as_bytes pass)"
  let ?fit = "length (as_bytes user) < 256 \<and> length (as_bytes pass) < 256"
  let ?request = "\<lambda>v w. \<exists>address reply. socks5_address env host port remote = Inr address \<and> socks5_grant reply \<and>
    v = reply @ u \<and> out = w @ [5, 1, 0] @ address @ to_be_bytes port"
  let ?auth = "\<lambda>m v w. if m = 2 then \<exists>v'. ?fit \<and> v = [1, 0] @ v' \<and> ?request v' (w @ ?login) else ?request v w"
  have tail: "ends unread sent (aio_bind (socks5_authenticate px user pass m)
      (\<lambda>_. socks5_request env px host port remote)) t () u out \<longleftrightarrow> ?auth m (unread t) (sent t)" for m t
    using ends_seq [of unread sent "\<lambda>_. socks5_request env px host port remote" "()" u out "\<lambda>_. ?request",
        OF socks5_request_ends [OF ws], of "socks5_authenticate px user pass m" t]
    by (cases "m = 2") (auto simp: socks5_authenticate_ends [OF ws])
  have two: "2 \<le> length v \<and> \<not> (v ! 0 \<noteq> 5 \<or> v ! Suc 0 \<noteq> 0 \<and> (\<not> offered \<or> v ! Suc 0 \<noteq> 2)) \<and>
      Q (v ! Suc 0) (drop 2 v) \<longleftrightarrow>
      (\<exists>m w. v = 5 # m # w \<and> (m = 0 \<or> offered \<and> m = 2) \<and> Q m w)" for v :: bytes and Q
    by (cases v; cases "tl v") auto
  have "?L \<longleftrightarrow> 2 \<le> length (unread s) \<and>
      \<not> (unread s ! 0 \<noteq> 5 \<or> unread s ! Suc 0 \<noteq> 0 \<and> (\<not> offered \<or> unread s ! Suc 0 \<noteq> 2)) \<and>
      ?auth (unread s ! Suc 0) (drop 2 (unread s)) (sent s @ ?hello)"
    unfolding socks5_connect_def Let_def ends_known [OF assms(2)] ends_known [OF assms(3)] ends_known [OF assms(4)]
      assms(5) [symmetric]
    unfolding ends_io [OF ws] ends_of(2) accepted tail
    by (simp add: working_streamD [OF ws] cong: conj_cong)
  also have "\<dots> \<longleftrightarrow> ?R"
    unfolding two [of "unread s" "\<lambda>m w. ?auth m w (sent s @ ?hello)"] by (intro iffI; elim exE conjE disjE; fastforce)
  finally show ?thesis .
qed

text \<open>A scripted peer and an environment in which the credentials are those of \<open>u:p\<close>.\<close>

definition script_px :: "(bytes \<times> bytes) proxy_io" where
  "script_px =
     \<lparr>px_write_all = (\<lambda>bs (u, out). (Inr (), (u, out @ bs))), px_flush = (\<lambda>s. (Inr (), s)),
      px_read = (\<lambda>n (u, out). (Inr (take n u), (drop n u, out))),
      px_read_exact = (\<lambda>n (u, out). if n \<le> length u then (Inr (take n u), (drop n u, out))
        else (Inl \<lparr>io_display = lit ''early eof'', io_raw_os_error = None\<rparr>, (u, out)))\<rparr>"

lemma script_px_working: "working_stream script_px fst snd"
  by (auto simp: working_stream_def script_px_def)

definition sample_env :: proxy_env where
  "sample_env =
     \<lparr>pe_parse = (\<lambda>_. Inr \<lparr>pu_host_str = Some (lit ''p''), pu_port_or_known_default = None,
        pu_username = lit ''u'', pu_password = Some (lit ''p'')\<rparr>),
      pe_from_str = (\<lambda>s. Inr (as_bytes s)), pe_to_str = (\<lambda>v. Inr (map char_from v)),
      pe_lookup_host = (\<lambda>_ _. Inr [V4 [127, 0, 0, 1]])\<rparr>"

definition sample_uri :: Uri where
  "sample_uri = \<lparr>uri_display = lit ''x://u:p@p'', uri_scheme = Some (lit ''x''), uri_authority = None,
     uri_host = Some (lit ''p''), uri_port = None, uri_path_and_query = None\<rparr>"

theorem socks5_handshake_witness:
  "ends fst snd (socks5_connect sample_env script_px (Socks5 sample_uri True) (lit ''h'') 80 True)
     ([5, 2, 1, 0, 5, 0, 0, 1, 9, 9, 9, 9, 8, 8, 77], []) () [77]
     ([5, 2, 0, 2] @ [1, 1, 117, 1, 112] @ [5, 1, 0, 3, 1, 104, 0, 80])"
proof -
  let ?p = "\<lparr>pu_host_str = Some (lit ''p''), pu_port_or_known_default = None,
        pu_username = lit ''u'', pu_password = Some (lit ''p'')\<rparr> :: proxy_url"
  have e: "parse_proxy sample_env (Socks5 sample_uri True) = Inr ?p"
    by (simp add: parse_proxy_def foreign_def sample_env_def)
  have u: "percent_decode (pu_username ?p) = Inr (lit ''u'')"
    "percent_decode (case pu_password ?p of Some p \<Rightarrow> p | None \<Rightarrow> []) = Inr (lit ''p'')" by code_simp+
  have a: "socks5_address sample_env (lit ''h'') 80 True = Inr [3, 1, 104]" by code_simp
  have g: "socks5_grant [5, 0, 0, 1, 9, 9, 9, 9, 8, 8]"
    unfolding socks5_grant_def socks5_bound_def
    by (intro exI [of _ 0] exI [of _ 1] exI [of _ "[9, 9, 9, 9]"] exI [of _ "[8, 8]"]) simp
  have b: "as_bytes (lit ''u'') = [117]" "as_bytes (lit ''p'') = [112]" "to_be_bytes 80 = [0, 80]" by code_simp+
  show ?thesis
    unfolding socks5_handshake [OF script_px_working e u, of True, simplified]
    by (intro exI [of _ "[3, 1, 104]"] exI [of _ "[5, 0, 0, 1, 9, 9, 9, 9, 8, 8]"]
        exI [of _ "[5, 2, 1, 0]"] exI [of _ "[1, 1, 117, 1, 112]"])
      (use a g b in simp)
qed

text \<open>
  Over a working connection the SOCKS4 handshake succeeds if and only if the proxy answers
  with eight bytes that grant it; then exactly the request has been sent, with the placeholder
  address and the host name when the proxy resolves names, and exactly eight bytes were read.
\<close>

lemma socks4_handshake:
  assumes "working_stream px unread sent"
    and "parse_proxy env proxy = Inr parsed" and "percent_decode (pu_username parsed) = Inr user"
    and "0 \<notin> set (as_bytes user)" and "0 \<notin> set (as_bytes host)"
    and "if remote then address = [0, 0, 0, 1]
      else \<exists>as. resolve env host port = Inr as \<and> first_v4 as = Some address"
  shows "ends unread sent (socks4_connect env px proxy host port remote) s () u out \<longleftrightarrow>
    (\<exists>r. length r = 6 \<and> unread s = [0, 90] @ r @ u) \<and>
    out = sent s @ [4, 1] @ to_be_bytes port @ address @ as_bytes user @ [0] @
      (if remote then as_bytes host @ [0] else [])"
  by (rule socks4_ends [OF assms])

section \<open>The CONNECT tunnel\<close>

text \<open>A response head: it ends with the first empty line, within the bound.\<close>

definition complete_head :: "bytes \<Rightarrow> bool" where
  "complete_head head \<longleftrightarrow> length head \<le> MAX_RESPONSE_HEAD \<and> ends_with head (crlf @ crlf) \<and>
     (\<forall>n<length head. \<not> ends_with (take n head) (crlf @ crlf))"

lemma read_head_loop_ends:
  assumes ws: "working_stream px unread sent" and "length resp \<le> MAX_RESPONSE_HEAD"
  shows "ends unread sent (read_head_loop px resp) s r u out \<longleftrightarrow>
    (\<exists>x. r = resp @ x \<and> unread s = x @ u) \<and> out = sent s \<and> length r \<le> MAX_RESPONSE_HEAD \<and>
    ends_with r (crlf @ crlf) \<and> (\<forall>n. length resp \<le> n \<and> n < length r \<longrightarrow> \<not> ends_with (take n r) (crlf @ crlf))"
    (is "?L resp s \<longleftrightarrow> ?R resp s")
  using assms(2)
proof (induction "MAX_RESPONSE_HEAD - length resp" arbitrary: resp s rule: less_induct)
  case less
  let ?E = "\<lambda>bs. ends_with bs (crlf @ crlf)"
  note loop = read_head_loop.simps [of px resp s]
  show ?case
  proof (cases "?E resp")
    case True
    have "?L resp s \<longleftrightarrow> r = resp \<and> unread s = u \<and> sent s = out" using True by (auto simp: ends_def loop)
    also have "\<dots> \<longleftrightarrow> ?R resp s"
    proof
      assume "?R resp s"
      then obtain x where x: "r = resp @ x" "unread s = x @ u" "out = sent s" by blast
      have "x = []"
      proof (rule ccontr)
        assume "x \<noteq> []"
        moreover have "\<forall>n. length resp \<le> n \<and> n < length r \<longrightarrow> \<not> ?E (take n r)" using \<open>?R resp s\<close> by blast
        ultimately have "\<not> ?E (take (length resp) r)" using x(1) by (auto dest: spec [of _ "length resp"])
        then show False using True x(1) by simp
      qed
      then show "r = resp \<and> unread s = u \<and> sent s = out" using x by simp
    qed (use True less.prems in auto)
    finally show ?thesis .
  next
    case False
    show ?thesis
    proof (cases "length resp \<ge> MAX_RESPONSE_HEAD")
      case full: True
      have "\<not> ?L resp s" using False full by (simp add: ends_def loop)
      moreover have "\<not> ?R resp s"
      proof
        assume n: "?R resp s"
        then obtain x where "r = resp @ x" "length (resp @ x) \<le> MAX_RESPONSE_HEAD" by blast
        then have "r = resp" using full by (cases x) auto
        then show False using n False by blast
      qed
      ultimately show ?thesis by simp
    next
      case room: False
      note byte = working_read_byte [OF ws, of s]
      show ?thesis
      proof (cases "unread s")
        case Nil
        have "\<not> ?L resp s" using False room byte(1) Nil
          by (cases "px_read px 1 s") (simp add: ends_def loop aio_io_def)
        moreover have "\<not> ?R resp s" using False Nil by auto
        ultimately show ?thesis by simp
      next
        case (Cons b v)
        let ?s = "snd (px_read px 1 s)"
        have after: "unread ?s = v" "sent ?s = sent s" using byte Cons by simp_all
        have "?L resp s \<longleftrightarrow> ?L (resp @ [b]) ?s"
          using False room byte(1) Cons by (cases "px_read px 1 s") (simp add: ends_def loop aio_io_def)
        also have "\<dots> \<longleftrightarrow> ?R (resp @ [b]) ?s" by (rule less.hyps) (use room in auto)
        also have "\<dots> \<longleftrightarrow> ?R resp s"
        proof
          assume n: "?R (resp @ [b]) ?s"
          then obtain x where "r = resp @ b # x" "v = x @ u" using after by auto
          moreover have "\<not> ?E (take n r)" if "length resp \<le> n" "n < length r" for n
          proof (cases "n = length resp")
            case True
            then show ?thesis using False \<open>r = resp @ b # x\<close> by simp
          next
            case False
            then show ?thesis using n that by simp
          qed
          ultimately show "?R resp s" using n Cons after by auto
        next
          assume n: "?R resp s"
          then obtain x where x: "r = resp @ x" "unread s = x @ u" by blast
          then have "x \<noteq> []" using n False by auto
          then obtain x' where "x = b # x'" "v = x' @ u" using x(2) Cons by (cases x) auto
          then show "?R (resp @ [b]) ?s" using n x after by auto
        qed
        finally show ?thesis .
      qed
    qed
  qed
qed

lemma read_head_ends:
  assumes "working_stream px unread sent"
  shows "ends unread sent (read_head px) s r u out \<longleftrightarrow> unread s = r @ u \<and> out = sent s \<and> complete_head r"
  using read_head_loop_ends [OF assms, of "[]" s r u out] by (auto simp: read_head_def complete_head_def)

text \<open>
  C37. Over a working connection the CONNECT tunnel is established if and only if the proxy's
  response head is complete within 16 KiB and its status is from 200 to 299; then exactly the
  request has been sent, and exactly the head has been read, up to and including its empty line:
  bytes of the tunnel that follow at once stay unread.
\<close>

theorem http_connect_tunnel:
  assumes "working_stream px unread sent" and "authorization env proxy = Inr auth"
    and "case auth of None \<Rightarrow> credentials = None
      | Some v \<Rightarrow> \<exists>c. pe_to_str env v = Inr c \<and> credentials = Some c"
  shows "ends unread sent (http_connect env px proxy host port) s () u out \<longleftrightarrow>
    (\<exists>head code. unread s = head @ u \<and> complete_head head \<and> connect_status head = Some code \<and>
       200 \<le> code \<and> code < 300) \<and>
    out = sent s @ as_bytes (connect_request (authority host port) credentials)"
proof -
  note ws = assms(1)
  let ?verdict = "\<lambda>response. case connect_status response of
      None \<Rightarrow> Inl (proxy_error [Text (lit ''CONNECT response has no valid status'')])
    | Some code \<Rightarrow>
        if \<not> (200 \<le> code \<and> code < 300) then
          Inl (proxy_error [Text (lit ''CONNECT proxy returned status ''), Text (nat_to_decimal (unat code))])
        else Inr ()"
  let ?req = "as_bytes (connect_request (authority host port) credentials)"
  have c: "(case auth of None \<Rightarrow> Inr None | Some v \<Rightarrow> map_sum id Some (foreign (pe_to_str env v))) = Inr credentials"
    using assms(3) by (auto simp: foreign_def split: option.splits)
  have v: "?verdict h = Inr () \<longleftrightarrow> (\<exists>code. connect_status h = Some code \<and> 200 \<le> code \<and> code < 300)" for h
    by (simp split: option.split)
  have tail: "ends unread sent (aio_bind (read_head px) (\<lambda>response. aio_of (?verdict response))) t () u out \<longleftrightarrow>
      (\<exists>h. unread t = h @ u \<and> out = sent t \<and> complete_head h \<and> ?verdict h = Inr ())" for t
    using ends_seq [of unread sent "\<lambda>response. aio_of (?verdict response)" "()" u out
        "\<lambda>response v w. ?verdict response = Inr () \<and> v = u \<and> w = out", OF ends_of(1), of "read_head px" t]
    unfolding read_head_ends [OF ws] by auto
  have "ends unread sent (http_connect env px proxy host port) s () u out \<longleftrightarrow>
      (\<exists>h. unread s = h @ u \<and> out = sent s @ ?req \<and> complete_head h \<and> ?verdict h = Inr ())"
    unfolding http_connect_def Let_def ends_known [OF assms(2)] ends_known [OF c]
    unfolding ends_io [OF ws] tail by (simp add: working_streamD [OF ws])
  then show ?thesis unfolding v by blast
qed

theorem http_connect_tunnel_witness:
  "\<exists>out. ends fst snd (http_connect sample_env script_px (ProxyHttp sample_uri) (lit ''h'') 443)
     (lit ''P 200 OK'' @ crlf @ crlf @ [77], []) () [77] out"
proof -
  let ?h = "lit ''P 200 OK'' @ crlf @ crlf :: bytes"
  obtain v where a: "authorization sample_env (ProxyHttp sample_uri) = Inr (Some v)"
    "pe_to_str sample_env v = Inr (map char_from v)"
  proof -
    have "authorization sample_env (ProxyHttp sample_uri) = Inr (Some (as_bytes (lit ''Basic dTpw'')))" by code_simp
    then show thesis using that by (simp add: sample_env_def)
  qed
  have "complete_head ?h" by code_simp
  moreover have "connect_status ?h = Some 200" by code_simp
  ultimately show ?thesis
    using http_connect_tunnel [OF script_px_working a(1), of "Some (map char_from v)" "lit ''h''" 443
        "(?h @ [77], [])" "[77]"] a(2)
    by (simp del: lit_simps)
qed

end
