(* ===== verification/Establish.thy ===== *)
theory Establish
  imports Lease Proxy_Connect
begin

text \<open>
  Getting a connection: \<open>crates/requests/src/transport/connect.rs\<close> and, of \<open>transport/mod.rs\<close>,
  \<open>clear_pool\<close>, \<open>acquire_connection\<close>, \<open>connect_connection\<close> and \<open>start_http1\<close>. The resolver, the
  sockets, the TLS library and hyper's handshake are a record of their answers. The \<open>select!\<close>
  between a deadline and the establishment is an argument: the await at which the deadline wins, if
  it does; the future is dropped there, with all it owns. A panic (\<open>expect\<close>) is \<open>None\<close>.
\<close>

section \<open>Dialling (\<open>connect.rs\<close>)\<close>

record ('a, 'p) dial_ops =
  dl_lookup_host :: "rstr \<Rightarrow> u16 \<Rightarrow> io_error + 'a list"
  dl_connect :: "'a \<Rightarrow> io_error + 'p"

text \<open>The loop over the addresses: whether one was attempted, and the last error.\<close>

fun dial_addresses :: "('a \<Rightarrow> io_error + 'p) \<Rightarrow> 'a list \<Rightarrow> bool \<Rightarrow> io_error option \<Rightarrow> (bool \<times> io_error option) + 'p" where
  "dial_addresses dial [] attempted last_error = Inl (attempted, last_error)"
| "dial_addresses dial (address # rest) attempted last_error =
     (case dial address of
        Inr stream \<Rightarrow> Inr stream
      | Inl error \<Rightarrow> dial_addresses dial rest True (Some error))"

definition connect :: "('a, 'p) dial_ops \<Rightarrow> rstr \<Rightarrow> u16 \<Rightarrow> rstr \<Rightarrow> Error + 'p" where
  "connect ops host port target =
     (case dl_lookup_host ops host port of
        Inl error \<Rightarrow> Inl (dns_io target error)
      | Inr addresses \<Rightarrow>
          (case dial_addresses (dl_connect ops) addresses False None of
             Inr stream \<Rightarrow> Inr stream
           | Inl (True, Some error) \<Rightarrow> Inl (connect_io target error)
           | Inl _ \<Rightarrow> Inl (no_addresses target)))"

section \<open>Establishment\<close>

text \<open>The awaits of an establishment, in order.\<close>

datatype stage = LoadTls | Gate | Dial | ReadyRace | ProxyStage | TlsStage | Http1

text \<open>A step ends, fails, or is cut by the deadline.\<close>

datatype 'a run = Cut | Failed Error | Done 'a

text \<open>What an establishment owns: the harness it shows its checkpoints to and the driver.\<close>

record ('t, 's) establishment =
  es_harness :: SessionRuntimeHarness
  es_driver :: "('t, 's) ConnectionDriver option"

type_synonym ('t, 's, 'a) est = "('t, 's) establishment \<Rightarrow> 'a run \<times> ('t, 's) establishment"

definition est_bind :: "('t, 's, 'a) est \<Rightarrow> ('a \<Rightarrow> ('t, 's, 'b) est) \<Rightarrow> ('t, 's, 'b) est" where
  "est_bind m f = (\<lambda>st. case m st of (Done x, st) \<Rightarrow> f x st | (Failed e, st) \<Rightarrow> (Failed e, st) | (Cut, st) \<Rightarrow> (Cut, st))"

definition est_of :: "Error + 'a \<Rightarrow> ('t, 's, 'a) est" where
  "est_of r = Pair (case r of Inl e \<Rightarrow> Failed e | Inr x \<Rightarrow> Done x)"

definition est_await :: "stage option \<Rightarrow> stage \<Rightarrow> Error + 'a \<Rightarrow> ('t, 's, 'a) est" where
  "est_await cut_at stage r = (if cut_at = Some stage then Pair Cut else est_of r)"

definition est_checkpoint :: "SessionExchangeReservation \<Rightarrow> SessionPhase \<Rightarrow> ('t, 's, SessionCheckpoint) est" where
  "est_checkpoint reservation phase st =
     (let (cp, h) = identity_checkpoint (es_harness st) (rs_identity reservation) phase in
      (Done cp, st\<lparr>es_harness := h\<rparr>))"

text \<open>\<open>harness.wait(checkpoint).await\<close>: the checkpoint is shown, then awaited.\<close>

definition est_wait :: "stage option \<Rightarrow> stage \<Rightarrow> SessionCheckpoint option \<Rightarrow> ('t, 's, unit) est" where
  "est_wait cut_at stage cpt st =
     (case cpt of
        None \<Rightarrow> (Done (), st)
      | Some cp \<Rightarrow> est_await cut_at stage (Inr ()) (st\<lparr>es_harness := observe (es_harness st) cp\<rparr>))"

definition est_set_driver :: "('t, 's) ConnectionDriver \<Rightarrow> ('t, 's, unit) est" where
  "est_set_driver d st = (Done (), st\<lparr>es_driver := Some d\<rparr>)"

text \<open>
  The libraries: loading TLS (and the error of the blocking task), the conversions of a socket and
  its clone for shutdown, the TLS handshake over a stream, and hyper's handshake, which gives the
  sender and the task that drives the connection.
\<close>

record ('a, 'p, 'l, 'q, 'x, 'h, 't, 's) establish_env =
  ee_proxy_env :: proxy_env
  ee_dial :: "('a, 'p) dial_ops"
  ee_blocking :: "rstr option"
  ee_load :: "TlsConfig \<Rightarrow> Error + 'l"
  ee_into_std :: "'p \<Rightarrow> rstr + 'p"
  ee_try_clone :: "'p \<Rightarrow> rstr + 's"
  ee_from_std :: "'p \<Rightarrow> rstr + 'p"
  ee_proxy_io :: "('p, 'q) ProxyStream proxy_io"
  ee_proxy_handshake :: "'l \<Rightarrow> rstr \<Rightarrow> 'p \<Rightarrow> Error + 'q"
  ee_handshake :: "'l \<Rightarrow> rstr \<Rightarrow> ('p, 'q) ProxyStream \<Rightarrow> Error + 'x"
  ee_http1 :: "('p, 'q) ProxyStream + 'x \<Rightarrow> rstr + ('h \<times> 't)"

definition load_tls ::
  "('a, 'p, 'l, 'q, 'x, 'h, 't, 's) establish_env \<Rightarrow> TlsConfig \<Rightarrow> bool \<Rightarrow> bool \<Rightarrow> Error + ('l option \<times> 'l option)" where
  "load_tls env tls target_is_https proxy_needs_tls =
     (case ee_blocking env of
        Some e \<Rightarrow> Inl (tls_error [Text e])
      | None \<Rightarrow>
          let target = (if target_is_https then map_sum id Some (ee_load env tls) else Inr None);
              proxy = (if proxy_needs_tls then map_sum id Some (ee_load env (tls\<lparr>tls_identity := None\<rparr>)) else Inr None) in
          case target of
            Inl e \<Rightarrow> Inl e
          | Inr target \<Rightarrow> map_sum id (Pair target) proxy)"

definition connect_session ::
  "('a, 'p, 'l, 'q, 'x, 'h, 't, 's) establish_env \<Rightarrow> stage option \<Rightarrow> rstr \<Rightarrow> u16 \<Rightarrow> rstr \<Rightarrow>
   SessionCheckpoint option \<Rightarrow> ('t, 's, 'p) est" where
  "connect_session env cut_at host port target cpt =
     est_bind (est_wait cut_at Gate cpt) (\<lambda>_ st.
       if cut_at = Some Dial then (Cut, st)
       else
         let result = connect (ee_dial env) host port target in
         est_bind (est_wait cut_at ReadyRace (map_option (\<lambda>cp. cp\<lparr>cp_phase := ConnectReadyRace\<rparr>) cpt))
           (\<lambda>_. est_of result) st)"

definition start_http1 ::
  "('a, 'p, 'l, 'q, 'x, 'h, 't, 's) establish_env \<Rightarrow> stage option \<Rightarrow> ('p, 'q) ProxyStream + 'x \<Rightarrow>
   ('t, 's) ConnectionDriver \<Rightarrow> u64 option \<Rightarrow> ('t, 's, ('h, 't, 's) network IdleConnection) est" where
  "start_http1 env cut_at stream driver session_identity =
     est_bind (est_await cut_at Http1 (map_sum handshake_error id (ee_http1 env stream))) (\<lambda>(sender, task).
       let driver = driver_start task (observe_response_head head_state_default driver) in
       (\<lambda>st. (Done \<lparr>ic_inner = \<lparr>nw_sender = sender, nw_driver = driver\<rparr>, ic_session_identity = session_identity\<rparr>,
              st\<lparr>es_driver := None\<rparr>)))"

definition opt_checkpoint :: "SessionExchangeReservation option \<Rightarrow> ('t, 's, SessionCheckpoint option) est" where
  "opt_checkpoint reservation =
     (case reservation of
        None \<Rightarrow> (\<lambda>st. (Done None, st))
      | Some r \<Rightarrow> est_bind (est_checkpoint r ConnectBlocked) (\<lambda>cp st. (Done (Some cp), st)))"

definition establishing ::
  "('a, 'p, 'l, 'q, 'x, 'h, 't, 's) establish_env \<Rightarrow> stage option \<Rightarrow> TlsConfig \<Rightarrow> Proxy option \<Rightarrow> PoolKey \<Rightarrow>
   rstr \<Rightarrow> u16 \<Rightarrow> rstr \<Rightarrow> SessionExchangeReservation option \<Rightarrow> ('t, 's, ('h, 't, 's) network IdleConnection) est" where
  "establishing env cut_at tls proxy key host port target reservation =
     (let target_is_https = (pk_scheme key = lit ''https'');
          proxy_needs_tls = (case proxy of None \<Rightarrow> False | Some p \<Rightarrow> needs_tls p) in
      est_bind (if target_is_https \<or> proxy_needs_tls
          then est_await cut_at LoadTls (load_tls env tls target_is_https proxy_needs_tls) else est_of (Inr (None, None)))
        (\<lambda>(loaded_tls, proxy_tls).
      est_bind (est_of (case proxy of Some p \<Rightarrow> endpoint (ee_proxy_env env) p | None \<Rightarrow> Inr \<lparr>ep_host = host, ep_port = port\<rparr>))
        (\<lambda>ep.
      est_bind (opt_checkpoint reservation) (\<lambda>cpt.
      est_bind (connect_session env cut_at (ep_host ep) (ep_port ep) target cpt) (\<lambda>stream.
      est_bind (est_of (map_sum (connect_error target) id (ee_into_std env stream))) (\<lambda>stream.
      est_bind (est_of (map_sum (connect_error target) id (ee_try_clone env stream))) (\<lambda>shutdown.
      est_bind (est_of (map_sum (connect_error target) id (ee_from_std env stream))) (\<lambda>stream.
      let driver = driver_with_shutdown (Some shutdown) in
      est_bind (est_set_driver driver) (\<lambda>_.
      est_bind (case proxy of
            Some p \<Rightarrow> est_await cut_at ProxyStage
              (establish (ee_proxy_env env) (ee_proxy_io env) (ee_proxy_handshake env) p stream proxy_tls host port target_is_https)
          | None \<Rightarrow> est_of (Inr (Plain stream))) (\<lambda>stream.
      est_bind (opt_checkpoint reservation) (\<lambda>cpt.
      let connection_identity = Option.bind cpt cp_connection in
      case loaded_tls of
        Some loaded \<Rightarrow>
          est_bind (est_await cut_at TlsStage (ee_handshake env loaded host stream)) (\<lambda>stream.
            start_http1 env cut_at (Inr stream) driver connection_identity)
      | None \<Rightarrow> start_http1 env cut_at (Inl stream) driver connection_identity)))))))))))"

record EstablishmentDeadlines =
  ed_connect_timeout :: "duration option"
  ed_connect_deadline :: "instant option"
  ed_total_timeout :: "duration option"
  ed_total_deadline :: "instant option"

text \<open>
  \<open>connect_connection\<close>. What the future still owns when it ends without a connection is dropped:
  its driver and its reservation.
\<close>

definition connect_connection ::
  "('a, 'p, 'l, 'q, 'x, 'h, 't, 's) establish_env \<Rightarrow> stage option \<Rightarrow> ('h, 't, 's) network Transport \<Rightarrow> PoolKey \<Rightarrow>
   rstr \<Rightarrow> u16 \<Rightarrow> rstr \<Rightarrow> EstablishmentDeadlines \<Rightarrow> ('h, 't, 's) world \<Rightarrow>
   ((Error + ('h, 't, 's) network ConnectionLease) \<times> ('h, 't, 's) world) option" where
  "connect_connection env cut_at self key host port target deadlines w =
     (let gen = generation_number (w_pool w);
          (reservation, p) = (if tr_session_runtime self \<noteq> None
            then map_prod Some id (reserve_exchange (w_process w)) else (None, w_process w));
          source = select_deadline_source (ed_connect_deadline deadlines) (ed_total_deadline deadlines);
          cut_at = (if source = None then None else cut_at);
          (result, st) = establishing env cut_at (tr_tls self) (tr_proxy self) key host port target reservation
            \<lparr>es_harness = w_harness w, es_driver = None\<rparr>;
          w = w\<lparr>w_process := p\<rparr> in
      case result of
        Done connection \<Rightarrow>
          Some (Inr (case reservation of
                Some r \<Rightarrow> lease_new_with_exchange_identity key gen connection (fst (promote r))
              | None \<Rightarrow> with_session_lease_identity key gen connection None),
             w\<lparr>w_harness := es_harness st\<rparr>)
      | _ \<Rightarrow>
          let w = w\<lparr>w_harness := (case reservation of Some r \<Rightarrow> drop_reservation r (es_harness st) | None \<Rightarrow> es_harness st),
                w_effects := w_effects w @ (case es_driver st of Some d \<Rightarrow> fst (shutdown_now d) | None \<Rightarrow> [])\<rparr> in
          (case result of
             Failed e \<Rightarrow> Some (Inl e, w)
           | _ \<Rightarrow>
               (case source of
                  Some DeadlineRead \<Rightarrow>
                    map_option (\<lambda>t. (Inl (connect_timeout_error target t False), w)) (ed_connect_timeout deadlines)
                | _ \<Rightarrow>
                    map_option (\<lambda>t. (Inl (connect_timeout_error target t True), w)) (ed_total_timeout deadlines))))"

section \<open>The pool of a transport\<close>

text \<open>\<open>observe_pool_acquire\<close>, and the observations of \<open>clear_pool\<close>: one for each connection, or one.\<close>

definition observe_next ::
  "bool \<Rightarrow> SessionPhase \<Rightarrow> u64 option \<Rightarrow> u64 option \<Rightarrow> ('h, 't, 's) world \<Rightarrow> ('h, 't, 's) world" where
  "observe_next session_runtime phase connection lease w =
     (if session_runtime then
        let (correlation, p) = next_process_identity (w_process w);
            (cp, h) = checkpoint (w_harness w) phase connection lease correlation in
        w\<lparr>w_process := p, w_harness := observe h cp\<rparr>
      else w)"

definition observe_pool_acquire ::
  "bool \<Rightarrow> ('h, 't, 's) network ConnectionLease \<Rightarrow> ('h, 't, 's) world \<Rightarrow> ('h, 't, 's) world" where
  "observe_pool_acquire session_runtime lease =
     observe_next session_runtime PoolAcquire (session_connection_identity lease) (cl_session_lease_identity lease)"

definition clear_pool :: "bool \<Rightarrow> ('h, 't, 's) world \<Rightarrow> ('h, 't, 's) world option" where
  "clear_pool session_runtime w =
     (case pool_clear (w_pool w) of
        None \<Rightarrow> None
      | Some (evicted, pool) \<Rightarrow>
          let w = w\<lparr>w_pool := pool\<rparr>;
              w = (if evicted = [] then observe_next session_runtime PoolClear None None w
                else fold (\<lambda>c. observe_next session_runtime PoolClear (ic_session_identity c) None) evicted w) in
          Some (w\<lparr>w_effects := w_effects w @ concat (map (\<lambda>c. fst (shutdown_now (nw_driver (ic_inner c)))) evicted)\<rparr>))"

text \<open>
  \<open>sender.ready()\<close> against the total deadline, and the answers about a connection: before it is
  awaited, after, and while a lease is given back.
\<close>

datatype ready_answer = DeadlineFirst | ReadyOk | ReadyErr

record ('h, 't, 's) acquire_env =
  ae_before :: "('h, 't, 's) network_ops"
  ae_ready :: "('h, 't, 's) network \<Rightarrow> ready_answer"
  ae_after :: "('h, 't, 's) network_ops"
  ae_release :: "('h, 't, 's) network_ops"
  ae_pool :: "('h, 't, 's) network_ops"

text \<open>\<open>TransportLease::new(..).finish_now(false)\<close>.\<close>

definition discard ::
  "('h, 't, 's) acquire_env \<Rightarrow> bool \<Rightarrow> ('h, 't, 's) network ConnectionLease \<Rightarrow> ('h, 't, 's) world \<Rightarrow> ('h, 't, 's) world option" where
  "discard env session_runtime lease w =
     (let (tl, w) = transport_lease_new lease session_runtime w in
      map_option snd (lease_finish_now False (ae_release env) (ae_pool env) (tl :: ('h, 't, 's, unit) TransportLease) w))"

datatype verdict = Use | Discard | TimedOut

definition lease_verdict ::
  "('h, 't, 's) acquire_env \<Rightarrow> instant option \<Rightarrow> ('h, 't, 's) network ConnectionLease \<Rightarrow> verdict" where
  "lease_verdict env total_deadline lease =
     (if \<not> lease_is_live (network_view (ae_before env)) lease \<or> \<not> lease_peer_is_open (network_view (ae_before env)) lease
      then Discard
      else
        case cl_connection lease of
          None \<Rightarrow> Discard
        | Some c \<Rightarrow>
            (case (ae_ready env (ic_inner c), total_deadline) of
               (DeadlineFirst, Some _) \<Rightarrow> TimedOut
             | (answer, _) \<Rightarrow>
                 if answer = ReadyOk \<and> lease_is_live (network_view (ae_after env)) lease \<and>
                    lease_peer_is_open (network_view (ae_after env)) lease
                 then Use else Discard))"

text \<open>The pool's part of a discarded lease does not change.\<close>

lemma acquire_pool:
  assumes "acquire p k pr = Some (l, p', pr')"
  obtains c where "idle_of p k = idle_of p' k @ [c]" "cl_connection l = Some c" "cl_key l = k"
    "cl_terminal l = Active" "cl_dirty_identity l = None" "cl_generation l = generation_number p"
    "\<And>k'. k' \<noteq> k \<Longrightarrow> idle_of p' k' = idle_of p k'"
  using assms
  by (intro that [of "last (idle_of p k)"])
    (auto simp: acquire_def pop_def idle_of_def lease_new_with_session_runtime_def with_session_lease_identity_def
      case_prod_beta Let_def split: option.splits if_splits)

lemma give_back_dirty_pool:
  "cl_terminal l = Active \<Longrightarrow> w_pool (give_back ops' (complete_dirty l cause) w) = w_pool w"
  "cl_terminal l = Active \<Longrightarrow> w_effects (give_back ops' (complete_dirty l cause) w) = w_effects w @ drop_effects (Some l)"
  "w_harness (give_back ops' l' w) = w_harness w"
  by (simp_all add: give_back_def complete_dirty_def release_def drop_effects_def connection_driver_def case_prod_beta)

lemma discard_spec:
  assumes "cl_connection l = Some c" and "cl_terminal l = Active"
  obtains w' where "discard env sr l w = Some w'" "w_pool w' = w_pool w"
    "w_effects w' = w_effects w @ fst (shutdown_now (nw_driver (ic_inner c)))"
    "map cp_phase (shown (w_harness w')) = map cp_phase (shown (w_harness w)) @ (if sr then [PoolReleaseDirty] else [])"
proof -
  obtain tl w1 where t: "transport_lease_new l sr w = (tl :: (_, _, _, unit) TransportLease, w1)" by fastforce
  have tl: "tl_lease tl = Some l" "\<not> ag_released (tl_active_exchange tl)" "ag_session_runtime (tl_active_exchange tl) = sr"
    "w_pool w1 = w_pool w" "w_harness w1 = w_harness w" "w_effects w1 = w_effects w"
    using t by (auto simp: transport_lease_new_def guard_new_def case_prod_beta Let_def)
  let ?d = "nw_driver (ic_inner c)"
  let ?l = "set_driver (snd (shutdown_now ?d)) l"
  have l: "cl_terminal ?l = Active" "drop_effects (Some ?l) = []"
    using assms shutdown_now_again by (simp_all add: set_driver_def drop_effects_def connection_driver_def)
  let ?h = "snd (guard_release False (tl_active_exchange tl) (w_harness w1))"
  let ?w = "give_back (ae_pool env) (complete_dirty ?l Cancellation) (w1\<lparr>w_harness := ?h,
      w_effects := w_effects w1 @ fst (shutdown_now ?d)\<rparr>)"
  have "discard env sr l w = Some ?w" using assms(1) tl(1)
    by (simp add: discard_def t lease_finish_now_def driver_mut_def connection_driver_def put_driver_def lease_release_def
        case_prod_beta Let_def world_updates lease_drop_None)
  then show thesis using tl guard_release_shown [OF tl(2), of False] l
    by (intro that [of ?w]) (simp_all add: give_back_dirty_pool)
qed

function acquire_idle ::
  "('h, 't, 's) acquire_env \<Rightarrow> bool \<Rightarrow> PoolKey \<Rightarrow> EstablishmentDeadlines \<Rightarrow> ('h, 't, 's) world \<Rightarrow>
   ((Error + ('h, 't, 's) network ConnectionLease option) \<times> ('h, 't, 's) world) option" where
  "acquire_idle env session_runtime key deadlines w =
     (case acquire (w_pool w) key (w_process w) of
        None \<Rightarrow> Some (Inr None, w)
      | Some (lease, pool, p) \<Rightarrow>
          let w = w\<lparr>w_pool := pool, w_process := p\<rparr> in
          (case lease_verdict env (ed_total_deadline deadlines) lease of
             Use \<Rightarrow> Some (Inr (Some lease), observe_pool_acquire session_runtime lease w)
           | Discard \<Rightarrow>
               (case discard env session_runtime lease w of
                  None \<Rightarrow> None
                | Some w \<Rightarrow> acquire_idle env session_runtime key deadlines w)
           | TimedOut \<Rightarrow>
               (case (discard env session_runtime lease w, ed_total_timeout deadlines) of
                  (Some w, Some t) \<Rightarrow> Some (Inl (request_exchange_total_timeout t), w)
                | _ \<Rightarrow> None)))"
  by pat_completeness auto
termination
proof (relation "measure (\<lambda>(_, _, key, _, w). length (idle_of (w_pool w) key))")
  fix env sr key d w and x lease y pool p w1 w2
  assume a: "acquire (w_pool w) key (w_process w) = Some x" "(lease, y) = x" "(pool, p) = y"
    and w: "w1 = w\<lparr>w_pool := pool, w_process := p\<rparr>" "discard env sr lease w1 = Some w2"
  have a': "acquire (w_pool w) key (w_process w) = Some (lease, pool, p)" using a by simp
  obtain c where c: "idle_of (w_pool w) key = idle_of pool key @ [c]" "cl_connection lease = Some c" "cl_terminal lease = Active"
    using acquire_pool [OF a'] by metis
  have "w_pool w2 = pool" using discard_spec [OF c(2,3), of env sr w1] w by auto
  then show "((env, sr, key, d, w2), env, sr, key, d, w) \<in> measure (\<lambda>(_, _, key, _, w). length (idle_of (w_pool w) key))"
    using c(1) by simp
qed simp

declare acquire_idle.simps [simp del]

definition acquire_connection ::
  "('a, 'p, 'l, 'q, 'x, 'h, 't, 's) establish_env \<Rightarrow> stage option \<Rightarrow> ('h, 't, 's) acquire_env \<Rightarrow>
   ('h, 't, 's) network Transport \<Rightarrow> PoolKey \<Rightarrow> rstr \<Rightarrow> u16 \<Rightarrow> rstr \<Rightarrow> EstablishmentDeadlines \<Rightarrow> ('h, 't, 's) world \<Rightarrow>
   ((Error + ('h, 't, 's) network ConnectionLease) \<times> ('h, 't, 's) world) option" where
  "acquire_connection env cut_at aenv self key host port target deadlines w =
     (let session_runtime = (tr_session_runtime self \<noteq> None) in
      case acquire_idle aenv session_runtime key deadlines w of
        None \<Rightarrow> None
      | Some (Inl e, w) \<Rightarrow> Some (Inl e, w)
      | Some (Inr (Some lease), w) \<Rightarrow> Some (Inr lease, w)
      | Some (Inr None, w) \<Rightarrow>
          (case connect_connection env cut_at self key host port target deadlines w of
             Some (Inr lease, w) \<Rightarrow> Some (Inr lease, observe_pool_acquire session_runtime lease w)
           | result \<Rightarrow> result))"

section \<open>Properties: taking an idle connection\<close>

definition conn_verdict ::
  "('h, 't, 's) acquire_env \<Rightarrow> instant option \<Rightarrow> ('h, 't, 's) network IdleConnection \<Rightarrow> verdict" where
  "conn_verdict env total_deadline c =
     (if \<not> conn_is_live (network_view (ae_before env)) c \<or> \<not> conn_peer_is_open (network_view (ae_before env)) c then Discard
      else if ae_ready env (ic_inner c) = DeadlineFirst \<and> total_deadline \<noteq> None then TimedOut
      else if ae_ready env (ic_inner c) = ReadyOk \<and> conn_is_live (network_view (ae_after env)) c \<and>
        conn_peer_is_open (network_view (ae_after env)) c then Use
      else Discard)"

lemma lease_verdict_conn: "cl_connection l = Some c \<Longrightarrow> lease_verdict env dl l = conn_verdict env dl c"
  by (cases "ae_ready env (ic_inner c)"; cases dl)
    (simp_all add: lease_verdict_def conn_verdict_def lease_is_live_def lease_peer_is_open_def)

text \<open>The effects of discarding connections, and the phases a session runtime is shown.\<close>

definition close_effects :: "('h, 't, 's) network IdleConnection list \<Rightarrow> ('t, 's) effect list" where
  "close_effects cs = concat (map (\<lambda>c. fst (shutdown_now (nw_driver (ic_inner c)))) cs)"

abbreviation phases :: "('h, 't, 's) world \<Rightarrow> SessionPhase list" where
  "phases w \<equiv> map cp_phase (shown (w_harness w))"

text \<open>
  The specification, on the idle connections of the key from the newest: those to discard go, and the
  next one is used, or its wait runs into the deadline; or there is none.
\<close>

definition taken_idle ::
  "(('h, 't, 's) network IdleConnection \<Rightarrow> verdict) \<Rightarrow> bool \<Rightarrow> PoolKey \<Rightarrow> duration option \<Rightarrow> ('h, 't, 's) world \<Rightarrow>
   Error + ('h, 't, 's) network ConnectionLease option \<Rightarrow> ('h, 't, 's) world \<Rightarrow> bool" where
  "taken_idle v sr key timeout w r w' =
     (let newest = rev (idle_of (w_pool w) key);
          dead = takeWhile (\<lambda>c. v c = Discard) newest;
          dirty = replicate (length dead) PoolReleaseDirty in
      idle_of (w_pool w') = (idle_of (w_pool w))(key := rev (tl (dropWhile (\<lambda>c. v c = Discard) newest))) \<and>
      (case dropWhile (\<lambda>c. v c = Discard) newest of
         [] \<Rightarrow> r = Inr None \<and> w_effects w' = w_effects w @ close_effects dead \<and>
           phases w' = phases w @ (if sr then dirty else [])
       | c # _ \<Rightarrow>
           if v c = Use then
             (\<exists>l. r = Inr (Some l) \<and> cl_connection l = Some c \<and> cl_key l = key \<and> cl_terminal l = Active \<and>
                cl_generation l = generation_number (w_pool w)) \<and>
             w_effects w' = w_effects w @ close_effects dead \<and>
             phases w' = phases w @ (if sr then dirty @ [PoolAcquire] else [])
           else
             (\<exists>t. timeout = Some t \<and> r = Inl (request_exchange_total_timeout t)) \<and>
             w_effects w' = w_effects w @ close_effects (dead @ [c]) \<and>
             phases w' = phases w @ (if sr then dirty @ [PoolReleaseDirty] else [])))"

lemma observe_next_phases:
  "phases (observe_next sr phase c l w) = phases w @ (if sr then [phase] else [])"
  "w_pool (observe_next sr phase c l w) = w_pool w" "w_effects (observe_next sr phase c l w) = w_effects w"
  by (simp_all add: observe_next_def checkpoint_def observe_def case_prod_beta Let_def)

lemma acquire_generation: "acquire p k pr = Some (l, p', pr') \<Longrightarrow> generation_number p' = generation_number p"
  by (auto simp: acquire_def case_prod_beta Let_def split: option.splits)

lemma taken_idle_discard:
  assumes "taken_idle v sr key timeout w1 r w'" and "v c = Discard"
    and "idle_of (w_pool w) key = idle_of (w_pool w1) key @ [c]"
    and "\<And>k'. k' \<noteq> key \<Longrightarrow> idle_of (w_pool w1) k' = idle_of (w_pool w) k'"
    and "w_effects w1 = w_effects w @ fst (shutdown_now (nw_driver (ic_inner c)))"
    and "phases w1 = phases w @ (if sr then [PoolReleaseDirty] else [])"
    and "generation_number (w_pool w1) = generation_number (w_pool w)"
  shows "taken_idle v sr key timeout w r w'"
proof -
  have upd: "(idle_of (w_pool w1))(key := xs) = (idle_of (w_pool w))(key := xs)" for xs using assms(4) by auto
  show ?thesis
  proof (cases "dropWhile (\<lambda>c. v c = Discard) (rev (idle_of (w_pool w1) key))")
    case Nil
    then show ?thesis using assms(1,2,3,5,6) by (cases sr) (simp_all add: taken_idle_def Let_def close_effects_def upd del: dropWhile_eq_Nil_conv)
  next
    case (Cons c' cs)
    then show ?thesis using assms(1,2,3,5,6,7) by (cases sr; cases "v c' = Use") (simp_all add: taken_idle_def Let_def close_effects_def upd del: dropWhile_eq_Nil_conv)
  qed
qed

lemma acquire_idle_taken:
  assumes "ed_total_deadline deadlines \<noteq> None \<longrightarrow> ed_total_timeout deadlines \<noteq> None"
  shows "\<exists>r w'. acquire_idle env sr key deadlines w = Some (r, w') \<and>
    taken_idle (conn_verdict env (ed_total_deadline deadlines)) sr key (ed_total_timeout deadlines) w r w'"
proof (induction "length (idle_of (w_pool w) key)" arbitrary: w)
  case 0
  then show ?case
    by (subst acquire_idle.simps) (simp add: acquire_None_iff [THEN iffD2] taken_idle_def close_effects_def fun_upd_idem)
next
  case (Suc n)
  let ?v = "conn_verdict env (ed_total_deadline deadlines)"
  have "acquire (w_pool w) key (w_process w) \<noteq> None" using Suc.hyps(2) acquire_None_iff by force
  then obtain l pool p where a: "acquire (w_pool w) key (w_process w) = Some (l, pool, p)" by auto
  obtain c where c: "idle_of (w_pool w) key = idle_of pool key @ [c]" "cl_connection l = Some c" "cl_key l = key"
    "cl_terminal l = Active" "cl_dirty_identity l = None" "cl_generation l = generation_number (w_pool w)"
    "\<And>k'. k' \<noteq> key \<Longrightarrow> idle_of pool k' = idle_of (w_pool w) k'" using acquire_pool [OF a] by metis
  have pool: "idle_of pool = (idle_of (w_pool w))(key := idle_of pool key)" using c(7) by auto
  let ?w = "w\<lparr>w_pool := pool, w_process := p\<rparr>"
  note step = acquire_idle.simps [of env sr key deadlines w, unfolded a option.case prod.case Let_def lease_verdict_conn [OF c(2)]]
  obtain w1 where d: "discard env sr l ?w = Some w1" "w_pool w1 = pool"
    "w_effects w1 = w_effects w @ fst (shutdown_now (nw_driver (ic_inner c)))"
    "phases w1 = phases w @ (if sr then [PoolReleaseDirty] else [])"
    using discard_spec [OF c(2,4), of env sr ?w] by auto
  show ?case
  proof (cases "?v c")
    case Use
    then show ?thesis using c pool
      by (simp add: step taken_idle_def observe_pool_acquire_def observe_next_phases close_effects_def)
  next
    case TimedOut
    then have "ed_total_deadline deadlines \<noteq> None" by (auto simp: conn_verdict_def split: if_splits)
    then obtain t where "ed_total_timeout deadlines = Some t" using assms by blast
    then show ?thesis using TimedOut c pool d by (simp add: step taken_idle_def close_effects_def)
  next
    case Discard
    obtain r w' where "acquire_idle env sr key deadlines w1 = Some (r, w')" "taken_idle ?v sr key (ed_total_timeout deadlines) w1 r w'"
      using Suc.hyps c(1) d(2) by (metis Suc_inject length_append_singleton)
    moreover have "taken_idle ?v sr key (ed_total_timeout deadlines) w r w'"
      by (rule taken_idle_discard [OF calculation(2) Discard]) (use c d acquire_generation [OF a] in simp_all)
    ultimately show ?thesis using Discard d(1) by (simp add: step)
  qed
qed

text \<open>
  C21. Taking a connection ends and takes the newest idle one that can be used. The connections of the
  key are looked at from the newest: each that is not live, whose peer has closed, that does not
  become ready or is not live any more afterwards is shut down, once, and a session runtime is shown
  its release; the first that passes is leased, and those below it and those of every other key stay
  idle. When the deadline passes while one is awaited that one is shut down and the error is the
  timeout; when none is left the pool has none for the key and a new connection is opened.
\<close>
theorem acquire_takes_newest_usable:
  assumes "ed_total_deadline deadlines \<noteq> None \<longrightarrow> ed_total_timeout deadlines \<noteq> None"
    and "sr \<longleftrightarrow> tr_session_runtime self \<noteq> None"
  shows "\<exists>r w'. taken_idle (conn_verdict aenv (ed_total_deadline deadlines)) sr key (ed_total_timeout deadlines) w r w' \<and>
    acquire_connection env cut_at aenv self key host port target deadlines w =
      (case r of
         Inl e \<Rightarrow> Some (Inl e, w')
       | Inr (Some l) \<Rightarrow> Some (Inr l, w')
       | Inr None \<Rightarrow>
           map_option (\<lambda>(r, w). (r, case r of Inr l \<Rightarrow> observe_pool_acquire sr l w | Inl _ \<Rightarrow> w))
             (connect_connection env cut_at self key host port target deadlines w'))"
proof -
  obtain r w' where a: "acquire_idle aenv sr key deadlines w = Some (r, w')"
    "taken_idle (conn_verdict aenv (ed_total_deadline deadlines)) sr key (ed_total_timeout deadlines) w r w'"
    using acquire_idle_taken [OF assms(1)] by blast
  then show ?thesis using assms(2)
    by (intro exI [of _ r] exI [of _ w'])
      (auto simp: acquire_connection_def split: sum.split option.split)
qed

text \<open>Two idle connections of a key; the sender of the newer one has been closed.\<close>

definition flagged_ops :: "(bool, nat, nat) network_ops" where
  "flagged_ops = \<lparr>no_sender_is_closed = (\<lambda>closed. closed), no_task_is_finished = (\<lambda>_. False),
     no_poll_task = (\<lambda>t. (Pending, t)), no_await_aborted = (\<lambda>_. Inl \<lparr>je_display = [], je_is_cancelled = True\<rparr>),
     no_peek = (\<lambda>_. WouldBlock)\<rparr>"

definition flagged_env :: "(bool, nat, nat) acquire_env" where
  "flagged_env = \<lparr>ae_before = flagged_ops, ae_ready = (\<lambda>_. ReadyOk), ae_after = flagged_ops,
     ae_release = flagged_ops, ae_pool = flagged_ops\<rparr>"

definition flagged :: "bool \<Rightarrow> nat \<Rightarrow> (bool, nat, nat) network IdleConnection" where
  "flagged closed n = \<lparr>ic_inner = \<lparr>nw_sender = closed, nw_driver =
     \<lparr>cd_task = Some n, cd_shutdown = Some n, cd_response_head = None\<rparr>\<rparr>, ic_session_identity = None\<rparr>"

definition two_idle :: "(bool, nat, nat) world" where
  "two_idle = \<lparr>w_pool = (pool_new 2 None)\<lparr>generations := [(sample_key, \<lparr>number = 0, idle = [flagged False 1, flagged True 2]\<rparr>)]\<rparr>,
     w_harness = sample_harness, w_process = sample_process, w_effects = []\<rparr>"

definition plain_transport :: "'c Transport" where
  "plain_transport = transport_configured None \<lparr>tls_roots = Platform, tls_identity = None\<rparr>
     \<lparr>timeout_connect = None, timeout_read = None, timeout_total = None\<rparr> 2 (codecs_new True True) None"

definition no_deadlines :: EstablishmentDeadlines where
  "no_deadlines = \<lparr>ed_connect_timeout = None, ed_connect_deadline = None, ed_total_timeout = None, ed_total_deadline = None\<rparr>"

text \<open>A server that is reached, and then fails the handshake.\<close>

definition failing_env :: "(nat, nat, nat, nat, nat, bool, nat, nat) establish_env" where
  "failing_env = \<lparr>ee_proxy_env = sample_env,
     ee_dial = \<lparr>dl_lookup_host = (\<lambda>_ _. Inr [1]), dl_connect = (\<lambda>a. Inr (a + 6))\<rparr>, ee_blocking = None,
     ee_load = (\<lambda>_. Inr 0), ee_into_std = Inr, ee_try_clone = Inr, ee_from_std = Inr,
     ee_proxy_io = \<lparr>px_write_all = (\<lambda>_ s. (Inr (), s)), px_flush = (\<lambda>s. (Inr (), s)), px_read = (\<lambda>_ s. (Inr [], s)),
       px_read_exact = (\<lambda>n s. (Inr (replicate n 0), s))\<rparr>,
     ee_proxy_handshake = (\<lambda>_ _ _. Inr 0), ee_handshake = (\<lambda>_ _ _. Inr 0), ee_http1 = (\<lambda>_. Inl [])\<rparr>"

theorem acquire_takes_newest_usable_witness:
  "\<exists>l w'. acquire_connection failing_env None flagged_env
       plain_transport sample_key [] 80 [] no_deadlines two_idle = Some (Inr l, w') \<and>
     cl_connection l = Some (flagged False 1) \<and> w_effects w' = [SocketShutdown 2, TaskAborted 2]"
proof -
  let ?v = "conn_verdict flagged_env (ed_total_deadline no_deadlines)"
  have v: "?v (flagged True 2) = Discard" "?v (flagged False 1) = Use"
    by (simp_all add: conn_verdict_def flagged_env_def flagged_ops_def flagged_def conn_is_live_def conn_peer_is_open_def
        network_view_def driver_is_reusable_def driver_peer_is_open_def)
  have idle: "idle_of (w_pool two_idle) sample_key = [flagged False 1, flagged True 2]" "w_effects two_idle = []"
    by (simp_all add: two_idle_def idle_of_def)
  have closed: "close_effects [flagged True 2] = [SocketShutdown 2, TaskAborted 2]"
    by (simp add: close_effects_def flagged_def shutdown_now_effects)
  obtain r w' where t: "taken_idle ?v False sample_key (ed_total_timeout no_deadlines) two_idle r w'"
    and a: "acquire_connection failing_env None flagged_env
       plain_transport sample_key [] 80 [] no_deadlines two_idle =
      (case r of Inl e \<Rightarrow> Some (Inl e, w') | Inr (Some l) \<Rightarrow> Some (Inr l, w')
       | Inr None \<Rightarrow> map_option (\<lambda>(r, w). (r, case r of Inr l \<Rightarrow> observe_pool_acquire False l w | Inl _ \<Rightarrow> w))
           (connect_connection failing_env None plain_transport sample_key [] 80 [] no_deadlines w'))"
    using acquire_takes_newest_usable [of no_deadlines False plain_transport flagged_env sample_key two_idle failing_env None "[]" 80 "[]"]
    by (auto simp: no_deadlines_def plain_transport_def transport_configured_def)
  then obtain l where "r = Inr (Some l)" "cl_connection l = Some (flagged False 1)" "w_effects w' = [SocketShutdown 2, TaskAborted 2]"
    using v closed unfolding taken_idle_def idle by (auto simp: Let_def)
  then show ?thesis using a by auto
qed

section \<open>Properties: establishment\<close>

text \<open>
  What holds of an establishment at every await: no release was shown, and the driver, once there is
  one, has the socket and no task.
\<close>

definition est_inv :: "nat \<Rightarrow> ('t, 's) establishment \<Rightarrow> bool" where
  "est_inv dirty st \<longleftrightarrow>
     count_list (map cp_phase (shown (es_harness st))) PoolReleaseDirty = dirty \<and>
     (es_driver st = None \<or> (\<exists>s. es_driver st = Some (driver_with_shutdown (Some s))))"

text \<open>A step keeps it, is cut only when there is a deadline, and what it ends with has the property.\<close>

definition est_safe :: "stage option \<Rightarrow> ('t, 's, 'a) est \<Rightarrow> ('a \<Rightarrow> bool) \<Rightarrow> bool" where
  "est_safe cut_at m Q \<longleftrightarrow>
     (\<forall>dirty st r st'. est_inv dirty st \<longrightarrow> m st = (r, st') \<longrightarrow>
        est_inv dirty st' \<and> (cut_at = None \<longrightarrow> r \<noteq> Cut) \<and> (\<forall>x. r = Done x \<longrightarrow> Q x))"

lemma est_safeD:
  assumes "est_safe cut_at m Q" and "est_inv dirty st" and "m st = (r, st')"
  shows "est_inv dirty st'" and "cut_at = None \<Longrightarrow> r \<noteq> Cut" and "r = Done x \<Longrightarrow> Q x"
  using assms(1) [unfolded est_safe_def, rule_format, OF assms(2,3)] by simp_all

named_theorems est_rules

lemma est_safe_bind [est_rules]:
  assumes "est_safe cut_at m P" and "\<And>x. P x \<Longrightarrow> est_safe cut_at (f x) Q"
  shows "est_safe cut_at (est_bind m f) Q"
  unfolding est_safe_def
proof (intro allI impI)
  fix dirty st r st'
  assume inv: "est_inv dirty st" and run: "est_bind m f st = (r, st')"
  obtain r1 st1 where m: "m st = (r1, st1)" by fastforce
  note 1 = est_safeD [OF assms(1) inv m]
  show "est_inv dirty st' \<and> (cut_at = None \<longrightarrow> r \<noteq> Cut) \<and> (\<forall>x. r = Done x \<longrightarrow> Q x)"
  proof (cases r1)
    case (Done x)
    then have "f x st1 = (r, st')" using run m by (simp add: est_bind_def)
    then show ?thesis using est_safeD [OF assms(2) [OF 1(3) [OF Done]] 1(1), of r st'] by simp
  qed (use run m 1 in \<open>auto simp: est_bind_def\<close>)
qed

lemma est_safe_if [est_rules]: "est_safe cut_at m Q \<Longrightarrow> est_safe cut_at n Q \<Longrightarrow> est_safe cut_at (if b then m else n) Q"
  by simp

lemma est_safe_case_option [est_rules]:
  "est_safe cut_at m Q \<Longrightarrow> (\<And>x. est_safe cut_at (f x) Q) \<Longrightarrow> est_safe cut_at (case z of None \<Rightarrow> m | Some x \<Rightarrow> f x) Q"
  by (simp split: option.split)

lemma est_safe_case_prod [est_rules]: "(\<And>x y. est_safe cut_at (f x y) Q) \<Longrightarrow> est_safe cut_at (case z of (x, y) \<Rightarrow> f x y) Q"
  by (simp split: prod.split)

lemma est_safe_of [est_rules]: "est_safe cut_at (est_of r) (\<lambda>_. True)"
  by (simp add: est_safe_def est_of_def split: sum.split)

lemma est_safe_await [est_rules]: "est_safe cut_at (est_await cut_at stage r) (\<lambda>_. True)"
  by (simp add: est_safe_def est_await_def est_of_def split: sum.split)

lemma est_safe_set_driver [est_rules]: "est_safe cut_at (est_set_driver (driver_with_shutdown (Some s))) (\<lambda>_. True)"
  by (auto simp: est_safe_def est_set_driver_def est_inv_def)

definition shows_no_release :: "SessionCheckpoint option \<Rightarrow> bool" where
  "shows_no_release cpt \<longleftrightarrow> (\<forall>cp. cpt = Some cp \<longrightarrow> cp_phase cp \<noteq> PoolReleaseDirty)"

lemma est_safe_wait [est_rules]: "shows_no_release cpt \<Longrightarrow> est_safe cut_at (est_wait cut_at stage cpt) (\<lambda>_. True)"
  by (auto simp: est_safe_def est_wait_def est_await_def est_of_def est_inv_def observe_def shows_no_release_def
      split: option.splits sum.splits if_splits)

lemma est_safe_opt_checkpoint [est_rules]: "est_safe cut_at (opt_checkpoint reservation) shows_no_release"
  by (auto simp: est_safe_def opt_checkpoint_def est_bind_def est_checkpoint_def identity_checkpoint_def checkpoint_def
      est_inv_def shows_no_release_def split: option.splits)

lemma est_safe_connect_session [est_rules]:
  assumes "shows_no_release cpt"
  shows "est_safe cut_at (connect_session env cut_at host port target cpt) (\<lambda>_. True)"
proof -
  have race: "shows_no_release (map_option (\<lambda>cp. cp\<lparr>cp_phase := ConnectReadyRace\<rparr>) cpt)"
    by (auto simp: shows_no_release_def)
  have "est_safe cut_at (est_bind (est_wait cut_at ReadyRace (map_option (\<lambda>cp. cp\<lparr>cp_phase := ConnectReadyRace\<rparr>) cpt))
     (\<lambda>_. est_of (connect (ee_dial env) host port target))) (\<lambda>_. True)" (is "est_safe cut_at ?m _")
    by (rule est_rules race)+
  then have "est_safe cut_at (\<lambda>st. if cut_at = Some Dial then (Cut, st) else ?m st) (\<lambda>_. True)"
    by (auto simp: est_safe_def)
  then show ?thesis unfolding connect_session_def Let_def
    by (rule est_safe_bind [OF est_safe_wait [OF assms]])
qed

definition running :: "('h, 't, 's) network IdleConnection \<Rightarrow> bool" where
  "running c \<longleftrightarrow> cd_shutdown (nw_driver (ic_inner c)) \<noteq> None \<and> cd_task (nw_driver (ic_inner c)) \<noteq> None"

lemma est_safe_start_http1 [est_rules]:
  "est_safe cut_at (start_http1 env cut_at stream (driver_with_shutdown (Some s)) identity) running"
  unfolding start_http1_def
  by (rule est_safe_bind [OF est_safe_await])
    (auto simp: est_safe_def est_inv_def running_def driver_start_def observe_response_head_def driver_with_shutdown_def
      split: prod.split)

lemma est_safe_establishing: "est_safe cut_at (establishing env cut_at tls proxy key host port target reservation) running"
  unfolding establishing_def Let_def
  by (rule est_rules | assumption)+

text \<open>
  The socket an establishment opens: the one that is cloned for the shutdown of its connection, once
  TLS is loaded, the endpoint is known and it is dialled, if no deadline has cut it before.
\<close>

definition opened_socket ::
  "('a, 'p, 'l, 'q, 'x, 'h, 't, 's) establish_env \<Rightarrow> stage option \<Rightarrow> TlsConfig \<Rightarrow> Proxy option \<Rightarrow> PoolKey \<Rightarrow>
   rstr \<Rightarrow> u16 \<Rightarrow> rstr \<Rightarrow> bool \<Rightarrow> 's option" where
  "opened_socket env cut_at tls proxy key host port target session =
     (let target_is_https = (pk_scheme key = lit ''https'');
          proxy_needs_tls = (case proxy of None \<Rightarrow> False | Some p \<Rightarrow> needs_tls p) in
      if (target_is_https \<or> proxy_needs_tls) \<and> (cut_at = Some LoadTls \<or> isl (load_tls env tls target_is_https proxy_needs_tls)) \<or>
         cut_at = Some Dial \<or> session \<and> cut_at \<in> {Some Gate, Some ReadyRace} then None
      else
        case (case proxy of Some p \<Rightarrow> endpoint (ee_proxy_env env) p | None \<Rightarrow> Inr \<lparr>ep_host = host, ep_port = port\<rparr>) of
          Inl _ \<Rightarrow> None
        | Inr ep \<Rightarrow>
            (case connect (ee_dial env) (ep_host ep) (ep_port ep) target of
               Inl _ \<Rightarrow> None
             | Inr stream \<Rightarrow>
                 (case ee_into_std env stream of
                    Inl _ \<Rightarrow> None
                  | Inr stream \<Rightarrow>
                      (case ee_try_clone env stream of
                         Inl _ \<Rightarrow> None
                       | Inr shutdown \<Rightarrow> (case ee_from_std env stream of Inl _ \<Rightarrow> None | Inr _ \<Rightarrow> Some shutdown)))))"

text \<open>A step that leaves the driver alone, with what is known of its result; and one that has the socket \<open>s\<close>.\<close>

definition est_yields :: "('t, 's, 'a) est \<Rightarrow> ('a run \<Rightarrow> bool) \<Rightarrow> bool" where
  "est_yields m Q \<longleftrightarrow> (\<forall>st r st'. m st = (r, st') \<longrightarrow> es_driver st' = es_driver st \<and> Q r)"

definition est_owns :: "'s \<Rightarrow> ('t, 's, ('h, 't, 's) network IdleConnection) est \<Rightarrow> bool" where
  "est_owns s m \<longleftrightarrow>
     (\<forall>st r st'. es_driver st = Some (driver_with_shutdown (Some s)) \<longrightarrow> m st = (r, st') \<longrightarrow>
        (case r of
           Done c \<Rightarrow> cd_shutdown (nw_driver (ic_inner c)) = Some s
         | _ \<Rightarrow> es_driver st' = Some (driver_with_shutdown (Some s))))"

definition est_opens :: "'s option \<Rightarrow> ('t, 's, ('h, 't, 's) network IdleConnection) est \<Rightarrow> bool" where
  "est_opens opened m \<longleftrightarrow>
     (\<forall>st r st'. es_driver st = None \<longrightarrow> m st = (r, st') \<longrightarrow>
        (case r of
           Done c \<Rightarrow> opened \<noteq> None \<and> cd_shutdown (nw_driver (ic_inner c)) = opened
         | _ \<Rightarrow> es_driver st' = map_option (\<lambda>s. driver_with_shutdown (Some s)) opened))"

lemma est_yields_of: "est_yields (est_of z) (\<lambda>r. r = (case z of Inl e \<Rightarrow> Failed e | Inr x \<Rightarrow> Done x))"
  by (simp add: est_yields_def est_of_def)

lemma est_yields_map_error:
  "est_yields (est_of (map_sum f id z)) (\<lambda>r. r = (case z of Inl e \<Rightarrow> Failed (f e) | Inr x \<Rightarrow> Done x))"
  by (cases z) (simp_all add: est_yields_def est_of_def)

lemma est_yields_await:
  "est_yields (est_await cut_at stage z) (\<lambda>r. r = (if cut_at = Some stage then Cut else case z of Inl e \<Rightarrow> Failed e | Inr x \<Rightarrow> Done x))"
  by (simp add: est_yields_def est_await_def est_of_def)

lemma est_yields_checkpoint:
  "est_yields (opt_checkpoint reservation) (\<lambda>r. \<exists>cpt. r = Done cpt \<and> (cpt \<noteq> None) = (reservation \<noteq> None))"
  by (auto simp: est_yields_def opt_checkpoint_def est_bind_def est_checkpoint_def case_prod_beta Let_def split: option.splits)

lemma est_yields_session:
  "est_yields (connect_session env cut_at host port target cpt)
     (\<lambda>r. r = (if cut_at = Some Dial \<or> cpt \<noteq> None \<and> cut_at \<in> {Some Gate, Some ReadyRace} then Cut
        else case connect (ee_dial env) host port target of Inl e \<Rightarrow> Failed e | Inr x \<Rightarrow> Done x))"
  by (cases cpt) (auto simp: est_yields_def connect_session_def est_bind_def est_wait_def est_await_def est_of_def Let_def
      split: sum.splits)

lemma est_opens_bind:
  assumes "est_yields m Q" and "\<And>x. Q (Done x) \<Longrightarrow> est_opens opened (f x)" and "\<And>r. Q r \<Longrightarrow> \<forall>x. r \<noteq> Done x \<Longrightarrow> opened = None"
  shows "est_opens opened (est_bind m f)"
  unfolding est_opens_def
proof (intro allI impI)
  fix st r st'
  assume start: "es_driver st = None" and run: "est_bind m f st = (r, st')"
  obtain r1 st1 where m: "m st = (r1, st1)" by fastforce
  then have q: "es_driver st1 = None" "Q r1" using assms(1) start by (auto simp: est_yields_def)
  show "case r of
           Done c \<Rightarrow> opened \<noteq> None \<and> cd_shutdown (nw_driver (ic_inner c)) = opened
         | _ \<Rightarrow> es_driver st' = map_option (\<lambda>s. driver_with_shutdown (Some s)) opened"
  proof (cases r1)
    case (Done x)
    then show ?thesis using run m q assms(2) by (auto simp: est_bind_def est_opens_def)
  qed (use run m q assms(3) [of r1] in \<open>auto simp: est_bind_def\<close>)
qed

lemma est_owns_bind:
  assumes "est_yields m Q" and "\<And>x. est_owns s (f x)"
  shows "est_owns s (est_bind m f)"
  unfolding est_owns_def
proof (intro allI impI)
  fix st r st'
  assume start: "es_driver st = Some (driver_with_shutdown (Some s))" and run: "est_bind m f st = (r, st')"
  obtain r1 st1 where m: "m st = (r1, st1)" by fastforce
  then have q: "es_driver st1 = es_driver st" using assms(1) by (auto simp: est_yields_def)
  show "case r of Done c \<Rightarrow> cd_shutdown (nw_driver (ic_inner c)) = Some s | _ \<Rightarrow> es_driver st' = Some (driver_with_shutdown (Some s))"
  proof (cases r1)
    case (Done x)
    then have "f x st1 = (r, st')" using run m by (simp add: est_bind_def)
    then show ?thesis using assms(2) [of x, unfolded est_owns_def] q start by simp
  qed (use run m q start in \<open>auto simp: est_bind_def\<close>)
qed

lemma est_opens_set_driver:
  assumes "est_owns s (f ())"
  shows "est_opens (Some s) (est_bind (est_set_driver (driver_with_shutdown (Some s))) f)"
  unfolding est_opens_def
proof (intro allI impI)
  fix st r st'
  assume "est_bind (est_set_driver (driver_with_shutdown (Some s))) f st = (r, st')"
  then have "f () (st\<lparr>es_driver := Some (driver_with_shutdown (Some s))\<rparr>) = (r, st')" by (simp add: est_bind_def est_set_driver_def)
  from assms [unfolded est_owns_def, rule_format, OF _ this]
  show "case r of
           Done c \<Rightarrow> Some s \<noteq> None \<and> cd_shutdown (nw_driver (ic_inner c)) = Some s
         | _ \<Rightarrow> es_driver st' = map_option (\<lambda>s. driver_with_shutdown (Some s)) (Some s)" by (cases r) simp_all
qed

lemma est_owns_start_http1: "est_owns s (start_http1 env cut_at stream (driver_with_shutdown (Some s)) identity)"
  by (auto simp: est_owns_def start_http1_def est_bind_def est_await_def est_of_def driver_start_def observe_response_head_def
      driver_with_shutdown_def split: sum.splits run.splits if_splits prod.splits)

text \<open>After the socket is there: the proxy, TLS and HTTP handshakes.\<close>

lemma est_owns_rest:
  "est_owns s (est_bind (case proxy of
            Some p \<Rightarrow> est_await cut_at ProxyStage (hs p)
          | None \<Rightarrow> est_of (Inr direct)) (\<lambda>stream.
      est_bind (opt_checkpoint reservation) (\<lambda>cpt.
      case loaded_tls of
        Some loaded \<Rightarrow>
          est_bind (est_await cut_at TlsStage (tls_hs loaded stream)) (\<lambda>stream.
            start_http1 env cut_at (Inr stream) (driver_with_shutdown (Some s)) (Option.bind cpt cp_connection))
      | None \<Rightarrow> start_http1 env cut_at (Inl stream) (driver_with_shutdown (Some s)) (Option.bind cpt cp_connection))))"
proof -
  have last: "est_owns s (case loaded_tls of
        Some loaded \<Rightarrow>
          est_bind (est_await cut_at TlsStage (tls_hs loaded stream)) (\<lambda>stream.
            start_http1 env cut_at (Inr stream) (driver_with_shutdown (Some s)) identity)
      | None \<Rightarrow> start_http1 env cut_at (Inl stream) (driver_with_shutdown (Some s)) identity)" for stream identity
    by (cases loaded_tls) (simp_all add: est_owns_start_http1 est_owns_bind [OF est_yields_await])
  show ?thesis
    by (cases proxy) (simp_all add: est_owns_bind [OF est_yields_of] est_owns_bind [OF est_yields_await]
        est_owns_bind [OF est_yields_checkpoint] last)
qed

lemma est_opens_establishing:
  "est_opens (opened_socket env cut_at tls proxy key host port target (reservation \<noteq> None))
     (establishing env cut_at tls proxy key host port target reservation)"
proof -
  define https where "https \<longleftrightarrow> pk_scheme key = lit ''https''"
  define needs where "needs \<longleftrightarrow> (case proxy of None \<Rightarrow> False | Some p \<Rightarrow> needs_tls p)"
  define ep0 where "ep0 = (case proxy of Some p \<Rightarrow> endpoint (ee_proxy_env env) p | None \<Rightarrow> Inr \<lparr>ep_host = host, ep_port = port\<rparr>)"
  let ?loaded = "if https \<or> needs then est_await cut_at LoadTls (load_tls env tls https needs) else est_of (Inr (None, None))"
  define session where "session \<longleftrightarrow> reservation \<noteq> None"
  define opened where "opened = opened_socket env cut_at tls proxy key host port target session"
  note o = opened_def [unfolded opened_socket_def, folded https_def needs_def ep0_def, unfolded Let_def]
  have loaded: "est_yields ?loaded (\<lambda>r. r = (if (https \<or> needs) \<and> cut_at = Some LoadTls then Cut
      else case (if https \<or> needs then load_tls env tls https needs else Inr (None, None)) of Inl e \<Rightarrow> Failed e | Inr x \<Rightarrow> Done x))"
    using est_yields_await [of cut_at LoadTls "load_tls env tls https needs"] est_yields_of [of "Inr (None, None)"] by (auto split: if_splits)
  have "est_opens opened (establishing env cut_at tls proxy key host port target reservation)"
    unfolding establishing_def Let_def https_def [symmetric] needs_def [symmetric] ep0_def [symmetric]
    apply (rule est_opens_bind [OF loaded])
     apply (split prod.split, intro allI impI)
     apply (rule est_opens_bind [OF est_yields_of])
      apply (rule est_opens_bind [OF est_yields_checkpoint])
       apply (rule est_opens_bind [OF est_yields_session])
        apply (rule est_opens_bind [OF est_yields_map_error])
         apply (rule est_opens_bind [OF est_yields_map_error])
          apply (rule est_opens_bind [OF est_yields_map_error])
           apply (rule back_subst [of "\<lambda>opened. est_opens opened _", OF est_opens_set_driver [OF est_owns_rest]])
           apply (auto simp: o session_def split: sum.splits if_splits)
    done
  then show ?thesis by (simp add: opened_def session_def)
qed

text \<open>
  C22. Opening a connection leaks nothing, wherever it fails and wherever a deadline cuts it: it always
  ends with a lease or an error and leaves the pool alone. A lease holds a connection with the socket
  that was opened and its running task, of the key and of the generation the pool had at the start,
  and nothing has been closed or released. After an error exactly the socket that had been opened, if
  there was one by then, has been shut down, once, and a session runtime has been shown one release of
  the reserved exchange.
\<close>
theorem establishment_leaks_nothing:
  assumes "ed_connect_deadline deadlines \<noteq> None \<longrightarrow> ed_connect_timeout deadlines \<noteq> None"
    and "ed_total_deadline deadlines \<noteq> None \<longrightarrow> ed_total_timeout deadlines \<noteq> None"
    and "opened = opened_socket env
      (if select_deadline_source (ed_connect_deadline deadlines) (ed_total_deadline deadlines) = None then None else cut_at)
      (tr_tls self) (tr_proxy self) key host port target (tr_session_runtime self \<noteq> None)"
  shows "\<exists>r w'. connect_connection env cut_at self key host port target deadlines w = Some (r, w') \<and> w_pool w' = w_pool w \<and>
    (case r of
       Inr l \<Rightarrow> (\<exists>c. cl_connection l = Some c \<and> running c \<and> cd_shutdown (nw_driver (ic_inner c)) = opened) \<and>
         cl_key l = key \<and> cl_terminal l = Active \<and>
         cl_generation l = generation_number (w_pool w) \<and> w_effects w' = w_effects w \<and>
         count_list (phases w') PoolReleaseDirty = count_list (phases w) PoolReleaseDirty
     | Inl e \<Rightarrow> w_effects w' = w_effects w @ (case opened of Some s \<Rightarrow> [SocketShutdown s] | None \<Rightarrow> []) \<and>
         count_list (phases w') PoolReleaseDirty =
           count_list (phases w) PoolReleaseDirty + (if tr_session_runtime self \<noteq> None then 1 else 0))"
proof -
  obtain reservation p where res: "(if tr_session_runtime self \<noteq> None then map_prod Some id (reserve_exchange (w_process w))
      else (None, w_process w)) = (reservation, p)" by fastforce
  then have some: "reservation \<noteq> None \<longleftrightarrow> tr_session_runtime self \<noteq> None"
    and fresh: "\<And>r. reservation = Some r \<Longrightarrow> \<not> rs_promoted r"
    by (auto simp: reserve_exchange_def case_prod_beta Let_def split: if_splits)
  let ?source = "select_deadline_source (ed_connect_deadline deadlines) (ed_total_deadline deadlines)"
  let ?cut = "if ?source = None then None else cut_at"
  obtain r st where run: "establishing env ?cut (tr_tls self) (tr_proxy self) key host port target reservation
      \<lparr>es_harness = w_harness w, es_driver = None\<rparr> = (r, st)" by fastforce
  have "est_inv (count_list (phases w) PoolReleaseDirty) \<lparr>es_harness = w_harness w, es_driver = None\<rparr>"
    by (simp add: est_inv_def)
  then have inv: "est_inv (count_list (phases w) PoolReleaseDirty) st" "\<And>c. r = Done c \<Longrightarrow> running c"
    and uncut: "?cut = None \<Longrightarrow> r \<noteq> Cut"
    using est_safeD [OF est_safe_establishing _ run] by blast+
  note connect = connect_connection_def [of env cut_at self key host port target deadlines w, unfolded res run Let_def prod.case]
  have own: "case r of Done c \<Rightarrow> cd_shutdown (nw_driver (ic_inner c)) = opened
      | _ \<Rightarrow> es_driver st = map_option (\<lambda>s. driver_with_shutdown (Some s)) opened"
    using est_opens_establishing [unfolded est_opens_def, rule_format, OF _ run, unfolded some, folded assms(3)]
    by (cases r) simp_all
  have closed: "(case es_driver st of Some d \<Rightarrow> fst (shutdown_now d) | None \<Rightarrow> []) = (case opened of Some s \<Rightarrow> [SocketShutdown s] | None \<Rightarrow> [])"
    if "\<forall>c. r \<noteq> Done c"
    using own that by (cases r; cases opened) (auto simp: shutdown_now_effects(1) driver_with_shutdown_def)
  let ?h = "case reservation of None \<Rightarrow> es_harness st | Some r \<Rightarrow> drop_reservation r (es_harness st)"
  have released: "count_list (map cp_phase (shown ?h)) PoolReleaseDirty =
      count_list (phases w) PoolReleaseDirty + (if tr_session_runtime self \<noteq> None then 1 else 0)"
    using inv(1) some fresh
    by (cases reservation) (auto simp: est_inv_def drop_reservation_def identity_checkpoint_def checkpoint_def observe_def)
  show ?thesis
  proof (cases r)
    case (Done c)
    then show ?thesis using inv some own
      by (cases reservation) (auto simp: connect est_inv_def lease_new_with_exchange_identity_def with_session_lease_identity_def)
  next
    case (Failed e)
    then show ?thesis using closed released by (simp add: connect)
  next
    case Cut
    then have "?source \<noteq> None" using uncut by (cases ?source) simp_all
    then have "?source = Some DeadlineRead \<and> ed_connect_timeout deadlines \<noteq> None \<or>
        ?source = Some DeadlineTotal \<and> ed_total_timeout deadlines \<noteq> None"
      using assms(1,2) by (auto simp: select_deadline_source_def split: option.splits)
    then show ?thesis using Cut closed released by (auto simp: connect)
  qed
qed

theorem establishment_leaks_nothing_witness:
  "\<exists>e w'. connect_connection failing_env None plain_transport sample_key [] 80 [] no_deadlines two_idle = Some (Inl e, w') \<and>
     w_pool w' = w_pool two_idle \<and> w_effects w' = [SocketShutdown 7]"
proof -
  obtain r w' where c: "connect_connection failing_env None plain_transport sample_key [] 80 [] no_deadlines two_idle = Some (r, w')"
    "w_pool w' = w_pool two_idle"
    using establishment_leaks_nothing [of no_deadlines _ failing_env None plain_transport sample_key "[]" 80 "[]" two_idle, OF _ _ refl]
    by (auto simp: no_deadlines_def)
  have "r = Inl (handshake_error [])" "w_effects w' = [SocketShutdown 7]"
    using c(1)
    by (auto simp: connect_connection_def establishing_def connect_session_def est_bind_def est_of_def est_await_def est_wait_def
        opt_checkpoint_def est_set_driver_def start_http1_def connect_def failing_env_def plain_transport_def
        transport_configured_def no_deadlines_def select_deadline_source_def sample_key_def lit_def
        driver_with_shutdown_def shutdown_now_effects two_idle_def)
  then show ?thesis using c by blast
qed

end
