(* ===== verification/Exchange.thy ===== *)
theory Exchange
  imports Response_Body Establish
begin

text \<open>
  An exchange: \<open>Transport::send\<close> of \<open>crates/requests/src/transport/mod.rs\<close>. The loop around
  \<open>tokio::select!\<close> reads a script of what happens: before each turn whether the upload is found
  complete, then the branch that wins. \<open>enabled\<close> says which branches can win in a state, as the
  guards and the biased order of the \<open>select!\<close> have it. The connection, the resolver, the clock and
  hyper are arguments.
\<close>

section \<open>The loop\<close>

datatype 'r ExchangeEvent =
    DeadlineEvent DeadlineSource | ResponseHeadGate | HeadEvent "hyper_error + 'r"
  | UploadComplete instant | DriverEvent task_result

record exchange_params =
  xp_session :: bool
  xp_read_timeout :: "duration option"
  xp_total_timeout :: "duration option"
  xp_total_deadline :: "instant option"
  xp_started :: instant

text \<open>
  What the loop keeps. \<open>xs_completion\<close> is \<open>body_completion.is_some()\<close>; the driver is the one in the
  lease; the harness is shared.
\<close>

record ('t, 's) exchange =
  xs_completion :: bool
  xs_completion_pending :: bool
  xs_head_read_deadline :: "instant option"
  xs_head_wait :: ResponseHeadWaitEntered
  xs_driver :: "('t, 's) ConnectionDriver"
  xs_harness :: SessionRuntimeHarness

definition head_read_deadline_from :: "exchange_params \<Rightarrow> instant \<Rightarrow> instant option" where
  "head_read_deadline_from xp completed =
     Option.bind (xp_read_timeout xp) (instant_checked_add (max (xp_started xp) completed))"

definition exchange_start ::
  "exchange_params \<Rightarrow> BodyProgress option \<Rightarrow> ('t, 's) ConnectionDriver \<Rightarrow> SessionRuntimeHarness \<Rightarrow> ('t, 's) exchange" where
  "exchange_start xp progress driver h =
     (let upload_completed_at = Option.bind progress completed_at in
      \<lparr>xs_completion = (progress \<noteq> None \<and> upload_completed_at = None),
       xs_completion_pending = (progress \<noteq> None \<and> upload_completed_at = None),
       xs_head_read_deadline = Option.bind upload_completed_at (head_read_deadline_from xp),
       xs_head_wait = \<lparr>rhw_entered = False\<rparr>, xs_driver = driver, xs_harness = h\<rparr>)"

definition upload_complete :: "exchange_params \<Rightarrow> instant \<Rightarrow> ('t, 's) exchange \<Rightarrow> ('t, 's) exchange" where
  "upload_complete xp t xs =
     xs\<lparr>xs_completion_pending := False, xs_completion := False, xs_head_read_deadline := head_read_deadline_from xp t\<rparr>"

text \<open>The start of a turn: \<open>completed_at\<close> is read when the completion is pending.\<close>

definition check_completion :: "exchange_params \<Rightarrow> instant option \<Rightarrow> ('t, 's) exchange \<Rightarrow> ('t, 's) exchange" where
  "check_completion xp completed xs =
     (case completed of
        Some t \<Rightarrow> if xs_completion_pending xs \<and> xs_completion xs then upload_complete xp t xs else xs
      | None \<Rightarrow> xs)"

definition exchange_deadline_source :: "exchange_params \<Rightarrow> ('t, 's) exchange \<Rightarrow> DeadlineSource option" where
  "exchange_deadline_source xp xs = select_deadline_source (xs_head_read_deadline xs) (xp_total_deadline xp)"

text \<open>
  The branches that can win. The deadline only when there is one; the gate until it has won, and it
  is ready at once when there is no session runtime, so that only the deadline is before it; the
  upload while it is pending; the driver while it has a task.
\<close>

definition enabled :: "exchange_params \<Rightarrow> ('t, 's) exchange \<Rightarrow> 'r ExchangeEvent \<Rightarrow> bool" where
  "enabled xp xs ev =
     (case ev of
        DeadlineEvent source \<Rightarrow> exchange_deadline_source xp xs = Some source
      | ResponseHeadGate \<Rightarrow> \<not> permits_post_head (xs_head_wait xs)
      | HeadEvent _ \<Rightarrow> permits_post_head (xs_head_wait xs) \<or> xp_session xp
      | UploadComplete _ \<Rightarrow> xs_completion_pending xs \<and> (permits_post_head (xs_head_wait xs) \<or> xp_session xp)
      | DriverEvent _ \<Rightarrow> cd_task (xs_driver xs) \<noteq> None \<and> (permits_post_head (xs_head_wait xs) \<or> xp_session xp))"

text \<open>A turn goes on, or breaks with the result and whether the upload is pending; a panic is \<open>None\<close>.\<close>

datatype ('t, 's, 'r) turn_result =
    NextTurn "('t, 's) exchange" | Break "Error + ('r \<times> (rstr \<times> bytes) list)" "('t, 's) exchange"

text \<open>The gate of the response head: the checkpoint that is shown and awaited when there is a session.\<close>

definition pass_gate ::
  "exchange_params \<Rightarrow> u64 option \<Rightarrow> u64 option \<Rightarrow> u64 \<Rightarrow> ('t, 's) exchange \<Rightarrow> ('t, 's) exchange" where
  "pass_gate xp connection lease correlation xs =
     (let h = (if xp_session xp then
            let h = (xs_harness xs)\<lparr>observed_entries := (observed_entries (xs_harness xs))(correlation := None)\<rparr>;
                (cp, h) = checkpoint h ResponseHead connection lease correlation in
            observe h cp
          else xs_harness xs) in
      xs\<lparr>xs_head_wait := rhw_enter (xs_head_wait xs), xs_harness := h\<rparr>)"

definition response_failed :: "hyper_error \<Rightarrow> ('t, 's) ConnectionDriver \<Rightarrow> Error" where
  "response_failed error driver =
     (if he_is_parse error then
        (case driver_conflicting_content_length driver of
           Some m \<Rightarrow> invalid_response_header [Text m]
         | None \<Rightarrow> send_hyper error)
      else send_hyper error)"

definition exchange_turn ::
  "bool \<Rightarrow> exchange_params \<Rightarrow> (('t, 's) exchange \<Rightarrow> ('t, 's) exchange) \<Rightarrow> ('t, 's) exchange \<Rightarrow> 'r ExchangeEvent \<Rightarrow>
   ('t, 's, 'r) turn_result option" where
  "exchange_turn debug_assertions xp gate xs ev =
     (case ev of
        ResponseHeadGate \<Rightarrow> Some (NextTurn (gate xs))
      | DeadlineEvent DeadlineRead \<Rightarrow>
          map_option (\<lambda>t. Break (Inl (response_head_timeout t False)) xs) (xp_read_timeout xp)
      | DeadlineEvent DeadlineTotal \<Rightarrow>
          map_option (\<lambda>t. Break (Inl (if xs_completion_pending xs then request_exchange_total_timeout t
            else response_head_timeout t True)) xs) (xp_total_timeout xp)
      | HeadEvent result \<Rightarrow>
          if debug_assertions \<and> \<not> permits_post_head (xs_head_wait xs) then None
          else
            (case result of
               Inr response \<Rightarrow>
                 let (headers, driver) = take_raw_response_headers (xs_driver xs) in
                 Some (Break (Inr (response, headers)) (xs\<lparr>xs_driver := driver\<rparr>))
             | Inl error \<Rightarrow> Some (Break (Inl (response_failed error (xs_driver xs))) xs))
      | UploadComplete t \<Rightarrow> Some (NextTurn (upload_complete xp t xs))
      | DriverEvent result \<Rightarrow>
          let (r, driver) = driver_finish result (xs_driver xs); xs = xs\<lparr>xs_driver := driver\<rparr> in
          (case r of Inr _ \<Rightarrow> Some (NextTurn xs) | Inl e \<Rightarrow> Some (Break (Inl e) xs)))"

text \<open>The script: whether the completion was found, and the branch that won. It may end before the loop.\<close>

fun exchange_loop ::
  "bool \<Rightarrow> exchange_params \<Rightarrow> (('t, 's) exchange \<Rightarrow> ('t, 's) exchange) \<Rightarrow> ('t, 's) exchange \<Rightarrow>
   (instant option \<times> 'r ExchangeEvent) list \<Rightarrow> ('t, 's, 'r) turn_result option" where
  "exchange_loop debug_assertions xp gate xs [] = Some (NextTurn xs)"
| "exchange_loop debug_assertions xp gate xs ((completed, ev) # script) =
     (case exchange_turn debug_assertions xp gate (check_completion xp completed xs) ev of
        None \<Rightarrow> None
      | Some (NextTurn xs) \<Rightarrow> exchange_loop debug_assertions xp gate xs script
      | Some (Break r xs) \<Rightarrow> Some (Break r xs))"

section \<open>The whole exchange\<close>

record ('hd, 'u, 'a, 'p, 'l, 'q, 'x, 'h, 't, 's, 'r) send_env =
  se_debug :: bool
  se_outgoing :: "('hd, 'u) outgoing_env"
  se_to_str :: "HeaderValue \<Rightarrow> rstr option"
  se_establish :: "('a, 'p, 'l, 'q, 'x, 'h, 't, 's) establish_env"
  se_cut_at :: "stage option"
  se_acquire :: "('h, 't, 's) acquire_env"
  se_ops :: "('h, 't, 's) network_ops"
  se_pool_ops :: "('h, 't, 's) network_ops"
  se_started :: instant
  se_body_made :: instant
  se_exchange_started :: instant
  se_script :: "(instant option \<times> 'r ExchangeEvent) list"

record send_target =
  st_host :: rstr
  st_port :: u16
  st_authority :: rstr
  st_key :: PoolKey
  st_absolute_form :: bool

definition target_of ::
  "(rstr \<Rightarrow> rstr option) \<Rightarrow> 'c Transport \<Rightarrow> ('hd, 'b) Request \<Rightarrow> (Error + send_target) option" where
  "target_of parse_authority self request =
     (case (uri_host (rq_uri request), uri_scheme (rq_uri request), uri_authority (rq_uri request)) of
        (Some host, Some scheme, Some auth) \<Rightarrow>
          let https = (scheme = lit ''https'') in
          map_option (\<lambda>key. Inr \<lparr>st_host = host,
               st_port = (case uri_port (rq_uri request) of Some p \<Rightarrow> p | None \<Rightarrow> if https then 443 else 80),
               st_authority = auth, st_key = key, st_absolute_form = uses_absolute_form (tr_proxy self) https\<rparr>)
            (pool_key_new parse_authority scheme auth (uri_port (rq_uri request))
               (map_option proxy_key_from_proxy (tr_proxy self))
               (if https then tls_key_from_config (tr_tls self) else TlsPlain)
               (if https then map_option identity_key_from_identity (tls_identity (tr_tls self)) else None))
      | _ \<Rightarrow> Some (Inl (invalid_url (rq_url request))))"

text \<open>The headers the transport adds: the proxy's credentials and the codings it decodes.\<close>

definition send_headers ::
  "'hd header_map \<Rightarrow> proxy_env \<Rightarrow> 'c Transport \<Rightarrow> bool \<Rightarrow> 'hd \<Rightarrow> Error + 'hd" where
  "send_headers hm penv self absolute_form headers =
     (case (if absolute_form then (case tr_proxy self of Some p \<Rightarrow> authorization penv p | None \<Rightarrow> Inr None) else Inr None) of
        Inl e \<Rightarrow> Inl e
      | Inr auth \<Rightarrow>
          let headers = (case auth of Some v \<Rightarrow> hm_insert hm headers (lit ''proxy-authorization'') v | None \<Rightarrow> headers) in
          Inr (if hm_contains_key hm headers (lit ''accept-encoding'') then headers
               else hm_insert hm headers (lit ''accept-encoding'') (as_bytes (accept_encoding (tr_content_codecs self)))))"

definition send_deadlines :: "Timeout \<Rightarrow> instant \<Rightarrow> EstablishmentDeadlines" where
  "send_deadlines timeout started =
     \<lparr>ed_connect_timeout = timeout_connect timeout,
      ed_connect_deadline = Option.bind (timeout_connect timeout) (instant_checked_add started),
      ed_total_timeout = timeout_total timeout,
      ed_total_deadline = Option.bind (timeout_total timeout) (instant_checked_add started)\<rparr>"

text \<open>After a failure the connection is aborted, and an error of its own is added.\<close>

definition cleanup ::
  "('h, 't, 's) network_ops \<Rightarrow> ('h, 't, 's) network_ops \<Rightarrow> bool \<Rightarrow> ('h, 't, 's) network ConnectionLease \<Rightarrow> bool \<Rightarrow> Error \<Rightarrow>
   ('h, 't, 's) world \<Rightarrow> (Error \<times> ('h, 't, 's) world) option" where
  "cleanup ops ops' session lease upload_pending send_error w =
     (let (tl, w) = transport_lease_new lease session w in
      map_option (\<lambda>(r, _, w). (case r of Inr _ \<Rightarrow> send_error | Inl driver_error \<Rightarrow> with_cleanup send_error driver_error, w))
        ((if upload_pending then abort_upload_and_wait else lease_abort_and_wait) ops ops'
           (tl :: ('h, 't, 's, unit) TransportLease) w))"

text \<open>
  \<open>send\<close>: \<open>None\<close> is a panic; the first component of the result is \<open>None\<close> when the script ends while
  the exchange still waits. An error before the exchange drops the lease, hence its connection.
\<close>

definition drop_lease :: "('h, 't, 's) network ConnectionLease \<Rightarrow> ('h, 't, 's) world \<Rightarrow> ('h, 't, 's) world" where
  "drop_lease lease w = w\<lparr>w_effects := w_effects w @ drop_effects (Some lease)\<rparr>"

definition exchange_on ::
  "('hd, 'u, 'a, 'p, 'l, 'q, 'x, 'h, 't, 's, 'hd parts \<times> 'i) send_env \<Rightarrow> 'c Transport \<Rightarrow> Timeout \<Rightarrow> instant option \<Rightarrow>
   rstr list option \<Rightarrow> BodyProgress option \<Rightarrow> rstr \<Rightarrow> ('h, 't, 's) network ConnectionLease \<Rightarrow> ('h, 't, 's) world \<Rightarrow>
   ((Error + ('hd, 'i, 'h, 't, 's, unit) TransportResponse) option \<times> ('h, 't, 's) world) option" where
  "exchange_on env self timeout total_deadline names progress url lease w =
     (case connection_driver lease of
        None \<Rightarrow> None
      | Some driver \<Rightarrow>
          let session = (tr_session_runtime self \<noteq> None);
              xp = \<lparr>xp_session = session, xp_read_timeout = timeout_read timeout, xp_total_timeout = timeout_total timeout,
                    xp_total_deadline = total_deadline, xp_started = se_exchange_started env\<rparr>;
              driver = begin_response_head names driver;
              (correlation, h, p) = (if session then begin_request_observation (w_harness w) (w_process w)
                else (0, w_harness w, w_process w));
              gate = pass_gate xp (session_connection_identity lease) (cl_session_lease_identity lease) correlation in
          (case exchange_loop (se_debug env) xp gate (exchange_start xp progress driver h) (se_script env) of
             None \<Rightarrow> None
           | Some (NextTurn xs) \<Rightarrow> Some (None, w\<lparr>w_process := p, w_harness := xs_harness xs\<rparr>)
           | Some (Break r xs) \<Rightarrow>
               let lease = set_driver (xs_driver xs) lease; w = w\<lparr>w_process := p, w_harness := xs_harness xs\<rparr> in
               (case r of
                  Inl e \<Rightarrow>
                    map_option (\<lambda>(e, w). (Some (Inl e), w))
                      (cleanup (se_ops env) (se_pool_ops env) session lease (xs_completion_pending xs) e w)
                | Inr ((head, body), raw) \<Rightarrow>
                    let (tl, w) = transport_lease_new lease session w in
                    Some (Some (Inr \<lparr>tp_head = head, tp_body = body, tp_url = url, tp_lease = tl,
                      tp_read_timeout = timeout_read timeout, tp_total_timeout = timeout_total timeout,
                      tp_total_deadline = total_deadline, tp_content_codecs = tr_content_codecs self,
                      tp_raw_headers = raw\<rparr>), w))))"

definition send ::
  "('hd, 'u, 'a, 'p, 'l, 'q, 'x, 'h, 't, 's, 'hd parts \<times> 'i) send_env \<Rightarrow> ('h, 't, 's) network Transport \<Rightarrow>
   ('hd, 'b) Request \<Rightarrow> ('h, 't, 's) world \<Rightarrow>
   ((Error + ('hd, 'i, 'h, 't, 's, unit) TransportResponse) option \<times> ('h, 't, 's) world) option" where
  "send env self request w =
     (let hm = oe_headers (se_outgoing env);
          timeout = (case rq_timeout request of Some t \<Rightarrow> t | None \<Rightarrow> tr_default_timeout self) in
      case validate_request hm (se_to_str env) request of
        Inl e \<Rightarrow> Some (Some (Inl e), w)
      | Inr _ \<Rightarrow>
      (case target_of (oe_parse_authority (se_outgoing env)) self request of
        None \<Rightarrow> None
      | Some (Inl e) \<Rightarrow> Some (Some (Inl e), w)
      | Some (Inr st) \<Rightarrow>
      (case send_headers hm (ee_proxy_env (se_establish env)) self (st_absolute_form st) (rq_headers request) of
        Inl e \<Rightarrow> Some (Some (Inl e), w)
      | Inr headers \<Rightarrow>
          let parts = (into_parts request)\<lparr>rp_headers := headers\<rparr>;
              deadlines = send_deadlines timeout (se_started env) in
          (case acquire_connection (se_establish env) (se_cut_at env) (se_acquire env) self (st_key st) (st_host st)
                 (st_port st) (st_authority st) deadlines w of
             None \<Rightarrow> None
           | Some (Inl e, w) \<Rightarrow> Some (Some (Inl e), w)
           | Some (Inr lease, w) \<Rightarrow>
               let session = (tr_session_runtime self \<noteq> None);
                   (correlation, p) = (if session then next_process_identity (w_process w) else (0, w_process w));
                   w = w\<lparr>w_process := p\<rparr> in
               (case outgoing_request_with_session_runtime (se_outgoing env) parts
                      (timeout_read timeout \<noteq> None \<or> timeout_total timeout \<noteq> None) (st_absolute_form st) session
                      (session_exchange_identity lease correlation) (se_body_made env) (w_harness w) of
                  Inl e \<Rightarrow> Some (Some (Inl e), drop_lease lease w)
                | Inr (out, url, h) \<Rightarrow>
                    exchange_on env self timeout (ed_total_deadline deadlines) (rp_python_header_names parts)
                      (ob_progress (or_body out :: ('b, unit) OutgoingBody)) url lease (w\<lparr>w_harness := h\<rparr>))))))"

text \<open>\<open>execute_request\<close> of \<open>client.rs\<close>.\<close>

definition execute_request where
  "execute_request env transport request w =
     map_option (\<lambda>(r, w). (map_option (map_sum id from_transport) r, w)) (send env transport request w)"

section \<open>Lemmas: the loop\<close>

text \<open>The script is one the \<open>select!\<close> can produce.\<close>

fun script_enabled ::
  "bool \<Rightarrow> exchange_params \<Rightarrow> (('t, 's) exchange \<Rightarrow> ('t, 's) exchange) \<Rightarrow> ('t, 's) exchange \<Rightarrow>
   (instant option \<times> 'r ExchangeEvent) list \<Rightarrow> bool" where
  "script_enabled dbg xp gate xs [] = True"
| "script_enabled dbg xp gate xs ((completed, ev) # script) =
     (enabled xp (check_completion xp completed xs) ev \<and>
      (case exchange_turn dbg xp gate (check_completion xp completed xs) ev of
         Some (NextTurn xs) \<Rightarrow> script_enabled dbg xp gate xs script
       | _ \<Rightarrow> True))"

text \<open>
  A deadline for the head is the read timeout counted from the completion of the upload, one of the
  instants of \<open>U\<close>, which is then not pending.
\<close>

definition exchange_inv :: "instant set \<Rightarrow> exchange_params \<Rightarrow> ('t, 's) exchange \<Rightarrow> bool" where
  "exchange_inv U xp xs \<longleftrightarrow>
     (xs_head_read_deadline xs \<noteq> None \<longrightarrow> \<not> xs_completion_pending xs \<and>
        (\<exists>t. \<exists>u\<in>U. xp_read_timeout xp = Some t \<and>
           xs_head_read_deadline xs = instant_checked_add (max (xp_started xp) u) t))"

text \<open>The events that end the loop, and the result of each.\<close>

definition broken_by ::
  "instant set \<Rightarrow> exchange_params \<Rightarrow> 'r ExchangeEvent \<Rightarrow> Error + ('r \<times> (rstr \<times> bytes) list) \<Rightarrow> ('t, 's) exchange \<Rightarrow> bool" where
  "broken_by U xp ev r xs =
     (case ev of
        DeadlineEvent DeadlineRead \<Rightarrow>
          (\<exists>t. \<exists>u\<in>U. xp_read_timeout xp = Some t \<and> r = Inl (response_head_timeout t False) \<and> \<not> xs_completion_pending xs \<and>
             xs_head_read_deadline xs = instant_checked_add (max (xp_started xp) u) t)
      | DeadlineEvent DeadlineTotal \<Rightarrow>
          (\<exists>t. xp_total_timeout xp = Some t \<and>
             r = Inl (if xs_completion_pending xs then request_exchange_total_timeout t else response_head_timeout t True))
      | HeadEvent (Inr response) \<Rightarrow> (\<exists>headers. r = Inr (response, headers))
      | HeadEvent (Inl error) \<Rightarrow> r = Inl (response_failed error (xs_driver xs))
      | DriverEvent (Inr (Inl error)) \<Rightarrow> r = Inl error
      | DriverEvent (Inl error) \<Rightarrow> r = Inl (connection_error (je_display error))
      | _ \<Rightarrow> False)"

lemma exchange_inv_complete: "t \<in> U \<Longrightarrow> exchange_inv U xp (upload_complete xp t xs)"
  by (auto simp: exchange_inv_def upload_complete_def head_read_deadline_from_def split: Option.bind_splits)

lemma exchange_inv_check: "set_option completed \<subseteq> U \<Longrightarrow> exchange_inv U xp xs \<Longrightarrow> exchange_inv U xp (check_completion xp completed xs)"
  using exchange_inv_complete by (auto simp: check_completion_def split: option.split)

lemma exchange_inv_start: "set_option (Option.bind progress completed_at) \<subseteq> U \<Longrightarrow> exchange_inv U xp (exchange_start xp progress driver h)"
  by (auto simp: exchange_inv_def exchange_start_def head_read_deadline_from_def Let_def split: Option.bind_splits)

lemma exchange_inv_gate:
  "\<forall>xs. exchange_inv U xp xs \<longrightarrow> exchange_inv U xp (pass_gate xp connection lease correlation xs)"
  by (simp add: exchange_inv_def pass_gate_def Let_def)

text \<open>The instants at which a script has the upload complete.\<close>

definition completions :: "(instant option \<times> 'r ExchangeEvent) list \<Rightarrow> instant set" where
  "completions script = {t. \<exists>(completed, ev) \<in> set script. completed = Some t \<or> ev = UploadComplete t}"

text \<open>Whether hyper's head comes before the gate: the debug assertion of that branch fails then.\<close>

fun head_first :: "(instant option \<times> 'r ExchangeEvent) list \<Rightarrow> bool" where
  "head_first [] \<longleftrightarrow> False"
| "head_first ((_, ev) # script) \<longleftrightarrow> (case ev of ResponseHeadGate \<Rightarrow> False | HeadEvent _ \<Rightarrow> True | _ \<Rightarrow> head_first script)"

lemma exchange_turn_outcome:
  assumes "exchange_inv U xp xs" and "enabled xp xs ev" and "\<And>t. ev = UploadComplete t \<Longrightarrow> t \<in> U"
    and "xp_total_deadline xp \<noteq> None \<longrightarrow> xp_total_timeout xp \<noteq> None" and "\<forall>xs. exchange_inv U xp xs \<longrightarrow> exchange_inv U xp (gate xs)"
  shows "case exchange_turn dbg xp gate xs ev of
      None \<Rightarrow> dbg \<and> xp_session xp \<and> \<not> permits_post_head (xs_head_wait xs) \<and> (\<exists>q. ev = HeadEvent q)
    | Some (NextTurn xs') \<Rightarrow> exchange_inv U xp xs'
    | Some (Break r xs') \<Rightarrow> broken_by U xp ev r xs'"
proof (cases ev)
  case (DeadlineEvent source)
  then have source: "select_deadline_source (xs_head_read_deadline xs) (xp_total_deadline xp) = Some source"
    using assms(2) by (simp add: enabled_def exchange_deadline_source_def)
  show ?thesis
  proof (cases source)
    case DeadlineRead
    then have "xs_head_read_deadline xs \<noteq> None"
      using source by (auto simp: select_deadline_source_def split: option.splits)
    then show ?thesis using assms(1) DeadlineEvent DeadlineRead
      by (auto simp: exchange_inv_def exchange_turn_def broken_by_def) metis
  next
    case DeadlineTotal
    then have "xp_total_deadline xp \<noteq> None"
      using source by (auto simp: select_deadline_source_def split: option.splits if_splits)
    then obtain t where "xp_total_timeout xp = Some t" using assms(4) by blast
    then show ?thesis using DeadlineEvent DeadlineTotal by (simp add: exchange_turn_def broken_by_def)
  qed
next
  case ResponseHeadGate
  then show ?thesis using assms(1,5) by (simp add: exchange_turn_def)
next
  case (HeadEvent result)
  then show ?thesis using assms(2)
    by (cases result) (auto simp: exchange_turn_def broken_by_def enabled_def split: prod.split)
next
  case (UploadComplete t)
  then show ?thesis using exchange_inv_complete assms(3) by (simp add: exchange_turn_def)
next
  case (DriverEvent result)
  have "exchange_inv U xp (xs\<lparr>xs_driver := d\<rparr>)" for d using assms(1) by (simp add: exchange_inv_def)
  then show ?thesis using DriverEvent
    by (cases result) (auto simp: exchange_turn_def broken_by_def driver_finish_def Let_def split: sum.splits)
qed

lemma exchange_turn_gate:
  assumes "exchange_turn dbg xp (pass_gate xp connection lease correlation) xs ev = Some (NextTurn xs')"
  shows "permits_post_head (xs_head_wait xs') \<longleftrightarrow> permits_post_head (xs_head_wait xs) \<or> ev = ResponseHeadGate"
  using assms
  by (cases ev) (auto simp: exchange_turn_def pass_gate_def upload_complete_def permits_post_head_def rhw_enter_def Let_def
      split: DeadlineSource.splits sum.splits if_splits prod.splits)

lemma check_completion_gate [simp]: "xs_head_wait (check_completion xp completed xs) = xs_head_wait xs"
  by (simp add: check_completion_def upload_complete_def split: option.split)

lemma exchange_loop_outcome:
  fixes connection lease correlation and xp :: exchange_params
  defines "gate \<equiv> pass_gate xp connection lease correlation"
  assumes "exchange_inv U xp xs" and "script_enabled dbg xp gate xs script" and "completions script \<subseteq> U"
    and "xp_total_deadline xp \<noteq> None \<longrightarrow> xp_total_timeout xp \<noteq> None"
  shows "case exchange_loop dbg xp gate xs script of
      None \<Rightarrow> dbg \<and> xp_session xp \<and> \<not> permits_post_head (xs_head_wait xs) \<and> head_first script
    | Some (NextTurn xs') \<Rightarrow> True
    | Some (Break r xs') \<Rightarrow> \<exists>ev. ev \<in> snd ` set script \<and> broken_by U xp ev r xs'"
  using assms(2-4)
proof (induction script arbitrary: xs)
  case (Cons x script)
  obtain completed ev where x: "x = (completed, ev)" by fastforce
  let ?xs = "check_completion xp completed xs"
  have gate: "\<forall>xs. exchange_inv U xp xs \<longrightarrow> exchange_inv U xp (gate xs)" unfolding gate_def by (rule exchange_inv_gate)
  have en: "enabled xp ?xs ev" using Cons.prems(2) x by simp
  have u: "set_option completed \<subseteq> U" "\<And>t. ev = UploadComplete t \<Longrightarrow> t \<in> U" "completions script \<subseteq> U"
    using Cons.prems(3) x by (auto simp: completions_def)
  note turn = exchange_turn_outcome [OF exchange_inv_check [OF u(1) Cons.prems(1)] en u(2) assms(5) gate, of dbg]
  show ?case
  proof (cases "exchange_turn dbg xp gate ?xs ev")
    case None
    then show ?thesis using turn x by auto
  next
    case (Some t)
    show ?thesis
    proof (cases t)
      case (NextTurn xs')
      have xs': "exchange_inv U xp xs'" "script_enabled dbg xp gate xs' script" using Some turn Cons.prems(2) x NextTurn by simp_all
      have g: "permits_post_head (xs_head_wait xs') \<longleftrightarrow> permits_post_head (xs_head_wait xs) \<or> ev = ResponseHeadGate"
        using exchange_turn_gate [OF Some [unfolded NextTurn gate_def]] by simp
      have h: "head_first (x # script)" if "head_first script" "ev \<noteq> ResponseHeadGate"
        using that x by (simp split: ExchangeEvent.split)
      show ?thesis using Cons.IH [OF xs' u(3)] Some NextTurn x g h
        by (auto split: option.splits turn_result.splits)
    next
      case (Break r xs')
      then show ?thesis using Some turn x by auto
    qed
  qed
qed simp

section \<open>Properties: the exchange\<close>


definition slow_upload :: exchange_params where
  "slow_upload = \<lparr>xp_session = False, xp_read_timeout = Some 5, xp_total_timeout = Some 100, xp_total_deadline = Some 100, xp_started = 0\<rparr>"

definition idle_driver :: "(nat, nat) ConnectionDriver" where
  "idle_driver = \<lparr>cd_task = Some 1, cd_shutdown = Some 2, cd_response_head = None\<rparr>"


section \<open>Lemmas: what an exchange leaves\<close>

definition harness_releases :: "SessionRuntimeHarness \<Rightarrow> nat" where
  "harness_releases h = length (filter (\<lambda>p. p = PoolReleaseClean \<or> p = PoolReleaseDirty) (map cp_phase (shown h)))"

lemma releases_harness: "releases w = harness_releases (w_harness w)"
  by (simp add: releases_def harness_releases_def)

lemma pass_gate_releases:
  "harness_releases (xs_harness (pass_gate xp connection lease correlation xs)) = harness_releases (xs_harness xs)"
  by (simp add: pass_gate_def harness_releases_def checkpoint_def observe_def)

lemma check_completion_harness [simp]: "xs_harness (check_completion xp completed xs) = xs_harness xs"
  by (simp add: check_completion_def upload_complete_def split: option.split)

lemma exchange_turn_harness:
  assumes "exchange_turn dbg xp (pass_gate xp connection lease correlation) xs ev = Some t"
  shows "t = NextTurn xs' \<or> t = Break r xs' \<Longrightarrow> harness_releases (xs_harness xs') = harness_releases (xs_harness xs)"
  using assms pass_gate_releases
  by (cases ev)
    (auto simp: exchange_turn_def upload_complete_def Let_def
      split: DeadlineSource.splits sum.splits if_splits prod.splits)

lemma exchange_loop_harness:
  "exchange_loop dbg xp (pass_gate xp connection lease correlation) xs script = Some t \<Longrightarrow>
   t = NextTurn xs' \<or> t = Break r xs' \<Longrightarrow> harness_releases (xs_harness xs') = harness_releases (xs_harness xs)"
proof (induction script arbitrary: xs)
  case (Cons x script)
  obtain completed ev where x: "x = (completed, ev)" by fastforce
  let ?gate = "pass_gate xp connection lease correlation"
  obtain u where u: "exchange_turn dbg xp ?gate (check_completion xp completed xs) ev = Some u"
    using Cons.prems(1) x by (auto split: option.splits)
  note kept = exchange_turn_harness [OF u]
  show ?case
  proof (cases u)
    case (NextTurn xs1)
    then have "exchange_loop dbg xp ?gate xs1 script = Some t" using Cons.prems(1) x u by simp
    then show ?thesis using Cons.IH Cons.prems(2) kept NextTurn by (metis check_completion_harness)
  next
    case (Break r1 xs1)
    then have "t = Break r1 xs1" using Cons.prems(1) x u by simp
    then show ?thesis using Cons.prems(2) kept [of xs1 r1] Break by auto
  qed
qed auto

lemma exchange_turn_shutdown:
  assumes "exchange_turn dbg xp (pass_gate xp connection lease correlation) xs ev = Some t" and "t = NextTurn xs' \<or> t = Break r xs'"
  shows "cd_shutdown (xs_driver xs') = cd_shutdown (xs_driver xs) \<or> cd_shutdown (xs_driver xs') = None \<and> (\<exists>q. ev = DriverEvent q)"
  using assms
  by (cases ev)
    (auto simp: exchange_turn_def upload_complete_def pass_gate_def take_raw_response_headers_def driver_finish_def Let_def
      split: DeadlineSource.splits sum.splits if_splits prod.splits option.splits)

lemma check_completion_driver [simp]: "xs_driver (check_completion xp completed xs) = xs_driver xs"
  by (simp add: check_completion_def upload_complete_def split: option.split)

text \<open>The driver still has its socket, or its task has ended.\<close>

lemma exchange_loop_shutdown:
  "exchange_loop dbg xp (pass_gate xp connection lease correlation) xs script = Some (Break r xs') \<Longrightarrow>
   cd_shutdown (xs_driver xs') = cd_shutdown (xs_driver xs) \<or>
   cd_shutdown (xs_driver xs') = None \<and> (\<exists>q. DriverEvent q \<in> snd ` set script)"
proof (induction script arbitrary: xs)
  case (Cons x script)
  obtain completed ev where x: "x = (completed, ev)" by fastforce
  let ?gate = "pass_gate xp connection lease correlation"
  obtain u where u: "exchange_turn dbg xp ?gate (check_completion xp completed xs) ev = Some u"
    using Cons.prems(1) x by (auto split: option.splits)
  note kept = exchange_turn_shutdown [OF u, unfolded check_completion_driver]
  show ?case
  proof (cases u)
    case (NextTurn xs1)
    then have "exchange_loop dbg xp ?gate xs1 script = Some (Break r xs')" using Cons.prems(1) x u by simp
    then show ?thesis using Cons.IH [of xs1] kept [of xs1] NextTurn x by auto
  next
    case (Break r1 xs1)
    then show ?thesis using Cons.prems(1) x u kept [of xs1 r1] by auto
  qed
qed simp

lemma transport_lease_in_use:
  assumes "cl_connection l = Some c" and "cl_terminal l = Active" and "cl_dirty_identity l = None"
    and "transport_lease_new l sr w = (ls, w')"
  shows "in_use l c ls" "ag_session_runtime (tl_active_exchange ls) = sr" "w_pool w' = w_pool w" "w_effects w' = w_effects w"
    "w_harness w' = w_harness w"
  using assms by (auto simp: transport_lease_new_def in_use_def guard_new_def case_prod_beta Let_def)

lemma cleanup_ends:
  assumes "pool_ok (w_pool w)" and "cl_connection l = Some c" and "cl_terminal l = Active" and "cl_dirty_identity l = None"
    and "cleanup ops ops' session l upload_pending e w = Some (e', w')"
  shows "idle_of (w_pool w') = idle_of (w_pool w)" "releases w' = releases w + (if session then 1 else 0)"
    "w_effects w' = w_effects w @ fst (shutdown_now (nw_driver (ic_inner c)))" "pool_ok (w_pool w')"
proof -
  obtain ls w1 where t: "transport_lease_new l session w = (ls :: (_, _, _, unit) TransportLease, w1)" by fastforce
  note ls = transport_lease_in_use [OF assms(2-4) t]
  let ?e = "if upload_pending then EndUpload else EndAbort"
  have "pool_ok (w_pool w1)" using assms(1) ls(3) by simp
  moreover have "(?e = EndFinish True) = False" by simp
  ultimately obtain ls' w2 clean where x: "end_lease ops ops' ?e ls w1 = Some (ls', w2)"
      "ended clean False l c (tl_active_exchange ls) w1 w2"
    using end_lease_ended [of w1 l c ls ops ops' ?e] ls(1) by (cases upload_pending) auto
  have "w' = w2" using assms(5) t x(1)
    by (cases upload_pending) (auto simp: cleanup_def end_lease_def)
  then show "idle_of (w_pool w') = idle_of (w_pool w)" "releases w' = releases w + (if session then 1 else 0)"
    "w_effects w' = w_effects w @ fst (shutdown_now (nw_driver (ic_inner c)))" "pool_ok (w_pool w')"
    using x(2) ended_releases [OF x(2)] ls by (auto simp: ended_def releases_def)
qed

abbreviation socket_of :: "('h, 't, 's) network IdleConnection \<Rightarrow> 's option" where
  "socket_of c \<equiv> cd_shutdown (nw_driver (ic_inner c))"

text \<open>A response that is handed over is open; a failed exchange has given its lease back.\<close>

lemma handed_over_open:
  assumes "pool_ok (w_pool w)" and "in_use l c (tp_lease resp)"
    and "tp_total_deadline resp \<noteq> None \<longrightarrow> tp_total_timeout resp \<noteq> None"
  shows "\<exists>body rest. take_body renv dc decoded (from_transport resp) = Some (body, rest) \<and> open_body body w"
  using assms disposition_inv_default
  by (auto simp: take_body_def from_transport_def open_body_def Let_def disposition_terminal_def disposition_default_def)

lemma exchange_on_outcome:
  assumes "pool_ok (w_pool w)" and "cl_connection lease = Some c" and "cl_terminal lease = Active"
    and "cl_dirty_identity lease = None" and "total_deadline \<noteq> None \<longrightarrow> timeout_total timeout \<noteq> None"
    and "exchange_on env self timeout total_deadline names progress url lease w = Some (Some r, w')"
  shows "case r of
     Inr resp \<Rightarrow> (\<exists>l c'. in_use l c' (tp_lease resp) \<and> (socket_of c' = socket_of c \<or> (\<exists>q. DriverEvent q \<in> snd ` set (se_script env)))) \<and> w_pool w' = w_pool w \<and> w_effects w' = w_effects w \<and> releases w' = releases w \<and>
       tp_total_deadline resp = total_deadline \<and> tp_total_timeout resp = timeout_total timeout
   | Inl e \<Rightarrow> idle_of (w_pool w') = idle_of (w_pool w) \<and> pool_ok (w_pool w') \<and>
       releases w' = releases w + (if tr_session_runtime self \<noteq> None then 1 else 0) \<and>
       (\<exists>d. w_effects w' = w_effects w @ fst (shutdown_now d) \<and>
          (cd_shutdown d = socket_of c \<or> (\<exists>q. DriverEvent q \<in> snd ` set (se_script env))))"
proof -
  let ?session = "tr_session_runtime self \<noteq> None"
  let ?xp = "\<lparr>xp_session = ?session, xp_read_timeout = timeout_read timeout, xp_total_timeout = timeout_total timeout,
     xp_total_deadline = total_deadline, xp_started = se_exchange_started env\<rparr>"
  let ?d = "begin_response_head names (nw_driver (ic_inner c))"
  obtain correlation h p where o: "(if ?session then begin_request_observation (w_harness w) (w_process w)
      else (0, w_harness w, w_process w)) = (correlation, h, p)" by (metis prod_cases3)
  have h: "harness_releases h = releases w"
    using o by (auto simp: begin_request_observation_def releases_harness harness_releases_def case_prod_beta Let_def split: if_splits)
  let ?gate = "pass_gate ?xp (session_connection_identity lease) (cl_session_lease_identity lease) correlation"
  have d: "connection_driver lease = Some (nw_driver (ic_inner c))" using assms(2) by (simp add: connection_driver_def)
  note on = assms(6) [unfolded exchange_on_def d option.case Let_def o prod.case]
  obtain q xs where loop: "exchange_loop (se_debug env) ?xp ?gate (exchange_start ?xp progress ?d h) (se_script env) = Some (Break q xs)"
    using on by (auto split: option.splits turn_result.splits)
  have hs: "harness_releases (xs_harness xs) = releases w"
    using exchange_loop_harness [OF loop] h by (simp add: exchange_start_def Let_def)
  let ?l = "set_driver (xs_driver xs) lease"
  let ?c = "c\<lparr>ic_inner := (ic_inner c)\<lparr>nw_driver := xs_driver xs\<rparr>\<rparr>"
  let ?w = "w\<lparr>w_process := p, w_harness := xs_harness xs\<rparr>"
  have l: "cl_connection ?l = Some ?c" "cl_terminal ?l = Active" "cl_dirty_identity ?l = None"
    using assms(2-4) by (simp_all add: set_driver_def)
  have w: "pool_ok (w_pool ?w)" "releases ?w = releases w" using assms(1) hs by (simp_all add: releases_harness)
  have d: "cd_shutdown (xs_driver xs) = socket_of c \<or> (\<exists>q. DriverEvent q \<in> snd ` set (se_script env))"
    using exchange_loop_shutdown [OF loop] by (auto simp: exchange_start_def begin_response_head_def Let_def)
  show ?thesis
  proof (cases q)
    case (Inl e)
    then obtain e' where cl: "cleanup (se_ops env) (se_pool_ops env) ?session ?l (xs_completion_pending xs) e ?w = Some (e', w')" "r = Inl e'"
      using on loop by auto
    note ends = cleanup_ends [OF w(1) l cl(1)]
    show ?thesis unfolding cl(2) sum.case using ends w(2) d by (intro conjI exI [of _ "xs_driver xs"]) simp_all
  next
    case (Inr x)
    obtain ls w1 where t: "transport_lease_new ?l ?session ?w = (ls :: (_, _, _, unit) TransportLease, w1)" by fastforce
    note u = transport_lease_in_use [OF l t]
    obtain head body raw where x: "x = ((head, body), raw)" by (metis prod.exhaust)
    obtain resp where r: "r = Inr resp" "tp_lease resp = ls" "tp_total_deadline resp = total_deadline"
        "tp_total_timeout resp = timeout_total timeout" "w' = w1"
      using on loop t by (simp add: Inr x) auto
    have "in_use ?l ?c ls \<and> (socket_of ?c = socket_of c \<or> (\<exists>q. DriverEvent q \<in> snd ` set (se_script env)))" using u(1) d by simp
    then have "\<exists>l c'. in_use l c' ls \<and> (socket_of c' = socket_of c \<or> (\<exists>q. DriverEvent q \<in> snd ` set (se_script env)))" by blast
    then show ?thesis unfolding r(1) sum.case r(2) using r(3-5) u(3-5) w(2) by (simp add: releases_harness)
  qed
qed


section \<open>Lemmas: a whole request\<close>

text \<open>
  What a request has done to a world: a key has lost idle connections from the end of its list only,
  and the socket of each of them and each socket of \<open>opened\<close>, those of \<open>kept\<close> apart, has been shut down.
\<close>

definition spent :: "'s set \<Rightarrow> 's set \<Rightarrow> ('h, 't, 's) world \<Rightarrow> ('h, 't, 's) world \<Rightarrow> bool" where
  "spent kept opened w w' \<longleftrightarrow> pool_ok (w_pool w') \<and>
     (\<exists>es. w_effects w' = w_effects w @ es \<and> (\<forall>s\<in>opened. s \<in> kept \<or> SocketShutdown s \<in> set es) \<and>
        (\<forall>k. \<exists>cs. idle_of (w_pool w) k = idle_of (w_pool w') k @ cs \<and>
           (\<forall>c\<in>set cs. \<forall>s. socket_of c = Some s \<longrightarrow> s \<in> kept \<or> SocketShutdown s \<in> set es)))"

lemma spent_ok: "spent kept opened w w' \<Longrightarrow> pool_ok (w_pool w')"
  by (simp add: spent_def)

lemma spent_same:
  assumes "pool_ok (w_pool w')" and "idle_of (w_pool w') = idle_of (w_pool w)" and "w_effects w' = w_effects w @ es"
    and "\<forall>s\<in>opened. s \<in> kept \<or> SocketShutdown s \<in> set es"
  shows "spent kept opened w w'"
  using assms by (auto simp: spent_def)

lemma spent_trans:
  assumes "spent kept opened w u" and "spent kept' opened' u v" and "kept \<union> kept' \<subseteq> all"
  shows "spent all (opened \<union> opened') w v"
proof -
  obtain es where es: "w_effects u = w_effects w @ es" "\<forall>s\<in>opened. s \<in> kept \<or> SocketShutdown s \<in> set es"
    "\<And>k. \<exists>cs. idle_of (w_pool w) k = idle_of (w_pool u) k @ cs \<and>
       (\<forall>c\<in>set cs. \<forall>s. socket_of c = Some s \<longrightarrow> s \<in> kept \<or> SocketShutdown s \<in> set es)"
    using assms(1) by (auto simp: spent_def)
  obtain fs where fs: "w_effects v = w_effects u @ fs" "\<forall>s\<in>opened'. s \<in> kept' \<or> SocketShutdown s \<in> set fs"
    "\<And>k. \<exists>cs. idle_of (w_pool u) k = idle_of (w_pool v) k @ cs \<and>
       (\<forall>c\<in>set cs. \<forall>s. socket_of c = Some s \<longrightarrow> s \<in> kept' \<or> SocketShutdown s \<in> set fs)"
    using assms(2) by (auto simp: spent_def)
  have "\<exists>cs. idle_of (w_pool w) k = idle_of (w_pool v) k @ cs \<and>
      (\<forall>c\<in>set cs. \<forall>s. socket_of c = Some s \<longrightarrow> s \<in> all \<or> SocketShutdown s \<in> set (es @ fs))" for k
  proof -
    obtain cs ds where "idle_of (w_pool w) k = idle_of (w_pool u) k @ cs" "idle_of (w_pool u) k = idle_of (w_pool v) k @ ds"
      "\<forall>c\<in>set cs. \<forall>s. socket_of c = Some s \<longrightarrow> s \<in> kept \<or> SocketShutdown s \<in> set es"
      "\<forall>c\<in>set ds. \<forall>s. socket_of c = Some s \<longrightarrow> s \<in> kept' \<or> SocketShutdown s \<in> set fs"
      using es(3) [of k] fs(3) [of k] by blast
    then show ?thesis using assms(3) by (intro exI [of _ "ds @ cs"]) (simp, blast)
  qed
  moreover have "\<forall>s \<in> opened \<union> opened'. s \<in> all \<or> SocketShutdown s \<in> set (es @ fs)" using es(2) fs(2) assms(3) by auto
  moreover have "pool_ok (w_pool v)" "w_effects v = w_effects w @ es @ fs" using es(1) fs(1) spent_ok [OF assms(2)] by simp_all
  ultimately show ?thesis by (auto simp: spent_def)
qed

text \<open>What was kept is shut down, or still kept.\<close>

lemma spent_closed:
  assumes "spent kept opened w u" and "pool_ok (w_pool v)" and "idle_of (w_pool v) = idle_of (w_pool u)" and "w_effects v = w_effects u @ fs"
    and "\<And>s. s \<in> kept \<Longrightarrow> s \<in> kept' \<or> SocketShutdown s \<in> set fs"
  shows "spent kept' opened w v"
proof -
  obtain es where es: "w_effects u = w_effects w @ es" "\<forall>s\<in>opened. s \<in> kept \<or> SocketShutdown s \<in> set es"
    "\<And>k. \<exists>cs. idle_of (w_pool w) k = idle_of (w_pool u) k @ cs \<and>
       (\<forall>c\<in>set cs. \<forall>s. socket_of c = Some s \<longrightarrow> s \<in> kept \<or> SocketShutdown s \<in> set es)"
    using assms(1) by (auto simp: spent_def)
  have "\<exists>cs. idle_of (w_pool w) k = idle_of (w_pool v) k @ cs \<and>
      (\<forall>c\<in>set cs. \<forall>s. socket_of c = Some s \<longrightarrow> s \<in> kept' \<or> SocketShutdown s \<in> set (es @ fs))" for k
    using es(3) [of k] assms(3,5) by fastforce
  moreover have "\<forall>s\<in>opened. s \<in> kept' \<or> SocketShutdown s \<in> set (es @ fs)" using es(2) assms(5) by auto
  ultimately show ?thesis using es(1) assms(2,4) by (auto simp: spent_def)
qed

text \<open>A lease that has been taken and not been used.\<close>

definition fresh_lease :: "('h, 't, 's) network IdleConnection \<Rightarrow> ('h, 't, 's) network ConnectionLease \<Rightarrow> bool" where
  "fresh_lease c l \<longleftrightarrow> cl_connection l = Some c \<and> cl_terminal l = Active \<and> cl_dirty_identity l = None"

lemma spent_popped:
  assumes "pool_ok (w_pool w)" and "acquire (w_pool w) key p = Some (l, pool, p')" and "w_pool u = pool"
    and "w_effects u = w_effects w @ es" and "cl_connection l = Some c"
    and "\<And>s. socket_of c = Some s \<Longrightarrow> s \<in> kept \<or> SocketShutdown s \<in> set es"
  shows "spent kept {} w u"
  using acquire_SomeD(1,6) [OF assms(1,2)] assms(3-6)
  by (auto simp: spent_def split: if_splits)

lemma acquire_idle_spent:
  assumes "pool_ok (w_pool w)" and "acquire_idle env sr key deadlines w = Some (r, w')"
  shows "case r of Inr (Some l) \<Rightarrow> \<exists>c. fresh_lease c l \<and> spent (set_option (socket_of c)) {} w w' | _ \<Rightarrow> spent {} {} w w'"
  using assms
proof (induction "length (idle_of (w_pool w) key)" arbitrary: w rule: less_induct)
  case less
  show ?case
  proof (cases "acquire (w_pool w) key (w_process w)")
    case None
    then show ?thesis using less.prems spent_same [of w w "[]" "{}"] by (auto simp: acquire_idle.simps [of env sr key deadlines w])
  next
    case (Some x)
    then obtain l pool p where a: "acquire (w_pool w) key (w_process w) = Some (l, pool, p)" by (metis prod_cases3)
    obtain c where c: "idle_of (w_pool w) key = idle_of pool key @ [c]" "cl_connection l = Some c"
      "cl_terminal l = Active" "cl_dirty_identity l = None" using acquire_pool [OF a] by metis
    let ?w = "w\<lparr>w_pool := pool, w_process := p\<rparr>"
    obtain w1 where d: "discard env sr l ?w = Some w1" "w_pool w1 = pool"
      "w_effects w1 = w_effects w @ fst (shutdown_now (nw_driver (ic_inner c)))"
      using discard_spec [OF c(2,3), of env sr ?w] by auto
    have closed: "spent {} {} w w1"
      by (rule spent_popped [OF less.prems(1) a d(2,3) c(2)]) (simp add: shutdown_now_effects(1))
    note step = acquire_idle.simps [of env sr key deadlines w, unfolded a option.case prod.case Let_def]
    show ?thesis
    proof (cases "lease_verdict env (ed_total_deadline deadlines) l")
      case Use
      have "spent (set_option (socket_of c)) {} w (observe_pool_acquire sr l ?w)"
        by (rule spent_popped [OF less.prems(1) a, where es = "[]" and c = c])
          (auto simp: c(2) observe_pool_acquire_def observe_next_def case_prod_beta Let_def)
      then show ?thesis using less.prems(2) Use c by (auto simp: step fresh_lease_def)
    next
      case TimedOut
      then show ?thesis using less.prems(2) closed d(1) by (auto simp: step split: option.splits)
    next
      case Discard
      then have "acquire_idle env sr key deadlines w1 = Some (r, w')" using less.prems(2) d(1) by (simp add: step)
      then have "case r of Inr (Some l) \<Rightarrow> \<exists>c. fresh_lease c l \<and> spent (set_option (socket_of c)) {} w1 w' | _ \<Rightarrow> spent {} {} w1 w'"
        using less.hyps [of w1] c(1) d(2) acquire_SomeD(1) [OF less.prems(1) a] by simp
      moreover have "spent kept {} w w'" if "spent kept {} w1 w'" for kept using spent_trans [OF closed that] by simp
      ultimately show ?thesis by (auto split: sum.splits option.splits)
    qed
  qed
qed

text \<open>The socket a connection is opened with, if one is opened.\<close>

definition connect_opens ::
  "('a, 'p, 'l, 'q, 'x, 'h, 't, 's) establish_env \<Rightarrow> stage option \<Rightarrow> ('h, 't, 's) network Transport \<Rightarrow> PoolKey \<Rightarrow>
   rstr \<Rightarrow> u16 \<Rightarrow> rstr \<Rightarrow> EstablishmentDeadlines \<Rightarrow> 's option" where
  "connect_opens env cut_at self key host port target deadlines =
     opened_socket env
       (if select_deadline_source (ed_connect_deadline deadlines) (ed_total_deadline deadlines) = None then None else cut_at)
       (tr_tls self) (tr_proxy self) key host port target (tr_session_runtime self \<noteq> None)"

lemma connect_connection_spent:
  assumes "pool_ok (w_pool w)" and "connect_connection env cut_at self key host port target deadlines w = Some (r, w')"
    and "opened = connect_opens env cut_at self key host port target deadlines"
  shows "case r of
     Inr l \<Rightarrow> \<exists>c. fresh_lease c l \<and> socket_of c = opened \<and> spent (set_option opened) (set_option opened) w w'
   | Inl _ \<Rightarrow> spent {} (set_option opened) w w'"
proof -
  obtain reservation p where res: "(if tr_session_runtime self \<noteq> None then map_prod Some id (reserve_exchange (w_process w))
      else (None, w_process w)) = (reservation, p)" by fastforce
  have some: "(reservation \<noteq> None) = (tr_session_runtime self \<noteq> None)"
    using res by (auto simp: map_prod_def case_prod_beta split: if_splits)
  define cut' where "cut' = (if select_deadline_source (ed_connect_deadline deadlines) (ed_total_deadline deadlines) = None then None else cut_at)"
  obtain q st where run: "establishing env cut' (tr_tls self) (tr_proxy self) key host port target reservation
      \<lparr>es_harness = w_harness w, es_driver = None\<rparr> = (q, st)" by fastforce
  have o: "opened = opened_socket env cut' (tr_tls self) (tr_proxy self) key host port target (reservation \<noteq> None)"
    unfolding assms(3) connect_opens_def cut'_def some by (rule refl)
  have own: "case q of
       Done c \<Rightarrow> opened \<noteq> None \<and> socket_of c = opened
     | _ \<Rightarrow> es_driver st = map_option (\<lambda>s. driver_with_shutdown (Some s)) opened"
    using est_opens_establishing [unfolded est_opens_def, rule_format, OF _ run, folded o] by simp
  note connect = assms(2) [unfolded connect_connection_def Let_def res prod.case, folded cut'_def, unfolded run prod.case]
  show ?thesis
  proof (cases q)
    case (Done c)
    then have l: "r = Inr (case reservation of
          Some r \<Rightarrow> lease_new_with_exchange_identity key (generation_number (w_pool w)) c (fst (promote r))
        | None \<Rightarrow> with_session_lease_identity key (generation_number (w_pool w)) c None)" "w_pool w' = w_pool w" "w_effects w' = w_effects w @ []"
      using connect by auto
    have "fresh_lease c (case reservation of
          Some r \<Rightarrow> lease_new_with_exchange_identity key (generation_number (w_pool w)) c (fst (promote r))
        | None \<Rightarrow> with_session_lease_identity key (generation_number (w_pool w)) c None)"
      by (simp add: fresh_lease_def lease_new_with_exchange_identity_def with_session_lease_identity_def split: option.split)
    moreover have "spent (set_option opened) (set_option opened) w w'" by (rule spent_same [OF _ _ l(3)]) (use l(2) assms(1) in auto)
    ultimately show ?thesis using own Done unfolding l(1) sum.case by auto
  next
    case (Failed e)
    then have "r = Inl e" "w_pool w' = w_pool w" "w_effects w' = w_effects w @ (case es_driver st of Some d \<Rightarrow> fst (shutdown_now d) | None \<Rightarrow> [])"
      using connect by auto
    then show ?thesis using own Failed assms(1) by (auto intro!: spent_same simp: shutdown_now_effects(1) driver_with_shutdown_def)
  next
    case Cut
    then have "\<exists>e. r = Inl e" "w_pool w' = w_pool w" "w_effects w' = w_effects w @ (case es_driver st of Some d \<Rightarrow> fst (shutdown_now d) | None \<Rightarrow> [])"
      using connect by (auto split: option.splits DeadlineSource.splits)
    then show ?thesis using own Cut assms(1) by (auto intro!: spent_same simp: shutdown_now_effects(1) driver_with_shutdown_def)
  qed
qed

text \<open>The socket that an acquisition opens: the pool has no connection to use.\<close>

definition acquire_opens where
  "acquire_opens env cut_at aenv self key host port target deadlines w =
     (case acquire_idle aenv (tr_session_runtime self \<noteq> None) key deadlines w of
        Some (Inr None, _) \<Rightarrow> connect_opens env cut_at self key host port target deadlines
      | _ \<Rightarrow> None)"

lemma acquire_connection_spent:
  assumes "pool_ok (w_pool w)" and "acquire_connection env cut_at aenv self key host port target deadlines w = Some (r, w')"
    and "opened = acquire_opens env cut_at aenv self key host port target deadlines w"
  shows "case r of Inr l \<Rightarrow> \<exists>c. fresh_lease c l \<and> spent (set_option (socket_of c)) (set_option opened) w w' | Inl _ \<Rightarrow> spent {} (set_option opened) w w'"
proof -
  let ?sr = "tr_session_runtime self \<noteq> None"
  obtain q w1 where a: "acquire_idle aenv ?sr key deadlines w = Some (q, w1)"
    using assms(2) by (auto simp: acquire_connection_def Let_def split: option.splits)
  note spent = acquire_idle_spent [OF assms(1) a]
  show ?thesis
  proof (cases "q = Inr None")
    case True
    then obtain w2 where c: "connect_connection env cut_at self key host port target deadlines w1 = Some (r, w2)"
      and w': "w' = w2 \<or> (\<exists>l. w' = observe_pool_acquire ?sr l w2)"
      using assms(2) a by (auto simp: acquire_connection_def Let_def split: option.splits sum.splits prod.splits)
    have one: "spent {} {} w w1" using spent True by simp
    have o: "opened = connect_opens env cut_at self key host port target deadlines" using assms(3) a True by (simp add: acquire_opens_def)
    have "spent kept (set_option opened) w w'" if "spent kept (set_option opened) w1 w2" for kept
      using spent_trans [OF one that, of kept] w'
      by (auto simp: spent_def observe_pool_acquire_def observe_next_def case_prod_beta Let_def)
    then show ?thesis using connect_connection_spent [OF spent_ok [OF one] c o] by (cases r) auto
  next
    case False
    then have "opened = None" using assms(3) a by (auto simp: acquire_opens_def split: sum.splits option.splits)
    then show ?thesis using False assms(2) a spent by (auto simp: acquire_connection_def Let_def split: sum.splits option.splits)
  qed
qed

text \<open>The socket of the connection that a response has leased.\<close>

definition leased_socket :: "('h, 't, 's, 'w) TransportLease option \<Rightarrow> 's option" where
  "leased_socket lease = Option.bind lease (\<lambda>ls. Option.bind (tl_lease ls) (\<lambda>l. Option.bind (connection_driver l) cd_shutdown))"

text \<open>
  A socket may be kept when it is that of the connection the response has leased; or when the task
  that drives the connection ended during the exchange, which drops the socket there.
\<close>

definition may_keep :: "(instant option \<times> 'r ExchangeEvent) list \<Rightarrow> 's option \<Rightarrow> 's option \<Rightarrow> bool" where
  "may_keep script leased kept \<longleftrightarrow> kept = None \<or> kept = leased \<or> (\<exists>q. DriverEvent q \<in> snd ` set script)"

lemma leased_exchange_spent:
  assumes "spent (set_option (socket_of c)) opened w u" and "fresh_lease c lease" and "total_deadline \<noteq> None \<longrightarrow> timeout_total timeout \<noteq> None"
    and "exchange_on env self timeout total_deadline names progress url lease u = Some (Some r, w')"
  shows "\<exists>kept. spent (set_option kept) opened w w' \<and>
    (case r of
       Inr resp \<Rightarrow> may_keep (se_script env) (leased_socket (Some (tp_lease resp))) kept \<and>
         (\<exists>body rest. take_body renv dc decoded (from_transport resp) = Some (body, rest) \<and> open_body body w')
     | Inl e \<Rightarrow> may_keep (se_script env) None kept)"
proof -
  have lease: "cl_connection lease = Some c" "cl_terminal lease = Active" "cl_dirty_identity lease = None"
    using assms(2) by (simp_all add: fresh_lease_def)
  note ok = spent_ok [OF assms(1)]
  note o = exchange_on_outcome [OF ok lease assms(3,4)]
  show ?thesis
  proof (cases r)
    case (Inr resp)
    obtain l c' where u: "in_use l c' (tp_lease resp)" "socket_of c' = socket_of c \<or> (\<exists>q. DriverEvent q \<in> snd ` set (se_script env))"
      "w_pool w' = w_pool u" "w_effects w' = w_effects u @ []" "tp_total_deadline resp = total_deadline"
      "tp_total_timeout resp = timeout_total timeout" using o unfolding Inr sum.case by (elim conjE exE) simp
    have "spent (set_option (socket_of c)) opened w w'" by (rule spent_closed [OF assms(1) _ _ u(4)]) (use u(3) ok in auto)
    moreover have "leased_socket (Some (tp_lease resp)) = socket_of c'"
      using u(1) by (simp add: leased_socket_def in_use_def connection_driver_def)
    moreover have "\<exists>body rest. take_body renv dc decoded (from_transport resp) = Some (body, rest) \<and> open_body body w'"
      by (rule handed_over_open [OF _ u(1)]) (use u ok assms(3) in simp_all)
    ultimately show ?thesis using u(2) unfolding Inr sum.case by (intro exI [of _ "socket_of c"]) (auto simp: may_keep_def)
  next
    case (Inl e)
    obtain d where d: "pool_ok (w_pool w')" "idle_of (w_pool w') = idle_of (w_pool u)" "w_effects w' = w_effects u @ fst (shutdown_now d)"
      "cd_shutdown d = socket_of c \<or> (\<exists>q. DriverEvent q \<in> snd ` set (se_script env))"
      using o unfolding Inl sum.case by (elim conjE exE) blast
    show ?thesis
    proof (cases "cd_shutdown d = socket_of c")
      case True
      have "spent {} opened w w'" by (rule spent_closed [OF assms(1) d(1-3)]) (auto simp: shutdown_now_effects(1) True)
      then show ?thesis unfolding Inl sum.case by (intro exI [of _ None]) (simp add: may_keep_def)
    next
      case False
      have "spent (set_option (socket_of c)) opened w w'" by (rule spent_closed [OF assms(1) d(1-3)]) simp
      then show ?thesis using d(4) False unfolding Inl sum.case by (intro exI [of _ "socket_of c"]) (simp add: may_keep_def)
    qed
  qed
qed

text \<open>The socket that a request opens: it is valid, has a target, and no idle connection can be used.\<close>

definition request_opens where
  "request_opens env self request w =
     (let hm = oe_headers (se_outgoing env);
          timeout = (case rq_timeout request of Some t \<Rightarrow> t | None \<Rightarrow> tr_default_timeout self) in
      case (validate_request hm (se_to_str env) request, target_of (oe_parse_authority (se_outgoing env)) self request) of
        (Inr _, Some (Inr st)) \<Rightarrow>
          if isl (send_headers hm (ee_proxy_env (se_establish env)) self (st_absolute_form st) (rq_headers request)) then None
          else acquire_opens (se_establish env) (se_cut_at env) (se_acquire env) self (st_key st) (st_host st) (st_port st)
            (st_authority st) (send_deadlines timeout (se_started env)) w
      | _ \<Rightarrow> None)"

lemma send_outcome:
  assumes "pool_ok (w_pool w)" and "send env self request w = Some (Some r, w')"
  shows "\<exists>kept. spent (set_option kept) (set_option (request_opens env self request w)) w w' \<and>
    (case r of
       Inr resp \<Rightarrow> may_keep (se_script env) (leased_socket (Some (tp_lease resp))) kept \<and>
         (\<exists>body rest. take_body renv dc decoded (from_transport resp) = Some (body, rest) \<and> open_body body w')
     | Inl e \<Rightarrow> may_keep (se_script env) None kept)"
proof -
  define timeout where "timeout = (case rq_timeout request of Some t \<Rightarrow> t | None \<Rightarrow> tr_default_timeout self)"
  let ?deadlines = "send_deadlines timeout (se_started env)"
  let ?session = "tr_session_runtime self \<noteq> None"
  let ?opened = "request_opens env self request w"
  have total: "ed_total_deadline ?deadlines \<noteq> None \<longrightarrow> timeout_total timeout \<noteq> None"
    by (auto simp: send_deadlines_def split: Option.bind_splits)
  note s = assms(2) [unfolded send_def Let_def, folded timeout_def]
  note opens = request_opens_def [of env self request w, unfolded Let_def, folded timeout_def]
  have failed: ?thesis if "r = Inl e" "spent {} (set_option ?opened) w w'" for e
    using that by (intro exI [of _ None]) (simp add: may_keep_def)
  show ?thesis
  proof (cases "w' = w \<and> (\<exists>e. r = Inl e) \<and> ?opened = None")
    case True
    then show ?thesis using failed assms(1) spent_same [of w w "[]" "{}" "{}"] by auto
  next
    case False
    then obtain v st headers where pre: "validate_request (oe_headers (se_outgoing env)) (se_to_str env) request = Inr v"
      "target_of (oe_parse_authority (se_outgoing env)) self request = Some (Inr st)"
      "send_headers (oe_headers (se_outgoing env)) (ee_proxy_env (se_establish env)) self (st_absolute_form st) (rq_headers request) = Inr headers"
      using s by (auto simp: opens split: sum.splits option.splits)
    note s = s [unfolded pre sum.case option.case]
    obtain q w1 where a: "acquire_connection (se_establish env) (se_cut_at env) (se_acquire env) self (st_key st) (st_host st)
          (st_port st) (st_authority st) ?deadlines w = Some (q, w1)"
      using s by (cases "acquire_connection (se_establish env) (se_cut_at env) (se_acquire env) self (st_key st) (st_host st)
          (st_port st) (st_authority st) ?deadlines w") auto
    have o: "?opened = acquire_opens (se_establish env) (se_cut_at env) (se_acquire env) self (st_key st) (st_host st)
          (st_port st) (st_authority st) ?deadlines w" by (simp add: opens pre)
    note s = s [unfolded a option.case prod.case] and taken = acquire_connection_spent [OF assms(1) a o]
    show ?thesis
    proof (cases q)
      case (Inl e)
      then show ?thesis using s taken failed by auto
    next
      case (Inr l)
      then obtain c where c: "fresh_lease c l" "spent (set_option (socket_of c)) (set_option ?opened) w w1" using taken by auto
      obtain correlation p where p: "(if ?session then next_process_identity (w_process w1) else (0, w_process w1)) = (correlation, p)"
        by fastforce
      note s = s [unfolded Inr sum.case p prod.case]
      show ?thesis
      proof (cases "\<exists>e. r = Inl e \<and> w' = drop_lease l (w1\<lparr>w_process := p\<rparr>)")
        case True
        have "spent {} (set_option ?opened) w w'"
          by (rule spent_closed [OF c(2), where fs = "fst (shutdown_now (nw_driver (ic_inner c)))"])
            (use True c(1) spent_ok [OF c(2)] in \<open>auto simp: drop_lease_def drop_effects_def connection_driver_def fresh_lease_def shutdown_now_effects(1)\<close>)
        then show ?thesis using True failed by auto
      next
        case False
        then obtain h names progress url where
          on: "exchange_on env self timeout (ed_total_deadline ?deadlines) names progress url l (w1\<lparr>w_process := p, w_harness := h\<rparr>) = Some (Some r, w')"
          using s by (auto split: sum.splits prod.splits)
        have "spent (set_option (socket_of c)) (set_option ?opened) w (w1\<lparr>w_process := p, w_harness := h\<rparr>)" using c(2) by (simp add: spent_def)
        then show ?thesis by (rule leased_exchange_spent [OF _ c(1) total on])
      qed
    qed
  qed
qed

end
