(* ===== verification/Submission.thy ===== *)
theory Submission
  imports Session_Runtime Error_Model Once
begin

text \<open>
  The runtime of \<open>crates/requests/src/blocking.rs\<close>: the registry that keeps one runtime per process,
  and submissions of futures to it, which an origin thread waits for. The output channel of a task is
  a queue and whether its sender is alive; the process an operation runs in is an argument.
\<close>

section \<open>Submissions\<close>

text \<open>The statics of the module.\<close>

record submission_statics =
  NEXT_SUBMISSION_ID :: u64
  OUTSTANDING_SUBMISSIONS :: u64
  SUBMISSION_PROCESS_ID :: u32

definition ensure_submission_process :: "u32 \<Rightarrow> submission_statics \<Rightarrow> submission_statics" where
  "ensure_submission_process pid st =
     (if SUBMISSION_PROCESS_ID st = pid then st
      else st\<lparr>SUBMISSION_PROCESS_ID := pid, NEXT_SUBMISSION_ID := 1, OUTSTANDING_SUBMISSIONS := 0\<rparr>)"

definition outstanding_submission_count :: "u32 \<Rightarrow> submission_statics \<Rightarrow> u64 \<times> submission_statics" where
  "outstanding_submission_count pid st =
     (let st = ensure_submission_process pid st in (OUTSTANDING_SUBMISSIONS st, st))"

datatype BlockingDriverError = DriverStaleProcess u32 u32

datatype BlockingTaskError = Cancelled | WorkerStopped | AlreadyCompleted | StaleProcess u32 u32

definition driver_error_display :: "BlockingDriverError \<Rightarrow> rstr" where
  "driver_error_display e =
     (case e of DriverStaleProcess recorded current \<Rightarrow>
        lit ''blocking runtime belongs to process '' @ nat_to_decimal (unat recorded) @ lit '', not current process '' @
        nat_to_decimal (unat current))"

definition task_error_display :: "BlockingTaskError \<Rightarrow> rstr" where
  "task_error_display e =
     (case e of
        Cancelled \<Rightarrow> lit ''blocking runtime task was cancelled''
      | WorkerStopped \<Rightarrow> lit ''blocking runtime task stopped''
      | AlreadyCompleted \<Rightarrow> lit ''blocking runtime task result was already consumed''
      | StaleProcess recorded current \<Rightarrow>
          lit ''blocking runtime task belongs to process '' @ nat_to_decimal (unat recorded) @
          lit '', not current process '' @ nat_to_decimal (unat current))"

text \<open>
  A submission, and what it shares with its task: the channel and whether the task was asked to
  abort. \<open>bs_receiver\<close> and \<open>bs_abort\<close> say that the handle is there.
\<close>

record 'v BlockingSubmission =
  bs_id :: u64
  bs_parent_id :: "u64 option"
  bs_process_id :: u32
  bs_receiver :: bool
  bs_ready :: "'v option"
  bs_abort :: bool
  bs_cancelled :: bool

record 'v task_channel =
  tc_queue :: "'v list"
  tc_sender :: bool
  tc_aborted :: bool

definition submit_for_process ::
  "u32 \<Rightarrow> u64 option \<Rightarrow> u32 \<Rightarrow> submission_statics \<Rightarrow>
   (BlockingDriverError + ('v BlockingSubmission \<times> 'v task_channel)) \<times> submission_statics" where
  "submit_for_process driver_process_id active current_process_id st =
     (if current_process_id \<noteq> driver_process_id then (Inl (DriverStaleProcess driver_process_id current_process_id), st)
      else
        let st = ensure_submission_process current_process_id st;
            id = NEXT_SUBMISSION_ID st;
            st = st\<lparr>NEXT_SUBMISSION_ID := id + 1, OUTSTANDING_SUBMISSIONS := OUTSTANDING_SUBMISSIONS st + 1\<rparr> in
        (Inr (\<lparr>bs_id = id, bs_parent_id = active, bs_process_id = driver_process_id, bs_receiver = True, bs_ready = None,
               bs_abort = True, bs_cancelled = False\<rparr>,
              \<lparr>tc_queue = [], tc_sender = True, tc_aborted = False\<rparr>), st))"

text \<open>
  The end of a task: with its output, which is sent, or stopped (aborted, or with its runtime). Its
  sender and its \<open>OutstandingSubmission\<close> are dropped.
\<close>

definition task_ends :: "'v option \<Rightarrow> 'v task_channel \<Rightarrow> 'v task_channel" where
  "task_ends output ch =
     (if tc_sender ch then ch\<lparr>tc_queue := tc_queue ch @ (case output of Some v \<Rightarrow> [v] | None \<Rightarrow> []), tc_sender := False\<rparr> else ch)"

definition drop_outstanding :: "submission_statics \<Rightarrow> submission_statics" where
  "drop_outstanding st = st\<lparr>OUTSTANDING_SUBMISSIONS := OUTSTANDING_SUBMISSIONS st - 1\<rparr>"

definition validate_process :: "u32 \<Rightarrow> 'v BlockingSubmission \<Rightarrow> BlockingTaskError + unit" where
  "validate_process current self =
     (if current = bs_process_id self then Inr () else Inl (StaleProcess (bs_process_id self) current))"

definition stopped_error :: "'v BlockingSubmission \<Rightarrow> BlockingTaskError" where
  "stopped_error self = (if bs_cancelled self then Cancelled else WorkerStopped)"

text \<open>The receiver: a message, none yet, or none ever.\<close>

datatype 'v recv_answer = Received 'v | RecvEmpty | Disconnected

definition recv :: "'v task_channel \<Rightarrow> 'v recv_answer \<times> 'v task_channel" where
  "recv ch =
     (case tc_queue ch of
        v # vs \<Rightarrow> (Received v, ch\<lparr>tc_queue := vs\<rparr>)
      | [] \<Rightarrow> (if tc_sender ch then RecvEmpty else Disconnected, ch))"

text \<open>The channel is the one at the moment the wait ends.\<close>

definition wait_ready_timeout ::
  "u32 \<Rightarrow> 'v BlockingSubmission \<Rightarrow> 'v task_channel \<Rightarrow>
   (BlockingTaskError + bool) \<times> 'v BlockingSubmission \<times> 'v task_channel" where
  "wait_ready_timeout current self ch =
     (case validate_process current self of
        Inl e \<Rightarrow> (Inl e, self, ch)
      | Inr _ \<Rightarrow>
          if bs_ready self \<noteq> None then (Inr True, self, ch)
          else if \<not> bs_receiver self then (Inl AlreadyCompleted, self, ch)
          else
            (case recv ch of
               (Received output, ch) \<Rightarrow> (Inr True, self\<lparr>bs_ready := Some output\<rparr>, ch)
             | (RecvEmpty, ch) \<Rightarrow> (Inr False, self, ch)
             | (Disconnected, ch) \<Rightarrow> (Inl (stopped_error self), self, ch)))"

definition try_wait_for_process ::
  "u32 \<Rightarrow> 'v BlockingSubmission \<Rightarrow> 'v task_channel \<Rightarrow>
   (BlockingTaskError + 'v option) \<times> 'v BlockingSubmission \<times> 'v task_channel" where
  "try_wait_for_process current self ch =
     (case validate_process current self of
        Inl e \<Rightarrow> (Inl e, self, ch)
      | Inr _ \<Rightarrow>
          (case bs_ready self of
             Some output \<Rightarrow> (Inr (Some output), self\<lparr>bs_ready := None, bs_receiver := False\<rparr>, ch)
           | None \<Rightarrow>
               if \<not> bs_receiver self then (Inl AlreadyCompleted, self, ch)
               else
                 (case recv ch of
                    (Received output, ch) \<Rightarrow> (Inr (Some output), self\<lparr>bs_receiver := False\<rparr>, ch)
                  | (RecvEmpty, ch) \<Rightarrow> (Inr None, self, ch)
                  | (Disconnected, ch) \<Rightarrow> (Inl (stopped_error self), self\<lparr>bs_receiver := False\<rparr>, ch))))"

text \<open>\<open>wait\<close> consumes the submission; \<open>None\<close> while it is blocked.\<close>

definition wait_for_process ::
  "u32 \<Rightarrow> 'v BlockingSubmission \<Rightarrow> 'v task_channel \<Rightarrow>
   ((BlockingTaskError + 'v) \<times> 'v BlockingSubmission \<times> 'v task_channel) option" where
  "wait_for_process current self ch =
     (case validate_process current self of
        Inl e \<Rightarrow> Some (Inl e, self, ch)
      | Inr _ \<Rightarrow>
          (case bs_ready self of
             Some output \<Rightarrow> Some (Inr output, self\<lparr>bs_ready := None, bs_receiver := False\<rparr>, ch)
           | None \<Rightarrow>
               if \<not> bs_receiver self then Some (Inl AlreadyCompleted, self, ch)
               else
                 (case recv ch of
                    (Received output, ch) \<Rightarrow> Some (Inr output, self\<lparr>bs_receiver := False\<rparr>, ch)
                  | (RecvEmpty, ch) \<Rightarrow> None
                  | (Disconnected, ch) \<Rightarrow> Some (Inl (stopped_error self), self\<lparr>bs_receiver := False\<rparr>, ch))))"

definition cancel_for_process ::
  "u32 \<Rightarrow> 'v BlockingSubmission \<Rightarrow> 'v task_channel \<Rightarrow>
   (BlockingTaskError + unit) \<times> 'v BlockingSubmission \<times> 'v task_channel" where
  "cancel_for_process current self ch =
     (case validate_process current self of
        Inl e \<Rightarrow> (Inl e, self, ch)
      | Inr _ \<Rightarrow>
          if \<not> bs_receiver self then (Inl AlreadyCompleted, self, ch)
          else (Inr (), self\<lparr>bs_cancelled := True\<rparr>, if bs_abort self then ch\<lparr>tc_aborted := True\<rparr> else ch))"

definition finish_drop_for_process ::
  "u32 \<Rightarrow> 'v BlockingSubmission \<Rightarrow> 'v task_channel \<Rightarrow> bool \<times> 'v BlockingSubmission \<times> 'v task_channel" where
  "finish_drop_for_process current self ch =
     (if \<not> bs_abort self then (False, self, ch)
      else if current = bs_process_id self then (True, self\<lparr>bs_abort := False\<rparr>, ch\<lparr>tc_aborted := True\<rparr>)
      else (False, self\<lparr>bs_abort := False\<rparr>, ch))"

section \<open>The runtime of a process\<close>

record 'r DriverInner =
  di_process_id :: u32
  di_generation :: u64
  di_runtime :: 'r

record 'r DriverRegistry =
  dr_current :: "'r DriverInner option"
  dr_next_generation :: u64
  dr_poisoned :: bool

definition registry_default :: "'r DriverRegistry" where
  "registry_default = \<lparr>dr_current = None, dr_next_generation = 0, dr_poisoned = False\<rparr>"

definition clear_for_process :: "u32 \<Rightarrow> 'r DriverRegistry \<Rightarrow> bool \<times> 'r DriverRegistry" where
  "clear_for_process pid self =
     (if dr_poisoned self \<or> (case dr_current self of None \<Rightarrow> True | Some d \<Rightarrow> di_process_id d \<noteq> pid) then (False, self)
      else (True, self\<lparr>dr_current := None\<rparr>))"

definition runtime_generation :: "u32 \<Rightarrow> u64 \<Rightarrow> u64" where
  "runtime_generation pid n = push_bit 32 (ucast pid) OR (n AND 0xFFFFFFFF)"

text \<open>\<open>build\<close> is what building a tokio runtime gives.\<close>

definition driver_for ::
  "io_error \<Rightarrow> u32 \<Rightarrow> io_error + 'r \<Rightarrow> 'r DriverRegistry \<Rightarrow> submission_statics \<Rightarrow>
   (io_error + 'r DriverInner) \<times> 'r DriverRegistry \<times> submission_statics" where
  "driver_for poisoned pid build self st =
     (if dr_poisoned self then (Inl poisoned, self, st)
      else
        case (case dr_current self of Some d \<Rightarrow> if di_process_id d = pid then Some d else None | None \<Rightarrow> None) of
          Some d \<Rightarrow> (Inr d, self, st)
        | None \<Rightarrow>
            let self = self\<lparr>dr_current := None\<rparr>; st = ensure_submission_process pid st in
            (case build of
               Inl e \<Rightarrow> (Inl e, self, st)
             | Inr runtime \<Rightarrow>
                 let gen = runtime_generation pid (dr_next_generation self + 1);
                     d = \<lparr>di_process_id = pid, di_generation = gen, di_runtime = runtime\<rparr> in
                 (Inr d, self\<lparr>dr_next_generation := dr_next_generation self + 1, dr_current := Some d\<rparr>, st)))"

section \<open>A submission at work\<close>

text \<open>
  The origin thread's operations, each with the process it runs in, and the end of the task. The
  state has what was returned as an output, and whether \<open>wait\<close> has consumed the submission.
\<close>

datatype 'v submission_event =
    WaitReady u32 | TryWait u32 | Wait u32 | Cancel u32 | TaskEnds "'v option"

record 'v submission_run =
  sr_self :: "'v BlockingSubmission"
  sr_channel :: "'v task_channel"
  sr_consumed :: bool
  sr_outputs :: "'v list"

definition submission_step :: "'v submission_run \<Rightarrow> 'v submission_event \<Rightarrow> 'v submission_run" where
  "submission_step s ev =
     (case ev of
        TaskEnds output \<Rightarrow> s\<lparr>sr_channel := task_ends output (sr_channel s)\<rparr>
      | _ \<Rightarrow>
        if sr_consumed s then s
        else
          (case ev of
             WaitReady pid \<Rightarrow>
               let (_, self, ch) = wait_ready_timeout pid (sr_self s) (sr_channel s) in s\<lparr>sr_self := self, sr_channel := ch\<rparr>
           | TryWait pid \<Rightarrow>
               let (r, self, ch) = try_wait_for_process pid (sr_self s) (sr_channel s) in
               s\<lparr>sr_self := self, sr_channel := ch,
                 sr_outputs := sr_outputs s @ (case r of Inr (Some v) \<Rightarrow> [v] | _ \<Rightarrow> [])\<rparr>
           | Cancel pid \<Rightarrow>
               let (_, self, ch) = cancel_for_process pid (sr_self s) (sr_channel s) in s\<lparr>sr_self := self, sr_channel := ch\<rparr>
           | Wait pid \<Rightarrow>
               (case wait_for_process pid (sr_self s) (sr_channel s) of
                  None \<Rightarrow> s
                | Some (r, self, ch) \<Rightarrow>
                    let (_, self, ch) = finish_drop_for_process pid self ch in
                    s\<lparr>sr_self := self, sr_channel := ch, sr_consumed := True,
                      sr_outputs := sr_outputs s @ (case r of Inr v \<Rightarrow> [v] | Inl _ \<Rightarrow> [])\<rparr>)
           | _ \<Rightarrow> s))"

definition submission_finished :: "'v submission_run \<Rightarrow> bool" where
  "submission_finished s \<longleftrightarrow> sr_consumed s \<or> \<not> bs_receiver (sr_self s) \<and> bs_ready (sr_self s) = None"

lemmas submission_defs = validate_process_def wait_ready_timeout_def try_wait_for_process_def wait_for_process_def
  cancel_for_process_def finish_drop_for_process_def recv_def task_ends_def

lemma submission_step_finished:
  "submission_finished s \<Longrightarrow> submission_finished (submission_step s ev) \<and> sr_outputs (submission_step s ev) = sr_outputs s"
  by (cases ev; cases "sr_consumed s") (simp_all add: submission_step_def submission_finished_def submission_defs)

lemma submission_step_effect:
  "\<not> submission_finished s \<Longrightarrow>
   length (sr_outputs (submission_step s ev)) \<le> length (sr_outputs s) + (if submission_finished (submission_step s ev) then 1 else 0)"
  by (cases ev; cases "sr_consumed s"; cases "bs_ready (sr_self s)"; cases "bs_receiver (sr_self s)"; cases "tc_queue (sr_channel s)"; cases "tc_sender (sr_channel s)")
    (simp_all add: submission_step_def submission_finished_def submission_defs)

interpretation submission: once submission_step submission_finished "\<lambda>s. length (sr_outputs s)"
proof
  show "submission_finished s \<Longrightarrow> submission_finished (submission_step s ev) \<and>
      length (sr_outputs (submission_step s ev)) = length (sr_outputs s)" for s :: "'v submission_run" and ev
    using submission_step_finished by metis
qed (rule submission_step_effect)

text \<open>What the task has sent, and where it is: returned, ready, or in the channel.\<close>

fun sent :: "'v submission_event list \<Rightarrow> 'v list" where
  "sent [] = []"
| "sent (TaskEnds output # evs) = (case output of Some v \<Rightarrow> [v] | None \<Rightarrow> [])"
| "sent (_ # evs) = sent evs"

definition task_ended :: "'v submission_event list \<Rightarrow> bool" where
  "task_ended evs \<longleftrightarrow> (\<exists>output. TaskEnds output \<in> set evs)"

lemma sent_snoc: "sent (evs @ [ev]) = (if task_ended evs then sent evs else sent [ev])"
  by (induction evs rule: sent.induct) (auto simp: task_ended_def)

lemma sent_unended: "\<not> task_ended evs \<Longrightarrow> sent evs = []"
  by (induction evs rule: sent.induct) (auto simp: task_ended_def)

definition pipeline :: "'v submission_run \<Rightarrow> 'v list" where
  "pipeline s = sr_outputs s @ (case bs_ready (sr_self s) of Some v \<Rightarrow> [v] | None \<Rightarrow> []) @ tc_queue (sr_channel s)"

lemma submission_step_pipeline:
  "pipeline (submission_step s ev) =
     pipeline s @ (case ev of TaskEnds (Some v) \<Rightarrow> if tc_sender (sr_channel s) then [v] else [] | _ \<Rightarrow> [])"
  "tc_sender (sr_channel (submission_step s ev)) = (tc_sender (sr_channel s) \<and> (\<forall>output. ev \<noteq> TaskEnds output))"
  by (cases ev; cases "sr_consumed s"; cases "bs_ready (sr_self s)"; cases "bs_receiver (sr_self s)"; cases "tc_queue (sr_channel s)"; cases "tc_sender (sr_channel s)";
      simp add: submission_step_def pipeline_def submission_defs split: option.split)+

lemma submission_step_process: "bs_process_id (sr_self (submission_step s ev)) = bs_process_id (sr_self s)"
  by (cases ev; cases "sr_consumed s"; cases "bs_ready (sr_self s)"; cases "bs_receiver (sr_self s)"; cases "tc_queue (sr_channel s)")
    (simp_all add: submission_step_def submission_defs)

lemma submission_run_process: "bs_process_id (sr_self (foldl submission_step s evs)) = bs_process_id (sr_self s)"
  by (induction evs arbitrary: s) (simp_all add: submission_step_process)

definition submission_start :: "'v BlockingSubmission \<Rightarrow> 'v task_channel \<Rightarrow> 'v submission_run" where
  "submission_start self ch = \<lparr>sr_self = self, sr_channel = ch, sr_consumed = False, sr_outputs = []\<rparr>"

lemma submission_run_pipeline:
  assumes "submit_for_process pid active current st = (Inr (self, ch), st')"
  shows "pipeline (foldl submission_step (submission_start self ch) evs) = sent evs"
    and "tc_sender (sr_channel (foldl submission_step (submission_start self ch) evs)) \<longleftrightarrow> \<not> task_ended evs"
proof (induction evs rule: rev_induct)
  case Nil
  have "pipeline (submission_start self ch) = []" "tc_sender ch"
    using assms by (auto simp: submit_for_process_def pipeline_def submission_start_def Let_def split: if_splits)
  then show "pipeline (foldl submission_step (submission_start self ch) []) = sent []"
    "tc_sender (sr_channel (foldl submission_step (submission_start self ch) [])) \<longleftrightarrow> \<not> task_ended []"
    by (simp_all add: submission_start_def task_ended_def)
next
  case (snoc ev evs)
  { case 1
    show ?case using snoc sent_unended [of evs]
      by (cases ev) (auto simp: submission_step_pipeline sent_snoc split: option.splits) }
  { case 2
    show ?case using snoc by (auto simp: submission_step_pipeline task_ended_def) }
qed

text \<open>An operation in another process than the submission's.\<close>

definition foreign_event :: "u32 \<Rightarrow> 'v submission_event \<Rightarrow> bool" where
  "foreign_event pid ev = (case ev of WaitReady p \<Rightarrow> p \<noteq> pid | TryWait p \<Rightarrow> p \<noteq> pid | Wait p \<Rightarrow> p \<noteq> pid | Cancel p \<Rightarrow> p \<noteq> pid | TaskEnds _ \<Rightarrow> True)"

lemma foreign_step:
  assumes "foreign_event (bs_process_id (sr_self s)) ev"
  shows "sr_outputs (submission_step s ev) = sr_outputs s \<and>
    tc_aborted (sr_channel (submission_step s ev)) = tc_aborted (sr_channel s) \<and>
    bs_ready (sr_self (submission_step s ev)) = bs_ready (sr_self s) \<and>
    (\<not> task_ended [ev] \<longrightarrow> tc_queue (sr_channel (submission_step s ev)) = tc_queue (sr_channel s))"
  using assms
  by (cases ev; cases "sr_consumed s")
    (auto simp: submission_step_def foreign_event_def submission_defs task_ended_def)

section \<open>Properties: submissions\<close>


text \<open>The output is made ready, the child asks in vain, and the parent takes it once.\<close>

definition sample_submission :: "nat BlockingSubmission \<times> nat task_channel" where
  "sample_submission = (case submit_for_process 7 None 7 \<lparr>NEXT_SUBMISSION_ID = 1, OUTSTANDING_SUBMISSIONS = 0, SUBMISSION_PROCESS_ID = 7\<rparr>
     of (Inr x, _) \<Rightarrow> x)"


section \<open>The runtimes of a process\<close>

text \<open>
  A runtime is handed out to its own process alone, the same until it is cleared; a new one has the
  process in the upper half of its generation and the count in the lower.
\<close>

lemma driver_for_own_process:
  assumes "driver_for poisoned pid build reg st = (Inr d, reg', st')"
    and "\<forall>d. dr_current reg = Some d \<longrightarrow> di_generation d = runtime_generation (di_process_id d) (dr_next_generation reg)"
  shows "di_process_id d = pid \<and> dr_current reg' = Some d \<and> di_generation d = runtime_generation pid (dr_next_generation reg') \<and>
    driver_for poisoned pid build' reg' st' = (Inr d, reg', st')"
proof (cases "dr_current reg")
  case None
  then show ?thesis using assms by (auto simp: driver_for_def Let_def split: if_splits sum.splits)
next
  case (Some c)
  then show ?thesis using assms
    by (cases "di_process_id c = pid") (auto simp: driver_for_def Let_def split: if_splits sum.splits)
qed

lemma runtime_generation_inj:
  assumes "runtime_generation p m = runtime_generation q n"
  shows "p = q \<and> m AND 0xFFFFFFFF = n AND 0xFFFFFFFF"
proof -
  have "(ucast p :: u64) = ucast q"
    using identity_parts(1) [of p m] identity_parts(1) [of q n] assms unfolding runtime_generation_def by metis
  moreover have "(ucast (ucast w :: u64) :: u32) = w" for w :: u32
    by (rule ucast_up_ucast_id) (simp add: is_up)
  ultimately have "p = q" by metis
  moreover have "m AND 0xFFFFFFFF = n AND 0xFFFFFFFF"
    using identity_parts(2) [of p m] identity_parts(2) [of q n] assms unfolding runtime_generation_def by metis
  ultimately show ?thesis by simp
qed

end
