(* ===== verification/Blocking.thy ===== *)
theory Blocking
  imports Exchange Submission
begin

text \<open>
  The response body of \<open>crates/requests/src/blocking.rs\<close>, which is read through the runtime, and
  \<open>Response::bytes\<close>. The asynchronous body underneath is a record of its operations (\<open>async_body\<close>), of
  which \<open>transport_body\<close> is the one of \<open>response.rs\<close>; what happens to connections when it is dropped
  is in its world.
\<close>

section \<open>Requests\<close>

text \<open>
  \<open>submit_and_wait\<close>: the future runs to its output, or its task stops (a panic, or the end of the
  runtime); it does not run in another process than the runtime's.
\<close>

definition submit_and_wait ::
  "u32 \<Rightarrow> u32 \<Rightarrow> u64 option \<Rightarrow> (Error + 'v) option \<Rightarrow> submission_statics \<Rightarrow> ((Error + 'v) option \<times> submission_statics)" where
  "submit_and_wait driver_pid current active outcome st =
     (case submit_for_process driver_pid active current st of
        (Inl e, st) \<Rightarrow> (Some (Inl (blocking (driver_error_display e))), st)
      | (Inr (submission, ch), st) \<Rightarrow>
          (case wait_for_process current submission (task_ends outcome ch) of
             None \<Rightarrow> (None, st)
           | Some (Inl e, _) \<Rightarrow> (Some (Inl (blocking (task_error_display e))), drop_outstanding st)
           | Some (Inr r, _) \<Rightarrow> (Some r, drop_outstanding st)))"

text \<open>\<open>ClientBuilder::build\<close>, \<open>Client::execute\<close> and \<open>RequestBuilder::send\<close> of the blocking client.\<close>

definition blocking_build ::
  "io_error \<Rightarrow> u32 \<Rightarrow> io_error + 'r \<Rightarrow> ClientBuilder \<Rightarrow> 'r DriverRegistry \<Rightarrow> submission_statics \<Rightarrow>
   (Error + 'c Transport \<times> 'r DriverInner) \<times> 'r DriverRegistry \<times> submission_statics" where
  "blocking_build poisoned pid build builder reg st =
     (case builder_build builder of
        Inl e \<Rightarrow> (Inl e, reg, st)
      | Inr transport \<Rightarrow>
          (case driver_for poisoned pid build reg st of
             (Inl e, reg, st) \<Rightarrow> (Inl (blocking (io_display e)), reg, st)
           | (Inr d, reg, st) \<Rightarrow> (Inr (transport, d), reg, st)))"

definition blocking_execute where
  "blocking_execute driver_pid current active env transport request w st =
     (if current \<noteq> driver_pid then (fst (submit_and_wait driver_pid current active None st), w, st)
      else
        case execute_request env transport request w of
          None \<Rightarrow> (fst (submit_and_wait driver_pid current active None st), w, snd (submit_and_wait driver_pid current active None st))
        | Some (None, w) \<Rightarrow> (None, w, snd (submit_for_process driver_pid active current st :: (_ + unit BlockingSubmission \<times> _) \<times> _))
        | Some (Some r, w) \<Rightarrow>
            (fst (submit_and_wait driver_pid current active (Some r) st), w,
             snd (submit_and_wait driver_pid current active (Some r) st)))"

lemma submit_and_wait_outcome:
  "fst (submit_and_wait driver_pid current active outcome st) =
     Some (if current \<noteq> driver_pid then Inl (blocking (driver_error_display (DriverStaleProcess driver_pid current)))
       else case outcome of Some r \<Rightarrow> r | None \<Rightarrow> Inl (blocking (task_error_display WorkerStopped)))"
  by (cases outcome)
    (simp_all add: submit_and_wait_def submit_for_process_def wait_for_process_def validate_process_def task_ends_def recv_def
      stopped_error_def Let_def)

section \<open>The response body\<close>

text \<open>What the blocking body calls of the asynchronous one: awaiting the next frame, and the rest.\<close>

record ('b, 'w) async_body =
  aw_next :: "'b \<Rightarrow> 'w \<Rightarrow> ((Error + bytes) option \<times> 'b \<times> 'w) option"
  aw_finish_declared_length :: "bool \<Rightarrow> 'b \<Rightarrow> 'w \<Rightarrow> ('b \<times> 'w) option"
  aw_is_terminal :: "'b \<Rightarrow> bool"
  aw_drop :: "'b \<Rightarrow> 'w \<Rightarrow> 'w option"
  aw_close :: "'b \<Rightarrow> 'w \<Rightarrow> ((Error + unit) \<times> 'w) option"

record 'b BlockingBody =
  bb_inner :: "'b option"
  bb_remainder :: "bytes option"
  bb_pending_error :: "Error option"
  bb_terminal :: bool

text \<open>\<open>into_body\<close> and \<open>into_raw_body\<close> of the blocking response.\<close>

definition into_blocking_body :: "'b \<Rightarrow> 'b BlockingBody" where
  "into_blocking_body body = \<lparr>bb_inner = Some body, bb_remainder = None, bb_pending_error = None, bb_terminal = False\<rparr>"

definition blocking_is_terminal :: "'b BlockingBody \<Rightarrow> bool" where
  "blocking_is_terminal self \<longleftrightarrow> bb_terminal self \<and> bb_remainder self = None \<and> bb_pending_error self = None"

definition copy_frame :: "nat \<Rightarrow> bytes \<Rightarrow> bytes \<times> bytes option" where
  "copy_frame n frame = (take n frame, if n < length frame then Some (drop n frame) else None)"

definition finish_declared_length_if_buffer_empty ::
  "('b, 'w) async_body \<Rightarrow> bool \<Rightarrow> 'b BlockingBody \<Rightarrow> 'w \<Rightarrow> ('b BlockingBody \<times> 'w) option" where
  "finish_declared_length_if_buffer_empty ops allow self w =
     (if bb_remainder self \<noteq> None then Some (self, w)
      else
        case bb_inner self of
          None \<Rightarrow> Some (self, w)
        | Some body \<Rightarrow>
            (case aw_finish_declared_length ops allow body w of
               None \<Rightarrow> None
             | Some (body, w) \<Rightarrow>
                 if aw_is_terminal ops body
                 then map_option (Pair (self\<lparr>bb_terminal := True, bb_inner := None\<rparr>)) (aw_drop ops body w)
                 else Some (self\<lparr>bb_inner := Some body\<rparr>, w)))"

text \<open>The loop that passes over empty frames.\<close>

partial_function (option) next_frame ::
  "('b, 'w) async_body \<Rightarrow> 'b \<Rightarrow> 'w \<Rightarrow> ((Error + bytes) option \<times> 'b \<times> 'w) option" where
  "next_frame ops body w =
     (case aw_next ops body w of
        None \<Rightarrow> None
      | Some (Some (Inr []), body, w) \<Rightarrow> next_frame ops body w
      | Some r \<Rightarrow> Some r)"

text \<open>
  \<open>read\<close>: the bytes put into a buffer of a size. \<open>failed\<close> is the error of a submission that fails,
  whose future is dropped with the body.
\<close>

definition blocking_read ::
  "('b, 'w) async_body \<Rightarrow> Error option \<Rightarrow> nat \<Rightarrow> 'b BlockingBody \<Rightarrow> 'w \<Rightarrow> ((Error + bytes) \<times> 'b BlockingBody \<times> 'w) option" where
  "blocking_read ops failed n self w =
     (if n = 0 then Some (Inr [], self, w)
      else
        case bb_remainder self of
          Some remainder \<Rightarrow>
            let (out, rest) = copy_frame n remainder in
            map_option (Pair (Inr out)) (finish_declared_length_if_buffer_empty ops False (self\<lparr>bb_remainder := rest\<rparr>) w)
        | None \<Rightarrow>
            (case bb_pending_error self of
               Some error \<Rightarrow> Some (Inl error, self\<lparr>bb_pending_error := None\<rparr>, w)
             | None \<Rightarrow>
                 if bb_terminal self then Some (Inr [], self, w)
                 else
                   (case bb_inner self of
                      None \<Rightarrow> Some (Inr [], self\<lparr>bb_terminal := True\<rparr>, w)
                    | Some body \<Rightarrow>
                        let self = self\<lparr>bb_inner := None\<rparr> in
                        (case failed of
                           Some error \<Rightarrow> map_option (\<lambda>w. (Inl error, self\<lparr>bb_terminal := True\<rparr>, w)) (aw_drop ops body w)
                         | None \<Rightarrow>
                             (case next_frame ops body w of
                                None \<Rightarrow> None
                              | Some (Some (Inr frame), body, w) \<Rightarrow>
                                  let (out, rest) = copy_frame n frame; self = self\<lparr>bb_remainder := rest\<rparr> in
                                  Option.bind (if rest = None then aw_finish_declared_length ops False body w else Some (body, w))
                                    (\<lambda>(body, w).
                                       if aw_is_terminal ops body
                                       then map_option (\<lambda>w. (Inr out, self\<lparr>bb_terminal := True\<rparr>, w)) (aw_drop ops body w)
                                       else Some (Inr out, self\<lparr>bb_inner := Some body\<rparr>, w))
                              | Some (frame, body, w) \<Rightarrow>
                                  Option.bind
                                    (if aw_is_terminal ops body then map_option (Pair self) (aw_drop ops body w)
                                     else Some (self\<lparr>bb_inner := Some body\<rparr>, w))
                                    (\<lambda>(self, w). Some (case frame of Some (Inl error) \<Rightarrow> Inl error | _ \<Rightarrow> Inr [],
                                       self\<lparr>bb_terminal := True\<rparr>, w)))))))"

text \<open>\<open>read_async_inner\<close> consumes the body: an error drops it and what it holds.\<close>

definition blocking_drop :: "('b, 'w) async_body \<Rightarrow> 'b BlockingBody \<Rightarrow> 'w \<Rightarrow> 'w option" where
  "blocking_drop ops self w = (case bb_inner self of None \<Rightarrow> Some w | Some body \<Rightarrow> aw_drop ops body w)"

partial_function (option) read_loop ::
  "('b, 'w) async_body \<Rightarrow> nat option \<Rightarrow> bool \<Rightarrow> bool \<Rightarrow> 'b BlockingBody \<Rightarrow> bytes \<Rightarrow> 'b \<Rightarrow> 'w \<Rightarrow>
   ((Error + 'b BlockingBody \<times> bytes) \<times> 'w) option" where
  "read_loop ops amount allow fill self output body w =
     (case next_frame ops body w of
        None \<Rightarrow> None
      | Some (Some (Inr frame), body, w) \<Rightarrow>
          let n = (case amount of Some amount \<Rightarrow> min (amount - length output) (length frame) | None \<Rightarrow> length frame);
              output = output @ take n frame;
              self = (if n < length frame then self\<lparr>bb_remainder := Some (drop n frame)\<rparr> else self) in
          (case (if bb_remainder self = None then aw_finish_declared_length ops allow body w else Some (body, w)) of
             None \<Rightarrow> None
           | Some (body, w) \<Rightarrow>
               if aw_is_terminal ops body
               then map_option (Pair (Inr (self\<lparr>bb_terminal := True\<rparr>, output))) (aw_drop ops body w)
               else if amount \<noteq> None \<and> (Some (length output) = amount \<or> \<not> fill)
               then Some (Inr (self\<lparr>bb_inner := Some body\<rparr>, output), w)
               else read_loop ops amount allow fill self output body w)
      | Some (Some (Inl error), body, w) \<Rightarrow>
          map_option (Pair (if output = [] then Inl error
              else Inr (self\<lparr>bb_terminal := True, bb_pending_error := Some error\<rparr>, output))) (aw_drop ops body w)
      | Some (None, body, w) \<Rightarrow> map_option (Pair (Inr (self\<lparr>bb_terminal := True\<rparr>, output))) (aw_drop ops body w))"

text \<open>The start: the remainder first. \<open>Inl\<close> returns at once.\<close>

definition take_remainder ::
  "('b, 'w) async_body \<Rightarrow> nat option \<Rightarrow> bool \<Rightarrow> 'b BlockingBody \<Rightarrow> 'w \<Rightarrow>
   (('b BlockingBody \<times> bytes \<times> 'w) + ('b BlockingBody \<times> bytes \<times> 'w)) option" where
  "take_remainder ops amount allow self w =
     (case bb_remainder self of
        None \<Rightarrow> Some (Inr (self, [], w))
      | Some remainder \<Rightarrow>
          let n = (case amount of Some amount \<Rightarrow> min amount (length remainder) | None \<Rightarrow> length remainder);
              self = self\<lparr>bb_remainder := if n < length remainder then Some (drop n remainder) else None\<rparr> in
          map_option (\<lambda>(self, w). (if Some n = amount then Inl else Inr) (self, take n remainder, w))
            (finish_declared_length_if_buffer_empty ops allow self w))"

definition read_async_inner ::
  "('b, 'w) async_body \<Rightarrow> nat option \<Rightarrow> bool \<Rightarrow> bool \<Rightarrow> 'b BlockingBody \<Rightarrow> 'w \<Rightarrow>
   ((Error + 'b BlockingBody \<times> bytes) \<times> 'w) option" where
  "read_async_inner ops amount allow fill self w =
     (if amount = Some 0 then Some (Inr (self, []), w)
      else
        case take_remainder ops amount allow self w of
          None \<Rightarrow> None
        | Some (Inl (self, output, w)) \<Rightarrow> Some (Inr (self, output), w)
        | Some (Inr (self, output, w)) \<Rightarrow>
            (case bb_pending_error self of
               Some error \<Rightarrow> map_option (Pair (Inl error)) (blocking_drop ops self w)
             | None \<Rightarrow>
                 if bb_terminal self then Some (Inr (self, output), w)
                 else
                   (case bb_inner self of
                      None \<Rightarrow> Some (Inr (self\<lparr>bb_terminal := True\<rparr>, output), w)
                    | Some body \<Rightarrow> read_loop ops amount allow fill (self\<lparr>bb_inner := None\<rparr>) output body w)))"

definition read_async where
  "read_async ops amount allow = read_async_inner ops amount allow True"

definition read_frame_async where
  "read_frame_async ops maximum allow = read_async_inner ops (Some maximum) allow False"

definition finish_encoded_declared_length where
  "finish_encoded_declared_length ops = finish_declared_length_if_buffer_empty ops True"

text \<open>\<open>close\<close> and \<open>close_async\<close>; a submission may fail.\<close>

definition blocking_close ::
  "('b, 'w) async_body \<Rightarrow> Error option \<Rightarrow> 'b BlockingBody \<Rightarrow> 'w \<Rightarrow> ((Error + unit) \<times> 'w) option" where
  "blocking_close ops failed self w =
     (case bb_inner self of
        None \<Rightarrow> Some (Inr (), w)
      | Some body \<Rightarrow>
          (case failed of
             Some error \<Rightarrow> map_option (Pair (Inl error)) (aw_drop ops body w)
           | None \<Rightarrow> aw_close ops body w))"

text \<open>\<open>Response::bytes\<close> of \<open>response.rs\<close>: every frame to the end; the body is dropped.\<close>

partial_function (option) collect_bytes ::
  "('b, 'w) async_body \<Rightarrow> bytes \<Rightarrow> 'b \<Rightarrow> 'w \<Rightarrow> ((Error + bytes) \<times> 'w) option" where
  "collect_bytes ops collected body w =
     (case aw_next ops body w of
        None \<Rightarrow> None
      | Some (Some (Inr chunk), body, w) \<Rightarrow> collect_bytes ops (collected @ chunk) body w
      | Some (Some (Inl error), body, w) \<Rightarrow> map_option (Pair (Inl error)) (aw_drop ops body w)
      | Some (None, body, w) \<Rightarrow> map_option (Pair (Inr collected)) (aw_drop ops body w))"

section \<open>Reading a body\<close>

text \<open>
  A body whose world keeps a log of what awaiting it returned, frames, errors and ends, in order. Nothing
  else of it changes: \<open>logged\<close> adds such a log to any body.
\<close>

definition logged :: "('b, 'w) async_body \<Rightarrow> ('b, 'w \<times> (Error + bytes) option list) async_body" where
  "logged ops =
     \<lparr>aw_next = (\<lambda>b (w, log). map_option (\<lambda>(r, b, w). (r, b, w, log @ [r])) (aw_next ops b w)),
      aw_finish_declared_length = (\<lambda>allow b (w, log). map_option (\<lambda>(b, w). (b, w, log)) (aw_finish_declared_length ops allow b w)),
      aw_is_terminal = aw_is_terminal ops,
      aw_drop = (\<lambda>b (w, log). map_option (\<lambda>w. (w, log)) (aw_drop ops b w)),
      aw_close = (\<lambda>b (w, log). map_option (\<lambda>(r, w). (r, w, log)) (aw_close ops b w))\<rparr>"

definition logs :: "('b, 'w) async_body \<Rightarrow> ('w \<Rightarrow> (Error + bytes) option list) \<Rightarrow> bool" where
  "logs ops L \<longleftrightarrow>
     (\<forall>b w r c w'. aw_next ops b w = Some (r, c, w') \<longrightarrow> L w' = L w @ [r]) \<and>
     (\<forall>allow b w c w'. aw_finish_declared_length ops allow b w = Some (c, w') \<longrightarrow> L w' = L w) \<and>
     (\<forall>b w w'. aw_drop ops b w = Some w' \<longrightarrow> L w' = L w)"

lemma logsD:
  assumes "logs ops L"
  shows "aw_next ops b w = Some (r, c, w') \<Longrightarrow> L w' = L w @ [r]"
    "aw_finish_declared_length ops allow b w = Some (c, w') \<Longrightarrow> L w' = L w" "aw_drop ops b w = Some w' \<Longrightarrow> L w' = L w"
  using assms unfolding logs_def by blast+

lemma logs_logged: "logs (logged ops) snd"
  by (auto simp: logs_def logged_def)

definition payload :: "(Error + bytes) option list \<Rightarrow> bytes" where
  "payload fs = concat (map (\<lambda>r. case r of Some (Inr f) \<Rightarrow> f | _ \<Rightarrow> []) fs)"

definition failures :: "(Error + bytes) option list \<Rightarrow> Error list" where
  "failures fs = concat (map (\<lambda>r. case r of Some (Inl e) \<Rightarrow> [e] | _ \<Rightarrow> []) fs)"

lemma payload_simps [simp]:
  "payload [] = []" "payload (fs @ gs) = payload fs @ payload gs" "payload [Some (Inr f)] = f"
  "payload [Some (Inl e)] = []" "payload [None] = []"
  "failures [] = []" "failures (fs @ gs) = failures fs @ failures gs" "failures [Some (Inr f)] = []"
  "failures [Some (Inl e)] = [e]" "failures [None] = []"
  by (simp_all add: payload_def failures_def)

text \<open>
  A body that answers: in the states that \<open>ok\<close> describes no operation panics or waits for ever, and
  a measure goes down with each frame.
\<close>

definition answering :: "('b, 'w) async_body \<Rightarrow> ('b \<Rightarrow> 'w \<Rightarrow> bool) \<Rightarrow> ('b \<Rightarrow> nat) \<Rightarrow> bool" where
  "answering ops ok m \<longleftrightarrow>
     (\<forall>b w. ok b w \<longrightarrow>
        (\<exists>r c w'. aw_next ops b w = Some (r, c, w') \<and> ok c w' \<and> (\<forall>f. r = Some (Inr f) \<longrightarrow> m c < m b)) \<and>
        (\<forall>allow. \<exists>c w'. aw_finish_declared_length ops allow b w = Some (c, w') \<and> ok c w' \<and> m c \<le> m b) \<and>
        (\<exists>w'. aw_drop ops b w = Some w'))"

lemma answeringD:
  assumes "answering ops ok m" and "ok b w"
  shows "\<exists>r c w'. aw_next ops b w = Some (r, c, w') \<and> ok c w' \<and> (\<forall>f. r = Some (Inr f) \<longrightarrow> m c < m b)"
    "\<exists>c w'. aw_finish_declared_length ops allow b w = Some (c, w') \<and> ok c w' \<and> m c \<le> m b"
    "\<exists>w'. aw_drop ops b w = Some w'"
  using assms unfolding answering_def by blast+

lemma next_frame_pulls:
  assumes "answering ops ok m" and "logs ops L" and "ok b w"
  shows "\<exists>r c w' gs. next_frame ops b w = Some (r, c, w') \<and> ok c w' \<and> L w' = L w @ gs @ [r] \<and>
    payload gs = [] \<and> failures gs = [] \<and> r \<noteq> Some (Inr []) \<and> (\<forall>f. r = Some (Inr f) \<longrightarrow> m c < m b)"
  using assms(3)
proof (induction "m b" arbitrary: b w rule: less_induct)
  case less
  obtain r c w' where n: "aw_next ops b w = Some (r, c, w')" "ok c w'" "\<forall>f. r = Some (Inr f) \<longrightarrow> m c < m b"
    using answeringD(1) [OF assms(1) less.prems] by blast
  have one: "L w' = L w @ [r]" using logsD(1) [OF assms(2) n(1)] .
  show ?case
  proof (cases "r = Some (Inr [])")
    case True
    then obtain r' d w2 gs where d: "next_frame ops c w' = Some (r', d, w2)" "ok d w2" "L w2 = L w' @ gs @ [r']" "payload gs = []"
      "failures gs = []" "r' \<noteq> Some (Inr [])" "\<forall>f. r' = Some (Inr f) \<longrightarrow> m d < m c"
      using less.hyps [OF _ n(2)] n(3) by blast
    have "L w2 = L w @ ([r] @ gs) @ [r']" using d(3) one by simp
    moreover have "next_frame ops b w = Some (r', d, w2)" using n(1) d(1) True by (subst next_frame.simps) simp
    moreover have "\<forall>f. r' = Some (Inr f) \<longrightarrow> m d < m b" using d(7) n(3) True by auto
    moreover have "payload ([r] @ gs) = []" "failures ([r] @ gs) = []" using d(4,5) True by (simp_all only: payload_simps append_Nil)
    ultimately show ?thesis using d(2,6) by blast
  next
    case False
    then have "next_frame ops b w = Some (r, c, w')"
      using n(1) by (subst next_frame.simps) (auto split: option.splits sum.splits list.splits)
    then show ?thesis using one n(2,3) False by (intro exI [of _ r] exI [of _ c] exI [of _ w'] exI [of _ "[]"]) simp
  qed
qed

text \<open>The bytes and the error a blocking body still holds, and what is known of it.\<close>

abbreviation remaining_bytes :: "'b BlockingBody \<Rightarrow> bytes" where
  "remaining_bytes self \<equiv> (case bb_remainder self of Some r \<Rightarrow> r | None \<Rightarrow> [])"

abbreviation pending_errors :: "'b BlockingBody \<Rightarrow> Error list" where
  "pending_errors self \<equiv> (case bb_pending_error self of Some e \<Rightarrow> [e] | None \<Rightarrow> [])"

definition reading ::
  "('b \<Rightarrow> 'w \<Rightarrow> bool) \<Rightarrow> ('w \<Rightarrow> (Error + bytes) option list) \<Rightarrow> (Error + bytes) option list \<Rightarrow> 'b BlockingBody \<Rightarrow> 'w \<Rightarrow> bool" where
  "reading ok L fs self w \<longleftrightarrow>
     L w = fs \<and> (\<forall>c. bb_inner self = Some c \<longrightarrow> ok c w) \<and>
     (bb_remainder self = None \<or> bb_pending_error self = None) \<and> bb_remainder self \<noteq> Some [] \<and>
     (failures fs \<noteq> [] \<longrightarrow> bb_terminal self) \<and> length (failures fs) \<le> 1"

lemma finish_if_empty_reading:
  assumes "answering ops ok m" and "logs ops L" and "reading ok L fs self w"
  shows "\<exists>self' w'. finish_declared_length_if_buffer_empty ops allow self w = Some (self', w') \<and> reading ok L fs self' w' \<and>
    bb_remainder self' = bb_remainder self \<and> bb_pending_error self' = bb_pending_error self \<and>
    (bb_terminal self \<longrightarrow> bb_terminal self')"
proof (cases "bb_remainder self \<noteq> None \<or> bb_inner self = None")
  case True
  then show ?thesis using assms(3) by (auto simp: finish_declared_length_if_buffer_empty_def)
next
  case False
  then obtain c where c: "bb_inner self = Some c" "ok c w" "L w = fs" using assms(3) by (auto simp: reading_def)
  obtain d w' where d: "aw_finish_declared_length ops allow c w = Some (d, w')" "ok d w'"
    using answeringD(2) [OF assms(1) c(2)] by blast
  obtain w2 where w2: "aw_drop ops d w' = Some w2" using answeringD(3) [OF assms(1) d(2)] by blast
  have "L w' = fs" "L w2 = fs" using logsD(2) [OF assms(2) d(1)] logsD(3) [OF assms(2) w2] c(3) by simp_all
  then show ?thesis using False assms(3) c d w2
    by (auto simp: finish_declared_length_if_buffer_empty_def reading_def)
qed

definition got_bytes :: "Error + bytes \<Rightarrow> bytes" where
  "got_bytes r = (case r of Inr bs \<Rightarrow> bs | Inl _ \<Rightarrow> [])"

definition got_errors :: "Error + bytes \<Rightarrow> Error list" where
  "got_errors r = (case r of Inl e \<Rightarrow> [e] | Inr _ \<Rightarrow> [])"

lemma got_simps [simp]:
  "got_bytes (Inr bs) = bs" "got_bytes (Inl e) = []" "got_errors (Inl e) = [e]" "got_errors (Inr bs) = []"
  by (simp_all add: got_bytes_def got_errors_def)

text \<open>A read hands on what was held and what it pulled, in order.\<close>

definition hands_on ::
  "'b BlockingBody \<Rightarrow> (Error + bytes) option list \<Rightarrow> Error + bytes \<Rightarrow> 'b BlockingBody \<Rightarrow> bool" where
  "hands_on self gs r self' \<longleftrightarrow>
     remaining_bytes self @ payload gs = got_bytes r @ remaining_bytes self' \<and>
     pending_errors self @ failures gs = got_errors r @ pending_errors self'"

lemma copy_frame_split: "copy_frame n frame = (out, rest) \<Longrightarrow> out @ (case rest of Some r \<Rightarrow> r | None \<Rightarrow> []) = frame \<and> rest \<noteq> Some [] \<and> length out \<le> n"
  by (auto simp: copy_frame_def split: if_splits)

lemma blocking_read_frame:
  assumes "answering ops ok m" and "logs ops L" and "reading ok L fs self w" and "bb_inner self = Some c" and "n \<noteq> 0"
    and "bb_remainder self = None" and "bb_pending_error self = None" and "\<not> bb_terminal self"
  shows "\<exists>r self' w' gs. blocking_read ops None n self w = Some (r, self', w') \<and> reading ok L (fs @ gs) self' w' \<and>
    hands_on self gs r self' \<and> length (got_bytes r) \<le> n"
proof -
  have c: "ok c w" "L w = fs" and none: "failures fs = []" using assms(3,4,8) by (auto simp: reading_def)
  obtain f d w1 gs where f: "next_frame ops c w = Some (f, d, w1)" "ok d w1" "L w1 = L w @ gs @ [f]" "payload gs = []" "failures gs = []"
    using next_frame_pulls [OF assms(1,2) c(1)] by blast
  have d: "L w1 = fs @ gs @ [f]" using f(3) c(2) by simp
  obtain w2 where w2: "aw_drop ops d w1 = Some w2" using answeringD(3) [OF assms(1) f(2)] by blast
  have l2: "L w2 = fs @ gs @ [f]" using logsD(3) [OF assms(2) w2] d by simp
  note read = blocking_read_def [of ops None n self w] and facts = assms(4-8) f(1,2,4,5) d none
  show ?thesis
  proof (cases "\<exists>frame. f = Some (Inr frame)")
    case True
    then obtain frame out rest where frame: "f = Some (Inr frame)" and cp: "copy_frame n frame = (out, rest)" by fastforce
    obtain e w3 where e: "(if rest = None then aw_finish_declared_length ops False d w1 else Some (d, w1)) = Some (e, w3)" "ok e w3"
      "L w3 = fs @ gs @ [f]"
      using answeringD(2) [OF assms(1) f(2), of False] f(2) d logsD(2) [OF assms(2)] by (cases rest) fastforce+
    obtain w4 where w4: "aw_drop ops e w3 = Some w4" using answeringD(3) [OF assms(1) e(2)] by blast
    have l4: "L w4 = fs @ gs @ [f]" using logsD(3) [OF assms(2) w4] e(3) by simp
    then show ?thesis using facts e w4 l4 copy_frame_split [OF cp]
      by (intro exI [of _ "Inr out"] exI [of _ "if aw_is_terminal ops e then self\<lparr>bb_inner := None, bb_remainder := rest, bb_terminal := True\<rparr>
            else self\<lparr>bb_inner := Some e, bb_remainder := rest\<rparr>"] exI [of _ "if aw_is_terminal ops e then w4 else w3"] exI [of _ "gs @ [f]"])
        (auto simp: read frame cp reading_def hands_on_def split: option.splits)
  next
    case False
    then show ?thesis using facts w2 l2
      by (intro exI [of _ "case f of Some (Inl error) \<Rightarrow> Inl error | _ \<Rightarrow> Inr []"]
          exI [of _ "if aw_is_terminal ops d then self\<lparr>bb_inner := None, bb_terminal := True\<rparr>
            else self\<lparr>bb_inner := Some d, bb_terminal := True\<rparr>"] exI [of _ "if aw_is_terminal ops d then w2 else w1"] exI [of _ "gs @ [f]"])
        (auto simp: read reading_def hands_on_def split: option.splits sum.splits)
  qed
qed

lemma blocking_read_reading:
  assumes "answering ops ok m" and "logs ops L" and "reading ok L fs self w"
  shows "\<exists>r self' w' gs. blocking_read ops None n self w = Some (r, self', w') \<and> reading ok L (fs @ gs) self' w' \<and>
    hands_on self gs r self' \<and> length (got_bytes r) \<le> n"
proof -
  consider "n = 0" | rem where "n \<noteq> 0" "bb_remainder self = Some rem"
    | e where "n \<noteq> 0" "bb_remainder self = None" "bb_pending_error self = Some e"
    | "n \<noteq> 0" "bb_remainder self = None" "bb_pending_error self = None" "bb_terminal self \<or> bb_inner self = None"
    | c where "n \<noteq> 0" "bb_remainder self = None" "bb_pending_error self = None" "\<not> bb_terminal self" "bb_inner self = Some c"
    by fastforce
  then show ?thesis
  proof cases
    case 1
    then show ?thesis using assms(3) by (intro exI [of _ "Inr []"] exI [of _ self] exI [of _ w] exI [of _ "[]"])
        (simp add: blocking_read_def hands_on_def)
  next
    case 2
    obtain out rest where cp: "copy_frame n rem = (out, rest)" by fastforce
    have "reading ok L fs (self\<lparr>bb_remainder := rest\<rparr>) w"
      using assms(3) 2 copy_frame_split [OF cp] by (auto simp: reading_def)
    from finish_if_empty_reading [OF assms(1,2) this, of False]
    obtain self' w' where "finish_declared_length_if_buffer_empty ops False (self\<lparr>bb_remainder := rest\<rparr>) w = Some (self', w')"
      "reading ok L fs self' w'" "bb_remainder self' = rest" "bb_pending_error self' = bb_pending_error self" by auto
    then show ?thesis using 2 cp copy_frame_split [OF cp]
      by (intro exI [of _ "Inr out"] exI [of _ self'] exI [of _ w'] exI [of _ "[]"])
        (simp add: blocking_read_def hands_on_def)
  next
    case 3
    then show ?thesis using assms(3)
      by (intro exI [of _ "Inl e"] exI [of _ "self\<lparr>bb_pending_error := None\<rparr>"] exI [of _ w] exI [of _ "[]"])
        (auto simp: blocking_read_def hands_on_def reading_def)
  next
    case 4
    then show ?thesis using assms(3)
      by (intro exI [of _ "Inr []"] exI [of _ "if bb_terminal self then self else self\<lparr>bb_terminal := True\<rparr>"] exI [of _ w] exI [of _ "[]"])
        (auto simp: blocking_read_def hands_on_def reading_def)
  next
    case 5
    then show ?thesis using blocking_read_frame [OF assms] by blast
  qed
qed

text \<open>An asynchronous read that returns: the amount is not exceeded, and it is short only at the end.\<close>

definition filled_up :: "nat option \<Rightarrow> bool \<Rightarrow> bytes \<Rightarrow> bool \<Rightarrow> bool" where
  "filled_up amount fill out over \<longleftrightarrow>
     (case amount of Some n \<Rightarrow> length out \<le> n \<and> (fill \<and> length out < n \<longrightarrow> over) | None \<Rightarrow> over)"

definition loop_outcome ::
  "('b \<Rightarrow> 'w \<Rightarrow> bool) \<Rightarrow> ('w \<Rightarrow> (Error + bytes) option list) \<Rightarrow> (Error + bytes) option list \<Rightarrow> nat option \<Rightarrow> bool \<Rightarrow> bytes \<Rightarrow>
   (Error + 'b BlockingBody \<times> bytes) \<Rightarrow> 'w \<Rightarrow> bool" where
  "loop_outcome ok L fs amount fill acc r w' \<longleftrightarrow>
     (\<exists>gs. case r of
        Inl e \<Rightarrow> L w' = fs @ gs \<and> acc @ payload gs = [] \<and> failures gs = [e]
      | Inr (self, out) \<Rightarrow> reading ok L (fs @ gs) self w' \<and> acc @ payload gs = out @ remaining_bytes self \<and>
          failures gs = pending_errors self \<and> filled_up amount fill out (bb_terminal self))"

lemma loop_outcome_step:
  assumes "loop_outcome ok L (fs @ hs) amount fill (acc @ payload hs) r w'" and "failures hs = []"
  shows "loop_outcome ok L fs amount fill acc r w'"
proof -
  from assms(1) obtain gs where gs: "case r of
        Inl e \<Rightarrow> L w' = (fs @ hs) @ gs \<and> (acc @ payload hs) @ payload gs = [] \<and> failures gs = [e]
      | Inr (self, out) \<Rightarrow> reading ok L ((fs @ hs) @ gs) self w' \<and> (acc @ payload hs) @ payload gs = out @ remaining_bytes self \<and>
          failures gs = pending_errors self \<and> filled_up amount fill out (bb_terminal self)"
    unfolding loop_outcome_def by blast
  then show ?thesis unfolding loop_outcome_def using assms(2)
    by (intro exI [of _ "hs @ gs"]) (auto split: sum.splits)
qed

text \<open>The body while the loop runs: it is out of the blocking body, which holds nothing.\<close>

definition idle_body :: "'b BlockingBody \<Rightarrow> bool" where
  "idle_body self \<longleftrightarrow> bb_inner self = None \<and> bb_remainder self = None \<and> bb_pending_error self = None \<and> \<not> bb_terminal self"

lemma read_loop_outcome:
  assumes "answering ops ok m" and "logs ops L" and "idle_body self"
  shows "ok c w \<Longrightarrow> L w = fs \<Longrightarrow> failures fs = [] \<Longrightarrow> (\<forall>n. amount = Some n \<longrightarrow> length acc < n) \<Longrightarrow>
    \<exists>r w'. read_loop ops amount allow fill self acc c w = Some (r, w') \<and> loop_outcome ok L fs amount fill acc r w'"
proof (induction "m c" arbitrary: c w fs acc rule: less_induct)
  case less
  have idle: "bb_inner self = None" "bb_remainder self = None" "bb_pending_error self = None" "\<not> bb_terminal self"
    using assms(3) by (simp_all add: idle_body_def)
  obtain f d w1 gs where f: "next_frame ops c w = Some (f, d, w1)" "ok d w1" "L w1 = L w @ gs @ [f]" "payload gs = []" "failures gs = []"
    "f \<noteq> Some (Inr [])" "\<forall>x. f = Some (Inr x) \<longrightarrow> m d < m c"
    using next_frame_pulls [OF assms(1,2) less.prems(1)] by blast
  have d: "L w1 = fs @ gs @ [f]" using f(3) less.prems(2) by simp
  obtain w2 where w2: "aw_drop ops d w1 = Some w2" using answeringD(3) [OF assms(1) f(2)] by blast
  have l2: "L w2 = fs @ gs @ [f]" using logsD(3) [OF assms(2) w2] d by simp
  note step = read_loop.simps [of ops amount allow fill self acc c w, unfolded f(1) option.case prod.case]
  consider "f = None" | e where "f = Some (Inl e)" | frame where "f = Some (Inr frame)" by (metis option.exhaust sum.exhaust)
  then show ?case
  proof cases
    case 1
    then show ?thesis using w2 l2 idle d less.prems(3,4) f(4,5)
      by (auto simp: step loop_outcome_def reading_def filled_up_def intro!: exI [of _ "gs @ [f]"] split: option.split)
  next
    case 2
    let ?r = "if acc = [] then Inl e else Inr (self\<lparr>bb_terminal := True, bb_pending_error := Some e\<rparr>, acc)"
    have "read_loop ops amount allow fill self acc c w = Some (?r, w2)" using 2 w2 by (simp add: step)
    moreover have "loop_outcome ok L fs amount fill acc ?r w2"
      unfolding loop_outcome_def using 2 l2 idle d less.prems(3,4) f(4,5)
      by (intro exI [of _ "gs @ [f]"]) (auto simp: reading_def filled_up_def split: option.split)
    ultimately show ?thesis by blast
  next
    case 3
    define n where "n = (case amount of Some a \<Rightarrow> min (a - length acc) (length frame) | None \<Rightarrow> length frame)"
    define self' where "self' = (if n < length frame then self\<lparr>bb_remainder := Some (drop n frame)\<rparr> else self)"
    have held: "take n frame @ remaining_bytes self' = frame" "bb_remainder self' \<noteq> Some []" "bb_pending_error self' = None"
      "\<not> bb_terminal self'" "bb_inner self' = None"
      using idle by (auto simp: self'_def)
    have short: "length (acc @ take n frame) \<le> a" "n < length frame \<Longrightarrow> length (acc @ take n frame) = a" if "amount = Some a" for a
      using less.prems(4) that by (auto simp: n_def)
    obtain e w3 where e: "(if bb_remainder self' = None then aw_finish_declared_length ops allow d w1 else Some (d, w1)) = Some (e, w3)"
      "ok e w3" "L w3 = fs @ gs @ [f]" "m e \<le> m d"
      using answeringD(2) [OF assms(1) f(2), of allow] f(2) d logsD(2) [OF assms(2)] by (cases "bb_remainder self'") fastforce+
    obtain w4 where w4: "aw_drop ops e w3 = Some w4" using answeringD(3) [OF assms(1) e(2)] by blast
    have l4: "L w4 = fs @ gs @ [f]" using logsD(3) [OF assms(2) w4] e(3) by simp
    note step = step [unfolded 3 option.case sum.case, folded n_def, unfolded Let_def, folded self'_def, unfolded e(1) option.case prod.case]
    show ?thesis
    proof (cases "aw_is_terminal ops e \<or> amount \<noteq> None \<and> (Some (length (acc @ take n frame)) = amount \<or> \<not> fill)")
      case True
      then show ?thesis using held short w4 l4 e(2,3) less.prems(3) f(4,5) 3
        by (auto simp: step loop_outcome_def reading_def filled_up_def intro!: exI [of _ "gs @ [f]"] split: option.split)
    next
      case False
      have "\<not> n < length frame" using False short(2) by (cases amount) (auto simp: n_def)
      then have whole: "self' = self" "take n frame = frame" by (simp_all add: self'_def)
      moreover have "\<forall>a. amount = Some a \<longrightarrow> length (acc @ frame) < a"
        using False short(1) whole(2) by (metis le_neq_implies_less option.distinct(1))
      ultimately have whole: "self' = self" "take n frame = frame" "\<forall>a. amount = Some a \<longrightarrow> length (acc @ frame) < a" by simp_all
      have "m e < m c" using e(4) f(7) 3 by auto
      moreover have "failures (fs @ gs @ [f]) = []" using less.prems(3) f(5) 3 by simp
      ultimately obtain r w' where r: "read_loop ops amount allow fill self (acc @ frame) e w3 = Some (r, w')"
        "loop_outcome ok L (fs @ gs @ [f]) amount fill (acc @ frame) r w'"
        using less.hyps [OF _ e(2,3)] whole(3) by blast
      have "loop_outcome ok L fs amount fill acc r w'"
        by (rule loop_outcome_step [where hs = "gs @ [f]"]) (use r(2) f(4,5) 3 in simp_all)
      then show ?thesis using r(1) False whole by (auto simp: step)
    qed
  qed
qed

text \<open>What a read of the body answers, and whether it is over then.\<close>

definition async_outcome ::
  "('b \<Rightarrow> 'w \<Rightarrow> bool) \<Rightarrow> ('w \<Rightarrow> (Error + bytes) option list) \<Rightarrow> (Error + bytes) option list \<Rightarrow> 'b BlockingBody \<Rightarrow> nat option \<Rightarrow> bool \<Rightarrow>
   (Error + 'b BlockingBody \<times> bytes) \<Rightarrow> 'w \<Rightarrow> bool" where
  "async_outcome ok L fs self amount fill r w' \<longleftrightarrow>
     (\<exists>gs. case r of
        Inl e \<Rightarrow> L w' = fs @ gs \<and> remaining_bytes self @ payload gs = [] \<and> pending_errors self @ failures gs = [e]
      | Inr (self', out) \<Rightarrow> reading ok L (fs @ gs) self' w' \<and> hands_on self gs (Inr out) self' \<and>
          filled_up amount fill out (bb_terminal self'))"

lemma take_remainder_outcome:
  assumes "answering ops ok m" and "logs ops L" and "reading ok L fs self w" and "amount \<noteq> Some 0"
  shows "\<exists>x self' out w'. take_remainder ops amount allow self w = Some x \<and> reading ok L fs self' w' \<and>
    remaining_bytes self = out @ remaining_bytes self' \<and> bb_pending_error self' = bb_pending_error self \<and>
    (x = Inl (self', out, w') \<and> amount = Some (length out) \<or>
     x = Inr (self', out, w') \<and> bb_remainder self' = None \<and> (\<forall>a. amount = Some a \<longrightarrow> length out < a))"
proof (cases "bb_remainder self")
  case None
  then show ?thesis using assms(3,4)
    by (intro exI [of _ "Inr (self, [], w)"] exI [of _ self] exI [of _ "[]"] exI [of _ w]) (auto simp: take_remainder_def)
next
  case (Some rem)
  define n where "n = (case amount of Some a \<Rightarrow> min a (length rem) | None \<Rightarrow> length rem)"
  define rest where "rest = (if n < length rem then Some (drop n rem) else None)"
  have n: "take n rem @ (case rest of Some r \<Rightarrow> r | None \<Rightarrow> []) = rem" "rest \<noteq> Some []" "n \<le> length rem"
    "amount \<noteq> Some n \<Longrightarrow> rest = None \<and> (\<forall>a. amount = Some a \<longrightarrow> n < a)"
    by (auto simp: rest_def n_def split: option.splits)
  have "reading ok L fs (self\<lparr>bb_remainder := rest\<rparr>) w" using assms(3) Some n(2) by (auto simp: reading_def)
  from finish_if_empty_reading [OF assms(1,2) this, of allow]
  obtain self' w' where f: "finish_declared_length_if_buffer_empty ops allow (self\<lparr>bb_remainder := rest\<rparr>) w = Some (self', w')"
    "reading ok L fs self' w'" "bb_remainder self' = rest" "bb_pending_error self' = bb_pending_error self" by auto
  have t: "take_remainder ops amount allow self w = Some ((if Some n = amount then Inl else Inr) (self', take n rem, w'))"
    using f(1) Some by (simp add: take_remainder_def Let_def flip: n_def rest_def)
  show ?thesis
    by (rule exI [of _ "(if Some n = amount then Inl else Inr) (self', take n rem, w')"], rule exI [of _ self'],
        rule exI [of _ "take n rem"], rule exI [of _ w']) (use t f n Some in \<open>auto split: option.splits\<close>)
qed

lemma blocking_drop_reading:
  assumes "answering ops ok m" and "logs ops L" and "reading ok L fs self w"
  shows "\<exists>w'. blocking_drop ops self w = Some w' \<and> L w' = L w"
proof (cases "bb_inner self")
  case (Some c)
  then have "ok c w" using assms(3) by (auto simp: reading_def)
  then obtain w' where "aw_drop ops c w = Some w'" using answeringD(3) [OF assms(1)] by blast
  then show ?thesis using logsD(3) [OF assms(2)] Some by (simp add: blocking_drop_def)
qed (simp add: blocking_drop_def)

lemma read_async_outcome:
  assumes "answering ops ok m" and "logs ops L" and "reading ok L fs self w"
  shows "\<exists>r w'. read_async_inner ops amount allow fill self w = Some (r, w') \<and> async_outcome ok L fs self amount fill r w'"
proof (cases "amount = Some 0")
  case True
  then show ?thesis using assms(3)
    by (auto simp: read_async_inner_def async_outcome_def hands_on_def filled_up_def intro!: exI [of _ "[]"])
next
  case False
  obtain x self' out w' where x: "take_remainder ops amount allow self w = Some x" "reading ok L fs self' w'"
    "remaining_bytes self = out @ remaining_bytes self'" "bb_pending_error self' = bb_pending_error self"
    "x = Inl (self', out, w') \<and> amount = Some (length out) \<or>
     x = Inr (self', out, w') \<and> bb_remainder self' = None \<and> (\<forall>a. amount = Some a \<longrightarrow> length out < a)"
    using take_remainder_outcome [OF assms False] by blast
  note inner = read_async_inner_def [of ops amount allow fill self w]
  have one: "bb_remainder self = None \<or> bb_pending_error self = None" "bb_remainder self \<noteq> Some []" using assms(3) by (auto simp: reading_def)
  consider "x = Inl (self', out, w')" "amount = Some (length out)"
    | e where "x = Inr (self', out, w')" "bb_pending_error self' = Some e"
    | "x = Inr (self', out, w')" "bb_pending_error self' = None" "bb_terminal self' \<or> bb_inner self' = None" "bb_remainder self' = None"
        "\<forall>a. amount = Some a \<longrightarrow> length out < a"
    | c where "x = Inr (self', out, w')" "bb_pending_error self' = None" "\<not> bb_terminal self'" "bb_inner self' = Some c"
        "bb_remainder self' = None" "\<forall>a. amount = Some a \<longrightarrow> length out < a"
    using x(5) by (cases "bb_pending_error self'"; cases "bb_inner self'") auto
  then show ?thesis
  proof cases
    case 1
    have "read_async_inner ops amount allow fill self w = Some (Inr (self', out), w')" using 1(1) x(1) False by (simp add: inner)
    moreover have "async_outcome ok L fs self amount fill (Inr (self', out)) w'"
      unfolding async_outcome_def using 1 x by (intro exI [of _ "[]"]) (simp add: hands_on_def filled_up_def)
    ultimately show ?thesis by blast
  next
    case 2
    then have "remaining_bytes self = []" using one x(4) by (cases "bb_remainder self") auto
    moreover obtain w2 where "blocking_drop ops self' w' = Some w2" "L w2 = L w'" using blocking_drop_reading [OF assms(1,2) x(2)] by blast
    ultimately show ?thesis using 2 x False assms(3)
      by (auto simp: inner async_outcome_def reading_def intro!: exI [of _ "[]"])
  next
    case 3
    let ?self = "if bb_terminal self' then self' else self'\<lparr>bb_terminal := True\<rparr>"
    have "read_async_inner ops amount allow fill self w = Some (Inr (?self, out), w')" using 3 x(1) False by (auto simp: inner)
    moreover have "async_outcome ok L fs self amount fill (Inr (?self, out)) w'"
      unfolding async_outcome_def using 3 x
      by (intro exI [of _ "[]"]) (auto simp: hands_on_def filled_up_def reading_def split: option.split)
    ultimately show ?thesis by blast
  next
    case (4 c)
    have c: "ok c w'" "L w' = fs" "failures fs = []" using x(2) 4 by (auto simp: reading_def)
    have "idle_body (self'\<lparr>bb_inner := None\<rparr>)" using 4 by (simp add: idle_body_def)
    from read_loop_outcome [OF assms(1,2) this c 4(6), of allow fill]
    obtain r w2 where r: "read_loop ops amount allow fill (self'\<lparr>bb_inner := None\<rparr>) out c w' = Some (r, w2)"
      "loop_outcome ok L fs amount fill out r w2" by blast
    moreover have "async_outcome ok L fs self amount fill r w2"
      using r(2) 4 x(3,4) unfolding loop_outcome_def async_outcome_def hands_on_def
      by (cases r) (auto split: prod.splits)
    ultimately show ?thesis using 4 x(1) False by (auto simp: inner)
  qed
qed

section \<open>Properties: reading\<close>

text \<open>The reads of a body, mixed; an asynchronous read that fails has consumed it.\<close>

datatype body_read = ReadInto nat | ReadAsync "nat option" bool | ReadFrame nat bool | FinishEncoded

definition exec_read ::
  "('b, 'w) async_body \<Rightarrow> body_read \<Rightarrow> 'b BlockingBody \<Rightarrow> 'w \<Rightarrow> ((Error + bytes) \<times> 'b BlockingBody option \<times> 'w) option" where
  "exec_read ops rd self w =
     (let async = (\<lambda>(r, w). case r of Inl e \<Rightarrow> (Inl e, None, w) | Inr (self, out) \<Rightarrow> (Inr out, Some self, w)) in
      case rd of
        ReadInto n \<Rightarrow> map_option (\<lambda>(r, self, w). (r, Some self, w)) (blocking_read ops None n self w)
      | ReadAsync amount allow \<Rightarrow> map_option async (read_async ops amount allow self w)
      | ReadFrame n allow \<Rightarrow> map_option async (read_frame_async ops n allow self w)
      | FinishEncoded \<Rightarrow> map_option (\<lambda>(self, w). (Inr [], Some self, w)) (finish_encoded_declared_length ops self w))"

text \<open>Each answer with whether the body is over.\<close>

fun run_reads ::
  "('b, 'w) async_body \<Rightarrow> body_read list \<Rightarrow> 'b BlockingBody \<Rightarrow> 'w \<Rightarrow>
   (((Error + bytes) \<times> bool) list \<times> 'b BlockingBody option \<times> 'w) option" where
  "run_reads ops [] self w = Some ([], Some self, w)"
| "run_reads ops (rd # rds) self w =
     (case exec_read ops rd self w of
        None \<Rightarrow> None
      | Some (r, None, w) \<Rightarrow> Some ([(r, True)], None, w)
      | Some (r, Some self, w) \<Rightarrow>
          map_option (\<lambda>(rs, x). ((r, bb_terminal self) # rs, x)) (run_reads ops rds self w))"

definition answered :: "body_read \<Rightarrow> (Error + bytes) \<times> bool \<Rightarrow> bool" where
  "answered rd a =
     (case rd of
        ReadInto n \<Rightarrow> length (got_bytes (fst a)) \<le> n
      | ReadAsync amount _ \<Rightarrow> isl (fst a) \<or> filled_up amount True (got_bytes (fst a)) (snd a)
      | ReadFrame n _ \<Rightarrow> length (got_bytes (fst a)) \<le> n
      | FinishEncoded \<Rightarrow> fst a = Inr [])"

lemma exec_read_outcome:
  assumes "answering ops ok m" and "logs ops L" and "reading ok L fs self w"
  shows "\<exists>r s w' gs. exec_read ops rd self w = Some (r, s, w') \<and>
    answered rd (r, case s of Some self' \<Rightarrow> bb_terminal self' | None \<Rightarrow> True) \<and>
    (case s of
       Some self' \<Rightarrow> reading ok L (fs @ gs) self' w' \<and> hands_on self gs r self'
     | None \<Rightarrow> L w' = fs @ gs \<and> remaining_bytes self @ payload gs = got_bytes r \<and>
         pending_errors self @ failures gs = got_errors r)"
proof -
  have async: "\<exists>r w' gs. read_async_inner ops amount allow fill self w = Some (r, w') \<and>
      (case r of
         Inl e \<Rightarrow> L w' = fs @ gs \<and> remaining_bytes self @ payload gs = [] \<and> pending_errors self @ failures gs = [e]
       | Inr (self', out) \<Rightarrow> reading ok L (fs @ gs) self' w' \<and> hands_on self gs (Inr out) self' \<and>
           filled_up amount fill out (bb_terminal self'))" for amount allow fill
    using read_async_outcome [OF assms, of amount allow fill] unfolding async_outcome_def by blast
  show ?thesis
  proof (cases rd)
    case (ReadInto n)
    then show ?thesis using blocking_read_reading [OF assms, of n]
      by (fastforce simp: exec_read_def answered_def Let_def)
  next
    case (ReadAsync amount allow)
    then show ?thesis using async [of amount allow True]
      by (fastforce simp: exec_read_def read_async_def answered_def Let_def split: sum.splits)
  next
    case (ReadFrame n allow)
    then show ?thesis using async [of "Some n" allow False]
      by (fastforce simp: exec_read_def read_frame_async_def answered_def filled_up_def Let_def split: sum.splits)
  next
    case FinishEncoded
    then show ?thesis using finish_if_empty_reading [OF assms, of True]
      by (auto simp: exec_read_def finish_encoded_declared_length_def answered_def hands_on_def Let_def intro!: exI [of _ "[]"])
  qed
qed

lemma run_reads_outcome:
  assumes "answering ops ok m" and "logs ops L"
  shows "reading ok L fs self w \<Longrightarrow>
    \<exists>rs s w' gs. run_reads ops rds self w = Some (rs, s, w') \<and> L w' = fs @ gs \<and>
      remaining_bytes self @ payload gs =
        concat (map (got_bytes \<circ> fst) rs) @ (case s of Some self' \<Rightarrow> remaining_bytes self' | None \<Rightarrow> []) \<and>
      pending_errors self @ failures gs =
        concat (map (got_errors \<circ> fst) rs) @ (case s of Some self' \<Rightarrow> pending_errors self' | None \<Rightarrow> []) \<and>
      list_all2 answered (take (length rs) rds) rs \<and> (s \<noteq> None \<longrightarrow> length rs = length rds)"
proof (induction rds arbitrary: fs self w)
  case Nil
  then show ?case by (auto simp: reading_def intro!: exI [of _ "[]"])
next
  case (Cons rd rds)
  obtain r s w1 gs where x: "exec_read ops rd self w = Some (r, s, w1)"
    "answered rd (r, case s of Some self' \<Rightarrow> bb_terminal self' | None \<Rightarrow> True)"
    "case s of Some self' \<Rightarrow> reading ok L (fs @ gs) self' w1 \<and> hands_on self gs r self'
     | None \<Rightarrow> L w1 = fs @ gs \<and> remaining_bytes self @ payload gs = got_bytes r \<and>
         pending_errors self @ failures gs = got_errors r"
    using exec_read_outcome [OF assms Cons.prems, of rd] by blast
  show ?case
  proof (cases s)
    case None
    then show ?thesis using x
      by (intro exI [of _ "[(r, True)]"] exI [of _ None] exI [of _ w1] exI [of _ gs]) simp
  next
    case (Some self')
    then have "reading ok L (fs @ gs) self' w1" and h: "hands_on self gs r self'" using x(3) by simp_all
    then obtain rs t w2 hs where y: "run_reads ops rds self' w1 = Some (rs, t, w2)" "L w2 = (fs @ gs) @ hs"
      "remaining_bytes self' @ payload hs =
        concat (map (got_bytes \<circ> fst) rs) @ (case t of Some self' \<Rightarrow> remaining_bytes self' | None \<Rightarrow> [])"
      "pending_errors self' @ failures hs =
        concat (map (got_errors \<circ> fst) rs) @ (case t of Some self' \<Rightarrow> pending_errors self' | None \<Rightarrow> [])"
      "list_all2 answered (take (length rs) rds) rs" "t \<noteq> None \<longrightarrow> length rs = length rds"
      using Cons.IH by blast
    have "remaining_bytes self @ payload (gs @ hs) = got_bytes r @ remaining_bytes self' @ payload hs"
      "pending_errors self @ failures (gs @ hs) = got_errors r @ pending_errors self' @ failures hs"
      using h by (simp_all add: hands_on_def)
    then show ?thesis using x(1,2) y Some
      by (intro exI [of _ "(r, bb_terminal self') # rs"] exI [of _ t] exI [of _ w2] exI [of _ "gs @ hs"]) (simp add: o_def)
  qed
qed

text \<open>The log changes nothing: what a read of the logged body returns, a read of the body returns.\<close>

lemma logged_ops:
  "aw_next (logged ops) b (w, log) = map_option (\<lambda>(r, b, w). (r, b, w, log @ [r])) (aw_next ops b w)"
  "aw_finish_declared_length (logged ops) allow b (w, log) = map_option (\<lambda>(b, w). (b, w, log)) (aw_finish_declared_length ops allow b w)"
  "aw_is_terminal (logged ops) = aw_is_terminal ops"
  "aw_drop (logged ops) b (w, log) = map_option (\<lambda>w. (w, log)) (aw_drop ops b w)"
  by (simp_all add: logged_def)

lemma answering_logged: "answering ops ok m \<Longrightarrow> answering (logged ops) (\<lambda>b (w, log). ok b w) m"
  unfolding answering_def by (fastforce simp: logged_ops)

lemma next_frame_logged:
  assumes "next_frame (logged ops) b u = Some y"
  shows "next_frame ops b (fst u) = Some (fst y, fst (snd y), fst (snd (snd y)))"
proof (rule next_frame.raw_induct [where P = "\<lambda>ops' b u y. ops' = logged ops \<longrightarrow>
      next_frame ops b (fst u) = Some (fst y, fst (snd y), fst (snd (snd y)))", OF _ assms, THEN mp, OF _ refl], rule impI)
  fix f ops' b u y
  assume ih: "\<And>ops' b u y. f ops' b u = Some y \<Longrightarrow> ops' = logged ops \<longrightarrow>
      next_frame ops b (fst u) = Some (fst y, fst (snd y), fst (snd (snd y)))"
    and step: "(case aw_next ops' b u of None \<Rightarrow> None | Some (Some (Inr []), body, w) \<Rightarrow> f ops' body w | Some r \<Rightarrow> Some r) = Some y"
    and ops: "ops' = logged ops"
  obtain w log where u: "u = (w, log)" by fastforce
  obtain r c w' where n: "aw_next ops b w = Some (r, c, w')" using step by (auto simp: u ops logged_ops split: option.splits)
  show "next_frame ops b (fst u) = Some (fst y, fst (snd y), fst (snd (snd y)))"
  proof (cases "r = Some (Inr [])")
    case True
    then show ?thesis using step n ih [of "logged ops" c "(w', log @ [r])" y]
      by (subst next_frame.simps) (simp add: u ops logged_ops)
  next
    case False
    then show ?thesis using step n
      by (subst next_frame.simps) (auto simp: u ops logged_ops split: option.splits sum.splits list.splits)
  qed
qed

lemma read_loop_logged:
  assumes "read_loop (logged ops) amount allow fill self acc b u = Some y"
  shows "read_loop ops amount allow fill self acc b (fst u) = Some (fst y, fst (snd y))"
proof (rule read_loop.raw_induct [where P = "\<lambda>ops' amount allow fill self acc b u y. ops' = logged ops \<longrightarrow>
      read_loop ops amount allow fill self acc b (fst u) = Some (fst y, fst (snd y))", OF _ assms, THEN mp, OF _ refl], rule impI, goal_cases)
  case (1 f ops' amount allow fill self acc b u y)
  note ops = 1(3)
  obtain r c u1 where n: "next_frame (logged ops) b u = Some (r, c, u1)" using 1(2,3) by (auto split: option.splits)
  then have n': "next_frame ops b (fst u) = Some (r, c, fst u1)" using next_frame_logged [OF n] by simp
  obtain w1 log1 where u1: "u1 = (w1, log1)" by fastforce
  consider "r = None" | e where "r = Some (Inl e)" | frame where "r = Some (Inr frame)" by (metis option.exhaust sum.exhaust)
  then show ?case
  proof cases
    case 3
    define n where "n = (case amount of Some a \<Rightarrow> min (a - length acc) (length frame) | None \<Rightarrow> length frame)"
    define self' where "self' = (if n < length frame then self\<lparr>bb_remainder := Some (drop n frame)\<rparr> else self)"
    note step = 1(2) [unfolded ops n option.case prod.case 3 sum.case, folded n_def, unfolded Let_def, folded self'_def]
    note loop = read_loop.simps [of ops amount allow fill self acc b "fst u", unfolded n' option.case prod.case 3 sum.case, folded n_def,
      unfolded Let_def, folded self'_def]
    show ?thesis unfolding loop using step 1(1) [of "logged ops" amount allow fill self' "acc @ take n frame"]
      by (cases y) (auto simp: u1 logged_ops split: option.splits if_splits)
  qed (use 1(2) in \<open>auto simp: read_loop.simps [of ops] n' ops n u1 logged_ops\<close>)
qed

lemma finish_if_empty_logged:
  assumes "finish_declared_length_if_buffer_empty (logged ops) allow self u = Some y"
  shows "finish_declared_length_if_buffer_empty ops allow self (fst u) = Some (fst y, fst (snd y))"
  using assms by (cases u) (auto simp: finish_declared_length_if_buffer_empty_def logged_ops split: option.splits if_splits)

lemma read_async_inner_logged:
  assumes "read_async_inner (logged ops) amount allow fill self u = Some y"
  shows "read_async_inner ops amount allow fill self (fst u) = Some (fst y, fst (snd y))"
proof -
  have rem: "take_remainder ops amount allow self (fst u) =
      Some (map_sum (\<lambda>(s, out, w). (s, out, fst w)) (\<lambda>(s, out, w). (s, out, fst w)) x)"
    if "take_remainder (logged ops) amount allow self u = Some x" for x
    using that by (cases "bb_remainder self") (auto simp: take_remainder_def Let_def dest!: finish_if_empty_logged split: if_splits)
  have drop: "blocking_drop ops self v = Some v'" if "blocking_drop (logged ops) self (v, l) = Some (v', l')" for self v l v' l'
    using that by (auto simp: blocking_drop_def logged_ops split: option.splits)
  show ?thesis using assms
    by (auto simp: read_async_inner_def dest!: rem drop read_loop_logged split: if_splits option.splits sum.splits)
qed

lemma blocking_read_logged:
  assumes "blocking_read (logged ops) None n self u = Some y"
  shows "blocking_read ops None n self (fst u) = Some (fst y, fst (snd y), fst (snd (snd y)))"
proof (cases "n = 0 \<or> bb_remainder self \<noteq> None \<or> bb_pending_error self \<noteq> None \<or> bb_terminal self \<or> bb_inner self = None")
  case True
  then show ?thesis using assms
    by (auto simp: blocking_read_def Let_def dest!: finish_if_empty_logged split: option.splits prod.splits)
next
  case False
  then obtain b where b: "bb_inner self = Some b" "n \<noteq> 0" "bb_remainder self = None" "bb_pending_error self = None" "\<not> bb_terminal self"
    by auto
  obtain r c w1 log1 where n: "next_frame (logged ops) b u = Some (r, c, w1, log1)"
    using assms b by (cases "next_frame (logged ops) b u") (auto simp: blocking_read_def Let_def)
  then have n': "next_frame ops b (fst u) = Some (r, c, w1)" using next_frame_logged [OF n] by simp
  consider frame out rest where "r = Some (Inr frame)" "copy_frame n frame = (out, rest)" | "r = None" | e where "r = Some (Inl e)"
    by (metis option.exhaust sum.exhaust prod.exhaust)
  then show ?thesis
  proof cases
    case 1
    show ?thesis
      using assms b n n' 1
      by (cases rest; cases "aw_finish_declared_length ops False c w1")
        (auto simp: blocking_read_def logged_ops Let_def split: if_splits)
  qed (use assms b n n' in \<open>cases "aw_drop ops c w1"; auto simp: blocking_read_def logged_ops Let_def split: if_splits\<close>)+
qed

lemma run_reads_logged:
  "run_reads (logged ops) rds self u = Some y \<Longrightarrow> run_reads ops rds self (fst u) = Some (fst y, fst (snd y), fst (snd (snd y)))"
proof (induction rds arbitrary: self u y)
  case (Cons rd rds)
  have async: "map_option async' (read_async_inner ops amount allow fill self (fst u)) = Some (r, s, fst v)"
    if h: "map_option async (read_async_inner (logged ops) amount allow fill self u) = Some (r, s, v)"
      "async = (\<lambda>(r, w). case r of Inl e \<Rightarrow> (Inl e, None, w) | Inr (self, out) \<Rightarrow> (Inr out, Some self, w))"
      "async' = (\<lambda>(r, w). case r of Inl e \<Rightarrow> (Inl e, None, w) | Inr (self, out) \<Rightarrow> (Inr out, Some self, w))"
    for r s v amount allow fill async async'
  proof -
    obtain a w' where a: "read_async_inner (logged ops) amount allow fill self u = Some (a, w')" using h(1)
      by (cases "read_async_inner (logged ops) amount allow fill self u") auto
    then show ?thesis using h read_async_inner_logged [OF a] by (cases a) auto
  qed
  have one: "exec_read ops rd self (fst u) = Some (r, s, fst v)" if x: "exec_read (logged ops) rd self u = Some (r, s, v)" for r s v
  proof (cases rd)
    case (ReadAsync amount allow)
    then show ?thesis using async [of _ amount allow True r s v] x by (simp add: exec_read_def Let_def read_async_def)
  next
    case (ReadFrame n allow)
    then show ?thesis using async [of _ "Some n" allow False r s v] x by (simp add: exec_read_def Let_def read_frame_async_def)
  qed (use x in \<open>auto simp: exec_read_def Let_def finish_encoded_declared_length_def dest!: blocking_read_logged finish_if_empty_logged\<close>)
  obtain r s v where x: "exec_read (logged ops) rd self u = Some (r, s, v)" using Cons.prems by (auto split: option.splits)
  then show ?case using Cons one [OF x] by (cases s; cases v) (auto simp: x)
qed simp


section \<open>The body of the transport\<close>

text \<open>
  Awaiting a frame of the body of \<open>response.rs\<close>: it is polled until it is ready. The clock gives the
  instants each poll reads; the world carries how many polls there were.
\<close>

partial_function (option) await_next ::
  "('d, 'b, 'h, 't, 's, 'w) body_env \<Rightarrow> (nat \<Rightarrow> instant \<times> instant \<times> instant) \<Rightarrow> ('d, 'b, 'h, 't, 's, 'w) ResponseBody \<Rightarrow>
   ('h, 't, 's) world \<Rightarrow> nat \<Rightarrow>
   ((Error + bytes) option \<times> ('d, 'b, 'h, 't, 's, 'w) ResponseBody \<times> ('h, 't, 's) world \<times> nat) option" where
  "await_next env clock self w n =
     (case clock n of (first, now, later) \<Rightarrow>
        (case body_poll_next env first now later self w of
           None \<Rightarrow> None
         | Some (Ready r, self, w) \<Rightarrow> Some (r, self, w, Suc n)
         | Some (Pending, self, w) \<Rightarrow> await_next env clock self w (Suc n)))"

definition transport_body ::
  "('d, 'b, 'h, 't, 's, 'w) body_env \<Rightarrow> (nat \<Rightarrow> instant \<times> instant \<times> instant) \<Rightarrow>
   (('d, 'b, 'h, 't, 's, 'w) ResponseBody, ('h, 't, 's) world \<times> nat) async_body" where
  "transport_body env clock =
     \<lparr>aw_next = (\<lambda>b (w, n). await_next env clock b w n),
      aw_finish_declared_length = (\<lambda>allow b (w, n). map_option (\<lambda>(b, w). (b, w, n)) (finish_declared_length env allow b w)),
      aw_is_terminal = rb_terminal,
      aw_drop = (\<lambda>b (w, n). map_option (\<lambda>(_, w). (w, n)) (body_drop env b w)),
      aw_close = (\<lambda>b (w, n). map_option (\<lambda>(r, _, w). (r, w, n)) (body_close env b w))\<rparr>"

text \<open>An undecoded body over a source that always has its next frame.\<close>

definition prompt :: "'b frame_source \<Rightarrow> bool" where
  "prompt pf \<longleftrightarrow> (\<forall>b. fst (pf b) \<noteq> Pending)"

definition raw_open :: "('d, 'b, 'h, 't, 's, 'w) ResponseBody \<Rightarrow> ('h, 't, 's) world \<times> nat \<Rightarrow> bool" where
  "raw_open b w \<longleftrightarrow> rb_terminal b \<or> open_body b (fst w) \<and> (\<exists>src. rb_source b = Some (Incoming src))"

definition raw_frames :: "('b \<Rightarrow> nat) \<Rightarrow> ('d, 'b, 'h, 't, 's, 'w) ResponseBody \<Rightarrow> nat" where
  "raw_frames frames b =
     (if rb_terminal b then 0 else case rb_source b of Some (Incoming src) \<Rightarrow> frames src | _ \<Rightarrow> 0)"

lemma next_data_prompt:
  assumes "body_finite pf frames" and "prompt pf"
  shows "\<exists>r b'. next_data pf b = Some (Ready r, b') \<and> (r \<noteq> None \<longrightarrow> frames b' < frames b)"
proof (induction "frames b" arbitrary: b rule: less_induct)
  case less
  obtain r c where q: "pf b = (Ready r, c)" using assms(2) by (metis Poll.exhaust fst_conv prod.exhaust prompt_def)
  show ?case
  proof (cases "r = Some (Inr TrailersFrame)")
    case True
    then have "frames c < frames b" using assms(1) q by (auto simp: body_finite_def)
    then obtain r' b' where "next_data pf c = Some (Ready r', b')" "r' \<noteq> None \<longrightarrow> frames b' < frames b"
      using less by (meson less_trans)
    then show ?thesis using q True by (subst next_data.simps) simp
  next
    case False
    then have "r \<noteq> None \<longrightarrow> frames c < frames b" using assms(1) q by (auto simp: body_finite_def)
    then show ?thesis using q False
      by (subst next_data.simps) (auto split: option.split sum.split Frame.split)
  qed
qed

lemma raw_poll:
  assumes "open_body b w" and "rb_source b = Some (Incoming src)" and "body_finite (be_frames env) frames" and "prompt (be_frames env)"
  obtains r c w' where "body_poll_next env first now later b w = Some (Ready r, c, w')" "raw_open c (w', n)"
    "\<And>f. r = Some (Inr f) \<Longrightarrow> raw_frames frames c < raw_frames frames b"
proof -
  obtain q c w' where p: "body_poll_next env first now later b w = Some (q, c, w')" "body_outcome b w c w'" "poll_answer q c"
    by (rule body_poll_outcome [OF assms(1,3)])
  obtain r src' where d: "next_data (be_frames env) src = Some (Ready r, src')" "r \<noteq> None \<longrightarrow> frames src' < frames src"
    using next_data_prompt [OF assms(3,4)] by blast
  obtain e where e: "poll_timeout first b = Some e" using poll_timeout_total [OF assms(1)] by blast
  have live: "\<not> rb_terminal b" using assms(1) by (simp add: open_body_def)
  have q: "q \<noteq> Pending \<and> (\<forall>f. q = Ready (Some (Inr f)) \<longrightarrow> rb_source c = Some (Incoming src') \<and> frames src' < frames src)"
    using p(1) d live
    by (cases e; cases r rule: option.exhaust)
      (auto simp: body_poll_next_def e poll_source_def assms(2) finish_error_def Let_def split: sum.splits)
  then obtain r' where r': "q = Ready r'" by (cases q) auto
  have "raw_open c (w', n)"
    using p(2,3) q by (cases r') (auto simp: raw_open_def r' poll_answer_def body_outcome_def body_ended_def split: sum.splits)
  moreover have "raw_frames frames c < raw_frames frames b" if "r' = Some (Inr f)" for f
    using q p(3) that live by (auto simp: raw_frames_def r' poll_answer_def assms(2))
  ultimately show thesis using p(1) r' by (intro that [of r' c w']) simp_all
qed

lemma body_finish_terminal:
  assumes "open_body b w" and "ev \<noteq> Partial" and "ev \<noteq> PythonExact"
  shows "\<exists>c w'. body_finish_now env ev b w = Some (c, w') \<and> rb_terminal c"
  by (rule body_finish_now_ended [OF assms, of env]) (auto simp: body_ended_def)

lemma transport_body_answering:
  fixes env :: "('d, 'b, 'h, 't, 's, 'w) body_env"
  assumes "body_finite (be_frames env) frames" and "prompt (be_frames env)"
  shows "answering (transport_body env clock) raw_open (raw_frames frames)"
  unfolding answering_def
proof (intro allI impI conjI)
  fix b :: "('d, 'b, 'h, 't, 's, 'w) ResponseBody" and w :: "('h, 't, 's) world \<times> nat" and allow
  assume ok: "raw_open b w"
  obtain u n where w: "w = (u, n)" by fastforce
  obtain first now later where clock: "clock n = (first, now, later)" by (metis prod_cases3)
  note ops = transport_body_def [of env clock] and step = await_next.simps [of env clock b u n, unfolded clock prod.case]
  show "\<exists>r c w'. aw_next (transport_body env clock) b w = Some (r, c, w') \<and> raw_open c w' \<and>
      (\<forall>f. r = Some (Inr f) \<longrightarrow> raw_frames frames c < raw_frames frames b)"
  proof (cases "rb_terminal b")
    case True
    then show ?thesis using ok by (simp add: ops w step body_poll_next_def raw_open_def)
  next
    case False
    then obtain src where "open_body b u" "rb_source b = Some (Incoming src)" using ok by (auto simp: raw_open_def w)
    then obtain r c w' where "body_poll_next env first now later b u = Some (Ready r, c, w')" "raw_open c (w', Suc n)"
      "\<And>f. r = Some (Inr f) \<Longrightarrow> raw_frames frames c < raw_frames frames b"
      using raw_poll [OF _ _ assms] by blast
    then show ?thesis by (auto simp: ops w step)
  qed
  show "\<exists>c w'. aw_finish_declared_length (transport_body env clock) allow b w = Some (c, w') \<and> raw_open c w' \<and>
      raw_frames frames c \<le> raw_frames frames b"
  proof (cases "rb_terminal b")
    case True
    then show ?thesis using ok by (simp add: ops w finish_declared_length_def)
  next
    case False
    then have "open_body (b\<lparr>remainder_wait := None\<rparr>) u" using ok open_body_update(2) by (auto simp: raw_open_def w)
    then obtain c w' where "body_finish_now env CleanEof (b\<lparr>remainder_wait := None\<rparr>) u = Some (c, w')" "rb_terminal c"
      using body_finish_terminal [of "b\<lparr>remainder_wait := None\<rparr>" u CleanEof env] by auto
    then show ?thesis using ok by (auto simp: ops w finish_declared_length_def raw_open_def raw_frames_def)
  qed
  show "\<exists>w'. aw_drop (transport_body env clock) b w = Some w'"
  proof (cases "rb_terminal b")
    case True
    then show ?thesis by (simp add: ops w body_drop_def finish_terminal)
  next
    case False
    then have "open_body b u" using ok by (simp add: raw_open_def w)
    then show ?thesis using body_finish_terminal [of b u Drop env] by (auto simp: ops w body_drop_def)
  qed
qed


end
