(* ===== verification/Adapters.thy ===== *)
theory Adapters
  imports Blocking
begin

text \<open>
  The model of \<open>crates/requests/src/adapters.rs\<close>: the connection pool of a Python adapter, which may
  bound the number of responses in use with a semaphore. The semaphore is its number of available
  permits; a wait for one is \<open>None\<close>. A permit is given back when what holds it is dropped.
\<close>

section \<open>The pool\<close>

text \<open>\<open>PoolCapacity\<close>: the semaphore, if there is one. \<open>PoolPermit\<close>: whether a permit is in it.\<close>

type_synonym PoolCapacity = "nat option"
type_synonym PoolPermit = bool

definition adapter_pool_new ::
  "nat \<Rightarrow> bool \<Rightarrow> Proxy option \<Rightarrow> TlsConfig \<Rightarrow> Timeout \<Rightarrow> Error + ('c Transport \<times> PoolCapacity)" where
  "adapter_pool_new maximum_idle_per_host block proxy tls timeout =
     (let builder = builder_timeout (builder_tls (builder_pool_max_idle_per_host builder_default maximum_idle_per_host) tls) timeout;
          builder = (case proxy of Some p \<Rightarrow> builder_proxy builder p | None \<Rightarrow> builder) in
      map_sum id (\<lambda>transport. (transport, if block \<and> maximum_idle_per_host > 0 then Some maximum_idle_per_host else None))
        (builder_build builder))"

definition capacity_acquire :: "PoolCapacity \<Rightarrow> (PoolPermit \<times> PoolCapacity) option" where
  "capacity_acquire self =
     (case self of
        None \<Rightarrow> Some (False, None)
      | Some 0 \<Rightarrow> None
      | Some (Suc n) \<Rightarrow> Some (True, Some n))"

definition drop_permit :: "PoolPermit option \<Rightarrow> PoolCapacity \<Rightarrow> PoolCapacity" where
  "drop_permit permit sem = (if permit = Some True then map_option Suc sem else sem)"

section \<open>Responses and bodies\<close>

record 'r AdapterResponse =
  ar_inner :: 'r
  ar_permit :: PoolPermit

record 'b AdapterResponseBody =
  ab_inner :: "'b BlockingBody"
  ab_permit :: "PoolPermit option"

text \<open>\<open>send_async\<close>, with what the request comes to.\<close>

definition adapter_send ::
  "Error + 'r \<Rightarrow> PoolCapacity \<Rightarrow> ((Error + 'r AdapterResponse) \<times> PoolCapacity) option" where
  "adapter_send outcome sem =
     (case capacity_acquire sem of
        None \<Rightarrow> None
      | Some (permit, sem) \<Rightarrow>
          (case outcome of
             Inl e \<Rightarrow> Some (Inl e, drop_permit (Some permit) sem)
           | Inr inner \<Rightarrow> Some (Inr \<lparr>ar_inner = inner, ar_permit = permit\<rparr>, sem)))"

definition adapter_into_raw_body :: "('r \<Rightarrow> 'b) \<Rightarrow> 'r AdapterResponse \<Rightarrow> 'b AdapterResponseBody" where
  "adapter_into_raw_body into_raw_body self =
     \<lparr>ab_inner = into_blocking_body (into_raw_body (ar_inner self)), ab_permit = Some (ar_permit self)\<rparr>"

text \<open>\<open>read\<close>: the permit is dropped at the end of the body.\<close>

definition adapter_read ::
  "('b, 'w) async_body \<Rightarrow> Error option \<Rightarrow> nat \<Rightarrow> 'b AdapterResponseBody \<Rightarrow> PoolCapacity \<Rightarrow> 'w \<Rightarrow>
   ((Error + bytes) \<times> 'b AdapterResponseBody \<times> PoolCapacity \<times> 'w) option" where
  "adapter_read ops failed n self sem w =
     (case blocking_read ops failed n (ab_inner self) w of
        None \<Rightarrow> None
      | Some (r, inner, w) \<Rightarrow>
          let self = self\<lparr>ab_inner := inner\<rparr> in
          Some (if r = Inr [] \<and> n \<noteq> 0 then (r, self\<lparr>ab_permit := None\<rparr>, drop_permit (ab_permit self) sem, w)
                else (r, self, sem, w)))"

text \<open>The asynchronous reads consume the body: after an error it is dropped, with its permit.\<close>

definition adapter_async ::
  "((Error + 'b BlockingBody \<times> bytes) \<times> 'w) option \<Rightarrow> PoolPermit option \<Rightarrow> PoolCapacity \<Rightarrow>
   ((Error + 'b AdapterResponseBody \<times> bytes) \<times> PoolCapacity \<times> 'w) option" where
  "adapter_async result permit sem =
     (case result of
        None \<Rightarrow> None
      | Some (Inl e, w) \<Rightarrow> Some (Inl e, drop_permit permit sem, w)
      | Some (Inr (inner, bs), w) \<Rightarrow>
          Some (if blocking_is_terminal inner then (Inr (\<lparr>ab_inner = inner, ab_permit = None\<rparr>, bs), drop_permit permit sem, w)
                else (Inr (\<lparr>ab_inner = inner, ab_permit = permit\<rparr>, bs), sem, w)))"

definition adapter_read_async ::
  "('b, 'w) async_body \<Rightarrow> nat option \<Rightarrow> bool \<Rightarrow> 'b AdapterResponseBody \<Rightarrow> PoolCapacity \<Rightarrow> 'w \<Rightarrow>
   ((Error + 'b AdapterResponseBody \<times> bytes) \<times> PoolCapacity \<times> 'w) option" where
  "adapter_read_async ops amount allow self sem w =
     adapter_async (read_async ops amount allow (ab_inner self) w) (ab_permit self) sem"

definition adapter_read_frame_async ::
  "('b, 'w) async_body \<Rightarrow> nat \<Rightarrow> bool \<Rightarrow> 'b AdapterResponseBody \<Rightarrow> PoolCapacity \<Rightarrow> 'w \<Rightarrow>
   ((Error + 'b AdapterResponseBody \<times> bytes) \<times> PoolCapacity \<times> 'w) option" where
  "adapter_read_frame_async ops maximum allow self sem w =
     adapter_async (read_frame_async ops maximum allow (ab_inner self) w) (ab_permit self) sem"

definition adapter_finish_encoded ::
  "('b, 'w) async_body \<Rightarrow> 'b AdapterResponseBody \<Rightarrow> PoolCapacity \<Rightarrow> 'w \<Rightarrow> ('b AdapterResponseBody \<times> PoolCapacity \<times> 'w) option" where
  "adapter_finish_encoded ops self sem w =
     (case finish_encoded_declared_length ops (ab_inner self) w of
        None \<Rightarrow> None
      | Some (inner, w) \<Rightarrow>
          Some (if blocking_is_terminal inner
                then (\<lparr>ab_inner = inner, ab_permit = None\<rparr>, drop_permit (ab_permit self) sem, w)
                else (\<lparr>ab_inner = inner, ab_permit = ab_permit self\<rparr>, sem, w)))"

text \<open>\<open>close\<close> and \<open>close_async\<close>, and the \<open>Drop\<close> of a body.\<close>

definition adapter_close ::
  "('b, 'w) async_body \<Rightarrow> Error option \<Rightarrow> 'b AdapterResponseBody \<Rightarrow> PoolCapacity \<Rightarrow> 'w \<Rightarrow> ((Error + unit) \<times> PoolCapacity \<times> 'w) option" where
  "adapter_close ops failed self sem w =
     map_option (\<lambda>(r, w). (r, drop_permit (ab_permit self) sem, w)) (blocking_close ops failed (ab_inner self) w)"

definition adapter_body_drop ::
  "('b, 'w) async_body \<Rightarrow> 'b AdapterResponseBody \<Rightarrow> PoolCapacity \<Rightarrow> 'w \<Rightarrow> (PoolCapacity \<times> 'w) option" where
  "adapter_body_drop ops self sem w =
     map_option (Pair (drop_permit (ab_permit self) sem)) (blocking_drop ops (ab_inner self) w)"

section \<open>An adapter at work\<close>

text \<open>The responses of a pool, in any order of operations on them.\<close>

datatype ('r, 'b) slot = Head "'r AdapterResponse" | BodySlot "'b AdapterResponseBody" | Gone

datatype 'r adapter_event =
    Send "Error + 'r" | IntoBody nat | DropHead nat
  | Read nat nat "Error option" | ReadAsyncEvent nat "nat option" bool | ReadFrameEvent nat nat bool | FinishEvent nat
  | CloseEvent nat "Error option" | DropBodyEvent nat

record ('r, 'b, 'w) adapter =
  ad_semaphore :: PoolCapacity
  ad_slots :: "('r, 'b) slot list"
  ad_world :: 'w

text \<open>The slot after an operation on a body, with the semaphore and the world.\<close>

definition body_slot ::
  "('b, 'w) async_body \<Rightarrow> 'r adapter_event \<Rightarrow> 'b AdapterResponseBody \<Rightarrow> PoolCapacity \<Rightarrow> 'w \<Rightarrow>
   (('r, 'b) slot \<times> PoolCapacity \<times> 'w) option" where
  "body_slot ops ev body sem w =
     (let async = (\<lambda>(r, sem, w). (case r of Inr (body, _) \<Rightarrow> BodySlot body | Inl _ \<Rightarrow> Gone, sem, w)) in
      case ev of
        Read _ n failed \<Rightarrow> map_option (\<lambda>(_, body, sem, w). (BodySlot body, sem, w)) (adapter_read ops failed n body sem w)
      | ReadAsyncEvent _ amount allow \<Rightarrow> map_option async (adapter_read_async ops amount allow body sem w)
      | ReadFrameEvent _ n allow \<Rightarrow> map_option async (adapter_read_frame_async ops n allow body sem w)
      | FinishEvent _ \<Rightarrow> map_option (\<lambda>(body, sem, w). (BodySlot body, sem, w)) (adapter_finish_encoded ops body sem w)
      | CloseEvent _ failed \<Rightarrow> map_option (\<lambda>(_, sem, w). (Gone, sem, w)) (adapter_close ops failed body sem w)
      | DropBodyEvent _ \<Rightarrow> map_option (\<lambda>(sem, w). (Gone, sem, w)) (adapter_body_drop ops body sem w)
      | _ \<Rightarrow> Some (BodySlot body, sem, w))"

fun event_slot :: "'r adapter_event \<Rightarrow> nat" where
  "event_slot (Send _) = 0"
| "event_slot (IntoBody i) = i"
| "event_slot (DropHead i) = i"
| "event_slot (Read i _ _) = i"
| "event_slot (ReadAsyncEvent i _ _) = i"
| "event_slot (ReadFrameEvent i _ _) = i"
| "event_slot (FinishEvent i) = i"
| "event_slot (CloseEvent i _) = i"
| "event_slot (DropBodyEvent i) = i"

text \<open>A step; \<open>into_raw_body\<close> and \<open>drop_response\<close> are those of the response. \<open>None\<close> waits or panics.\<close>

definition adapter_step ::
  "('b, 'w) async_body \<Rightarrow> ('r \<Rightarrow> 'b) \<Rightarrow> ('r \<Rightarrow> 'w \<Rightarrow> 'w) \<Rightarrow> 'r adapter_event \<Rightarrow> ('r, 'b, 'w) adapter \<Rightarrow> ('r, 'b, 'w) adapter option" where
  "adapter_step ops into_raw_body drop_response ev st =
     (case ev of
        Send outcome \<Rightarrow>
          map_option (\<lambda>(r, sem). st\<lparr>ad_semaphore := sem, ad_slots := ad_slots st @ (case r of Inr a \<Rightarrow> [Head a] | Inl _ \<Rightarrow> [])\<rparr>)
            (adapter_send outcome (ad_semaphore st))
      | _ \<Rightarrow>
          if event_slot ev \<ge> length (ad_slots st) then Some st
          else
            (case ad_slots st ! event_slot ev of
               Head a \<Rightarrow>
                 (case ev of
                    IntoBody i \<Rightarrow> Some (st\<lparr>ad_slots := (ad_slots st)[i := BodySlot (adapter_into_raw_body into_raw_body a)]\<rparr>)
                  | DropHead i \<Rightarrow>
                      Some (st\<lparr>ad_slots := (ad_slots st)[i := Gone], ad_world := drop_response (ar_inner a) (ad_world st),
                        ad_semaphore := drop_permit (Some (ar_permit a)) (ad_semaphore st)\<rparr>)
                  | _ \<Rightarrow> Some st)
             | BodySlot body \<Rightarrow>
                 map_option (\<lambda>(s, sem, w). st\<lparr>ad_slots := (ad_slots st)[event_slot ev := s], ad_semaphore := sem, ad_world := w\<rparr>)
                   (body_slot ops ev body (ad_semaphore st) (ad_world st))
             | Gone \<Rightarrow> Some st))"

fun adapter_run where
  "adapter_run ops into_raw_body drop_response [] st = Some st"
| "adapter_run ops into_raw_body drop_response (ev # evs) st =
     Option.bind (adapter_step ops into_raw_body drop_response ev st) (adapter_run ops into_raw_body drop_response evs)"


section \<open>Lemmas: permits\<close>

definition holds :: "('r, 'b) slot \<Rightarrow> bool" where
  "holds s = (case s of Head a \<Rightarrow> ar_permit a | BodySlot b \<Rightarrow> ab_permit b = Some True | Gone \<Rightarrow> False)"

definition held :: "('r, 'b, 'w) adapter \<Rightarrow> nat" where
  "held st = length (filter holds (ad_slots st))"

lemma length_filter_update:
  "i < length xs \<Longrightarrow> length (filter P (xs[i := x])) + (if P (xs ! i) then 1 else 0) = length (filter P xs) + (if P x then 1 else 0)"
proof (induction xs arbitrary: i)
  case (Cons y ys)
  show ?case
  proof (cases i)
    case (Suc k)
    then show ?thesis using Cons.IH [of k] Cons.prems by simp
  qed simp
qed simp

text \<open>An operation on a body moves a permit from the body to the semaphore, or none.\<close>

lemma adapter_async_permit:
  assumes "adapter_async result permit (Some a) = Some (r, sem, w')"
  shows "\<exists>a'. sem = Some a' \<and> a' + (case r of Inr (b, _) \<Rightarrow> if ab_permit b = Some True then 1 else 0 | Inl _ \<Rightarrow> 0) =
    a + (if permit = Some True then 1 else 0)"
proof -
  obtain q w where result: "result = Some (q, w)" using assms by (cases result) (auto simp: adapter_async_def)
  show ?thesis using assms
    by (cases q) (auto simp: adapter_async_def result drop_permit_def split: if_splits)
qed

lemma body_slot_permit:
  assumes "body_slot ops ev body (Some a) w = Some (s, sem, w')"
  shows "\<exists>a'. sem = Some a' \<and> a' + (if holds s then 1 else 0) = a + (if ab_permit body = Some True then 1 else 0)"
proof -
  have async: ?thesis if answer: "map_option (\<lambda>(r, sem, w). (case r of Inr (body, _) \<Rightarrow> BodySlot body | Inl _ \<Rightarrow> Gone, sem, w))
      (adapter_async result (ab_permit body) (Some a)) = Some (s, sem, w')" for result
  proof -
    obtain r where r: "adapter_async result (ab_permit body) (Some a) = Some (r, sem, w')"
      "s = (case r of Inr (body, _) \<Rightarrow> BodySlot body | Inl _ \<Rightarrow> Gone)" using answer by auto
    show ?thesis using adapter_async_permit [OF r(1)] r(2) by (cases r) (auto simp: holds_def)
  qed
  show ?thesis
  proof (cases ev)
    case (Read i n failed)
    then show ?thesis using assms
      by (auto simp: body_slot_def adapter_read_def drop_permit_def holds_def Let_def split: option.splits if_splits)
  next
    case (ReadAsyncEvent i amount allow)
    then show ?thesis using assms async by (simp add: body_slot_def adapter_read_async_def)
  next
    case (ReadFrameEvent i n allow)
    then show ?thesis using assms async by (simp add: body_slot_def adapter_read_frame_async_def)
  qed (use assms in \<open>auto simp: body_slot_def adapter_finish_encoded_def adapter_close_def adapter_body_drop_def drop_permit_def
      holds_def Let_def split: option.splits if_splits\<close>)
qed

lemma adapter_send_permit:
  assumes "adapter_send outcome (Some a) = Some (r, sem)"
  shows "\<exists>a'. sem = Some a' \<and> a' + (case r of Inr x \<Rightarrow> if ar_permit x then 1 else 0 | Inl _ \<Rightarrow> 0) = a"
  using assms
  by (cases a; cases outcome) (auto simp: adapter_send_def capacity_acquire_def drop_permit_def)

lemma adapter_step_permits:
  assumes "ad_semaphore st = Some a" and "a + held st = n" and "adapter_step ops into_raw_body drop_response ev st = Some st'"
  shows "\<exists>a'. ad_semaphore st' = Some a' \<and> a' + held st' = n"
proof (cases "\<exists>outcome. ev = Send outcome")
  case True
  then obtain outcome r sem where s: "ev = Send outcome" "adapter_send outcome (Some a) = Some (r, sem)"
    "st' = st\<lparr>ad_semaphore := sem, ad_slots := ad_slots st @ (case r of Inr a \<Rightarrow> [Head a] | Inl _ \<Rightarrow> [])\<rparr>"
    using assms(1,3) by (auto simp: adapter_step_def)
  show ?thesis using adapter_send_permit [OF s(2)] s(3) assms(2)
    by (cases r) (auto simp: held_def holds_def)
next
  case False
  let ?i = "event_slot ev"
  have moved: "\<exists>a'. sem = Some a' \<and> a' + length (filter holds ((ad_slots st)[?i := s])) = n"
    if "?i < length (ad_slots st)" "\<exists>a'. sem = Some a' \<and> a' + (if holds s then 1 else 0) = a + (if holds (ad_slots st ! ?i) then 1 else 0)" for s sem
    using that length_filter_update [OF that(1), of holds s] assms(2) by (auto simp: held_def split: if_splits)
  show ?thesis
  proof (cases "?i < length (ad_slots st)")
    case True
    show ?thesis
    proof (cases "ad_slots st ! ?i")
      case (Head x)
      then show ?thesis using False assms moved [OF True, of "Some a" "BodySlot (adapter_into_raw_body into_raw_body x)"]
          moved [OF True, of "drop_permit (Some (ar_permit x)) (Some a)" Gone] True
        by (cases ev) (auto simp: adapter_step_def holds_def adapter_into_raw_body_def drop_permit_def held_def split: if_splits)
    next
      case (BodySlot body)
      then obtain s sem w where s: "body_slot ops ev body (Some a) (ad_world st) = Some (s, sem, w)"
        "st' = st\<lparr>ad_slots := (ad_slots st)[?i := s], ad_semaphore := sem, ad_world := w\<rparr>"
        using assms(1,3) True False by (cases ev) (auto simp: adapter_step_def)
      have "holds (ad_slots st ! ?i) \<longleftrightarrow> ab_permit body = Some True" using BodySlot by (simp add: holds_def)
      then show ?thesis using moved [OF True, of sem s] body_slot_permit [OF s(1)] s(2) by (simp add: held_def)
    next
      case Gone
      then show ?thesis using assms True False by (cases ev) (simp_all add: adapter_step_def)
    qed
  next
    case out: False
    then show ?thesis using assms False by (cases ev) (simp_all add: adapter_step_def)
  qed
qed

lemma adapter_run_permits:
  "ad_semaphore st = Some a \<Longrightarrow> a + held st = n \<Longrightarrow> adapter_run ops into_raw_body drop_response evs st = Some st' \<Longrightarrow>
   \<exists>a'. ad_semaphore st' = Some a' \<and> a' + held st' = n"
proof (induction evs arbitrary: st a)
  case (Cons ev evs)
  then obtain u where u: "adapter_step ops into_raw_body drop_response ev st = Some u" "adapter_run ops into_raw_body drop_response evs u = Some st'"
    by (auto simp: bind_eq_Some_conv)
  then show ?case using adapter_step_permits [OF Cons.prems(1,2) u(1)] Cons.IH by blast
qed simp

section \<open>Lemmas: open responses\<close>

text \<open>
  A response is open from its head on until its body has been read to the end, closed or dropped; a
  body may hold its permit a little longer, after an error. What a body holds back is never empty.
\<close>

definition open_response :: "('r, 'b) slot \<Rightarrow> bool" where
  "open_response s = (case s of Head _ \<Rightarrow> True | BodySlot b \<Rightarrow> \<not> blocking_is_terminal (ab_inner b) | Gone \<Rightarrow> False)"

definition open_responses :: "('r, 'b, 'w) adapter \<Rightarrow> nat" where
  "open_responses st = length (filter open_response (ad_slots st))"

definition slot_ok :: "('r, 'b) slot \<Rightarrow> bool" where
  "slot_ok s \<longleftrightarrow> (open_response s \<longrightarrow> holds s) \<and> (\<forall>b. s = BodySlot b \<longrightarrow> bb_remainder (ab_inner b) \<noteq> Some [])"

lemma next_frame_nonempty:
  assumes "next_frame ops b w = Some x"
  shows "fst x \<noteq> Some (Inr [])"
  by (rule next_frame.raw_induct [where P = "\<lambda>ops b w x. fst x \<noteq> Some (Inr [])", OF _ assms])
    (auto split: option.splits sum.splits list.splits prod.splits)

lemma read_loop_remainder:
  assumes "read_loop ops amount allow fill self out body w = Some x" and "bb_remainder self \<noteq> Some []"
  shows "case fst x of Inr (self', _) \<Rightarrow> bb_remainder self' \<noteq> Some [] | Inl _ \<Rightarrow> True"
proof -
  have "bb_remainder self \<noteq> Some [] \<longrightarrow> (case fst x of Inr (self', _) \<Rightarrow> bb_remainder self' \<noteq> Some [] | Inl _ \<Rightarrow> True)"
    by (rule read_loop.raw_induct [where P = "\<lambda>ops amount allow fill self out body w x. bb_remainder self \<noteq> Some [] \<longrightarrow>
          (case fst x of Inr (self', _) \<Rightarrow> bb_remainder self' \<noteq> Some [] | Inl _ \<Rightarrow> True)", OF _ assms(1)])
      (fastforce simp: Let_def split: option.splits sum.splits prod.splits if_splits)
  then show ?thesis using assms(2) by blast
qed

lemma finish_if_empty_remainder:
  assumes "finish_declared_length_if_buffer_empty ops allow self w = Some (self', w')"
  shows "bb_remainder self' = bb_remainder self \<and> bb_pending_error self' = bb_pending_error self \<and> (bb_terminal self \<longrightarrow> bb_terminal self')"
  using assms by (auto simp: finish_declared_length_if_buffer_empty_def split: option.splits if_splits)

text \<open>A body that is over stays over, and a read of nothing, with room for something, ends it.\<close>

lemma read_async_slot:
  assumes "read_async_inner ops amount allow fill self w = Some (Inr (self', out), w')" and "bb_remainder self \<noteq> Some []"
  shows "bb_remainder self' \<noteq> Some []" and "blocking_is_terminal self \<Longrightarrow> blocking_is_terminal self'"
proof -
  show "blocking_is_terminal self'" if "blocking_is_terminal self"
    using assms(1) that by (auto simp: read_async_inner_def take_remainder_def blocking_is_terminal_def split: if_splits)
  have t: "bb_remainder self1 \<noteq> Some []" if "take_remainder ops amount allow self w = Some (q (self1, o1, w1))" "q = Inl \<or> q = Inr" for q self1 o1 w1
    using that assms(2) finish_if_empty_remainder
    by (fastforce simp: take_remainder_def Let_def split: option.splits if_splits)
  show "bb_remainder self' \<noteq> Some []"
    using assms t read_loop_remainder
    by (fastforce simp: read_async_inner_def split: if_splits option.splits sum.splits prod.splits)
qed

lemma blocking_read_slot:
  assumes "blocking_read ops failed n self w = Some (r, self', w')" and "bb_remainder self \<noteq> Some []"
  shows "bb_remainder self' \<noteq> Some []" and "blocking_is_terminal self \<Longrightarrow> blocking_is_terminal self'"
    and "r = Inr [] \<Longrightarrow> n \<noteq> 0 \<Longrightarrow> blocking_is_terminal self'"
proof -
  have "bb_remainder self' \<noteq> Some [] \<and> (blocking_is_terminal self \<longrightarrow> blocking_is_terminal self') \<and>
    (r = Inr [] \<and> n \<noteq> 0 \<longrightarrow> blocking_is_terminal self')"
  proof (cases "n = 0")
    case True
    then show ?thesis using assms by (simp add: blocking_read_def)
  next
    case n: False
    show ?thesis
    proof (cases "bb_remainder self")
      case (Some rem)
      then obtain out rest where c: "copy_frame n rem = (out, rest)" "out \<noteq> []" "rest \<noteq> Some []"
        using n assms(2) by (auto simp: copy_frame_def)
      then obtain self1 w1 where "finish_declared_length_if_buffer_empty ops False (self\<lparr>bb_remainder := rest\<rparr>) w = Some (self1, w1)"
        "r = Inr out" "self' = self1" using assms(1) n Some by (auto simp: blocking_read_def)
      then show ?thesis using c Some finish_if_empty_remainder by (fastforce simp: blocking_is_terminal_def)
    next
      case None
      show ?thesis
      proof (cases "bb_pending_error self \<noteq> None \<or> bb_terminal self \<or> bb_inner self = None \<or> failed \<noteq> None")
        case True
        then show ?thesis using assms(1) n None by (auto simp: blocking_read_def blocking_is_terminal_def split: option.splits if_splits)
      next
        case False
        then obtain body where body: "bb_inner self = Some body" by auto
        obtain f b1 w1 where f: "next_frame ops body w = Some (f, b1, w1)"
          using assms(1) n None False body by (cases "next_frame ops body w") (auto simp: blocking_read_def)
        have ne: "f \<noteq> Some (Inr [])" using next_frame_nonempty [OF f] by simp
        show ?thesis
        proof (cases "\<exists>frame. f = Some (Inr frame)")
          case True
          then obtain frame where frame: "f = Some (Inr frame)" "frame \<noteq> []" using ne by auto
          obtain out rest where c: "copy_frame n frame = (out, rest)" "out \<noteq> []" "rest \<noteq> Some []"
            using n frame(2) by (auto simp: copy_frame_def)
          then have "r = Inr out \<and> bb_remainder self' = rest"
            using assms(1) n None False body f frame
            by (auto simp: blocking_read_def bind_eq_Some_conv Let_def split: if_splits)
          then show ?thesis using c False by (simp add: blocking_is_terminal_def)
        next
          case over: False
          then have "bb_terminal self' \<and> bb_remainder self' = None \<and> bb_pending_error self' = None"
            using assms(1) n None False body f
            by (auto simp: blocking_read_def bind_eq_Some_conv Let_def split: if_splits option.splits sum.splits)
          then show ?thesis by (simp add: blocking_is_terminal_def)
        qed
      qed
    qed
  qed
  then show "bb_remainder self' \<noteq> Some []" "blocking_is_terminal self \<Longrightarrow> blocking_is_terminal self'"
    "r = Inr [] \<Longrightarrow> n \<noteq> 0 \<Longrightarrow> blocking_is_terminal self'" by blast+
qed

lemma adapter_async_slot:
  fixes body' :: "'b AdapterResponseBody"
  assumes "adapter_async (read_async_inner ops amount allow fill (ab_inner body) w) (ab_permit body) sem = Some (Inr (body', bs), sem', w')"
    and "slot_ok (BodySlot body)"
  shows "slot_ok (BodySlot body')"
proof -
  obtain inner w1 where r: "read_async_inner ops amount allow fill (ab_inner body) w = Some (Inr (inner, bs), w1)"
    "body' = (if blocking_is_terminal inner then \<lparr>ab_inner = inner, ab_permit = None\<rparr> else \<lparr>ab_inner = inner, ab_permit = ab_permit body\<rparr>)"
    using assms(1) by (auto simp: adapter_async_def split: option.splits sum.splits if_splits)
  show ?thesis using read_async_slot [OF r(1)] assms(2) r(2) by (auto simp: slot_ok_def open_response_def holds_def)
qed

lemma body_slot_ok:
  fixes s :: "('r, 'b) slot"
  assumes "body_slot ops ev body sem w = Some (s, sem', w')" and "slot_ok (BodySlot body :: ('r, 'b) slot)"
  shows "slot_ok s"
proof -
  have gone: "slot_ok (Gone :: ('r, 'b) slot)" by (simp add: slot_ok_def open_response_def)
  have async: ?thesis if answer: "map_option (\<lambda>(r, sem, w). (case r of Inr (body, _) \<Rightarrow> BodySlot body | Inl _ \<Rightarrow> Gone, sem, w))
      (adapter_async (read_async_inner ops amount allow fill (ab_inner body) w) (ab_permit body) sem) = Some (s, sem', w')" for amount allow fill
  proof -
    obtain r where r: "adapter_async (read_async_inner ops amount allow fill (ab_inner body) w) (ab_permit body) sem = Some (r, sem', w')"
      "s = (case r of Inr (body, _) \<Rightarrow> BodySlot body | Inl _ \<Rightarrow> Gone)" using answer by auto
    show ?thesis
    proof (cases r)
      case (Inl e)
      then show ?thesis using r(2) gone by simp
    next
      case (Inr y)
      then show ?thesis using r adapter_async_slot [OF _ assms(2)] by (cases y) simp
    qed
  qed
  show ?thesis
  proof (cases ev)
    case (Read i n failed)
    then obtain r inner w1 where r: "blocking_read ops failed n (ab_inner body) w = Some (r, inner, w1)"
      "s = BodySlot (if r = Inr [] \<and> n \<noteq> 0 then body\<lparr>ab_inner := inner, ab_permit := None\<rparr> else body\<lparr>ab_inner := inner\<rparr>)"
      using assms(1) by (auto simp: body_slot_def adapter_read_def Let_def split: option.splits if_splits)
    show ?thesis using blocking_read_slot [OF r(1)] assms(2) r(2) by (auto simp: slot_ok_def open_response_def holds_def)
  next
    case (ReadAsyncEvent i amount allow)
    then show ?thesis using assms(1) async by (simp add: body_slot_def adapter_read_async_def read_async_def)
  next
    case (ReadFrameEvent i n allow)
    then show ?thesis using assms(1) async by (simp add: body_slot_def adapter_read_frame_async_def read_frame_async_def)
  next
    case (FinishEvent i)
    then obtain inner w1 where f: "finish_declared_length_if_buffer_empty ops True (ab_inner body) w = Some (inner, w1)"
      "s = BodySlot (if blocking_is_terminal inner then \<lparr>ab_inner = inner, ab_permit = None\<rparr> else \<lparr>ab_inner = inner, ab_permit = ab_permit body\<rparr>)"
      using assms(1)
      by (auto simp: body_slot_def adapter_finish_encoded_def finish_encoded_declared_length_def split: option.splits if_splits)
    show ?thesis using finish_if_empty_remainder [OF f(1)] assms(2) f(2)
      by (auto simp: slot_ok_def open_response_def holds_def blocking_is_terminal_def)
  qed (use assms gone in \<open>auto simp: body_slot_def\<close>)
qed

lemma adapter_step_slots:
  assumes "adapter_step ops into_raw_body drop_response ev st = Some st'" and "\<exists>a. ad_semaphore st = Some a"
    and "\<forall>s \<in> set (ad_slots st). slot_ok s"
  shows "\<forall>s \<in> set (ad_slots st'). slot_ok s"
proof (cases "\<exists>outcome. ev = Send outcome")
  case True
  then obtain outcome where o: "ev = Send outcome" by blast
  obtain a where a: "ad_semaphore st = Some a" using assms(2) by blast
  show ?thesis using assms(1,3) a
    by (cases a; cases outcome)
      (auto simp: o adapter_step_def adapter_send_def capacity_acquire_def slot_ok_def open_response_def holds_def)
next
  case False
  let ?i = "event_slot ev"
  have upd: "\<forall>s \<in> set ((ad_slots st)[?i := s]). slot_ok s" if "slot_ok s" for s
    using that assms(3) set_update_subset_insert [of "ad_slots st" ?i s] by auto
  show ?thesis
  proof (cases "?i < length (ad_slots st)")
    case True
    then have ok: "slot_ok (ad_slots st ! ?i)" using assms(3) by simp
    show ?thesis
    proof (cases "ad_slots st ! ?i")
      case (Head x)
      have "slot_ok Gone" "slot_ok (BodySlot (adapter_into_raw_body into_raw_body x))"
        using ok Head by (auto simp: slot_ok_def open_response_def holds_def adapter_into_raw_body_def into_blocking_body_def)
      then have "\<forall>s \<in> set ((ad_slots st)[?i := Gone]). slot_ok s"
        "\<forall>s \<in> set ((ad_slots st)[?i := BodySlot (adapter_into_raw_body into_raw_body x)]). slot_ok s" using upd by blast+
      then show ?thesis using assms False True Head by (cases ev) (auto simp: adapter_step_def)
    next
      case (BodySlot body)
      then obtain s sem w where s: "body_slot ops ev body (ad_semaphore st) (ad_world st) = Some (s, sem, w)"
        "st' = st\<lparr>ad_slots := (ad_slots st)[?i := s], ad_semaphore := sem, ad_world := w\<rparr>"
        using assms(1) True False by (cases ev) (auto simp: adapter_step_def)
      show ?thesis using upd [OF body_slot_ok [OF s(1)]] ok BodySlot s(2) by simp
    next
      case Gone
      then show ?thesis using assms True False by (cases ev) (simp_all add: adapter_step_def)
    qed
  next
    case out: False
    then show ?thesis using assms False by (cases ev) (simp_all add: adapter_step_def)
  qed
qed

lemma adapter_run_slots:
  "ad_semaphore st = Some a \<Longrightarrow> a + held st = n \<Longrightarrow> \<forall>s \<in> set (ad_slots st). slot_ok s \<Longrightarrow>
   adapter_run ops into_raw_body drop_response evs st = Some st' \<Longrightarrow> \<forall>s \<in> set (ad_slots st'). slot_ok s"
proof (induction evs arbitrary: st a)
  case (Cons ev evs)
  then obtain u where u: "adapter_step ops into_raw_body drop_response ev st = Some u" "adapter_run ops into_raw_body drop_response evs u = Some st'"
    by (auto simp: bind_eq_Some_conv)
  have "\<forall>s \<in> set (ad_slots u). slot_ok s" using adapter_step_slots [OF u(1)] Cons.prems(1,3) by blast
  then show ?case using adapter_step_permits [OF Cons.prems(1,2) u(1)] Cons.IH u(2) by blast
qed simp

lemma filter_length_le: "\<forall>x \<in> set xs. P x \<longrightarrow> Q x \<Longrightarrow> length (filter P xs) \<le> length (filter Q xs)"
  by (induction xs) auto

section \<open>Properties: the capacity of an adapter\<close>

text \<open>
  C14. A blocking pool never has more responses open than it was made for. However its responses are
  used (turned into bodies, read, completed, closed, dropped, failing in between), each one that is
  open, from its head to the end of its body, holds a permit of its own; the available permits and
  those held always add up to the maximum, so none is lost or returned twice, and a request waits for
  a permit exactly when all of them are held.
\<close>
theorem adapter_capacity_kept:
  assumes "adapter_pool_new n True proxy tls timeout = Inr (transport, sem)" and "n > 0"
    and "adapter_run ops into_raw_body drop_response evs \<lparr>ad_semaphore = sem, ad_slots = [], ad_world = w\<rparr> = Some st"
  shows "open_responses st \<le> n \<and> (\<forall>s \<in> set (ad_slots st). open_response s \<longrightarrow> holds s) \<and>
    (\<exists>a. ad_semaphore st = Some a \<and> a + held st = n) \<and>
    (adapter_step ops into_raw_body drop_response (Send outcome) st = None \<longleftrightarrow> held st = n)"
proof -
  let ?start = "\<lparr>ad_semaphore = sem, ad_slots = [], ad_world = w\<rparr>"
  have sem: "sem = Some n" using assms(1,2) by (auto simp: adapter_pool_new_def Let_def map_sum_def split: sum.splits)
  obtain a where a: "ad_semaphore st = Some a" "a + held st = n"
    using adapter_run_permits [OF _ _ assms(3), of n n] sem by (auto simp: held_def)
  moreover have "adapter_step ops into_raw_body drop_response (Send outcome) st = None \<longleftrightarrow> a = 0"
    using a(1) by (cases a; cases outcome) (auto simp: adapter_step_def adapter_send_def capacity_acquire_def)
  moreover have ok: "\<forall>s \<in> set (ad_slots st). slot_ok s"
    by (rule adapter_run_slots [OF _ _ _ assms(3), of n n]) (simp_all add: sem held_def)
  moreover have "open_responses st \<le> held st"
    unfolding open_responses_def held_def by (rule filter_length_le) (use ok in \<open>simp add: slot_ok_def\<close>)
  ultimately show ?thesis by (auto simp: slot_ok_def)
qed

text \<open>Two permits: both are taken, a body that is closed gives one back, and another request takes it.\<close>

definition quick_body :: "(unit, unit) async_body" where
  "quick_body = \<lparr>aw_next = (\<lambda>b w. Some (None, b, w)), aw_finish_declared_length = (\<lambda>_ b w. Some (b, w)), aw_is_terminal = (\<lambda>_. False),
     aw_drop = (\<lambda>_ w. Some w), aw_close = (\<lambda>_ w. Some (Inr (), w))\<rparr>"

definition two_permits :: "(unit, unit, unit) adapter" where
  "two_permits = \<lparr>ad_semaphore = Some 2, ad_slots = [], ad_world = ()\<rparr>"

theorem adapter_capacity_kept_witness:
  "\<exists>st. adapter_run quick_body id (\<lambda>_ w. w) [Send (Inr ()), Send (Inr ()), IntoBody 0, CloseEvent 0 None, Send (Inr ())] two_permits = Some st \<and>
     open_responses st = 2 \<and> adapter_step quick_body id (\<lambda>_ w. w) (Send (Inr ())) st = None"
proof -
  let ?evs = "[Send (Inr ()), Send (Inr ()), IntoBody 0, CloseEvent 0 None, Send (Inr ())]"
  let ?timeout = "\<lparr>timeout_connect = None, timeout_read = None, timeout_total = None\<rparr>"
  let ?tls = "\<lparr>tls_roots = Platform, tls_identity = None\<rparr>"
  obtain transport :: "unit Transport" where new: "adapter_pool_new 2 True None ?tls ?timeout = Inr (transport, Some 2)"
    by (simp add: adapter_pool_new_def builder_build_def builder_default_def builder_timeout_def builder_tls_def
        builder_pool_max_idle_per_host_def)
  obtain st where st: "adapter_run quick_body id (\<lambda>_ w. w) ?evs two_permits = Some st" "ad_semaphore st = Some 0" "open_responses st = 2"
    by (simp add: open_responses_def open_response_def two_permits_def adapter_step_def adapter_send_def capacity_acquire_def adapter_into_raw_body_def body_slot_def
        adapter_close_def blocking_close_def into_blocking_body_def drop_permit_def quick_body_def numeral_2_eq_2)
  from adapter_capacity_kept [OF new _ st(1) [unfolded two_permits_def], of "Inr ()"] st show ?thesis by auto
qed

end
