(* ===== verification/Bridge.thy ===== *)
theory Bridge
  imports Prelude
begin

text \<open>
  The model of \<open>crates/requests-python/src/bridge.rs\<close>, over which a worker on the runtime asks the
  Python thread for one action after another. A worker is a function of the answers it has had, one
  for each action: the actions it has asked for, and whether it waits for the answer to the last of
  them. The locale \<open>worker\<close> has the laws of such a function; the workers of the crate interpret it.
\<close>

datatype BridgeClosed = ActionReceiver | ReplySender

definition bridge_closed_display :: "BridgeClosed \<Rightarrow> rstr" where
  "bridge_closed_display e =
     (case e of
        ActionReceiver \<Rightarrow> lit ''Python action receiver closed''
      | ReplySender \<Rightarrow> lit ''Python action reply sender closed'')"

datatype 'o progress = Waiting | Finished 'o | Panicked

type_synonym ('a, 'r, 'o) worker = "(BridgeClosed + 'r) list \<Rightarrow> 'a list \<times> 'o progress"

definition worker_returns :: "'o \<Rightarrow> ('a, 'r, 'o) worker" where
  "worker_returns outcome answers = ([], Finished outcome)"

definition worker_panics :: "('a, 'r, 'o) worker" where
  "worker_panics answers = ([], Panicked)"

text \<open>\<open>request\<close>: the action is asked for, and the answer given to the rest of the worker.\<close>

definition bridge_request :: "'a \<Rightarrow> (BridgeClosed + 'r \<Rightarrow> ('a, 'r, 'o) worker) \<Rightarrow> ('a, 'r, 'o) worker" where
  "bridge_request action k answers =
     (case answers of
        [] \<Rightarrow> ([action], Waiting)
      | answer # rest \<Rightarrow> let (asked, p) = k answer rest in (action # asked, p))"

lemma bridge_simps [simp]:
  "bridge_request action k [] = ([action], Waiting)"
  "bridge_request action k (answer # rest) = (action # fst (k answer rest), snd (k answer rest))"
  "worker_returns outcome answers = ([], Finished outcome)"
  "worker_panics answers = ([], Panicked)"
  by (simp_all add: bridge_request_def worker_returns_def worker_panics_def case_prod_beta)

section \<open>The laws of a worker\<close>

locale worker =
  fixes w :: "('a, 'r, 'o) worker"
  assumes waiting_asks: "w answers = (asked, Waiting) \<Longrightarrow> length asked = Suc (length answers)"
    and ended_asks: "w answers = (asked, p) \<Longrightarrow> p \<noteq> Waiting \<Longrightarrow> length asked \<le> length answers"
    and answered_extends: "w answers = (asked, Waiting) \<Longrightarrow> take (length asked) (fst (w (answers @ [answer]))) = asked"
begin

text \<open>The action a waiting worker has asked for last.\<close>

lemma waiting_last:
  assumes "w answers = (asked, Waiting)"
  shows "asked = butlast asked @ [last asked]" "length (butlast asked) = length answers"
proof -
  have "asked \<noteq> []" using waiting_asks [OF assms] by (metis length_0_conv nat.distinct(1))
  then show "asked = butlast asked @ [last asked]" by simp
  show "length (butlast asked) = length answers" using waiting_asks [OF assms] by simp
qed

text \<open>What had been asked for before an answer is what the answers so far were given to.\<close>

lemma answered_prefix:
  assumes "w answers = (asked, Waiting)"
  shows "take (length (answers @ [answer])) (fst (w (answers @ [answer]))) = take (length answers) asked @ [last asked]"
proof -
  have "take (length asked) (fst (w (answers @ [answer]))) = butlast asked @ [last asked]"
    using answered_extends [OF assms] waiting_last(1) [OF assms] by simp
  moreover have "butlast asked = take (length answers) asked"
    using waiting_asks [OF assms] by (simp add: butlast_conv_take)
  ultimately show ?thesis using waiting_asks [OF assms] by simp
qed

end

lemma worker_returns_ok [intro!, simp]: "worker (worker_returns outcome)"
  by unfold_locales simp_all

lemma worker_panics_ok [intro!, simp]: "worker worker_panics"
  by unfold_locales auto

lemma bridge_request_ok [intro!, simp]:
  assumes "\<And>answer. worker (k answer)"
  shows "worker (bridge_request action k)"
proof
  fix answers asked p answer
  note laws = worker.waiting_asks [OF assms] worker.ended_asks [OF assms] worker.answered_extends [OF assms]
  show "bridge_request action k answers = (asked, Waiting) \<Longrightarrow> length asked = Suc (length answers)"
    by (cases answers; cases "k (hd answers) (tl answers)") (auto dest: laws)
  show "bridge_request action k answers = (asked, p) \<Longrightarrow> p \<noteq> Waiting \<Longrightarrow> length asked \<le> length answers"
    by (cases answers; cases "k (hd answers) (tl answers)") (auto dest: laws)
  show "bridge_request action k answers = (asked, Waiting) \<Longrightarrow>
      take (length asked) (fst (bridge_request action k (answers @ [answer]))) = asked"
    by (cases answers; cases "k (hd answers) (tl answers)") (auto dest: laws(3) [where answer = answer])
qed

end
