(* ===== verification/Quarantine.thy ===== *)
theory Quarantine
  imports Submission "HOL-Library.Multiset"
begin

text \<open>
  The quarantine of \<open>crates/requests-python/src/runtime.rs\<close>: the owner of the Python objects of a
  cancelled operation stays there until the operation's task on the runtime has ended. The entries
  are a list, the thread's variables and the counter of tokens a record; waiting threads are steps.
\<close>

section \<open>The quarantine\<close>

datatype SessionCancellationPhase =
    CancelBeforePoll | CancelQueuedBeforeDequeue | CancelReplyObserved | CancelTerminalAfterTimeout
  | CancelPermanentlyNonterminal

datatype 'r ActionReplyDisposition = Reply 'r | Withhold SessionCancellationPhase

record OriginQuarantineRetentionAudit =
  audit_phase :: SessionCancellationPhase
  audit_observed_phase :: SessionCancellationPhase
  audit_terminal :: bool

definition audit_retain :: "SessionCancellationPhase \<Rightarrow> bool \<Rightarrow> OriginQuarantineRetentionAudit" where
  "audit_retain phase terminal = \<lparr>audit_phase = phase, audit_observed_phase = phase, audit_terminal = terminal\<rparr>"

definition can_reap :: "OriginQuarantineRetentionAudit \<Rightarrow> bool" where
  "can_reap self \<longleftrightarrow> audit_terminal self \<and> audit_phase self \<noteq> CancelPermanentlyNonterminal \<and>
     audit_observed_phase self \<noteq> CancelPermanentlyNonterminal"

definition with_observed_phase ::
  "OriginQuarantineRetentionAudit \<Rightarrow> SessionCancellationPhase \<Rightarrow> OriginQuarantineRetentionAudit" where
  "with_observed_phase self observed = self\<lparr>audit_observed_phase := observed\<rparr>"

text \<open>\<open>q_actions\<close> says that the receiver of the actions is held.\<close>

record 'own QuarantinedOrigin =
  q_token :: u64
  q_terminal :: bool
  q_phase :: SessionCancellationPhase
  q_actions :: bool
  q_owner :: "'own option"

definition retention_audit :: "'own QuarantinedOrigin \<Rightarrow> OriginQuarantineRetentionAudit" where
  "retention_audit self =
     with_observed_phase
       (audit_retain (if q_terminal self then CancelTerminalAfterTimeout else CancelPermanentlyNonterminal) (q_terminal self))
       (q_phase self)"

definition take_owner :: "'own QuarantinedOrigin \<Rightarrow> 'own option \<times> 'own QuarantinedOrigin" where
  "take_owner self = (q_owner self, self\<lparr>q_owner := None\<rparr>)"

text \<open>
  The thread's variables, the counter of tokens all threads share, and what has become of owners in
  the quarantine: destroyed, forgotten, or handed out, with their tokens.
\<close>

record 'own origin =
  ORIGIN_QUARANTINE :: "'own QuarantinedOrigin list"
  LAST_ORIGIN_QUARANTINE_TOKEN :: "u64 option"
  ACTIVE_ORIGIN_SUBMISSION :: "u64 option"
  NEXT_ORIGIN_QUARANTINE_TOKEN :: u64
  owners_destroyed :: "(u64 \<times> 'own) list"
  owners_forgotten :: "(u64 \<times> 'own) list"
  owners_taken :: "(u64 \<times> 'own) list"

definition owner_of :: "'own QuarantinedOrigin \<Rightarrow> (u64 \<times> 'own) list" where
  "owner_of e = (case q_owner e of Some owner \<Rightarrow> [(q_token e, owner)] | None \<Rightarrow> [])"

text \<open>The drop of an entry.\<close>

definition drop_entry :: "'own QuarantinedOrigin \<Rightarrow> 'own origin \<Rightarrow> 'own origin" where
  "drop_entry e s =
     (if \<not> q_terminal e then s\<lparr>owners_forgotten := owners_forgotten s @ owner_of e\<rparr>
      else s\<lparr>owners_destroyed := owners_destroyed s @ owner_of e\<rparr>)"

definition reap_origin_quarantine :: "'own origin \<Rightarrow> 'own origin" where
  "reap_origin_quarantine s =
     fold drop_entry (filter (\<lambda>e. can_reap (retention_audit e)) (ORIGIN_QUARANTINE s))
       (s\<lparr>ORIGIN_QUARANTINE := filter (\<lambda>e. \<not> can_reap (retention_audit e)) (ORIGIN_QUARANTINE s)\<rparr>)"

text \<open>A submission that is there is given to a thread that waits for it; see \<open>waiter_terminal\<close>.\<close>

definition retain_origin_after_cancellation ::
  "'v BlockingSubmission option \<Rightarrow> 'own \<Rightarrow> SessionCancellationPhase \<Rightarrow> 'own origin \<Rightarrow> u64 \<times> 'own origin" where
  "retain_origin_after_cancellation submission owner phase s =
     (let token = NEXT_ORIGIN_QUARANTINE_TOKEN s in
      (token,
       s\<lparr>NEXT_ORIGIN_QUARANTINE_TOKEN := token + 1,
         ORIGIN_QUARANTINE := ORIGIN_QUARANTINE s @
           [\<lparr>q_token = token, q_terminal = (submission = None), q_phase = phase, q_actions = True, q_owner = Some owner\<rparr>],
         LAST_ORIGIN_QUARANTINE_TOKEN := Some token\<rparr>))"

definition quarantine_origin_until_terminal ::
  "'v BlockingSubmission \<Rightarrow> 'own \<Rightarrow> SessionCancellationPhase \<Rightarrow> 'own origin \<Rightarrow> 'own origin" where
  "quarantine_origin_until_terminal submission owner phase s =
     snd (retain_origin_after_cancellation (Some submission) owner phase s)"

text \<open>The waiting thread has returned from \<open>wait\<close> and stores that the task has ended.\<close>

definition waiter_terminal :: "u64 \<Rightarrow> 'own origin \<Rightarrow> 'own origin" where
  "waiter_terminal token s =
     s\<lparr>ORIGIN_QUARANTINE := map (\<lambda>e. if q_token e = token then e\<lparr>q_terminal := True\<rparr> else e) (ORIGIN_QUARANTINE s)\<rparr>"

definition take_last_origin_quarantine_token :: "'own origin \<Rightarrow> u64 option \<times> 'own origin" where
  "take_last_origin_quarantine_token s = (LAST_ORIGIN_QUARANTINE_TOKEN s, s\<lparr>LAST_ORIGIN_QUARANTINE_TOKEN := None\<rparr>)"

definition last_origin_quarantine_token :: "'own origin \<Rightarrow> u64 option" where
  "last_origin_quarantine_token s = LAST_ORIGIN_QUARANTINE_TOKEN s"

definition find_entry :: "u64 \<Rightarrow> 'own origin \<Rightarrow> 'own QuarantinedOrigin option" where
  "find_entry token s = find (\<lambda>e. q_token e = token) (ORIGIN_QUARANTINE s)"

definition origin_quarantine_is_terminal :: "u64 \<Rightarrow> 'own origin \<Rightarrow> bool option" where
  "origin_quarantine_is_terminal token s = map_option (\<lambda>e. can_reap (retention_audit e)) (find_entry token s)"

definition origin_quarantine_retains_owner :: "u64 \<Rightarrow> 'own origin \<Rightarrow> bool" where
  "origin_quarantine_retains_owner token s = (case find_entry token s of Some e \<Rightarrow> q_owner e \<noteq> None | None \<Rightarrow> False)"

text \<open>\<open>Vec::remove\<close> of the entry found, and the slot of the last token afterwards.\<close>

fun remove_entry :: "u64 \<Rightarrow> 'own QuarantinedOrigin list \<Rightarrow> 'own QuarantinedOrigin list" where
  "remove_entry token [] = []"
| "remove_entry token (e # es) = (if q_token e = token then es else e # remove_entry token es)"

definition clear_last_token :: "u64 \<Rightarrow> 'own origin \<Rightarrow> 'own origin" where
  "clear_last_token token s =
     (if LAST_ORIGIN_QUARANTINE_TOKEN s = Some token then s\<lparr>LAST_ORIGIN_QUARANTINE_TOKEN := None\<rparr> else s)"

definition reap_origin_quarantine_token :: "u64 \<Rightarrow> 'own origin \<Rightarrow> bool \<times> 'own origin" where
  "reap_origin_quarantine_token token s =
     (case find_entry token s of
        None \<Rightarrow> (False, s)
      | Some e \<Rightarrow>
          if \<not> can_reap (retention_audit e) then (False, s)
          else (True, clear_last_token token (drop_entry e (s\<lparr>ORIGIN_QUARANTINE := remove_entry token (ORIGIN_QUARANTINE s)\<rparr>))))"

text \<open>\<open>downcast\<close> is whether the owner has the type asked for; one that has not is destroyed.\<close>

definition take_origin_quarantine_owner ::
  "('own \<Rightarrow> bool) \<Rightarrow> u64 \<Rightarrow> 'own origin \<Rightarrow> 'own option \<times> 'own origin" where
  "take_origin_quarantine_owner downcast token s =
     (case find_entry token s of
        None \<Rightarrow> (None, s)
      | Some e \<Rightarrow>
          if \<not> can_reap (retention_audit e) then (None, s)
          else
            let s = s\<lparr>ORIGIN_QUARANTINE := remove_entry token (ORIGIN_QUARANTINE s)\<rparr>; (taken, e) = take_owner e in
            (case taken of
               None \<Rightarrow> (None, drop_entry e s)
             | Some owner \<Rightarrow>
                 let s = (if downcast owner then s\<lparr>owners_taken := owners_taken s @ [(token, owner)]\<rparr>
                          else s\<lparr>owners_destroyed := owners_destroyed s @ [(token, owner)]\<rparr>) in
                 (if downcast owner then Some owner else None, clear_last_token token (drop_entry e s))))"

text \<open>The end of the thread drops its entries.\<close>

definition thread_exit :: "'own origin \<Rightarrow> 'own origin" where
  "thread_exit s = fold drop_entry (ORIGIN_QUARANTINE s) (s\<lparr>ORIGIN_QUARANTINE := []\<rparr>)"


section \<open>Submissions and their tasks\<close>

text \<open>
  What a submission knows of its task: while the task is alive nothing has been sent, held ready or
  given up. Every operation keeps it.
\<close>

definition task_known :: "'v BlockingSubmission \<Rightarrow> 'v task_channel \<Rightarrow> bool" where
  "task_known self ch \<longleftrightarrow> (tc_sender ch \<longrightarrow> tc_queue ch = [] \<and> bs_ready self = None \<and> bs_receiver self)"

lemma submit_task_known: "submit_for_process pid active current st = (Inr (self, ch), st') \<Longrightarrow> task_known self ch"
  by (auto simp: submit_for_process_def Let_def task_known_def split: if_splits)

lemma task_known_steps:
  "task_known self ch \<Longrightarrow> task_known self (task_ends output ch)"
  "task_known self ch \<Longrightarrow> try_wait_for_process pid self ch = (r, self', ch') \<Longrightarrow> task_known self' ch'"
  "task_known self ch \<Longrightarrow> wait_ready_timeout pid self ch = (r', self', ch') \<Longrightarrow> task_known self' ch'"
  "task_known self ch \<Longrightarrow> cancel_for_process pid self ch = (r'', self', ch') \<Longrightarrow> task_known self' ch'"
  by (auto simp: task_known_def submission_defs split: if_splits option.splits list.splits recv_answer.splits)

lemma process_kept:
  "try_wait_for_process pid self ch = (r, self', ch') \<Longrightarrow> bs_process_id self' = bs_process_id self"
  "wait_ready_timeout pid self ch = (r', self', ch') \<Longrightarrow> bs_process_id self' = bs_process_id self"
  "cancel_for_process pid self ch = (r'', self', ch') \<Longrightarrow> bs_process_id self' = bs_process_id self"
  by (auto simp: submission_defs split: if_splits option.splits list.splits recv_answer.splits)

lemma task_alive_wait:
  assumes "task_known self ch" "bs_process_id self = pid" "tc_sender ch"
  shows "wait_for_process pid self ch = None" "try_wait_for_process pid self ch = (Inr None, self, ch)"
  using assms by (simp_all add: task_known_def submission_defs)

section \<open>The quarantine at work\<close>

text \<open>
  The steps of the quarantine of one thread: its operations, the tasks that end, the waiting threads
  that see it. A ghost keeps all owners ever retained. No more than \<open>2 ^ 64 - 1\<close> tokens are handed out.
\<close>

record ('v, 'own) quarantine =
  qw_origin :: "'own origin"
  qw_tasks :: "u64 \<Rightarrow> ('v BlockingSubmission \<times> 'v task_channel) option"
  qw_retained :: "(u64 \<times> 'own) list"

definition ended_task :: "('v, 'own) quarantine \<Rightarrow> u64 \<Rightarrow> bool" where
  "ended_task w t = (case qw_tasks w t of None \<Rightarrow> True | Some (_, ch) \<Rightarrow> \<not> tc_sender ch)"

definition next_token_free :: "'own origin \<Rightarrow> bool" where
  "next_token_free s \<longleftrightarrow> NEXT_ORIGIN_QUARANTINE_TOKEN s \<noteq> - 1"

definition quarantine_start :: "u64 \<Rightarrow> u64 option \<Rightarrow> ('v, 'own) quarantine" where
  "quarantine_start n active =
     \<lparr>qw_origin = \<lparr>ORIGIN_QUARANTINE = [], LAST_ORIGIN_QUARANTINE_TOKEN = None, ACTIVE_ORIGIN_SUBMISSION = active,
        NEXT_ORIGIN_QUARANTINE_TOKEN = n, owners_destroyed = [], owners_forgotten = [], owners_taken = []\<rparr>,
      qw_tasks = (\<lambda>_. None), qw_retained = []\<rparr>"

inductive quarantine_step :: "u32 \<Rightarrow> ('v, 'own) quarantine \<Rightarrow> ('v, 'own) quarantine \<Rightarrow> bool" for pid where
  retain_running:
    "\<lbrakk>next_token_free (qw_origin w); task_known sub ch; bs_process_id sub = pid;
      retain_origin_after_cancellation (Some sub) owner phase (qw_origin w) = (token, s)\<rbrakk> \<Longrightarrow>
     quarantine_step pid w (w\<lparr>qw_origin := s, qw_tasks := (qw_tasks w)(token \<mapsto> (sub, ch)),
       qw_retained := qw_retained w @ [(token, owner)]\<rparr>)"
| retain_ended:
    "\<lbrakk>next_token_free (qw_origin w);
      retain_origin_after_cancellation (None :: 'v BlockingSubmission option) owner phase (qw_origin w) = (token, s)\<rbrakk> \<Longrightarrow>
     quarantine_step pid w (w\<lparr>qw_origin := s, qw_retained := qw_retained w @ [(token, owner)]\<rparr>)"
| task_ends:
    "qw_tasks w t = Some (sub, ch) \<Longrightarrow>
     quarantine_step pid w (w\<lparr>qw_tasks := (qw_tasks w)(t \<mapsto> (sub, Submission.task_ends result ch))\<rparr>)"
| waiter_returns:
    "\<lbrakk>qw_tasks w t = Some (sub, ch); wait_for_process pid sub ch \<noteq> None\<rbrakk> \<Longrightarrow>
     quarantine_step pid w (w\<lparr>qw_origin := waiter_terminal t (qw_origin w)\<rparr>)"
| reap: "quarantine_step pid w (w\<lparr>qw_origin := reap_origin_quarantine (qw_origin w)\<rparr>)"
| reap_token: "quarantine_step pid w (w\<lparr>qw_origin := snd (reap_origin_quarantine_token t (qw_origin w))\<rparr>)"
| take_quarantined:
    "quarantine_step pid w (w\<lparr>qw_origin := snd (take_origin_quarantine_owner downcast t (qw_origin w))\<rparr>)"
| take_last_token: "quarantine_step pid w (w\<lparr>qw_origin := snd (take_last_origin_quarantine_token (qw_origin w))\<rparr>)"
| other_thread:
    "next_token_free (qw_origin w) \<Longrightarrow>
     quarantine_step pid w (w\<lparr>qw_origin := (qw_origin w)\<lparr>NEXT_ORIGIN_QUARANTINE_TOKEN := NEXT_ORIGIN_QUARANTINE_TOKEN (qw_origin w) + 1\<rparr>\<rparr>)"
| exits: "quarantine_step pid w (w\<lparr>qw_origin := thread_exit (qw_origin w)\<rparr>)"

abbreviation quarantine_reachable :: "u32 \<Rightarrow> ('v, 'own) quarantine \<Rightarrow> ('v, 'own) quarantine \<Rightarrow> bool" where
  "quarantine_reachable pid \<equiv> (quarantine_step pid)\<^sup>*\<^sup>*"

text \<open>All owners, wherever they are.\<close>

definition all_owners :: "'own origin \<Rightarrow> (u64 \<times> 'own) multiset" where
  "all_owners s = mset (concat (map owner_of (ORIGIN_QUARANTINE s))) + mset (owners_destroyed s) +
     mset (owners_forgotten s) + mset (owners_taken s)"

text \<open>The owners that are gone or given back, and the entries that say they may be.\<close>

definition let_go :: "'own origin \<Rightarrow> u64 set" where
  "let_go s = fst ` set (owners_destroyed s @ owners_taken s) \<union> q_token ` {e \<in> set (ORIGIN_QUARANTINE s). q_terminal e}"

definition quarantine_inv :: "u32 \<Rightarrow> ('v, 'own) quarantine \<Rightarrow> bool" where
  "quarantine_inv pid w \<longleftrightarrow>
     mset (qw_retained w) = all_owners (qw_origin w) \<and>
     distinct (map fst (qw_retained w)) \<and>
     (\<forall>x \<in> set (qw_retained w). fst x < NEXT_ORIGIN_QUARANTINE_TOKEN (qw_origin w)) \<and>
     (\<forall>e \<in> set (ORIGIN_QUARANTINE (qw_origin w)). q_owner e \<noteq> None) \<and>
     (\<forall>t \<in> let_go (qw_origin w). ended_task w t) \<and>
     (\<forall>t sub ch. qw_tasks w t = Some (sub, ch) \<longrightarrow>
        t < NEXT_ORIGIN_QUARANTINE_TOKEN (qw_origin w) \<and> task_known sub ch \<and> bs_process_id sub = pid)"

lemma can_reap_iff: "can_reap (retention_audit e) \<longleftrightarrow> q_terminal e \<and> q_phase e \<noteq> CancelPermanentlyNonterminal"
  by (simp add: can_reap_def retention_audit_def with_observed_phase_def audit_retain_def)

lemma fold_drop_entry:
  "fold drop_entry es s =
     s\<lparr>owners_destroyed := owners_destroyed s @ concat (map owner_of (filter q_terminal es)),
       owners_forgotten := owners_forgotten s @ concat (map owner_of (filter (\<lambda>e. \<not> q_terminal e) es))\<rparr>"
  by (induction es arbitrary: s) (simp_all add: drop_entry_def)

lemma mset_owner_split:
  "mset (concat (map owner_of es)) =
     mset (concat (map owner_of (filter P es))) + mset (concat (map owner_of (filter (\<lambda>e. \<not> P e) es)))"
  by (induction es) simp_all

lemma mset_remove_entry:
  "find (\<lambda>e. q_token e = t) es = Some e \<Longrightarrow>
     mset (concat (map owner_of es)) = mset (owner_of e) + mset (concat (map owner_of (remove_entry t es)))"
  by (induction es) (auto split: if_splits)

lemma set_remove_entry: "set (remove_entry t es) \<subseteq> set es"
  by (induction es) auto


text \<open>
  What the operations that empty the quarantine have in common: no owner is lost or made, and none is
  let go that could not have been.
\<close>

definition releases_owners :: "'own origin \<Rightarrow> 'own origin \<Rightarrow> bool" where
  "releases_owners s s' \<longleftrightarrow> all_owners s' = all_owners s \<and> NEXT_ORIGIN_QUARANTINE_TOKEN s' = NEXT_ORIGIN_QUARANTINE_TOKEN s \<and>
     set (ORIGIN_QUARANTINE s') \<subseteq> set (ORIGIN_QUARANTINE s) \<and> let_go s' \<subseteq> let_go s"

lemma owner_of_token: "x \<in> set (owner_of e) \<Longrightarrow> fst x = q_token e"
  by (auto simp: owner_of_def split: option.splits)

lemma let_go_iff:
  "t \<in> let_go s \<longleftrightarrow> (\<exists>owner. (t, owner) \<in> set (owners_destroyed s) \<or> (t, owner) \<in> set (owners_taken s)) \<or>
     (\<exists>e \<in> set (ORIGIN_QUARANTINE s). q_token e = t \<and> q_terminal e)"
  by (auto simp: let_go_def) (force+)?

lemma let_go_owners:
  "(t, owner) \<in># all_owners s \<Longrightarrow> t \<in> let_go s \<or> (\<exists>e \<in> set (ORIGIN_QUARANTINE s). q_token e = t) \<or> t \<in> fst ` set (owners_forgotten s)"
proof -
  assume "(t, owner) \<in># all_owners s"
  then consider e where "e \<in> set (ORIGIN_QUARANTINE s)" "(t, owner) \<in> set (owner_of e)"
    | "(t, owner) \<in> set (owners_destroyed s) \<union> set (owners_taken s)" | "(t, owner) \<in> set (owners_forgotten s)"
    by (auto simp: all_owners_def)
  then show ?thesis
  proof cases
    case 1
    then show ?thesis using owner_of_token [of "(t, owner)" e] by auto
  next
    case 3
    then show ?thesis by force
  qed (auto simp: let_go_iff)
qed

lemma owners_let_go:
  assumes "t \<in> let_go s" "\<forall>e \<in> set (ORIGIN_QUARANTINE s). q_owner e \<noteq> None"
  shows "\<exists>owner. (t, owner) \<in># all_owners s"
proof -
  consider owner where "(t, owner) \<in> set (owners_destroyed s) \<union> set (owners_taken s)"
    | e where "e \<in> set (ORIGIN_QUARANTINE s)" "q_token e = t" using assms(1) unfolding let_go_iff by blast
  then show ?thesis
  proof cases
    case 2
    then obtain owner where "q_owner e = Some owner" using assms(2) by blast
    then have "(t, owner) \<in> set (owner_of e)" using 2 by (simp add: owner_of_def)
    then have "(t, owner) \<in># all_owners s" using 2 by (auto simp: all_owners_def)
    then show ?thesis by blast
  qed (auto simp: all_owners_def)
qed

lemma find_entry_Some:
  "find_entry t s = Some e \<Longrightarrow> q_token e = t \<and> e \<in> set (ORIGIN_QUARANTINE s)"
  by (auto simp: find_entry_def find_Some_iff)

lemma releases_refl [simp]: "releases_owners s s"
  by (simp add: releases_owners_def)

lemma releases_last_token [simp]: "releases_owners s (s'\<lparr>LAST_ORIGIN_QUARANTINE_TOKEN := t\<rparr>) = releases_owners s s'"
  by (simp add: releases_owners_def all_owners_def let_go_def)

lemma clear_last_token_simps [simp]:
  "ORIGIN_QUARANTINE (clear_last_token t s) = ORIGIN_QUARANTINE s"
  "NEXT_ORIGIN_QUARANTINE_TOKEN (clear_last_token t s) = NEXT_ORIGIN_QUARANTINE_TOKEN s"
  "owners_destroyed (clear_last_token t s) = owners_destroyed s"
  "owners_forgotten (clear_last_token t s) = owners_forgotten s"
  "owners_taken (clear_last_token t s) = owners_taken s"
  by (simp_all add: clear_last_token_def)

lemma releases_clear_last_token [simp]: "releases_owners s (clear_last_token t s') = releases_owners s s'"
  by (simp add: clear_last_token_def)

lemma releases_reap: "releases_owners s (reap_origin_quarantine s)"
proof -
  let ?P = "\<lambda>e. can_reap (retention_audit e)"
  let ?es = "filter ?P (ORIGIN_QUARANTINE s)"
  have t: "filter q_terminal ?es = ?es" "filter (\<lambda>e. \<not> q_terminal e) ?es = []"
    by (auto simp: can_reap_iff filter_empty_conv intro!: filter_cong)
  have "all_owners (reap_origin_quarantine s) = all_owners s"
    by (simp add: reap_origin_quarantine_def fold_drop_entry t all_owners_def mset_owner_split [of "ORIGIN_QUARANTINE s" ?P] del: filter_filter)
  moreover have "let_go (reap_origin_quarantine s) \<subseteq> let_go s"
    by (auto simp: reap_origin_quarantine_def fold_drop_entry let_go_iff can_reap_iff dest!: owner_of_token)
  ultimately show ?thesis by (simp add: releases_owners_def reap_origin_quarantine_def fold_drop_entry)
qed

lemma releases_exit: "releases_owners s (thread_exit s)"
  by (auto simp: releases_owners_def thread_exit_def fold_drop_entry all_owners_def let_go_iff
      mset_owner_split [of "ORIGIN_QUARANTINE s" q_terminal] dest!: owner_of_token)

text \<open>An entry that may be reaped leaves, its owner destroyed or handed out.\<close>

lemma releases_entry:
  assumes e: "find_entry t s = Some e" "can_reap (retention_audit e)"
    and s': "ORIGIN_QUARANTINE s' = remove_entry t (ORIGIN_QUARANTINE s)" "owners_forgotten s' = owners_forgotten s"
      "NEXT_ORIGIN_QUARANTINE_TOKEN s' = NEXT_ORIGIN_QUARANTINE_TOKEN s"
      "(owners_destroyed s', owners_taken s') \<in>
         {(owners_destroyed s @ owner_of e, owners_taken s), (owners_destroyed s, owners_taken s @ owner_of e)}"
  shows "releases_owners s s'"
proof -
  have "q_token e = t" "e \<in> set (ORIGIN_QUARANTINE s)" "q_terminal e"
    using e by (simp_all add: find_entry_Some can_reap_iff)
  then have "q_token e \<in> let_go s" by (auto simp: let_go_iff)
  moreover have "let_go s' \<subseteq> insert (q_token e) (let_go s)"
  proof
    fix x
    assume "x \<in> let_go s'"
    then consider owner where "(x, owner) \<in> set (owners_destroyed s) \<union> set (owners_taken s) \<union> set (owner_of e)"
      | f where "f \<in> set (remove_entry t (ORIGIN_QUARANTINE s))" "q_token f = x" "q_terminal f"
      using s'(1,4) by (fastforce simp: let_go_iff)
    then show "x \<in> insert (q_token e) (let_go s)"
      by cases (auto simp: let_go_iff dest!: owner_of_token subsetD [OF set_remove_entry])
  qed
  ultimately have "let_go s' \<subseteq> let_go s" by blast
  then show ?thesis
    using s' set_remove_entry [of t "ORIGIN_QUARANTINE s"] mset_remove_entry [of t "ORIGIN_QUARANTINE s" e] e(1)
    by (auto simp: releases_owners_def all_owners_def find_entry_def)
qed

lemma releases_reap_token: "releases_owners s (snd (reap_origin_quarantine_token t s))"
  by (auto simp: reap_origin_quarantine_token_def drop_entry_def can_reap_iff split: option.split
      intro!: releases_entry)

lemma releases_take: "releases_owners s (snd (take_origin_quarantine_owner downcast t s))"
proof (cases "find_entry t s")
  case (Some e)
  then have "q_token e = t" by (simp add: find_entry_Some)
  then show ?thesis using Some
    by (cases "q_owner e") (auto simp: take_origin_quarantine_owner_def take_owner_def drop_entry_def owner_of_def can_reap_iff
        Let_def intro!: releases_entry [OF Some])
qed (simp add: take_origin_quarantine_owner_def)

lemma quarantine_invD:
  assumes "quarantine_inv pid w"
  shows "qw_tasks w t = Some (sub, ch) \<Longrightarrow>
      t < NEXT_ORIGIN_QUARANTINE_TOKEN (qw_origin w) \<and> task_known sub ch \<and> bs_process_id sub = pid"
    and "(t, owner) \<in># all_owners (qw_origin w) \<Longrightarrow> t < NEXT_ORIGIN_QUARANTINE_TOKEN (qw_origin w)"
    and "t \<in> let_go (qw_origin w) \<Longrightarrow> ended_task w t"
    and "e \<in> set (ORIGIN_QUARANTINE (qw_origin w)) \<Longrightarrow> \<exists>owner. q_owner e = Some owner"
proof -
  show "(t, owner) \<in># all_owners (qw_origin w) \<Longrightarrow> t < NEXT_ORIGIN_QUARANTINE_TOKEN (qw_origin w)"
    using assms unfolding quarantine_inv_def by (metis fst_conv set_mset_mset)
qed (use assms in \<open>auto simp: quarantine_inv_def\<close>)

lemma quarantine_inv_releases:
  assumes "quarantine_inv pid w" "releases_owners (qw_origin w) s"
  shows "quarantine_inv pid (w\<lparr>qw_origin := s\<rparr>)"
  using assms by (auto simp: quarantine_inv_def releases_owners_def ended_task_def)

lemma quarantine_inv_retain:
  assumes inv: "quarantine_inv pid w" and free: "next_token_free (qw_origin w)"
    and r: "retain_origin_after_cancellation submission owner phase (qw_origin w) = (token, s)"
    and tasks: "tasks = qw_tasks w \<and> submission = None \<or>
      tasks = (qw_tasks w)(token \<mapsto> (sub, ch)) \<and> submission = Some sub \<and> task_known sub ch \<and> bs_process_id sub = pid"
  shows "quarantine_inv pid (w\<lparr>qw_origin := s, qw_tasks := tasks, qw_retained := qw_retained w @ [(token, owner)]\<rparr>)"
proof -
  let ?n = "NEXT_ORIGIN_QUARANTINE_TOKEN (qw_origin w)"
  have n: "?n < ?n + 1" using free by (simp add: next_token_free_def inc_less_eq_self_iff_eq flip: not_le)
  have fresh: "qw_tasks w ?n = None"
  proof (cases "qw_tasks w ?n")
    case (Some task)
    then have "?n < ?n" using quarantine_invD(1) [OF inv] by (cases task) blast
    then show ?thesis by simp
  qed simp
  have s: "token = ?n" "NEXT_ORIGIN_QUARANTINE_TOKEN s = ?n + 1"
    "owners_destroyed s = owners_destroyed (qw_origin w)" "owners_taken s = owners_taken (qw_origin w)"
    "all_owners s = all_owners (qw_origin w) + {#(?n, owner)#}"
    "set (ORIGIN_QUARANTINE s) = set (ORIGIN_QUARANTINE (qw_origin w)) \<union>
      {\<lparr>q_token = ?n, q_terminal = (submission = None), q_phase = phase, q_actions = True, q_owner = Some owner\<rparr>}"
    using r by (auto simp: retain_origin_after_cancellation_def Let_def all_owners_def let_go_def owner_of_def)
  have go: "let_go s = let_go (qw_origin w) \<union> (if submission = None then {?n} else {})"
    using r by (intro set_eqI) (auto simp: retain_origin_after_cancellation_def Let_def let_go_iff)
  have below: "t < ?n + 1" if "t < ?n" for t using that n by simp
  have new: "?n \<notin> let_go (qw_origin w)"
  proof
    assume "?n \<in> let_go (qw_origin w)"
    then obtain owner where "(?n, owner) \<in># all_owners (qw_origin w)"
      using owners_let_go quarantine_invD(4) [OF inv] by (metis option.distinct(1))
    then show False using quarantine_invD(2) [OF inv] by blast
  qed
  let ?w = "w\<lparr>qw_origin := s, qw_tasks := tasks, qw_retained := qw_retained w @ [(token, owner)]\<rparr>"
  have keep: "ended_task ?w t" if "t \<in> let_go (qw_origin w)" for t
    using quarantine_invD(3) [OF inv that] that new tasks by (auto simp: ended_task_def s(1))
  have "\<forall>t \<in> let_go s. ended_task ?w t"
    using keep fresh tasks by (auto simp: go ended_task_def [of ?w ?n])
  moreover have "\<forall>t sub ch. tasks t = Some (sub, ch) \<longrightarrow> t < ?n + 1 \<and> task_known sub ch \<and> bs_process_id sub = pid"
    using tasks quarantine_invD(1) [OF inv] n below by (auto simp: s(1) split: if_splits)
  moreover have "\<forall>x \<in> set (qw_retained w @ [(token, owner)]). fst x < ?n + 1" "distinct (map fst (qw_retained w @ [(token, owner)]))"
    "mset (qw_retained w @ [(token, owner)]) = all_owners s" "\<forall>e \<in> set (ORIGIN_QUARANTINE s). q_owner e \<noteq> None"
    using inv n unfolding quarantine_inv_def s by (force simp: below)+
  ultimately show ?thesis by (simp add: quarantine_inv_def s(2))
qed

lemma quarantine_inv_waiter:
  assumes inv: "quarantine_inv pid w" and t: "qw_tasks w t = Some (sub, ch)" "wait_for_process pid sub ch \<noteq> None"
  shows "quarantine_inv pid (w\<lparr>qw_origin := waiter_terminal t (qw_origin w)\<rparr>)"
proof -
  let ?s = "waiter_terminal t (qw_origin w)"
  have "\<not> tc_sender ch" using quarantine_invD(1) [OF inv t(1)] t(2) task_alive_wait(1) by metis
  then have e: "ended_task w t" using t(1) by (simp add: ended_task_def)
  have o: "map owner_of (ORIGIN_QUARANTINE ?s) = map owner_of (ORIGIN_QUARANTINE (qw_origin w))"
    by (simp add: waiter_terminal_def owner_of_def split: option.split)
  have "all_owners ?s = all_owners (qw_origin w)"
    unfolding all_owners_def o by (simp add: waiter_terminal_def)
  moreover have "let_go ?s \<subseteq> insert t (let_go (qw_origin w))"
    by (auto simp: waiter_terminal_def let_go_iff split: if_splits)
  ultimately show ?thesis using inv e
    by (auto simp: quarantine_inv_def ended_task_def waiter_terminal_def)
qed

lemma quarantine_inv_task_ends:
  assumes inv: "quarantine_inv pid w" and t: "qw_tasks w t = Some (sub, ch)"
  shows "quarantine_inv pid (w\<lparr>qw_tasks := (qw_tasks w)(t \<mapsto> (sub, Submission.task_ends result ch))\<rparr>)"
proof -
  have "ended_task w u \<Longrightarrow> ended_task (w\<lparr>qw_tasks := (qw_tasks w)(t \<mapsto> (sub, Submission.task_ends result ch))\<rparr>) u" for u
    using t by (auto simp: ended_task_def Submission.task_ends_def split: option.splits)
  then show ?thesis using inv quarantine_invD(1) [OF inv t] task_known_steps(1)
    by (auto simp: quarantine_inv_def)
qed

lemma quarantine_step_inv: "quarantine_step pid w w' \<Longrightarrow> quarantine_inv pid w \<Longrightarrow> quarantine_inv pid w'"
proof (induction rule: quarantine_step.induct)
  case (retain_running w sub ch owner phase token s)
  then show ?case by (auto intro!: quarantine_inv_retain)
next
  case (retain_ended w owner phase token s)
  then show ?case using quarantine_inv_retain [of pid w None owner phase token s "qw_tasks w"] by simp
next
  case (other_thread w)
  let ?n = "NEXT_ORIGIN_QUARANTINE_TOKEN (qw_origin w)"
  have "?n < ?n + 1" using other_thread(1) by (simp add: next_token_free_def inc_less_eq_self_iff_eq flip: not_le)
  then have "t < ?n + 1" if "t < ?n" for t using that by simp
  then show ?case using other_thread(2)
    by (auto simp: quarantine_inv_def all_owners_def let_go_def ended_task_def)
qed (simp_all add: quarantine_inv_waiter quarantine_inv_task_ends quarantine_inv_releases releases_reap
    releases_reap_token releases_take releases_exit take_last_origin_quarantine_token_def)

lemma quarantine_start_inv: "quarantine_inv pid (quarantine_start n active)"
  by (simp add: quarantine_inv_def quarantine_start_def all_owners_def let_go_def)

lemma quarantine_reachable_inv: "quarantine_reachable pid (quarantine_start n active) w \<Longrightarrow> quarantine_inv pid w"
  by (induction rule: rtranclp_induct) (simp_all add: quarantine_start_inv quarantine_step_inv)

section \<open>Property: the quarantine\<close>

text \<open>
  C5. The owner of a cancelled operation's Python objects outlives the operation's task. In every
  state of a thread's quarantine, each owner retained is in one place: in the quarantine, destroyed,
  forgotten with its thread, or handed back; no token is used twice. One that was destroyed or handed
  back had its task ended before. While the task runs and the thread lives, the quarantine has the owner, and neither
  reaping its token nor asking for it has a result.
\<close>
theorem quarantine_owner_outlives_task:
  assumes "quarantine_reachable pid (quarantine_start n active) w" and "s = qw_origin w"
  shows "mset (qw_retained w) = all_owners s \<and> distinct (map fst (qw_retained w)) \<and>
    (\<forall>x \<in> set (owners_destroyed s @ owners_taken s). ended_task w (fst x)) \<and>
    (\<forall>t. \<not> ended_task w t \<and> t \<in> fst ` set (qw_retained w) \<and> t \<notin> fst ` set (owners_forgotten s) \<longrightarrow>
      origin_quarantine_retains_owner t s \<and> reap_origin_quarantine_token t s = (False, s) \<and>
      take_origin_quarantine_owner downcast t s = (None, s))"
proof (intro conjI allI impI)
  note inv = quarantine_reachable_inv [OF assms(1)]
  show "mset (qw_retained w) = all_owners s" "distinct (map fst (qw_retained w))"
    using inv by (simp_all add: quarantine_inv_def assms(2))
  then have r: "set (qw_retained w) = set_mset (all_owners s)" by (metis set_mset_mset)
  show "\<forall>x \<in> set (owners_destroyed s @ owners_taken s). ended_task w (fst x)"
    using quarantine_invD(3) [OF inv] by (force simp: assms(2) let_go_iff)
  fix t
  assume t: "\<not> ended_task w t \<and> t \<in> fst ` set (qw_retained w) \<and> t \<notin> fst ` set (owners_forgotten s)"
  then have "t \<notin> let_go s" using quarantine_invD(3) [OF inv] assms(2) by blast
  then obtain e where e: "e \<in> set (ORIGIN_QUARANTINE s)" "q_token e = t"
    using t let_go_owners [of t _ s] unfolding r by fastforce
  then have "find_entry t s \<noteq> None" by (auto simp: find_entry_def find_None_iff)
  then obtain f where f: "find_entry t s = Some f" by blast
  then have "\<not> q_terminal f" "q_owner f \<noteq> None"
    using \<open>t \<notin> let_go s\<close> find_entry_Some [OF f] quarantine_invD(4) [OF inv, of f] assms(2) by (auto simp: let_go_iff)
  then show "origin_quarantine_retains_owner t s" "reap_origin_quarantine_token t s = (False, s)"
    "take_origin_quarantine_owner downcast t s = (None, s)"
    using f by (simp_all add: origin_quarantine_retains_owner_def reap_origin_quarantine_token_def
        take_origin_quarantine_owner_def can_reap_iff)
qed

theorem quarantine_owner_outlives_task_witness:
  "\<exists>w :: (unit, nat) quarantine. quarantine_reachable 7 (quarantine_start 1 None) w \<and> \<not> ended_task w 1 \<and>
     fst (reap_origin_quarantine_token 1 (qw_origin w)) = False \<and> origin_quarantine_retains_owner 1 (qw_origin w)"
proof -
  let ?q = "quarantine_start 1 None :: (unit, nat) quarantine"
  let ?s = "qw_origin ?q"
  let ?sub = "\<lparr>bs_id = 3, bs_parent_id = None, bs_process_id = 7, bs_receiver = True, bs_ready = None, bs_abort = True,
    bs_cancelled = True\<rparr> :: unit BlockingSubmission"
  let ?ch = "\<lparr>tc_queue = [], tc_sender = True, tc_aborted = True\<rparr> :: unit task_channel"
  let ?r = "snd (retain_origin_after_cancellation (Some ?sub) (5 :: nat) CancelReplyObserved ?s)"
  let ?w = "?q\<lparr>qw_origin := ?r, qw_tasks := [1 \<mapsto> (?sub, ?ch)], qw_retained := [(1, 5)]\<rparr>"
  have "quarantine_step 7 ?q
      (?q\<lparr>qw_origin := ?r, qw_tasks := (qw_tasks ?q)(1 \<mapsto> (?sub, ?ch)),
        qw_retained := qw_retained ?q @ [(1, 5)]\<rparr>)"
    by (rule quarantine_step.retain_running [where phase = CancelReplyObserved])
      (simp_all add: next_token_free_def task_known_def quarantine_start_def retain_origin_after_cancellation_def Let_def)
  then have r: "quarantine_reachable 7 ?q ?w" by (simp add: quarantine_start_def)
  have "\<not> ended_task ?w 1" by (simp add: ended_task_def)
  moreover have "1 \<in> fst ` set (qw_retained ?w) \<and> 1 \<notin> fst ` set (owners_forgotten (qw_origin ?w))"
    by (simp add: retain_origin_after_cancellation_def quarantine_start_def Let_def)
  ultimately show ?thesis using quarantine_owner_outlives_task [OF r refl] r by (metis fst_conv)
qed

end
