(* ===== verification/Origin.thy ===== *)
theory Origin
  imports Bridge Quarantine
begin

text \<open>
  The driver of \<open>crates/requests-python/src/runtime.rs\<close>: the Python thread drives a submission. It
  executes the actions the task asks for over the bridge until the output is there, and looks for
  signals first. On a signal the task is cancelled and the owner of the Python objects goes to the
  quarantine. The interpreter is in the arguments: what a signal check raises, what an action does.
  What the runtime's threads do is a schedule.
\<close>

section \<open>Driving a submission\<close>

datatype 'e PyErr = PyRuntimeError rstr | Raised 'e

definition task_error :: "BlockingTaskError \<Rightarrow> 'e PyErr" where
  "task_error e =
     (case e of
        WorkerStopped \<Rightarrow> PyRuntimeError (lit ''native requests worker stopped unexpectedly'')
      | _ \<Rightarrow> PyRuntimeError (task_error_display e))"

definition bridge_error :: "BridgeClosed \<Rightarrow> 'e PyErr" where
  "bridge_error e = PyRuntimeError (bridge_closed_display e)"

text \<open>
  The task of a worker: the answers it has had, whether the action it waits for has been sent, and
  whether that action has been received and not answered yet.
\<close>

record 'r bridge_task =
  bt_answers :: "(BridgeClosed + 'r) list"
  bt_sent :: bool
  bt_received :: bool

definition bridge_task_new :: "'r bridge_task" where
  "bridge_task_new = \<lparr>bt_answers = [], bt_sent = False, bt_received = False\<rparr>"

text \<open>
  What the runtime does with the task at a point: nothing, it polls the task until the task waits or
  ends, or it stops the task.
\<close>

datatype runtime_event = NotPolled | Polled | Stopped

fun runtime_does ::
  "('a, 'r, 'o) worker \<Rightarrow> runtime_event \<Rightarrow> 'r bridge_task \<times> 'o task_channel \<Rightarrow> 'r bridge_task \<times> 'o task_channel" where
  "runtime_does w NotPolled (task, ch) = (task, ch)"
| "runtime_does w Stopped (task, ch) = (task, task_ends None ch)"
| "runtime_does w Polled (task, ch) =
     (if \<not> tc_sender ch then (task, ch)
      else
        case snd (w (bt_answers task)) of
          Waiting \<Rightarrow> (task\<lparr>bt_sent := True\<rparr>, ch)
        | Finished outcome \<Rightarrow> (task, task_ends (Some outcome) ch)
        | Panicked \<Rightarrow> (task, task_ends None ch))"

text \<open>\<open>recv_timeout\<close> of the receiver of actions.\<close>

definition recv_action ::
  "('a, 'r, 'o) worker \<Rightarrow> 'r bridge_task \<times> 'o task_channel \<Rightarrow> 'a recv_answer \<times> 'r bridge_task" where
  "recv_action w t =
     (case t of (task, ch) \<Rightarrow>
        if bt_sent task \<and> \<not> bt_received task
        then (Received (last (fst (w (bt_answers task)))), task\<lparr>bt_received := True\<rparr>)
        else (if tc_sender ch then RecvEmpty else Disconnected, task))"

definition send_reply :: "'r \<Rightarrow> 'r bridge_task \<Rightarrow> 'r bridge_task" where
  "send_reply value task = task\<lparr>bt_answers := bt_answers task @ [Inr value], bt_sent := False, bt_received := False\<rparr>"

text \<open>
  \<open>cancel_with_bounded_wait\<close>: each look at the task comes after what the runtime has done and says
  whether the deadline was still ahead. \<open>None\<close> while it waits.
\<close>

fun bounded_wait ::
  "('a, 'r, 'o) worker \<Rightarrow> u32 \<Rightarrow> (runtime_event \<times> bool) list \<Rightarrow> 'o BlockingSubmission \<Rightarrow> 'r bridge_task \<times> 'o task_channel \<Rightarrow>
   ('o BlockingSubmission option \<times> 'o task_channel) option" where
  "bounded_wait w pid [] submission t = None"
| "bounded_wait w pid ((ev, early) # looks) submission t =
     (let (task, ch) = runtime_does w ev t in
      case try_wait_for_process pid submission ch of
        (Inr None, submission, ch) \<Rightarrow>
          if early then bounded_wait w pid looks submission (task, ch) else Some (Some submission, ch)
      | (_, submission, ch) \<Rightarrow> Some (None, ch))"

definition cancel_with_bounded_wait ::
  "('a, 'r, 'o) worker \<Rightarrow> u32 \<Rightarrow> (runtime_event \<times> bool) list \<Rightarrow> 'o BlockingSubmission \<Rightarrow> 'r bridge_task \<times> 'o task_channel \<Rightarrow>
   (BlockingTaskError + 'o BlockingSubmission option \<times> 'o task_channel) option" where
  "cancel_with_bounded_wait w pid looks submission t =
     (case t of (task, ch) \<Rightarrow>
        case cancel_for_process pid submission ch of
          (Inl e, submission, ch) \<Rightarrow> Some (Inl e)
        | (Inr _, submission, ch) \<Rightarrow> map_option Inr (bounded_wait w pid looks submission (task, ch)))"

text \<open>
  A turn of the loop: what the runtime does before the look at the task and during the wait for an
  action, what the signal check and the check of the thread raise, and the looks if it cancels.
\<close>

record 'e drive_turn =
  t_before :: runtime_event
  t_signal :: "'e option"
  t_during :: runtime_event
  t_affinity :: "'e option"
  t_looks :: "(runtime_event \<times> bool) list"

text \<open>
  How a drive ends: its result, the owners it dropped and the channel of the task at that time. An
  action may change the thread's variables too.
\<close>

record ('o, 'own, 'e) driven =
  d_result :: "'e PyErr + 'o \<times> 'own"
  d_dropped :: "'own list"
  d_origin :: "'own origin"
  d_channel :: "'o task_channel"

type_synonym ('a, 'r, 'own) handler = "'a \<Rightarrow> 'own \<times> 'own origin \<Rightarrow> 'r ActionReplyDisposition \<times> 'own \<times> 'own origin"

fun drive_loop ::
  "('a, 'r, 'o) worker \<Rightarrow> ('a, 'r, 'own) handler \<Rightarrow> u32 \<Rightarrow> 'e drive_turn list \<Rightarrow>
   'o BlockingSubmission \<Rightarrow> 'r bridge_task \<times> 'o task_channel \<Rightarrow> 'own \<Rightarrow> SessionCancellationPhase \<Rightarrow> 'own origin \<Rightarrow>
   ('o, 'own, 'e) driven option" where
  "drive_loop w execute pid [] submission t owner phase s = None"
| "drive_loop w execute pid (turn # turns) submission t owner phase s =
     (let (task, ch) = runtime_does w (t_before turn) t in
      case t_signal turn of
        Some signal \<Rightarrow>
          (case cancel_with_bounded_wait w pid (t_looks turn) submission (task, ch) of
             None \<Rightarrow> None
           | Some (Inl e) \<Rightarrow> Some \<lparr>d_result = Inl (task_error e), d_dropped = [owner], d_origin = s, d_channel = ch\<rparr>
           | Some (Inr (submission, ch)) \<Rightarrow>
               Some \<lparr>d_result = Inl (Raised signal), d_dropped = [],
                 d_origin = snd (retain_origin_after_cancellation submission owner phase s), d_channel = ch\<rparr>)
      | None \<Rightarrow>
          (case try_wait_for_process pid submission ch of
             (Inr (Some result), submission, ch) \<Rightarrow>
               Some \<lparr>d_result = Inr (result, owner), d_dropped = [], d_origin = s, d_channel = ch\<rparr>
           | (Inl e, submission, ch) \<Rightarrow>
               Some \<lparr>d_result = Inl (task_error e), d_dropped = [owner], d_origin = s, d_channel = ch\<rparr>
           | (Inr None, submission, ch) \<Rightarrow>
               let (task, ch) = runtime_does w (t_during turn) (task, ch) in
               (case recv_action w (task, ch) of
                  (Received action, task) \<Rightarrow>
                    (case t_affinity turn of
                       Some e \<Rightarrow> Some \<lparr>d_result = Inl (Raised e), d_dropped = [owner], d_origin = s, d_channel = ch\<rparr>
                     | None \<Rightarrow>
                         case execute action (owner, s) of
                           (Reply value, owner, s) \<Rightarrow>
                             drive_loop w execute pid turns submission (send_reply value task, ch) owner CancelReplyObserved s
                         | (Withhold phase, owner, s) \<Rightarrow> drive_loop w execute pid turns submission (task, ch) owner phase s)
                | (RecvEmpty, task) \<Rightarrow>
                    drive_loop w execute pid turns submission (task, ch) owner CancelQueuedBeforeDequeue s
                | (Disconnected, task) \<Rightarrow>
                    let (_, submission, ch) = wait_ready_timeout pid submission ch in
                    drive_loop w execute pid turns submission (task, ch) owner CancelQueuedBeforeDequeue s)))"

definition drive_owned ::
  "('a, 'r, 'o) worker \<Rightarrow> ('a, 'r, 'own) handler \<Rightarrow> u32 \<Rightarrow> 'e option \<Rightarrow> 'e drive_turn list \<Rightarrow>
   'o BlockingSubmission \<times> 'o task_channel \<Rightarrow> 'own \<Rightarrow> 'own origin \<Rightarrow> ('o, 'own, 'e) driven option" where
  "drive_owned w execute pid affinity turns submitted owner s =
     (case submitted of (submission, ch) \<Rightarrow>
        let previous = ACTIVE_ORIGIN_SUBMISSION s; s = s\<lparr>ACTIVE_ORIGIN_SUBMISSION := Some (bs_id submission)\<rparr> in
        map_option (\<lambda>d. d\<lparr>d_origin := (d_origin d)\<lparr>ACTIVE_ORIGIN_SUBMISSION := previous\<rparr>\<rparr>)
          (case affinity of
             Some e \<Rightarrow> Some \<lparr>d_result = Inl (Raised e), d_dropped = [owner], d_origin = s, d_channel = ch\<rparr>
           | None \<Rightarrow>
               drive_loop w execute pid turns submission (bridge_task_new, ch) owner CancelBeforePoll (reap_origin_quarantine s)))"

section \<open>What a drive returns\<close>

text \<open>The reference: each action is executed on the owner in turn, and all are answered.\<close>

fun handle :: "('a, 'r, 'own) handler \<Rightarrow> 'a list \<Rightarrow> 'own \<times> 'own origin \<Rightarrow> ('r list \<times> 'own \<times> 'own origin) option" where
  "handle execute [] st = Some ([], st)"
| "handle execute (action # actions) st =
     (case execute action st of
        (Withhold _, st) \<Rightarrow> None
      | (Reply r, st) \<Rightarrow> map_option (\<lambda>(rs, st). (r # rs, st)) (handle execute actions st))"

lemma handle_snoc:
  "handle execute (actions @ [action]) st =
     (case handle execute actions st of
        None \<Rightarrow> None
      | Some (rs, st) \<Rightarrow> (case execute action st of (Withhold _, st) \<Rightarrow> None | (Reply r, st) \<Rightarrow> Some (rs @ [r], st)))"
  by (induction actions arbitrary: st) (auto split: prod.split ActionReplyDisposition.split option.split)

text \<open>
  The task and the owner go together: the answers are those of the actions executed so far, unless
  one is withheld; an output is that of the worker on the answers.
\<close>

definition handled ::
  "('a, 'r, 'o) worker \<Rightarrow> ('a, 'r, 'own) handler \<Rightarrow> 'own \<times> 'own origin \<Rightarrow> 'r list \<Rightarrow> 'own \<times> 'own origin \<Rightarrow> bool" where
  "handled w execute st0 rs st \<longleftrightarrow> handle execute (take (length rs) (fst (w (map Inr rs)))) st0 = Some (rs, st)"

definition drive_inv ::
  "('a, 'r, 'o) worker \<Rightarrow> ('a, 'r, 'own) handler \<Rightarrow> 'own \<times> 'own origin \<Rightarrow>
   'o BlockingSubmission \<Rightarrow> 'r bridge_task \<Rightarrow> 'o task_channel \<Rightarrow> 'own \<times> 'own origin \<Rightarrow> bool" where
  "drive_inv w execute st0 submission task ch st \<longleftrightarrow>
     (\<exists>rs. bt_answers task = map Inr rs \<and> (handled w execute st0 rs st \<or> bt_sent task \<and> bt_received task)) \<and>
     (bt_sent task \<longrightarrow> snd (w (bt_answers task)) = Waiting) \<and>
     (\<forall>v \<in> set (tc_queue ch) \<union> set_option (bs_ready submission). snd (w (bt_answers task)) = Finished v)"

lemma drive_inv_new:
  "submit_for_process p active q st = (Inr (submission, ch), st') \<Longrightarrow> drive_inv w execute st0 submission bridge_task_new ch st0"
  by (auto simp: submit_for_process_def Let_def drive_inv_def bridge_task_new_def handled_def split: if_splits)

lemma drive_inv_runtime:
  assumes "drive_inv w execute st0 submission task ch st" "runtime_does w ev (task, ch) = (task', ch')"
  shows "drive_inv w execute st0 submission task' ch' st"
  using assms
  by (cases ev) (auto simp: drive_inv_def Submission.task_ends_def split: if_splits progress.splits, metis last_in_set)

lemma drive_inv_try_wait:
  assumes "drive_inv w execute st0 submission task ch st" "try_wait_for_process pid submission ch = (r, submission', ch')"
  shows "drive_inv w execute st0 submission' task ch' st"
    and "r = Inr (Some v) \<Longrightarrow> snd (w (bt_answers task)) = Finished v"
  using assms by (auto simp: drive_inv_def submission_defs split: if_splits option.splits list.splits recv_answer.splits)

lemma drive_inv_wait_ready:
  assumes "drive_inv w execute st0 submission task ch st" "wait_ready_timeout pid submission ch = (r, submission', ch')"
  shows "drive_inv w execute st0 submission' task ch' st"
  using assms by (auto simp: drive_inv_def submission_defs split: if_splits option.splits list.splits recv_answer.splits)

lemma drive_inv_recv_none:
  assumes "drive_inv w execute st0 submission task ch st" "recv_action w (task, ch) = (r, task')" "r = RecvEmpty \<or> r = Disconnected"
  shows "drive_inv w execute st0 submission task' ch st"
  using assms by (auto simp: drive_inv_def recv_action_def split: if_splits)

lemma drive_inv_withhold:
  assumes "drive_inv w execute st0 submission task ch st" "recv_action w (task, ch) = (Received action, task')"
  shows "drive_inv w execute st0 submission task' ch st'"
  using assms by (auto simp: drive_inv_def recv_action_def split: if_splits)

text \<open>What a turn that does not stay in the loop for ever comes to.\<close>

lemma drive_loop_cases:
  assumes "drive_loop w execute pid (turn # turns) submission t owner phase s = Some d"
    and "runtime_does w (t_before turn) t = (task, ch)"
  obtains
    (cancel_fails) signal e where "t_signal turn = Some signal"
      "cancel_with_bounded_wait w pid (t_looks turn) submission (task, ch) = Some (Inl e)"
      "d = \<lparr>d_result = Inl (task_error e), d_dropped = [owner], d_origin = s, d_channel = ch\<rparr>"
  | (cancels) signal retained ch' where "t_signal turn = Some signal"
      "cancel_with_bounded_wait w pid (t_looks turn) submission (task, ch) = Some (Inr (retained, ch'))"
      "d = \<lparr>d_result = Inl (Raised signal), d_dropped = [],
         d_origin = snd (retain_origin_after_cancellation retained owner phase s), d_channel = ch'\<rparr>"
  | (returns) v submission' ch' where "try_wait_for_process pid submission ch = (Inr (Some v), submission', ch')"
      "d = \<lparr>d_result = Inr (v, owner), d_dropped = [], d_origin = s, d_channel = ch'\<rparr>"
  | (fails) e submission' ch' where "try_wait_for_process pid submission ch = (Inl e, submission', ch')"
      "d = \<lparr>d_result = Inl (task_error e), d_dropped = [owner], d_origin = s, d_channel = ch'\<rparr>"
  | (moved) e ch' where "t_affinity turn = Some e"
      "d = \<lparr>d_result = Inl (Raised e), d_dropped = [owner], d_origin = s, d_channel = ch'\<rparr>"
  | (replies) submission' ch' task2 ch2 task3 action v owner' s' phase' where
      "try_wait_for_process pid submission ch = (Inr None, submission', ch')"
      "runtime_does w (t_during turn) (task, ch') = (task2, ch2)"
      "recv_action w (task2, ch2) = (Received action, task3)" "execute action (owner, s) = (Reply v, owner', s')"
      "drive_loop w execute pid turns submission' (send_reply v task3, ch2) owner' phase' s' = Some d"
  | (withholds) submission' ch' task2 ch2 task3 action owner' s' phase' where
      "try_wait_for_process pid submission ch = (Inr None, submission', ch')"
      "runtime_does w (t_during turn) (task, ch') = (task2, ch2)"
      "recv_action w (task2, ch2) = (Received action, task3)"
      "drive_loop w execute pid turns submission' (task3, ch2) owner' phase' s' = Some d"
  | (waits) submission' ch' task2 ch2 task3 where
      "try_wait_for_process pid submission ch = (Inr None, submission', ch')"
      "runtime_does w (t_during turn) (task, ch') = (task2, ch2)" "recv_action w (task2, ch2) = (RecvEmpty, task3)"
      "drive_loop w execute pid turns submission' (task3, ch2) owner CancelQueuedBeforeDequeue s = Some d"
  | (disconnected) submission' ch' task2 ch2 task3 r submission'' ch3 where
      "try_wait_for_process pid submission ch = (Inr None, submission', ch')"
      "runtime_does w (t_during turn) (task, ch') = (task2, ch2)" "recv_action w (task2, ch2) = (Disconnected, task3)"
      "wait_ready_timeout pid submission' ch2 = (r, submission'', ch3)"
      "drive_loop w execute pid turns submission'' (task3, ch3) owner CancelQueuedBeforeDequeue s = Some d"
proof (cases "t_signal turn")
  case (Some signal)
  then show ?thesis using assms cancel_fails cancels
    by (auto split: option.splits sum.splits)
next
  case None
  obtain r submission' ch' where tw: "try_wait_for_process pid submission ch = (r, submission', ch')" by (metis surjective_pairing)
  obtain task2 ch2 where rd: "runtime_does w (t_during turn) (task, ch') = (task2, ch2)" by (metis surjective_pairing)
  obtain q task3 where ra: "recv_action w (task2, ch2) = (q, task3)" by (metis surjective_pairing)
  obtain x submission'' ch3 where wr: "wait_ready_timeout pid submission' ch2 = (x, submission'', ch3)" by (metis surjective_pairing)
  note step = assms(1) [unfolded drive_loop.simps assms(2) None]
  show ?thesis
  proof (cases r)
    case (Inl e)
    then show ?thesis using step tw fails by simp
  next
    case (Inr out)
    show ?thesis
    proof (cases out)
      case (Some v)
      then show ?thesis using step tw Inr returns by simp
    next
      case None
      note tw = tw [unfolded Inr None]
      show ?thesis
      proof (cases q)
        case (Received action)
        obtain answer owner' s' where ex: "execute action (owner, s) = (answer, owner', s')" by (metis surjective_pairing)
        show ?thesis
        proof (cases "t_affinity turn")
          case (Some e)
          then show ?thesis using step tw rd ra Received moved [of e ch2] by simp
        next
          case None
          then show ?thesis
            using step tw rd ra [unfolded Received] ex replies [OF tw rd ra [unfolded Received]]
              withholds [OF tw rd ra [unfolded Received]] by (cases answer) simp_all
        qed
      next
        case RecvEmpty
        then show ?thesis using step tw rd ra waits by simp
      next
        case Disconnected
        then show ?thesis using step tw rd ra wr disconnected by simp
      qed
    qed
  qed
qed

context worker
begin

lemma drive_inv_reply:
  assumes inv: "drive_inv w execute st0 submission task ch st" and "recv_action w (task, ch) = (Received action, task')"
    and ex: "execute action st = (Reply v, st')"
  shows "drive_inv w execute st0 submission (send_reply v task') ch st'"
proof -
  have r: "bt_sent task" "\<not> bt_received task" "action = last (fst (w (bt_answers task)))" "bt_answers task' = bt_answers task"
    using assms(2) by (auto simp: recv_action_def split: if_splits)
  obtain rs where rs: "bt_answers task = map Inr rs" "handled w execute st0 rs st" using inv r by (auto simp: drive_inv_def)
  have wait: "w (map Inr rs) = (fst (w (map Inr rs)), Waiting)" using inv r rs(1) by (auto simp: drive_inv_def prod_eq_iff)
  have "tc_queue ch = []" "bs_ready submission = None"
    using inv r(1) by (cases "tc_queue ch"; cases "bs_ready submission"; auto simp: drive_inv_def)+
  moreover have "handled w execute st0 (rs @ [v]) st'"
    using rs answered_prefix [OF wait, of "Inr v"] ex
    by (simp add: handled_def handle_snoc r(3))
  ultimately show ?thesis using rs(1) r(4)
    by (auto simp: drive_inv_def send_reply_def intro!: exI [of _ "rs @ [v]"])
qed

lemma drive_loop_output:
  assumes "drive_loop w execute pid turns submission t owner phase s = Some d" "d_result d = Inr (v, owner')"
    and "drive_inv w execute st0 submission (fst t) (snd t) (owner, s)"
  shows "\<exists>rs asked. w (map Inr rs) = (asked, Finished v) \<and> handle execute asked st0 = Some (rs, owner', d_origin d)"
  using assms
proof (induction turns arbitrary: submission t owner phase s)
  case (Cons turn turns)
  obtain task ch where 1: "runtime_does w (t_before turn) t = (task, ch)" by (cases "runtime_does w (t_before turn) t")
  have i1: "drive_inv w execute st0 submission task ch (owner, s)"
    using drive_inv_runtime Cons.prems(3) 1 by (metis surjective_pairing)
  from Cons.prems(1) 1 show ?case
  proof (cases rule: drive_loop_cases)
    case (returns v2 submission' ch')
    then have v: "v2 = v" "owner = owner'" "s = d_origin d" using Cons.prems(2) by simp_all
    have f: "snd (w (bt_answers task)) = Finished v" using drive_inv_try_wait(2) [OF i1 returns(1)] v by simp
    then obtain rs where rs: "bt_answers task = map Inr rs" "handled w execute st0 rs (owner, s)"
      using i1 by (auto simp: drive_inv_def)
    have "w (map Inr rs) = (fst (w (map Inr rs)), Finished v)" using f rs(1) by (simp add: prod_eq_iff)
    then show ?thesis using rs(2) v ended_asks [of "map Inr rs"] by (auto simp: handled_def)
  next
    case (replies submission' ch' task2 ch2 task3 action r owner2 s2 phase2)
    note i2 = drive_inv_runtime [OF drive_inv_try_wait(1) [OF i1 replies(1)] replies(2)]
    show ?thesis
      by (rule Cons.IH [OF replies(5) Cons.prems(2)]) (simp add: drive_inv_reply [OF i2 replies(3,4)])
  next
    case (withholds submission' ch' task2 ch2 task3 action owner2 s2 phase2)
    note i2 = drive_inv_runtime [OF drive_inv_try_wait(1) [OF i1 withholds(1)] withholds(2)]
    show ?thesis
      by (rule Cons.IH [OF withholds(4) Cons.prems(2)]) (simp add: drive_inv_withhold [OF i2 withholds(3)])
  next
    case (waits submission' ch' task2 ch2 task3)
    note i2 = drive_inv_runtime [OF drive_inv_try_wait(1) [OF i1 waits(1)] waits(2)]
    show ?thesis
      by (rule Cons.IH [OF waits(4) Cons.prems(2)]) (simp add: drive_inv_recv_none [OF i2 waits(3)])
  next
    case (disconnected submission' ch' task2 ch2 task3 r submission'' ch3)
    note i2 = drive_inv_runtime [OF drive_inv_try_wait(1) [OF i1 disconnected(1)] disconnected(2)]
    show ?thesis
      by (rule Cons.IH [OF disconnected(5) Cons.prems(2)])
        (simp add: drive_inv_wait_ready [OF drive_inv_recv_none [OF i2 disconnected(3)] disconnected(4)])
  qed (use Cons.prems(2) in simp_all)
qed simp

end

lemma drive_owned_output:
  assumes "worker w" "submit_for_process p active q st = (Inr submitted, st')"
    and d: "drive_owned w execute pid affinity turns submitted owner s = Some d" "d_result d = Inr (v, owner')"
  defines "s0 \<equiv> reap_origin_quarantine (s\<lparr>ACTIVE_ORIGIN_SUBMISSION := Some (bs_id (fst submitted))\<rparr>)"
  shows "\<exists>rs asked s1. w (map Inr rs) = (asked, Finished v) \<and> handle execute asked (owner, s0) = Some (rs, owner', s1) \<and>
    d_origin d = s1\<lparr>ACTIVE_ORIGIN_SUBMISSION := ACTIVE_ORIGIN_SUBMISSION s\<rparr>"
proof -
  obtain submission ch where sub: "submitted = (submission, ch)" by (cases submitted)
  have inv: "drive_inv w execute st0 submission bridge_task_new ch st0" for st0
    using assms(2) sub drive_inv_new by metis
  obtain d' where d': "drive_loop w execute pid turns submission (bridge_task_new, ch) owner CancelBeforePoll s0 = Some d'"
    "d = d'\<lparr>d_origin := (d_origin d')\<lparr>ACTIVE_ORIGIN_SUBMISSION := ACTIVE_ORIGIN_SUBMISSION s\<rparr>\<rparr>"
    using d by (auto simp: drive_owned_def sub s0_def Let_def split: option.splits)
  then show ?thesis using worker.drive_loop_output [OF assms(1) d'(1), of v owner' "(owner, s0)"] inv d(2) by auto
qed

section \<open>How a drive ends\<close>

definition task_of :: "u32 \<Rightarrow> 'v BlockingSubmission \<Rightarrow> 'v task_channel \<Rightarrow> bool" where
  "task_of pid submission ch \<longleftrightarrow> task_known submission ch \<and> bs_process_id submission = pid"

lemma runtime_does_channel:
  "runtime_does w ev (task, ch) = (task', ch') \<Longrightarrow> ch' = ch \<or> (\<exists>r. ch' = task_ends r ch)"
  by (cases ev) (auto split: if_splits progress.splits)

lemma task_of_steps:
  "task_of pid submission ch \<Longrightarrow> runtime_does w ev (task, ch) = (task', ch') \<Longrightarrow> task_of pid submission ch'"
  "task_of pid submission ch \<Longrightarrow> try_wait_for_process pid submission ch = (r, submission', ch') \<Longrightarrow> task_of pid submission' ch'"
  "task_of pid submission ch \<Longrightarrow> wait_ready_timeout pid submission ch = (r', submission', ch') \<Longrightarrow> task_of pid submission' ch'"
  "task_of pid submission ch \<Longrightarrow> cancel_for_process pid submission ch = (r'', submission', ch') \<Longrightarrow> task_of pid submission' ch'"
  using task_known_steps process_kept by (metis task_of_def runtime_does_channel)+

lemma task_of_ended:
  "task_of pid submission ch \<Longrightarrow> try_wait_for_process pid submission ch = (r, submission', ch') \<Longrightarrow> r \<noteq> Inr None \<Longrightarrow> \<not> tc_sender ch'"
  "task_of pid submission ch \<Longrightarrow> cancel_for_process pid submission ch = (Inl e, submission', ch') \<Longrightarrow> \<not> tc_sender ch"
  by (auto simp: task_of_def task_known_def submission_defs split: if_splits option.splits list.splits recv_answer.splits)

lemma bounded_wait_task:
  "bounded_wait w pid looks submission t = Some (retained, ch') \<Longrightarrow> task_of pid submission (snd t) \<Longrightarrow>
   (case retained of None \<Rightarrow> \<not> tc_sender ch' | Some submission' \<Rightarrow> task_of pid submission' ch')"
proof (induction looks arbitrary: submission t)
  case (Cons look looks)
  obtain ev early where look: "look = (ev, early)" by (cases look)
  obtain task ch where rd: "runtime_does w ev t = (task, ch)" by (cases "runtime_does w ev t")
  have k: "task_of pid submission ch" using Cons.prems(2) rd task_of_steps(1) by (metis surjective_pairing)
  obtain r submission' ch2 where tw: "try_wait_for_process pid submission ch = (r, submission', ch2)" by (metis surjective_pairing)
  show ?case
  proof (cases "r = Inr None")
    case True
    then show ?thesis using Cons.prems(1) Cons.IH [of submission' "(task, ch2)"] task_of_steps(2) [OF k tw] rd tw
      by (cases early) (auto simp: look)
  next
    case False
    then have "retained = None \<and> ch' = ch2" using Cons.prems(1) rd tw by (auto simp: look split: sum.splits option.splits)
    then show ?thesis using task_of_ended(1) [OF k tw False] by simp
  qed
qed simp

lemma bounded_wait_ends:
  "\<exists>look \<in> set looks. \<not> snd look \<Longrightarrow> bounded_wait w pid looks submission t \<noteq> None"
proof (induction looks arbitrary: submission t)
  case (Cons look looks)
  show ?case
    by (cases look; cases "snd look"; use Cons in \<open>auto split: prod.split sum.split option.split\<close>)
qed simp

lemma cancel_task:
  assumes "cancel_with_bounded_wait w pid looks submission (task, ch) = Some r" "task_of pid submission ch"
  shows "case r of Inl e \<Rightarrow> \<not> tc_sender ch | Inr (None, ch') \<Rightarrow> \<not> tc_sender ch' | Inr (Some submission', ch') \<Rightarrow> task_of pid submission' ch'"
proof -
  obtain x submission' ch' where c: "cancel_for_process pid submission ch = (x, submission', ch')" by (metis surjective_pairing)
  show ?thesis
  proof (cases x)
    case (Inl e)
    then show ?thesis using assms(1) task_of_ended(2) [OF assms(2), of e submission' ch'] c
      by (auto simp: cancel_with_bounded_wait_def)
  next
    case (Inr u)
    then obtain y where y: "bounded_wait w pid looks submission' (task, ch') = Some y" "r = Inr y"
      using assms(1) c by (auto simp: cancel_with_bounded_wait_def)
    then show ?thesis using bounded_wait_task [of w pid looks submission' "(task, ch')" "fst y" "snd y"] task_of_steps(4) [OF assms(2) c]
      by (cases y) (auto split: option.splits)
  qed
qed

text \<open>
  The owner has been retained: it is the last entry of the quarantine, which says that the task has
  ended only if it has.
\<close>

definition retained_last :: "'own origin \<Rightarrow> 'o task_channel \<Rightarrow> bool" where
  "retained_last s ch \<longleftrightarrow>
     (\<exists>es e owner. ORIGIN_QUARANTINE s = es @ [e] \<and> q_owner e = Some owner \<and> LAST_ORIGIN_QUARANTINE_TOKEN s = Some (q_token e) \<and>
       (q_terminal e \<longrightarrow> \<not> tc_sender ch))"

definition drive_exit :: "'e drive_turn list \<Rightarrow> ('o, 'own, 'e) driven \<Rightarrow> bool" where
  "drive_exit turns d \<longleftrightarrow>
     (case d_result d of
        Inr _ \<Rightarrow> d_dropped d = [] \<and> \<not> tc_sender (d_channel d)
      | Inl e \<Rightarrow>
          d_dropped d = [] \<and> retained_last (d_origin d) (d_channel d) \<and> (\<exists>turn \<in> set turns. \<exists>signal. t_signal turn = Some signal \<and> e = Raised signal) \<or>
          length (d_dropped d) = 1 \<and>
            (\<not> tc_sender (d_channel d) \<or> (\<exists>turn \<in> set turns. \<exists>moved. t_affinity turn = Some moved \<and> e = Raised moved)))"

lemma drive_exit_Cons: "drive_exit turns d \<Longrightarrow> drive_exit (turn # turns) d"
  by (auto simp: drive_exit_def split: sum.splits)

lemma drive_loop_exit:
  "drive_loop w execute pid turns submission t owner phase s = Some d \<Longrightarrow> task_of pid submission (snd t) \<Longrightarrow> drive_exit turns d"
proof (induction turns arbitrary: submission t owner phase s)
  case (Cons turn turns)
  obtain task ch where 1: "runtime_does w (t_before turn) t = (task, ch)" by (cases "runtime_does w (t_before turn) t")
  have k: "task_of pid submission ch" using Cons.prems(2) 1 task_of_steps(1) by (metis surjective_pairing)
  from Cons.prems(1) 1 show ?case
  proof (cases rule: drive_loop_cases)
    case (cancel_fails signal e)
    then show ?thesis using cancel_task [OF cancel_fails(2) k] by (simp add: drive_exit_def)
  next
    case (cancels signal retained ch')
    then show ?thesis using cancel_task [OF cancels(2) k]
      by (auto simp: drive_exit_def retained_last_def retain_origin_after_cancellation_def Let_def split: option.splits)
  next
    case (returns v submission' ch')
    then show ?thesis using task_of_ended(1) [OF k returns(1)] by (simp add: drive_exit_def)
  next
    case (fails e submission' ch')
    then show ?thesis using task_of_ended(1) [OF k fails(1)] by (simp add: drive_exit_def)
  next
    case (replies submission' ch' task2 ch2 task3 action v owner' s' phase')
    show ?thesis by (rule drive_exit_Cons [OF Cons.IH [OF replies(5)]])
      (simp add: task_of_steps(1) [OF task_of_steps(2) [OF k replies(1)] replies(2)])
  next
    case (withholds submission' ch' task2 ch2 task3 action owner' s' phase')
    show ?thesis by (rule drive_exit_Cons [OF Cons.IH [OF withholds(4)]])
      (simp add: task_of_steps(1) [OF task_of_steps(2) [OF k withholds(1)] withholds(2)])
  next
    case (waits submission' ch' task2 ch2 task3)
    show ?thesis by (rule drive_exit_Cons [OF Cons.IH [OF waits(4)]])
      (simp add: task_of_steps(1) [OF task_of_steps(2) [OF k waits(1)] waits(2)])
  next
    case (disconnected submission' ch' task2 ch2 task3 r submission'' ch3)
    show ?thesis by (rule drive_exit_Cons [OF Cons.IH [OF disconnected(5)]])
      (simp add: task_of_steps(3) [OF task_of_steps(1) [OF task_of_steps(2) [OF k disconnected(1)] disconnected(2)] disconnected(4)])
  qed (simp_all add: drive_exit_def)
qed simp

section \<open>Properties: driving\<close>

text \<open>
  C4. What a drive of a worker's task comes to, whatever the runtime, the signals and the actions do.
  If it returns an output, then the actions the worker asked for have been executed, each once, in
  the order it asked, on the owner: the output is the worker's on their answers, the owner is the one
  they left, and the task has ended. If it fails with a signal the owner is retained in the quarantine.
  The owner is dropped in no other case than that the task has ended, or that the thread is no more
  the one the call came in on.
\<close>
theorem drive_owned_outcome:
  assumes "worker w" "submit_for_process pid active q st = (Inr (submission, ch), st')"
    and "drive_owned w execute pid None turns (submission, ch) owner s = Some d"
  defines "s0 \<equiv> reap_origin_quarantine (s\<lparr>ACTIVE_ORIGIN_SUBMISSION := Some (bs_id submission)\<rparr>)"
  shows "drive_exit turns d \<and> ACTIVE_ORIGIN_SUBMISSION (d_origin d) = ACTIVE_ORIGIN_SUBMISSION s \<and>
    (\<forall>v owner'. d_result d = Inr (v, owner') \<longrightarrow>
      (\<exists>answers asked s1. w (map Inr answers) = (asked, Finished v) \<and>
        handle execute asked (owner, s0) = Some (answers, owner', s1)))"
proof (intro conjI allI impI)
  obtain d' where d': "drive_loop w execute pid turns submission (bridge_task_new, ch) owner CancelBeforePoll s0 = Some d'"
    "d = d'\<lparr>d_origin := (d_origin d')\<lparr>ACTIVE_ORIGIN_SUBMISSION := ACTIVE_ORIGIN_SUBMISSION s\<rparr>\<rparr>"
    using assms(3) by (auto simp: drive_owned_def s0_def Let_def)
  have "task_of pid submission ch"
    using submit_task_known [OF assms(2)] assms(2) by (auto simp: task_of_def submit_for_process_def Let_def split: if_splits)
  then have "drive_exit turns d'" using drive_loop_exit [OF d'(1)] by simp
  then show "drive_exit turns d" by (cases "d_result d'") (simp_all add: d'(2) drive_exit_def retained_last_def)
  show "ACTIVE_ORIGIN_SUBMISSION (d_origin d) = ACTIVE_ORIGIN_SUBMISSION s" by (simp add: d'(2))
  show "\<exists>answers asked s1. w (map Inr answers) = (asked, Finished v) \<and>
      handle execute asked (owner, s0) = Some (answers, owner', s1)" if "d_result d = Inr (v, owner')" for v owner'
    using drive_owned_output [OF assms(1-3) that] by (auto simp: s0_def)
qed

text \<open>A worker that asks once and returns the answer.\<close>

theorem drive_owned_outcome_witness:
  "let w = bridge_request (3 :: nat) (\<lambda>answer. worker_returns (case answer of Inr (v :: nat) \<Rightarrow> v | Inl _ \<Rightarrow> 0));
       execute = (\<lambda>action (owner :: nat, s). (Reply (action + owner), owner + 1, s));
       turn = \<lparr>t_before = Polled, t_signal = None :: unit option, t_during = Polled, t_affinity = None, t_looks = []\<rparr>;
       submitted = (\<lparr>bs_id = 1, bs_parent_id = None, bs_process_id = 7, bs_receiver = True, bs_ready = None,
         bs_abort = True, bs_cancelled = False\<rparr>, \<lparr>tc_queue = [], tc_sender = True, tc_aborted = False\<rparr>);
       s = qw_origin (quarantine_start 1 None :: (unit, nat) quarantine) in
   \<exists>d. drive_owned w execute 7 None [turn, turn] submitted 4 s = Some d \<and> d_result d = Inr (7, 5) \<and> drive_exit [turn, turn] d"
proof -
  let ?w = "bridge_request (3 :: nat) (\<lambda>answer. worker_returns (case answer of Inr (v :: nat) \<Rightarrow> v | Inl _ \<Rightarrow> 0))"
  let ?execute = "\<lambda>action (owner :: nat, s). (Reply (action + owner), owner + 1, s)"
  let ?turn = "\<lparr>t_before = Polled, t_signal = None :: unit option, t_during = Polled, t_affinity = None, t_looks = []\<rparr>"
  let ?sub = "\<lparr>bs_id = 1, bs_parent_id = None, bs_process_id = 7, bs_receiver = True, bs_ready = None,
    bs_abort = True, bs_cancelled = False\<rparr> :: nat BlockingSubmission"
  let ?ch = "\<lparr>tc_queue = [], tc_sender = True, tc_aborted = False\<rparr> :: nat task_channel"
  let ?s = "qw_origin (quarantine_start 1 None :: (unit, nat) quarantine)"
  have w: "worker ?w" by simp
  have sub: "submit_for_process 7 None 7 \<lparr>NEXT_SUBMISSION_ID = 1, OUTSTANDING_SUBMISSIONS = 0, SUBMISSION_PROCESS_ID = 7\<rparr> =
      (Inr (?sub, ?ch), \<lparr>NEXT_SUBMISSION_ID = 2, OUTSTANDING_SUBMISSIONS = 1, SUBMISSION_PROCESS_ID = 7\<rparr>)"
    by (simp add: submit_for_process_def ensure_submission_process_def Let_def)
  obtain d where d: "drive_owned ?w ?execute 7 None [?turn, ?turn] (?sub, ?ch) 4 ?s = Some d" "d_result d = Inr (7, 5)"
    by (simp add: drive_owned_def Let_def bridge_task_new_def submission_defs recv_action_def send_reply_def)
  then show ?thesis using drive_owned_outcome [OF w sub d(1)] by (auto simp: Let_def)
qed

lemma find_snoc: "find P (xs @ [x]) = (case find P xs of None \<Rightarrow> if P x then Some x else None | Some y \<Rightarrow> Some y)"
  by (induction xs) simp_all

text \<open>
  C11. A signal wins over a result that is ready. In a turn in which the signal check raises, whatever the task
  has done, and if the wait for its end comes to its deadline at the latest, the drive raises the
  signal and the owner is in the quarantine under a new token: nothing is taken from it, and it may be reaped at once
  only if the task has ended.
\<close>
theorem signal_wins_over_result:
  assumes "t_signal turn = Some signal" "task_of pid submission (snd t)" "bs_receiver submission"
    and "\<exists>look \<in> set (t_looks turn). \<not> snd look" "find_entry (NEXT_ORIGIN_QUARANTINE_TOKEN s) s = None"
  shows "\<exists>d. drive_loop w execute pid (turn # turns) submission t owner phase s = Some d \<and> d_result d = Inl (Raised signal) \<and>
    d_dropped d = [] \<and>
    (\<exists>e. find_entry (NEXT_ORIGIN_QUARANTINE_TOKEN s) (d_origin d) = Some e \<and> q_owner e = Some owner \<and> q_phase e = phase \<and>
      (can_reap (retention_audit e) \<longrightarrow> \<not> tc_sender (d_channel d)))"
proof -
  obtain task ch where rd: "runtime_does w (t_before turn) t = (task, ch)" by (cases "runtime_does w (t_before turn) t")
  have k: "task_of pid submission ch" using assms(2) rd task_of_steps(1) by (metis surjective_pairing)
  have c: "cancel_for_process pid submission ch =
      (Inr (), submission\<lparr>bs_cancelled := True\<rparr>, if bs_abort submission then ch\<lparr>tc_aborted := True\<rparr> else ch)"
    using k assms(3) by (simp add: cancel_for_process_def validate_process_def task_of_def)
  then obtain retained ch' where r: "cancel_with_bounded_wait w pid (t_looks turn) submission (task, ch) = Some (Inr (retained, ch'))"
    using bounded_wait_ends [OF assms(4)] by (fastforce simp: cancel_with_bounded_wait_def)
  have e: "drive_loop w execute pid (turn # turns) submission t owner phase s =
      Some \<lparr>d_result = Inl (Raised signal), d_dropped = [],
        d_origin = snd (retain_origin_after_cancellation retained owner phase s), d_channel = ch'\<rparr>"
    by (simp add: rd assms(1) r)
  have "find_entry (NEXT_ORIGIN_QUARANTINE_TOKEN s) (snd (retain_origin_after_cancellation retained owner phase s)) =
      Some \<lparr>q_token = NEXT_ORIGIN_QUARANTINE_TOKEN s, q_terminal = (retained = None), q_phase = phase, q_actions = True, q_owner = Some owner\<rparr>"
    using assms(5) by (simp add: find_entry_def retain_origin_after_cancellation_def Let_def find_snoc)
  then show ?thesis using cancel_task [OF r k] unfolding e
    by (auto simp: can_reap_iff)
qed

theorem signal_wins_over_result_witness:
  "let turn = \<lparr>t_before = Polled, t_signal = Some True, t_during = NotPolled, t_affinity = None, t_looks = [(NotPolled, False)]\<rparr>;
       submission = \<lparr>bs_id = 1, bs_parent_id = None, bs_process_id = 7, bs_receiver = True, bs_ready = None,
         bs_abort = True, bs_cancelled = False\<rparr>;
       t = (bridge_task_new, \<lparr>tc_queue = [], tc_sender = True, tc_aborted = False\<rparr>);
       s = qw_origin (quarantine_start 1 None :: (unit, nat) quarantine) in
   \<exists>d. drive_loop (worker_returns (2 :: nat)) (\<lambda>(action :: unit) st. (Reply (), st)) 7 [turn] submission t 4 CancelBeforePoll s = Some d \<and>
     d_result d = Inl (Raised True)"
proof -
  let ?turn = "\<lparr>t_before = Polled, t_signal = Some True, t_during = NotPolled, t_affinity = None, t_looks = [(NotPolled, False)]\<rparr>"
  let ?sub = "\<lparr>bs_id = 1, bs_parent_id = None, bs_process_id = 7, bs_receiver = True, bs_ready = None,
    bs_abort = True, bs_cancelled = False\<rparr> :: nat BlockingSubmission"
  let ?t = "(bridge_task_new :: unit bridge_task, \<lparr>tc_queue = [], tc_sender = True, tc_aborted = False\<rparr> :: nat task_channel)"
  let ?s = "qw_origin (quarantine_start 1 None :: (unit, nat) quarantine)"
  have "t_signal ?turn = Some True" "task_of 7 ?sub (snd ?t)" "bs_receiver ?sub" "\<exists>look \<in> set (t_looks ?turn). \<not> snd look"
    "find_entry (NEXT_ORIGIN_QUARANTINE_TOKEN ?s) ?s = None"
    by (simp_all add: task_of_def task_known_def find_entry_def quarantine_start_def)
  note signal_wins_over_result [OF this, of "worker_returns 2" "\<lambda>(action :: unit) st. (Reply (), st)" "[]" 4 CancelBeforePoll]
  then show ?thesis unfolding Let_def by blast
qed

end
