(* ===== verification/Workers.thy ===== *)
theory Workers
  imports Origin Auth Cookies Hooks Http_Types
begin

text \<open>
  The workers of \<open>crates/requests-python\<close>: \<open>auth.rs\<close> (\<open>digest_worker\<close>, \<open>digest_401_worker\<close>),
  \<open>callbacks.rs\<close> (\<open>dispatch_worker\<close>, with the actions it asks for and the function that drives it) and \<open>cookies.rs\<close>
  (\<open>pipeline_worker\<close>). What the interpreter does is an argument; each worker satisfies the laws of
  the locale \<open>worker\<close>, so what a drive of it returns is known from its answers.
\<close>

section \<open>Digest authentication\<close>

datatype DigestAction = ActCtime | ActRandom nat

datatype DigestReply = DigestBytes bytes | DigestFailed

datatype DigestOutcome = DigestComplete DigestOutput | DigestHandlerFailed | DigestBridgeClosed BridgeClosed

definition digest_worker :: "hashes \<Rightarrow> DigestPlan \<Rightarrow> (DigestAction, DigestReply, DigestOutcome) worker" where
  "digest_worker H plan =
     bridge_request ActCtime (\<lambda>answer.
       case answer of
         Inr (DigestBytes ctime) \<Rightarrow>
           bridge_request (ActRandom 8) (\<lambda>answer.
             case answer of
               Inr (DigestBytes random) \<Rightarrow> worker_returns (DigestComplete (digest_finish H plan ctime random))
             | Inr DigestFailed \<Rightarrow> worker_returns DigestHandlerFailed
             | Inl error \<Rightarrow> worker_returns (DigestBridgeClosed error))
       | Inr DigestFailed \<Rightarrow> worker_returns DigestHandlerFailed
       | Inl error \<Rightarrow> worker_returns (DigestBridgeClosed error))"

datatype Digest401Action =
    ActSeek | ActChallenge | ActReset401 | ActIncrement401 u32 | ActParse rstr | ActConsume | ActClose | ActCopy
  | ActExtractCookies | ActPrepareCookies | ActBuildDigestHeader | ActSend | ActAppendHistory | ActReplaceRequest

datatype Digest401Reply = Ack401 | Header401 rstr | Failed401

datatype Digest401Outcome = Original401 | Sent401 | HandlerFailed401 | BridgeClosed401 BridgeClosed

record Digest401Input =
  num_401_calls :: u32

text \<open>Asking for an action that must be acknowledged.\<close>

definition acknowledged ::
  "Digest401Action \<Rightarrow> (Digest401Action, Digest401Reply, Digest401Outcome) worker \<Rightarrow>
   (Digest401Action, Digest401Reply, Digest401Outcome) worker" where
  "acknowledged action next_step =
     bridge_request action (\<lambda>answer.
       case answer of
         Inr Ack401 \<Rightarrow> next_step
       | Inr _ \<Rightarrow> worker_returns HandlerFailed401
       | Inl error \<Rightarrow> worker_returns (BridgeClosed401 error))"

text \<open>
  The loop over the steps. \<open>lowercase\<close> is \<open>str::to_lowercase\<close>; a header that is missing panics.
\<close>

fun digest_401_loop ::
  "(rstr \<Rightarrow> rstr) \<Rightarrow> Digest401Input \<Rightarrow> Digest401Step list \<Rightarrow> rstr option \<Rightarrow>
   (Digest401Action, Digest401Reply, Digest401Outcome) worker" where
  "digest_401_loop lowercase input [] header = worker_returns Sent401"
| "digest_401_loop lowercase input (step # steps) header =
     (case step of
        Seek \<Rightarrow> acknowledged ActSeek (digest_401_loop lowercase input steps header)
      | Challenge \<Rightarrow>
          bridge_request ActChallenge (\<lambda>answer.
            case answer of
              Inr (Header401 v) \<Rightarrow> digest_401_loop lowercase input steps (Some v)
            | Inr _ \<Rightarrow> worker_returns HandlerFailed401
            | Inl error \<Rightarrow> worker_returns (BridgeClosed401 error))
      | Increment \<Rightarrow>
          (case header of
             None \<Rightarrow> worker_panics
           | Some h \<Rightarrow>
               if \<not> sublist (lit ''digest'') (lowercase h) \<or> num_401_calls input \<ge> 2
               then acknowledged ActReset401 (worker_returns Original401)
               else acknowledged (ActIncrement401 (num_401_calls input + 1)) (digest_401_loop lowercase input steps header))
      | ParseStep \<Rightarrow>
          (case header of
             None \<Rightarrow> worker_panics
           | Some h \<Rightarrow> acknowledged (ActParse h) (digest_401_loop lowercase input steps None))
      | Consume \<Rightarrow> acknowledged ActConsume (digest_401_loop lowercase input steps header)
      | Close \<Rightarrow> acknowledged ActClose (digest_401_loop lowercase input steps header)
      | Copy \<Rightarrow> acknowledged ActCopy (digest_401_loop lowercase input steps header)
      | ExtractCookies \<Rightarrow> acknowledged ActExtractCookies (digest_401_loop lowercase input steps header)
      | PrepareCookies \<Rightarrow> acknowledged ActPrepareCookies (digest_401_loop lowercase input steps header)
      | PreparedParts \<Rightarrow> acknowledged ActBuildDigestHeader (digest_401_loop lowercase input steps header)
      | SendStep \<Rightarrow> acknowledged ActSend (digest_401_loop lowercase input steps header)
      | AppendHistory \<Rightarrow> acknowledged ActAppendHistory (digest_401_loop lowercase input steps header)
      | ReplaceRequest \<Rightarrow> acknowledged ActReplaceRequest (digest_401_loop lowercase input steps header)
      | _ \<Rightarrow> digest_401_loop lowercase input steps header)"

text \<open>The steps a machine yields, as a \<open>for\<close> loop takes them.\<close>

function machine_steps :: "Digest401Machine \<Rightarrow> Digest401Step list" where
  "machine_steps m = (case machine_next m of (None, _) \<Rightarrow> [] | (Some step, m) \<Rightarrow> step # machine_steps m)"
  by pat_completeness auto
termination
  by (relation "measure (\<lambda>m. length STEPS - machine_index m)")
    (auto simp: machine_next_def Let_def split: if_splits)

declare machine_steps.simps [simp del]

definition digest_401_worker ::
  "(rstr \<Rightarrow> rstr) \<Rightarrow> Digest401Input \<Rightarrow> (Digest401Action, Digest401Reply, Digest401Outcome) worker" where
  "digest_401_worker lowercase input = digest_401_loop lowercase input (machine_steps machine_new) None"

section \<open>Hooks (\<open>callbacks.rs\<close>)\<close>

datatype HookReply = HookUnchanged | HookReplaced HookValueId | HookEnd | HookFailed

datatype HookOutcome = HookComplete HookValueId | HookHandlerFailed | HookBridgeClosed BridgeClosed

fun dispatch_loop :: "HookRegistry \<Rightarrow> (HookCall, HookReply, HookOutcome) worker" where
  "dispatch_loop registry [] = ([fst (next_call registry)], Waiting)"
| "dispatch_loop registry (answer # answers) =
     (let (call, registry) = next_call registry;
          (asked, p) =
            (case answer of
               Inr HookUnchanged \<Rightarrow> dispatch_loop registry answers
             | Inr (HookReplaced v) \<Rightarrow> dispatch_loop (hook_replace registry v) answers
             | Inr HookEnd \<Rightarrow> ([], Finished (HookComplete (current_value registry)))
             | Inr HookFailed \<Rightarrow> ([], Finished HookHandlerFailed)
             | Inl error \<Rightarrow> ([], Finished (HookBridgeClosed error))) in
      (call # asked, p))"

definition dispatch_worker :: "(HookCall, HookReply, HookOutcome) worker" where
  "dispatch_worker = dispatch_loop (hook_new 0)"

text \<open>
  The origin side. The interpreter has a state: \<open>iter_next\<close> is the iterator's \<open>__next__\<close>, which gives
  a hook, ends or raises, and \<open>call\<close> is the call of a hook, which raises or returns; \<open>None\<close> is
  Python's.
\<close>

record ('v, 'e, 'py) OriginHookOwner =
  ho_py :: 'py
  ho_values :: "'v list"
  ho_handler_error :: "'e PyErr option"

type_synonym ('v, 'e, 'py, 'h) hook_python =
  "('py \<Rightarrow> ('e + 'h option) \<times> 'py) \<times> ('h \<Rightarrow> 'v \<Rightarrow> 'py \<Rightarrow> ('e + 'v option) \<times> 'py)"

definition call_hook ::
  "('v, 'e, 'py, 'h) hook_python \<Rightarrow> ('v, 'e, 'py) OriginHookOwner \<Rightarrow> HookCall \<Rightarrow>
   ('e PyErr + HookReply) \<times> ('v, 'e, 'py) OriginHookOwner" where
  "call_hook P owner c =
     (case P of (iter_next, call) \<Rightarrow>
        case iter_next (ho_py owner) of
          (Inl e, py) \<Rightarrow> (Inl (Raised e), owner\<lparr>ho_py := py\<rparr>)
        | (Inr None, py) \<Rightarrow> (Inr HookEnd, owner\<lparr>ho_py := py\<rparr>)
        | (Inr (Some hook), py) \<Rightarrow>
            if length (ho_values owner) \<le> unat (hc_value c)
            then (Inl (PyRuntimeError (lit ''hook dispatch referenced an unknown Python value'')), owner\<lparr>ho_py := py\<rparr>)
            else
              (case call hook (ho_values owner ! unat (hc_value c)) py of
                 (Inl e, py) \<Rightarrow> (Inl (Raised e), owner\<lparr>ho_py := py\<rparr>)
               | (Inr None, py) \<Rightarrow> (Inr HookUnchanged, owner\<lparr>ho_py := py\<rparr>)
               | (Inr (Some replacement), py) \<Rightarrow>
                   (Inr (HookReplaced (of_nat (length (ho_values owner)))),
                    owner\<lparr>ho_py := py, ho_values := ho_values owner @ [replacement]\<rparr>)))"

definition store_handler_error :: "('v, 'e, 'py) OriginHookOwner \<Rightarrow> 'e PyErr \<Rightarrow> HookReply \<times> ('v, 'e, 'py) OriginHookOwner" where
  "store_handler_error owner e =
     (HookFailed, if ho_handler_error owner = None then owner\<lparr>ho_handler_error := Some e\<rparr> else owner)"

definition execute_action ::
  "('v, 'e, 'py, 'h) hook_python \<Rightarrow> HookCall \<Rightarrow> ('v, 'e, 'py) OriginHookOwner \<Rightarrow> HookReply \<times> ('v, 'e, 'py) OriginHookOwner" where
  "execute_action P action owner =
     (case call_hook P owner action of (Inr reply, owner) \<Rightarrow> (reply, owner) | (Inl e, owner) \<Rightarrow> store_handler_error owner e)"

definition hook_handler ::
  "('v, 'e, 'py, 'h) hook_python \<Rightarrow> (HookCall, HookReply, ('v, 'e, 'py) OriginHookOwner) handler" where
  "hook_handler P action st = (case execute_action P action (fst st) of (reply, owner) \<Rightarrow> (Reply reply, owner, snd st))"

definition hook_result :: "HookOutcome \<Rightarrow> ('v, 'e, 'py) OriginHookOwner \<Rightarrow> 'e PyErr + 'v" where
  "hook_result outcome owner =
     (case ho_handler_error owner of
        Some e \<Rightarrow> Inl e
      | None \<Rightarrow>
          (case outcome of
             HookComplete v \<Rightarrow>
               if unat v < length (ho_values owner) then Inr (ho_values owner ! unat v)
               else Inl (PyRuntimeError (lit ''hook dispatch lost its final Python value''))
           | HookHandlerFailed \<Rightarrow>
               Inl (PyRuntimeError (lit ''hook dispatch callback failed without preserving its Python exception''))
           | HookBridgeClosed e \<Rightarrow> Inl (bridge_error e)))"

text \<open>\<open>_dispatch_hook_trial\<close> from the iterator on; the state of the interpreter is left with the result.\<close>

definition dispatch_hook_trial ::
  "('v, 'e, 'py, 'h) hook_python \<Rightarrow> u32 \<Rightarrow> 'e drive_turn list \<Rightarrow> HookOutcome BlockingSubmission \<times> HookOutcome task_channel \<Rightarrow>
   'v \<Rightarrow> 'py \<Rightarrow> ('v, 'e, 'py) OriginHookOwner origin \<Rightarrow> ('e PyErr + ('e PyErr + 'v) \<times> 'py) option" where
  "dispatch_hook_trial P pid turns submitted hook_data py s =
     map_option (\<lambda>d. case d_result d of Inl e \<Rightarrow> Inl e | Inr (outcome, owner) \<Rightarrow> Inr (hook_result outcome owner, ho_py owner))
       (drive_owned dispatch_worker (hook_handler P) pid None turns submitted
         \<lparr>ho_py = py, ho_values = [hook_data], ho_handler_error = None\<rparr> s)"

section \<open>Cookies (\<open>cookies.rs\<close>)\<close>

datatype CookiePipelineReply = CookieAck | CookieResponse nat | CookieSnapshot nat | CookieHeader nat | CookieFailed

record pipeline_result =
  pr_response :: nat
  pr_hook_response :: nat
  pr_snapshots :: "nat list"
  pr_header :: "nat option"

datatype CookiePipelineOutcome =
    CookieComplete pipeline_result | CookieHandlerFailed | CookieBridgeClosed BridgeClosed

definition pipeline_reply :: "CookiePipelineStage \<Rightarrow> CookiePipelineReply \<Rightarrow> pipeline_result \<Rightarrow> pipeline_result" where
  "pipeline_reply stage reply result =
     (case reply of
        CookieResponse v \<Rightarrow>
          let result = result\<lparr>pr_response := v\<rparr> in if stage = Hook then result\<lparr>pr_hook_response := v\<rparr> else result
      | CookieSnapshot v \<Rightarrow> result\<lparr>pr_snapshots := pr_snapshots result @ [v]\<rparr>
      | CookieHeader v \<Rightarrow> result\<lparr>pr_header := Some v\<rparr>
      | _ \<Rightarrow> result)"

fun pipeline_loop ::
  "CookiePipelineStage list \<Rightarrow> pipeline_result \<Rightarrow> (CookiePipelineStage, CookiePipelineReply, CookiePipelineOutcome) worker" where
  "pipeline_loop [] result = worker_returns (CookieComplete result)"
| "pipeline_loop (stage # stages) result =
     bridge_request stage (\<lambda>answer.
       case answer of
         Inl error \<Rightarrow> worker_returns (CookieBridgeClosed error)
       | Inr CookieFailed \<Rightarrow> worker_returns CookieHandlerFailed
       | Inr reply \<Rightarrow> pipeline_loop stages (pipeline_reply stage reply result))"

definition pipeline_worker :: "(CookiePipelineStage, CookiePipelineReply, CookiePipelineOutcome) worker" where
  "pipeline_worker =
     pipeline_loop private_pipeline_stages \<lparr>pr_response = 0, pr_hook_response = 0, pr_snapshots = [], pr_header = None\<rparr>"

section \<open>The workers satisfy the laws\<close>

interpretation digest: worker "digest_worker H plan" for H plan
  by (auto simp: digest_worker_def split: sum.split DigestReply.split)

lemma acknowledged_ok [intro!, simp]: "worker next_step \<Longrightarrow> worker (acknowledged action next_step)"
  by (auto simp: acknowledged_def split: sum.split Digest401Reply.split)

lemma digest_401_loop_ok: "worker (digest_401_loop lowercase input steps header)"
  by (induction steps arbitrary: header)
    (auto split: Digest401Step.split sum.split Digest401Reply.split option.split)

interpretation digest_401: worker "digest_401_worker lowercase input" for lowercase input
  unfolding digest_401_worker_def by (rule digest_401_loop_ok)

lemma pipeline_loop_ok: "worker (pipeline_loop stages result)"
  by (induction stages arbitrary: result) (auto split: sum.split CookiePipelineReply.split)

interpretation cookie_pipeline: worker pipeline_worker
  unfolding pipeline_worker_def by (rule pipeline_loop_ok)

lemma dispatch_loop_ok: "worker (dispatch_loop registry)"
proof
  fix answers asked p answer
  show "dispatch_loop registry answers = (asked, Waiting) \<Longrightarrow> length asked = Suc (length answers)"
    by (induction answers arbitrary: registry asked)
      (auto simp: next_call_def Let_def split: sum.splits HookReply.splits prod.splits)
  show "dispatch_loop registry answers = (asked, p) \<Longrightarrow> p \<noteq> Waiting \<Longrightarrow> length asked \<le> length answers"
    by (induction answers arbitrary: registry asked)
      (auto simp: next_call_def Let_def split: sum.splits HookReply.splits prod.splits)
  show "dispatch_loop registry answers = (asked, Waiting) \<Longrightarrow>
      take (length asked) (fst (dispatch_loop registry (answers @ [answer]))) = asked"
    by (induction answers arbitrary: registry asked)
      (auto simp: next_call_def Let_def split: sum.splits HookReply.splits prod.splits, (metis fst_conv)+)
qed

interpretation hooks: worker dispatch_worker
  unfolding dispatch_worker_def by (rule dispatch_loop_ok)


section \<open>What the hooks do\<close>

text \<open>The reference: a value goes through the hooks of an iterator.\<close>

inductive hook_run ::
  "('py \<Rightarrow> ('e + 'h option) \<times> 'py) \<Rightarrow> ('h \<Rightarrow> 'v \<Rightarrow> 'py \<Rightarrow> ('e + 'v option) \<times> 'py) \<Rightarrow>
   'py \<Rightarrow> 'v \<Rightarrow> 'e PyErr + 'v \<Rightarrow> 'py \<Rightarrow> bool" for iter_next call where
  no_more: "iter_next py = (Inr None, py') \<Longrightarrow> hook_run iter_next call py v (Inr v) py'"
| iterator_raises: "iter_next py = (Inl e, py') \<Longrightarrow> hook_run iter_next call py v (Inl (Raised e)) py'"
| hook_raises:
    "\<lbrakk>iter_next py = (Inr (Some hook), py1); call hook v py1 = (Inl e, py')\<rbrakk> \<Longrightarrow>
     hook_run iter_next call py v (Inl (Raised e)) py'"
| hook_keeps:
    "\<lbrakk>iter_next py = (Inr (Some hook), py1); call hook v py1 = (Inr None, py2); hook_run iter_next call py2 v r py'\<rbrakk> \<Longrightarrow>
     hook_run iter_next call py v r py'"
| hook_replaces:
    "\<lbrakk>iter_next py = (Inr (Some hook), py1); call hook v py1 = (Inr (Some v'), py2); hook_run iter_next call py2 v' r py'\<rbrakk> \<Longrightarrow>
     hook_run iter_next call py v r py'"

lemma handle_hook_Cons:
  "handle (hook_handler P) (c # cs) (owner, s) = Some (rs, st) \<longleftrightarrow>
     (\<exists>rs'. rs = fst (execute_action P c owner) # rs' \<and>
       handle (hook_handler P) cs (snd (execute_action P c owner), s) = Some (rs', st))"
  by (cases st) (auto simp: hook_handler_def split: prod.split)

lemma execute_action_values: "\<exists>more. ho_values (snd (execute_action P c owner)) = ho_values owner @ more"
  by (cases P) (auto simp: execute_action_def call_hook_def store_handler_error_def split: prod.split sum.split option.split)

lemma handle_hook_values:
  "handle (hook_handler P) cs (owner, s) = Some (rs, owner', s') \<Longrightarrow> length (ho_values owner) \<le> length (ho_values owner')"
proof (induction cs arbitrary: owner rs)
  case (Cons c cs)
  then obtain rs' where "handle (hook_handler P) cs (snd (execute_action P c owner), s) = Some (rs', owner', s')"
    unfolding handle_hook_Cons by blast
  then have "length (ho_values (snd (execute_action P c owner))) \<le> length (ho_values owner')" by (rule Cons.IH)
  then show ?case using execute_action_values [of P c owner] by auto
qed simp

text \<open>The worker and the handler together: the value of the registry is the one the hooks have come to.\<close>

lemma dispatch_loop_runs:
  assumes "dispatch_loop registry (map Inr rs) = (asked, Finished outcome)"
    and "handle (hook_handler (iter_next, call)) asked (owner, s) = Some (rs, owner', s')"
    and "length (ho_values owner') < 2 ^ 64" "ho_handler_error owner = None"
    and "unat (current_value registry) < length (ho_values owner)" "ho_values owner ! unat (current_value registry) = v"
  shows "hook_run iter_next call (ho_py owner) v (hook_result outcome owner') (ho_py owner')"
  using assms
proof (induction rs arbitrary: registry asked owner v)
  case (Cons r rs)
  let ?c = "fst (next_call registry)" and ?reg = "snd (next_call registry)"
  have reg: "current_value ?reg = current_value registry" "hc_value ?c = current_value registry"
    by (simp_all add: next_call_def)
  let ?rest = "case r of HookUnchanged \<Rightarrow> dispatch_loop ?reg (map Inr rs) | HookReplaced v \<Rightarrow> dispatch_loop (hook_replace ?reg v) (map Inr rs)
    | HookEnd \<Rightarrow> ([], Finished (HookComplete (current_value ?reg))) | HookFailed \<Rightarrow> ([], Finished HookHandlerFailed)"
  have asked: "asked = ?c # fst ?rest" "snd ?rest = Finished outcome"
    using Cons.prems(1) by (auto simp: case_prod_beta Let_def split: HookReply.splits)
  obtain owner1 where ex: "execute_action (iter_next, call) ?c owner = (r, owner1)"
    and rest: "handle (hook_handler (iter_next, call)) (fst ?rest) (owner1, s) = Some (rs, owner', s')"
    using Cons.prems(2) unfolding asked(1) handle_hook_Cons by (metis list.inject surjective_pairing)
  obtain ans py1 where nx: "iter_next (ho_py owner) = (ans, py1)" by (metis surjective_pairing)
  show ?case
  proof (cases ans)
    case (Inl e)
    then have "r = HookFailed" "owner1 = owner\<lparr>ho_py := py1, ho_handler_error := Some (Raised e)\<rparr>"
      using ex nx Cons.prems(4) by (auto simp: execute_action_def call_hook_def store_handler_error_def)
    then show ?thesis using rest nx Inl by (auto simp: hook_result_def intro: hook_run.iterator_raises)
  next
    case (Inr next_hook)
    show ?thesis
    proof (cases next_hook)
      case None
      then have "r = HookEnd" "owner1 = owner\<lparr>ho_py := py1\<rparr>"
        using ex nx Inr by (auto simp: execute_action_def call_hook_def)
      then show ?thesis using rest nx Inr None asked(2) reg Cons.prems(4-6) by (auto simp: hook_result_def intro: hook_run.no_more)
    next
      case (Some hook)
      obtain res py2 where cl: "call hook v py1 = (res, py2)" by (metis surjective_pairing)
      have nx: "iter_next (ho_py owner) = (Inr (Some hook), py1)" using nx Inr Some by simp
      note ex = ex [unfolded execute_action_def call_hook_def reg(2) prod.case nx sum.case option.case Cons.prems(6) cl]
      show ?thesis
      proof (cases res)
        case (Inl e)
        then have "r = HookFailed" "owner1 = owner\<lparr>ho_py := py2, ho_handler_error := Some (Raised e)\<rparr>"
          using ex Cons.prems(4,5) by (auto simp: store_handler_error_def)
        then show ?thesis using rest nx cl Inl by (auto simp: hook_result_def intro: hook_run.hook_raises)
      next
        case (Inr replacement)
        show ?thesis
        proof (cases replacement)
          case None
          then have o: "r = HookUnchanged" "owner1 = owner\<lparr>ho_py := py2\<rparr>" using ex Cons.prems(5) Inr by auto
          have "hook_run iter_next call (ho_py owner1) v (hook_result outcome owner') (ho_py owner')"
            using Cons.prems(3-6) asked(2) rest o(1) reg(1)
            by (intro Cons.IH [of ?reg "fst ?rest" owner1]) (simp_all add: o(2) prod_eq_iff)
          then show ?thesis using hook_run.hook_keeps [of iter_next "ho_py owner" hook py1 call v py2] nx cl Inr None o(2) by simp
        next
          case (Some v2)
          let ?n = "length (ho_values owner)"
          have o: "r = HookReplaced (of_nat ?n)" "owner1 = owner\<lparr>ho_py := py2, ho_values := ho_values owner @ [v2]\<rparr>"
            using ex Cons.prems(5) Inr Some by auto
          have "?n < 2 ^ 64" using handle_hook_values [OF rest] Cons.prems(3) by (simp add: o(2))
          then have n: "unat (of_nat ?n :: u64) = ?n" by (simp add: unat_of_nat)
          have "hook_run iter_next call (ho_py owner1) v2 (hook_result outcome owner') (ho_py owner')"
            using Cons.prems(3,4) asked(2) rest o(1) n
            by (intro Cons.IH [of "hook_replace ?reg (of_nat ?n)" "fst ?rest" owner1])
              (simp_all add: o(2) prod_eq_iff hook_replace_def)
          then show ?thesis using hook_run.hook_replaces [of iter_next "ho_py owner" hook py1 call v v2 py2] nx cl Inr Some o(2) by simp
        qed
      qed
    qed
  qed
qed simp

section \<open>The plan of a digest challenge\<close>

text \<open>The reference: the actions to be acknowledged after the challenge, and the outcome they lead to.\<close>

definition digest_401_plan :: "(rstr \<Rightarrow> rstr) \<Rightarrow> Digest401Input \<Rightarrow> rstr \<Rightarrow> Digest401Action list \<times> Digest401Outcome" where
  "digest_401_plan lowercase input h =
     (if \<not> sublist (lit ''digest'') (lowercase h) \<or> num_401_calls input \<ge> 2 then ([ActReset401], Original401)
      else
        ([ActIncrement401 (num_401_calls input + 1), ActParse h, ActConsume, ActClose, ActCopy, ActExtractCookies,
          ActPrepareCookies, ActBuildDigestHeader, ActSend, ActAppendHistory, ActReplaceRequest], Sent401))"

text \<open>What an answer that is no acknowledgement comes to.\<close>

definition refused :: "(BridgeClosed + Digest401Reply) list \<Rightarrow> Digest401Outcome progress" where
  "refused answers = (case answers of [] \<Rightarrow> Waiting | Inr _ # _ \<Rightarrow> Finished HandlerFailed401 | Inl e # _ \<Rightarrow> Finished (BridgeClosed401 e))"

definition acknowledged_all ::
  "Digest401Action list \<times> Digest401Outcome \<Rightarrow> (Digest401Action, Digest401Reply, Digest401Outcome) worker" where
  "acknowledged_all plan = foldr acknowledged (fst plan) (worker_returns (snd plan))"

lemma acknowledged_simps [simp]:
  "acknowledged action next_step [] = ([action], Waiting)"
  "acknowledged action next_step (Inr Ack401 # answers) = (action # fst (next_step answers), snd (next_step answers))"
  "answer \<noteq> Inr Ack401 \<Longrightarrow> acknowledged action next_step (answer # answers) = ([action], refused (answer # answers))"
  by (auto simp: acknowledged_def refused_def split: sum.split Digest401Reply.split)

lemma acknowledged_all_run:
  assumes "rest = [] \<or> hd rest \<noteq> Inr Ack401" "n \<le> length actions"
  shows "acknowledged_all (actions, outcome) (replicate n (Inr Ack401) @ rest) =
    (take (Suc n) actions, if n = length actions then Finished outcome else refused rest)"
  using assms(2)
proof (induction n arbitrary: actions)
  case 0
  then show ?case using assms(1) by (cases actions; cases rest) (simp_all add: acknowledged_all_def refused_def)
next
  case (Suc n)
  then obtain action rest' where "actions = action # rest'" by (cases actions) auto
  then show ?case using Suc by (simp add: acknowledged_all_def)
qed

lemma machine_steps_new: "machine_steps machine_new = STEPS"
proof -
  have "machine_steps m = drop (machine_index m) STEPS" for m
  proof (induction m rule: machine_steps.induct)
    case (1 m)
    then show ?case
      by (subst machine_steps.simps) (auto simp: machine_next_def Let_def Cons_nth_drop_Suc split: if_splits)
  qed
  then show ?thesis by (simp add: machine_new_def)
qed

lemma digest_401_worker_run:
  "digest_401_worker lowercase input (Inr Ack401 # Inr (Header401 h) # answers) =
     (let r = acknowledged_all (digest_401_plan lowercase input h) answers in (ActSeek # ActChallenge # fst r, snd r))"
  by (simp add: digest_401_worker_def machine_steps_new STEPS_def acknowledged_all_def digest_401_plan_def Let_def)

section \<open>Digest headers and the cookie pipeline\<close>

lemma digest_worker_run:
  "digest_worker H plan [Inr (DigestBytes ctime), Inr (DigestBytes random)] =
     ([ActCtime, ActRandom 8], Finished (DigestComplete (digest_finish H plan ctime random)))"
  by (simp add: digest_worker_def)

lemma pipeline_loop_run:
  "length replies = length stages \<Longrightarrow> CookieFailed \<notin> set replies \<Longrightarrow>
   pipeline_loop stages result (map Inr replies) =
     (stages, Finished (CookieComplete (fold (\<lambda>(stage, reply). pipeline_reply stage reply) (zip stages replies) result)))"
proof (induction stages arbitrary: result replies)
  case (Cons stage stages)
  then obtain reply rest where "replies = reply # rest" by (cases replies) auto
  then show ?case using Cons by (cases reply) simp_all
qed simp

section \<open>Properties: workers\<close>

text \<open>
  C12. Dispatching hooks through the runtime is calling them one after the other. If the drive
  returns, whatever the schedule, then the result and the interpreter's state are those of the reference: the
  hooks of the iterator are called in order, each with the last value that was not \<open>None\<close>, until
  the iterator ends, or one raises: that exception is the result. (A process has room for fewer than
  \<open>2 ^ 64\<close> values.)
\<close>
theorem hooks_run_in_order:
  assumes "submit_for_process pid active q st = (Inr submitted, st')"
    and "drive_owned dispatch_worker (hook_handler (iter_next, call)) pid None turns submitted
      \<lparr>ho_py = py, ho_values = [hook_data], ho_handler_error = None\<rparr> s = Some d"
    and "d_result d = Inr (outcome, owner)" "length (ho_values owner) < 2 ^ 64"
  shows "dispatch_hook_trial (iter_next, call) pid turns submitted hook_data py s = Some (Inr (hook_result outcome owner, ho_py owner)) \<and>
    hook_run iter_next call py hook_data (hook_result outcome owner) (ho_py owner)"
proof -
  obtain rs asked s0 s1 where r: "dispatch_worker (map Inr rs) = (asked, Finished outcome)"
    "handle (hook_handler (iter_next, call)) asked (\<lparr>ho_py = py, ho_values = [hook_data], ho_handler_error = None\<rparr>, s0) = Some (rs, owner, s1)"
    using drive_owned_output [OF hooks.worker_axioms assms(1-3)] by blast
  have "hook_run iter_next call py hook_data (hook_result outcome owner) (ho_py owner)"
    using dispatch_loop_runs [OF r(1) [unfolded dispatch_worker_def] r(2) assms(4)] by (simp add: hook_new_def)
  then show ?thesis using assms(2,3) by (simp add: dispatch_hook_trial_def)
qed

text \<open>Two hooks: one adds five, one returns \<open>None\<close>.\<close>

theorem hooks_run_in_order_witness:
  "let iter_next = (\<lambda>py. case py of [] \<Rightarrow> (Inr None, []) | h # hs \<Rightarrow> (Inr (Some h), hs));
       call = (\<lambda>h v py. (Inr (if h = 0 then None else Some (v + h)), py));
       turn = \<lparr>t_before = Polled, t_signal = None :: unit option, t_during = Polled, t_affinity = None, t_looks = []\<rparr>;
       submitted = (\<lparr>bs_id = 1, bs_parent_id = None, bs_process_id = 7, bs_receiver = True, bs_ready = None,
         bs_abort = True, bs_cancelled = False\<rparr>, \<lparr>tc_queue = [], tc_sender = True, tc_aborted = False\<rparr>);
       s = qw_origin (quarantine_start 1 None :: (unit, (nat, unit, nat list) OriginHookOwner) quarantine) in
   dispatch_hook_trial (iter_next, call) 7 [turn, turn, turn, turn] submitted 10 [5, 0] s = Some (Inr (Inr 15, [])) \<and>
   hook_run iter_next call [5, 0] 10 (Inr 15) []"
proof -
  let ?iter = "\<lambda>py. case py of [] \<Rightarrow> (Inr None, []) | h # hs \<Rightarrow> (Inr (Some h), hs)"
  let ?call = "\<lambda>h v py. (Inr (if h = 0 then None else Some (v + h)), py)"
  let ?turn = "\<lparr>t_before = Polled, t_signal = None :: unit option, t_during = Polled, t_affinity = None, t_looks = []\<rparr>"
  let ?submitted = "(\<lparr>bs_id = 1, bs_parent_id = None, bs_process_id = 7, bs_receiver = True, bs_ready = None,
    bs_abort = True, bs_cancelled = False\<rparr>, \<lparr>tc_queue = [], tc_sender = True, tc_aborted = False\<rparr>)"
  let ?s = "qw_origin (quarantine_start 1 None :: (unit, (nat, unit, nat list) OriginHookOwner) quarantine)"
  let ?owner = "\<lparr>ho_py = [] :: nat list, ho_values = [10, 15 :: nat], ho_handler_error = None :: unit PyErr option\<rparr>"
  have sub: "submit_for_process 7 None 7 \<lparr>NEXT_SUBMISSION_ID = 1, OUTSTANDING_SUBMISSIONS = 0, SUBMISSION_PROCESS_ID = 7\<rparr> =
      (Inr ?submitted, \<lparr>NEXT_SUBMISSION_ID = 2, OUTSTANDING_SUBMISSIONS = 1, SUBMISSION_PROCESS_ID = 7\<rparr>)"
    by (simp add: submit_for_process_def ensure_submission_process_def Let_def)
  obtain d where d: "drive_owned dispatch_worker (hook_handler (?iter, ?call)) 7 None [?turn, ?turn, ?turn, ?turn] ?submitted
      \<lparr>ho_py = [5, 0], ho_values = [10], ho_handler_error = None\<rparr> ?s = Some d" "d_result d = Inr (HookComplete 1, ?owner)"
    by (simp add: drive_owned_def Let_def bridge_task_new_def submission_defs recv_action_def send_reply_def
        dispatch_worker_def hook_handler_def execute_action_def call_hook_def next_call_def hook_new_def hook_replace_def)
  have "length (ho_values ?owner) < 2 ^ 64" "hook_result (HookComplete 1) ?owner = Inr 15" by (simp_all add: hook_result_def)
  then show ?thesis using hooks_run_in_order [OF sub d] unfolding Let_def by simp
qed

text \<open>
  C13. The digest worker asks for the actions of its plan one at a time, the next only when the last
  has been acknowledged. After the challenge \<open>h\<close> the plan is to reset the counter and keep the original
  response, if \<open>h\<close> is no digest challenge or there have been two attempts, and else to go through the eleven
  actions that send the request again. With \<open>n\<close> acknowledgements it has asked for \<open>n + 1\<close> of
  them; the outcome is the plan's when all are acknowledged and a failure at the first other answer.
\<close>
theorem digest_401_worker_plan:
  assumes "rest = [] \<or> hd rest \<noteq> Inr Ack401" "(actions, outcome) = digest_401_plan lowercase input h" "n \<le> length actions"
  shows "digest_401_worker lowercase input (Inr Ack401 # Inr (Header401 h) # replicate n (Inr Ack401) @ rest) =
    (ActSeek # ActChallenge # take (Suc n) actions, if n = length actions then Finished outcome else refused rest)"
  using acknowledged_all_run [OF assms(1,3), of outcome] by (simp add: digest_401_worker_run Let_def flip: assms(2))

theorem digest_401_worker_plan_witness:
  "digest_401_worker id \<lparr>num_401_calls = 1\<rparr> (Inr Ack401 # Inr (Header401 (lit ''digest a'')) # replicate 3 (Inr Ack401) @ [Inr Failed401]) =
     ([ActSeek, ActChallenge, ActIncrement401 2, ActParse (lit ''digest a''), ActConsume, ActClose], Finished HandlerFailed401)"
proof -
  let ?plan = "digest_401_plan id \<lparr>num_401_calls = 1\<rparr> (lit ''digest a'')"
  have "sublist (lit ''digest'' :: rstr) (lit ''digest a'')" by code_simp
  then have p: "?plan =
    ([ActIncrement401 2, ActParse (lit ''digest a''), ActConsume, ActClose, ActCopy, ActExtractCookies, ActPrepareCookies,
      ActBuildDigestHeader, ActSend, ActAppendHistory, ActReplaceRequest], Sent401)"
    by (simp add: digest_401_plan_def word_le_nat_alt)
  have h: "[Inr Failed401] = [] \<or> hd [Inr Failed401 :: BridgeClosed + Digest401Reply] \<noteq> Inr Ack401" by simp
  from digest_401_worker_plan [OF h p [symmetric], of 3] show ?thesis by (simp add: refused_def)
qed

end
