(* ===== verification/Python_Body.thy ===== *)
theory Python_Body
  imports Origin Http_Types
begin

text \<open>
  The body stream of \<open>crates/requests-python/src/body.rs\<close>: a Python body (a file, an iterable, a
  string) is an \<open>AsyncBody\<close> whose chunks are asked for over the bridge. The interpreter is the record
  \<open>body_python\<close>, over a state of its own.
\<close>

section \<open>The adapter\<close>

definition BODY_BLOCK_SIZE :: nat where
  "BODY_BLOCK_SIZE = 4"

datatype BodyAction = ReadAction nat | NextAction

datatype BodyReply = ChunkReply bytes | SkipReply | EndReply | FailedReply

datatype AdapterMode = ModeRead | ModeNext

text \<open>\<open>Waiting\<close> says whether its action has been enqueued.\<close>

datatype AdapterState = AdapterIdle | AdapterWaiting bool | AdapterDone

datatype AdapterFailure = NoFailure | HandlerFailure | ActionReceiverFailure | ReplySenderFailure

definition failure_raw :: "AdapterFailure \<Rightarrow> u8" where
  "failure_raw f = (case f of NoFailure \<Rightarrow> 0 | HandlerFailure \<Rightarrow> 1 | ActionReceiverFailure \<Rightarrow> 2 | ReplySenderFailure \<Rightarrow> 3)"

definition failure_from_raw :: "u8 \<Rightarrow> AdapterFailure" where
  "failure_from_raw value =
     (if value = 1 then HandlerFailure else if value = 2 then ActionReceiverFailure
      else if value = 3 then ReplySenderFailure else NoFailure)"

record PythonBodyAdapter =
  pa_mode :: AdapterMode
  pa_state :: AdapterState
  pa_size_hint :: "u64 option"
  pa_failure :: u8
  pa_queued_actions :: "u8 option"
  pa_replies_observed :: "u8 option"

definition adapter_new :: "AdapterMode \<Rightarrow> u64 option \<Rightarrow> u8 \<Rightarrow> PythonBodyAdapter" where
  "adapter_new mode size_hint failure =
     \<lparr>pa_mode = mode, pa_state = AdapterIdle, pa_size_hint = size_hint, pa_failure = failure,
      pa_queued_actions = None, pa_replies_observed = None\<rparr>"

definition with_lifecycle_counters :: "PythonBodyAdapter \<Rightarrow> u8 \<Rightarrow> u8 \<Rightarrow> PythonBodyAdapter" where
  "with_lifecycle_counters self queued replies = self\<lparr>pa_queued_actions := Some queued, pa_replies_observed := Some replies\<rparr>"

definition mark_reply_observed :: "PythonBodyAdapter \<Rightarrow> PythonBodyAdapter" where
  "mark_reply_observed self = self\<lparr>pa_replies_observed := map_option (\<lambda>n. n + 1) (pa_replies_observed self)\<rparr>"

definition adapter_action :: "AdapterMode \<Rightarrow> BodyAction" where
  "adapter_action mode = (case mode of ModeRead \<Rightarrow> ReadAction BODY_BLOCK_SIZE | ModeNext \<Rightarrow> NextAction)"

definition begin_action :: "PythonBodyAdapter \<Rightarrow> PythonBodyAdapter" where
  "begin_action self = self\<lparr>pa_state := AdapterWaiting False\<rparr>"

definition adapter_fail :: "AdapterFailure \<Rightarrow> PythonBodyAdapter \<Rightarrow> PythonBodyAdapter" where
  "adapter_fail failure self =
     self\<lparr>pa_failure := if pa_failure self = failure_raw NoFailure then failure_raw failure else pa_failure self,
       pa_state := AdapterDone\<rparr>"

definition fail_item :: "AdapterFailure \<Rightarrow> PythonBodyAdapter \<Rightarrow> (Error + bytes) option \<times> PythonBodyAdapter" where
  "fail_item failure self = (Some (Inl body_stream), adapter_fail failure self)"

text \<open>The answer to the action, in \<open>poll_next\<close>.\<close>

definition adapter_answered ::
  "BridgeClosed + BodyReply \<Rightarrow> PythonBodyAdapter \<Rightarrow> (Error + bytes) option \<times> PythonBodyAdapter" where
  "adapter_answered answer this =
     (case answer of
        Inr (ChunkReply chunk) \<Rightarrow> (Some (Inr chunk), (mark_reply_observed this)\<lparr>pa_state := AdapterIdle\<rparr>)
      | Inr SkipReply \<Rightarrow> (Some (Inr []), (mark_reply_observed this)\<lparr>pa_state := AdapterIdle\<rparr>)
      | Inr EndReply \<Rightarrow> (None, (mark_reply_observed this)\<lparr>pa_state := AdapterDone\<rparr>)
      | Inr FailedReply \<Rightarrow> fail_item HandlerFailure (mark_reply_observed this)
      | Inl ActionReceiver \<Rightarrow> fail_item ActionReceiverFailure this
      | Inl ReplySender \<Rightarrow> fail_item ReplySenderFailure this)"

text \<open>
  The world of a poll: whether the receiver of actions is gone, what has come in reply, and the
  actions sent so far.
\<close>

record reply_world =
  rw_closed :: bool
  rw_reply :: "(unit + BodyReply) option"

definition poll_reply ::
  "reply_world \<Rightarrow> PythonBodyAdapter \<times> BodyAction list \<Rightarrow> (BridgeClosed + BodyReply) Poll \<times> PythonBodyAdapter \<times> BodyAction list" where
  "poll_reply rw st =
     (case st of (this, actions) \<Rightarrow>
        if pa_state this = AdapterWaiting False \<and> rw_closed rw then (Ready (Inl ActionReceiver), this, actions)
        else
          let st = (if pa_state this = AdapterWaiting False
                    then (this\<lparr>pa_state := AdapterWaiting True, pa_queued_actions := map_option (\<lambda>n. n + 1) (pa_queued_actions this)\<rparr>,
                          actions @ [adapter_action (pa_mode this)])
                    else st) in
          (case rw_reply rw of
             None \<Rightarrow> (Pending, st)
           | Some (Inr reply) \<Rightarrow> (Ready (Inr reply), st)
           | Some (Inl _) \<Rightarrow> (Ready (Inl ReplySender), st)))"

definition adapter_poll_next ::
  "reply_world \<Rightarrow> PythonBodyAdapter \<times> BodyAction list \<Rightarrow> (Error + bytes) option Poll \<times> PythonBodyAdapter \<times> BodyAction list" where
  "adapter_poll_next rw st =
     (case st of (this, actions) \<Rightarrow>
        let this = (if pa_state this = AdapterIdle then begin_action this else this) in
        if pa_state this = AdapterDone then (Ready None, this, actions)
        else
          (case poll_reply rw (this, actions) of
             (Pending, this, actions) \<Rightarrow> (Pending, this, actions)
           | (Ready answer, this, actions) \<Rightarrow> (let (item, this) = adapter_answered answer this in (Ready item, this, actions))))"

section \<open>The Python body\<close>

datatype py_kind = PyStr | PyBytesKind | PyOther

text \<open>What is asked of the interpreter; the \<open>bool\<close> of an error says that it is a \<open>TypeError\<close>.\<close>

record ('o, 'e, 'py) body_python =
  bp_is_none :: "'o \<Rightarrow> bool"
  bp_kind :: "'o \<Rightarrow> py_kind"
  bp_contents :: "'o \<Rightarrow> bytes"
  bp_encode :: "'o \<Rightarrow> 'py \<Rightarrow> ('e + 'o) \<times> 'py"
  bp_encoded_bytes :: "'o \<Rightarrow> 'py \<Rightarrow> ('e + bytes) \<times> 'py"
  bp_truthy :: "'o \<Rightarrow> 'py \<Rightarrow> ('e + bool) \<times> 'py"
  bp_len :: "'o \<Rightarrow> 'py \<Rightarrow> ('e + nat) \<times> 'py"
  bp_has_read :: "'o \<Rightarrow> 'py \<Rightarrow> ('e + bool) \<times> 'py"
  bp_read :: "'o \<Rightarrow> nat \<Rightarrow> 'py \<Rightarrow> ('e + 'o) \<times> 'py"
  bp_iter :: "'o \<Rightarrow> 'py \<Rightarrow> ('e \<times> bool + unit) \<times> 'py"
  bp_next :: "'py \<Rightarrow> ('e + 'o option) \<times> 'py"
  bp_memoryview_nbytes :: "'o \<Rightarrow> 'py \<Rightarrow> ('e \<times> bool + u64) \<times> 'py"
  bp_memoryview_bytes :: "'o \<Rightarrow> 'py \<Rightarrow> ('e \<times> bool + bytes) \<times> 'py"
  bp_not_a_body :: "'o \<Rightarrow> 'py \<Rightarrow> 'e \<times> 'py"

definition chunk_bytes :: "('o, 'e, 'py) body_python \<Rightarrow> 'o \<Rightarrow> 'py \<Rightarrow> ('e + bytes) \<times> 'py" where
  "chunk_bytes P chunk py =
     (case bp_kind P chunk of
        PyStr \<Rightarrow> bp_encoded_bytes P chunk py
      | PyBytesKind \<Rightarrow> (Inr (bp_contents P chunk), py)
      | PyOther \<Rightarrow>
          (case bp_memoryview_bytes P chunk py of
             (Inr bs, py) \<Rightarrow> (Inr bs, py)
           | (Inl (e, False), py) \<Rightarrow> (Inl e, py)
           | (Inl (e, True), py) \<Rightarrow>
               (case bp_len P chunk py of (Inr _, py) \<Rightarrow> (Inl e, py) | (Inl length_error, py) \<Rightarrow> (Inl length_error, py))))"

text \<open>A chunk that is false gives \<open>otherwise\<close>.\<close>

definition truthy_chunk :: "('o, 'e, 'py) body_python \<Rightarrow> BodyReply \<Rightarrow> 'o \<Rightarrow> 'py \<Rightarrow> ('e + BodyReply) \<times> 'py" where
  "truthy_chunk P otherwise chunk py =
     (case bp_truthy P chunk py of
        (Inl e, py) \<Rightarrow> (Inl e, py)
      | (Inr False, py) \<Rightarrow> (Inr otherwise, py)
      | (Inr True, py) \<Rightarrow> (case chunk_bytes P chunk py of (Inl e, py) \<Rightarrow> (Inl e, py) | (Inr bs, py) \<Rightarrow> (Inr (ChunkReply bs), py)))"

definition read_body_chunk :: "('o, 'e, 'py) body_python \<Rightarrow> 'o \<Rightarrow> nat \<Rightarrow> 'py \<Rightarrow> ('e + BodyReply) \<times> 'py" where
  "read_body_chunk P body n py =
     (case bp_read P body n py of (Inl e, py) \<Rightarrow> (Inl e, py) | (Inr chunk, py) \<Rightarrow> truthy_chunk P EndReply chunk py)"

definition next_body_chunk :: "('o, 'e, 'py) body_python \<Rightarrow> 'py \<Rightarrow> ('e + BodyReply) \<times> 'py" where
  "next_body_chunk P py =
     (case bp_next P py of
        (Inl e, py) \<Rightarrow> (Inl e, py)
      | (Inr None, py) \<Rightarrow> (Inr EndReply, py)
      | (Inr (Some chunk), py) \<Rightarrow> truthy_chunk P SkipReply chunk py)"

definition once_body_chunk :: "('o, 'e, 'py) body_python \<Rightarrow> 'o \<Rightarrow> 'o option \<Rightarrow> 'py \<Rightarrow> ('e + BodyReply) \<times> 'py" where
  "once_body_chunk P body cached_chunk py =
     (case cached_chunk of Some chunk \<Rightarrow> truthy_chunk P SkipReply chunk py | None \<Rightarrow> truthy_chunk P SkipReply body py)"

datatype 'o OriginBodySource = SourceRead | SourceIterator | SourceOnce bool "'o option"

record 'o BodySelection =
  sel_mode :: AdapterMode
  sel_source :: "'o OriginBodySource"
  sel_size_hint :: "u64 option"

definition select_body_source :: "('o, 'e, 'py) body_python \<Rightarrow> 'o \<Rightarrow> 'py \<Rightarrow> ('e + 'o BodySelection option) \<times> 'py" where
  "select_body_source P body py =
     (if bp_is_none P body then (Inr None, py)
      else
        case bp_kind P body of
          PyStr \<Rightarrow>
            (case bp_encode P body py of
               (Inl e, py) \<Rightarrow> (Inl e, py)
             | (Inr encoded, py) \<Rightarrow>
                 (case bp_len P encoded py of
                    (Inl e, py) \<Rightarrow> (Inl e, py)
                  | (Inr n, py) \<Rightarrow>
                      (Inr (Some \<lparr>sel_mode = ModeNext, sel_source = SourceOnce True (Some encoded), sel_size_hint = Some (of_nat n)\<rparr>), py)))
        | PyBytesKind \<Rightarrow>
            (case bp_len P body py of
               (Inl e, py) \<Rightarrow> (Inl e, py)
             | (Inr n, py) \<Rightarrow>
                 (Inr (Some \<lparr>sel_mode = ModeNext, sel_source = SourceOnce True None, sel_size_hint = Some (of_nat n)\<rparr>), py))
        | PyOther \<Rightarrow>
            (case bp_has_read P body py of
               (Inl e, py) \<Rightarrow> (Inl e, py)
             | (Inr True, py) \<Rightarrow>
                 (Inr (Some \<lparr>sel_mode = ModeRead, sel_source = SourceRead, sel_size_hint = None\<rparr>), py)
             | (Inr False, py) \<Rightarrow>
                 (case bp_memoryview_nbytes P body py of
                    (Inr n, py) \<Rightarrow>
                      (Inr (Some \<lparr>sel_mode = ModeNext, sel_source = SourceOnce True None, sel_size_hint = Some n\<rparr>), py)
                  | (Inl (e, False), py) \<Rightarrow> (Inl e, py)
                  | (Inl (e, True), py) \<Rightarrow>
                      (case bp_iter P body py of
                         (Inr _, py) \<Rightarrow>
                           (Inr (Some \<lparr>sel_mode = ModeNext, sel_source = SourceIterator, sel_size_hint = None\<rparr>), py)
                       | (Inl (e, False), py) \<Rightarrow> (Inl e, py)
                       | (Inl (e, True), py) \<Rightarrow> (let (e, py) = bp_not_a_body P body py in (Inl e, py))))))"

record ('o, 'e, 'py) OriginBodyRunOwner =
  bo_py :: 'py
  bo_body :: 'o
  bo_source :: "'o OriginBodySource"
  bo_handler_error :: "'e PyErr option"

text \<open>The action itself, before its error is stored.\<close>

definition source_step ::
  "('o, 'e, 'py) body_python \<Rightarrow> BodyAction \<Rightarrow> ('o, 'e, 'py) OriginBodyRunOwner \<Rightarrow>
   ('e PyErr + BodyReply) \<times> ('o, 'e, 'py) OriginBodyRunOwner" where
  "source_step P action owner =
     (let raised = (\<lambda>(r, py) owner. (map_sum Raised id r, owner\<lparr>bo_py := py\<rparr>)) in
      case (action, bo_source owner) of
        (ReadAction n, SourceRead) \<Rightarrow> raised (read_body_chunk P (bo_body owner) n (bo_py owner)) owner
      | (NextAction, SourceIterator) \<Rightarrow> raised (next_body_chunk P (bo_py owner)) owner
      | (NextAction, SourceOnce due cached) \<Rightarrow>
          if due
          then raised (once_body_chunk P (bo_body owner) cached (bo_py owner)) (owner\<lparr>bo_source := SourceOnce False None\<rparr>)
          else (Inr EndReply, owner)
      | _ \<Rightarrow> (Inl (PyRuntimeError (lit ''Python body adapter received an unexpected action'')), owner))"

definition body_action ::
  "('o, 'e, 'py) body_python \<Rightarrow> BodyAction \<Rightarrow> ('o, 'e, 'py) OriginBodyRunOwner \<Rightarrow> BodyReply \<times> ('o, 'e, 'py) OriginBodyRunOwner" where
  "body_action P action owner =
     (case source_step P action owner of
        (Inr reply, owner) \<Rightarrow> (reply, owner)
      | (Inl e, owner) \<Rightarrow>
          (FailedReply, if bo_handler_error owner = None then owner\<lparr>bo_handler_error := Some e\<rparr> else owner))"

section \<open>Collecting a body\<close>

text \<open>
  \<open>collect_adapter\<close> as a worker: a poll that finds the adapter idle asks for an action and its answer
  is the next item. The failure the adapter shares is returned too.
\<close>

fun collect_adapter ::
  "nat \<Rightarrow> PythonBodyAdapter \<Rightarrow> bytes list \<Rightarrow> (BodyAction, BodyReply, bytes list \<times> u8) worker" where
  "collect_adapter limit adapter chunks [] =
     (if length chunks \<ge> limit \<or> pa_state adapter = AdapterDone then ([], Finished (chunks, pa_failure adapter))
      else ([adapter_action (pa_mode adapter)], Waiting))"
| "collect_adapter limit adapter chunks (answer # answers) =
     (if length chunks \<ge> limit \<or> pa_state adapter = AdapterDone then ([], Finished (chunks, pa_failure adapter))
      else
        let (asked, p) =
          (case adapter_answered answer adapter of
             (Some (Inr chunk), adapter) \<Rightarrow> collect_adapter limit adapter (if chunk \<noteq> [] then chunks @ [chunk] else chunks) answers
           | (_, adapter) \<Rightarrow> ([], Finished (chunks, pa_failure adapter))) in
        (adapter_action (pa_mode adapter) # asked, p))"

definition body_handler ::
  "('o, 'e, 'py) body_python \<Rightarrow> (BodyAction, BodyReply, ('o, 'e, 'py) OriginBodyRunOwner) handler" where
  "body_handler P action st = (case body_action P action (fst st) of (reply, owner) \<Rightarrow> (Reply reply, owner, snd st))"

definition body_failure_error :: "AdapterFailure \<Rightarrow> 'e PyErr" where
  "body_failure_error failure =
     PyRuntimeError (case failure of
        ActionReceiverFailure \<Rightarrow> bridge_closed_display ActionReceiver
      | ReplySenderFailure \<Rightarrow> bridge_closed_display ReplySender
      | HandlerFailure \<Rightarrow> lit ''Python body handler failed''
      | NoFailure \<Rightarrow> lit ''Python body adapter ended unexpectedly'')"

definition collect_result :: "bytes list \<times> u8 \<Rightarrow> ('o, 'e, 'py) OriginBodyRunOwner \<Rightarrow> 'e PyErr + bytes list" where
  "collect_result output owner =
     (case bo_handler_error owner of
        Some e \<Rightarrow> Inl e
      | None \<Rightarrow>
          let failure = failure_from_raw (snd output) in
          if failure \<noteq> NoFailure then Inl (body_failure_error failure) else Inr (fst output))"


lemma collect_adapter_ok: "worker (collect_adapter limit adapter chunks)"
proof
  fix answers asked p answer
  show "collect_adapter limit adapter chunks answers = (asked, Waiting) \<Longrightarrow> length asked = Suc (length answers)"
    by (induction answers arbitrary: adapter chunks asked)
      (auto simp: Let_def split: if_splits prod.splits option.splits sum.splits)
  show "collect_adapter limit adapter chunks answers = (asked, p) \<Longrightarrow> p \<noteq> Waiting \<Longrightarrow> length asked \<le> length answers"
    by (induction answers arbitrary: adapter chunks asked)
      (auto simp: Let_def split: if_splits prod.splits option.splits sum.splits)
  show "collect_adapter limit adapter chunks answers = (asked, Waiting) \<Longrightarrow>
      take (length asked) (fst (collect_adapter limit adapter chunks (answers @ [answer]))) = asked"
  proof (induction answers arbitrary: adapter chunks asked)
    case Nil
    then show ?case by (auto simp: Let_def split: if_splits prod.splits option.splits sum.splits)
  next
    case (Cons a answers)
    obtain item adapter' where a: "adapter_answered a adapter = (item, adapter')" by (metis surjective_pairing)
    from Cons.prems have "\<not> (length chunks \<ge> limit \<or> pa_state adapter = AdapterDone)" by auto
    moreover have "take (length (fst (collect_adapter limit adapter chunks answers))) (fst (collect_adapter limit adapter chunks (answers @ [answer]))) =
        fst (collect_adapter limit adapter chunks answers)"
      if "snd (collect_adapter limit adapter chunks answers) = Waiting" for adapter chunks
      using Cons.IH that by (metis prod.collapse)
    ultimately show ?case using Cons.prems a
      by (cases item; cases "case item of Some x \<Rightarrow> x | None \<Rightarrow> Inl body_stream") (auto simp: Let_def case_prod_beta)
  qed
qed

interpretation body_collect: worker "collect_adapter limit adapter chunks" for limit adapter chunks
  by (rule collect_adapter_ok)

section \<open>The reference: a Python body to its end\<close>

text \<open>At most so many chunks, without the empty ones; the exception that ended it, if one did.\<close>

inductive python_body_run ::
  "('o, 'e, 'py) body_python \<Rightarrow> BodyAction \<Rightarrow> nat \<Rightarrow> ('o, 'e, 'py) OriginBodyRunOwner \<Rightarrow> bytes list \<Rightarrow> 'e PyErr option \<Rightarrow>
   'py \<Rightarrow> bool" for P action where
  enough: "python_body_run P action 0 owner [] None (bo_py owner)"
| body_ends: "source_step P action owner = (Inr EndReply, owner') \<Longrightarrow> python_body_run P action (Suc n) owner [] None (bo_py owner')"
| body_raises: "source_step P action owner = (Inl e, owner') \<Longrightarrow> python_body_run P action (Suc n) owner [] (Some e) (bo_py owner')"
| empty_chunk:
    "\<lbrakk>source_step P action owner = (Inr reply, owner'); reply \<in> {SkipReply, ChunkReply []};
      python_body_run P action (Suc n) owner' chunks r py\<rbrakk> \<Longrightarrow> python_body_run P action (Suc n) owner chunks r py"
| one_chunk:
    "\<lbrakk>source_step P action owner = (Inr (ChunkReply chunk), owner'); chunk \<noteq> []; python_body_run P action n owner' chunks r py\<rbrakk> \<Longrightarrow>
     python_body_run P action (Suc n) owner (chunk # chunks) r py"

lemma handle_body_Cons:
  "handle (body_handler P) (a # as) (owner, s) = Some (rs, st) \<longleftrightarrow>
     (\<exists>rs'. rs = fst (body_action P a owner) # rs' \<and> handle (body_handler P) as (snd (body_action P a owner), s) = Some (rs', st))"
  by (cases st) (auto simp: body_handler_def split: prod.split)

lemma source_step_reply:
  "source_step P action owner = (r, owner') \<Longrightarrow> r \<noteq> Inr FailedReply \<and> bo_handler_error owner' = bo_handler_error owner"
  by (auto simp: source_step_def read_body_chunk_def next_body_chunk_def once_body_chunk_def truthy_chunk_def Let_def
      split: BodyAction.splits OriginBodySource.splits if_splits prod.splits sum.splits option.splits bool.splits)


text \<open>The worker and the actions together.\<close>

lemma collect_adapter_runs:
  assumes "collect_adapter limit adapter chunks (map Inr rs) = (asked, Finished result)"
    and "handle (body_handler P) asked (owner, s) = Some (rs, owner', s')"
    and "bo_handler_error owner = None" "pa_failure adapter = 0" "pa_state adapter \<noteq> AdapterDone"
  shows "\<exists>more r. python_body_run P (adapter_action (pa_mode adapter)) (limit - length chunks) owner more r (bo_py owner') \<and>
    collect_result result owner' = (case r of Some e \<Rightarrow> Inl e | None \<Rightarrow> Inr (chunks @ more))"
  using assms
proof (induction rs arbitrary: adapter chunks asked owner)
  case Nil
  then have "limit \<le> length chunks" "result = (chunks, 0)" "owner' = owner" by (auto split: if_splits)
  then show ?case using Nil python_body_run.enough [of P "adapter_action (pa_mode adapter)" owner]
    by (intro exI [of _ "[]"] exI [of _ None]) (simp add: collect_result_def failure_from_raw_def)
next
  case (Cons r rs)
  let ?a = "adapter_action (pa_mode adapter)"
  obtain item adapter1 where an: "adapter_answered (Inr r) adapter = (item, adapter1)" by (metis surjective_pairing)
  have small: "\<not> limit \<le> length chunks" using Cons.prems(1,2) by (auto split: if_splits)
  then obtain n where n: "limit - length chunks = Suc n" by (metis Suc_diff_Suc not_le)
  let ?rest = "case item of Some (Inr chunk) \<Rightarrow> collect_adapter limit adapter1 (if chunk \<noteq> [] then chunks @ [chunk] else chunks) (map Inr rs)
    | _ \<Rightarrow> ([], Finished (chunks, pa_failure adapter1))"
  have asked: "asked = ?a # fst ?rest" "snd ?rest = Finished result"
    using Cons.prems(1,5) small by (auto simp: an Let_def case_prod_beta split: option.splits sum.splits)
  define owner1 where "owner1 = snd (body_action P ?a owner)"
  have "r = fst (body_action P ?a owner)" and rest: "handle (body_handler P) (fst ?rest) (owner1, s) = Some (rs, owner', s')"
    using Cons.prems(2) unfolding asked(1) handle_body_Cons owner1_def by simp_all
  then have act: "body_action P ?a owner = (r, owner1)" by (simp add: owner1_def)
  obtain q owner2 where q: "source_step P ?a owner = (q, owner2)" by (metis surjective_pairing)
  note q2 = source_step_reply [OF q]
  have again: "\<exists>more r'. python_body_run P ?a (limit - length chunks') owner2 more r' (bo_py owner') \<and>
      collect_result result owner' = (case r' of Some e \<Rightarrow> Inl e | None \<Rightarrow> Inr (chunks' @ more))"
    if "?rest = collect_adapter limit adapter1 chunks' (map Inr rs)" "owner1 = owner2" "adapter1 = (mark_reply_observed adapter)\<lparr>pa_state := AdapterIdle\<rparr>"
    for chunks'
    using Cons.IH [of adapter1 chunks' "fst ?rest" owner2] asked(2) rest that q2 Cons.prems(3,4)
    by (auto simp: prod_eq_iff mark_reply_observed_def)
  show ?case
  proof (cases q)
    case (Inl e)
    then have "r = FailedReply" "owner1 = owner2\<lparr>bo_handler_error := Some e\<rparr>"
      using act q q2 Cons.prems(3) by (auto simp: body_action_def)
    then have "owner' = owner2\<lparr>bo_handler_error := Some e\<rparr>" using an rest by (auto simp: adapter_answered_def fail_item_def)
    then show ?thesis using python_body_run.body_raises [of P ?a owner e owner2 n] q Inl n
      by (intro exI [of _ "[]"] exI [of _ "Some e"]) (simp add: collect_result_def)
  next
    case (Inr reply)
    then have o: "r = reply" "owner1 = owner2" using act q by (auto simp: body_action_def)
    consider "reply = EndReply" | "reply \<in> {SkipReply, ChunkReply []}" | chunk where "reply = ChunkReply chunk" "chunk \<noteq> []"
      using q2 Inr by (cases reply) auto
    then show ?thesis
    proof cases
      case 1
      then have "item = None" "pa_failure adapter1 = 0"
        using an o Cons.prems(4) by (auto simp: adapter_answered_def mark_reply_observed_def)
      then have "result = (chunks, 0)" "owner' = owner2" using asked(2) rest o by simp_all
      then show ?thesis using python_body_run.body_ends [of P ?a owner owner2 n] q Inr 1 n q2 Cons.prems(3)
        by (intro exI [of _ "[]"] exI [of _ None]) (simp add: collect_result_def failure_from_raw_def)
    next
      case 2
      then have "item = Some (Inr [])" "adapter1 = (mark_reply_observed adapter)\<lparr>pa_state := AdapterIdle\<rparr>"
        using an o by (auto simp: adapter_answered_def)
      then obtain more r' where m: "python_body_run P ?a (limit - length chunks) owner2 more r' (bo_py owner')"
        "collect_result result owner' = (case r' of Some e \<Rightarrow> Inl e | None \<Rightarrow> Inr (chunks @ more))"
        using again [of chunks] o(2) by auto
      have "python_body_run P ?a (Suc n) owner more r' (bo_py owner')"
        by (rule python_body_run.empty_chunk [OF q [unfolded Inr] 2]) (use m(1) n in simp)
      then show ?thesis using m(2) n by auto
    next
      case 3
      then have "item = Some (Inr chunk)" "adapter1 = (mark_reply_observed adapter)\<lparr>pa_state := AdapterIdle\<rparr>"
        using an o by (auto simp: adapter_answered_def)
      then obtain more r' where "python_body_run P ?a (limit - length (chunks @ [chunk])) owner2 more r' (bo_py owner')"
        "collect_result result owner' = (case r' of Some e \<Rightarrow> Inl e | None \<Rightarrow> Inr ((chunks @ [chunk]) @ more))"
        using again [of "chunks @ [chunk]"] o(2) 3(2) by auto
      moreover have "limit - length (chunks @ [chunk]) = n" using n by simp
      ultimately show ?thesis using python_body_run.one_chunk [of P ?a owner chunk owner2 n more r'] q Inr 3 n
        by (intro exI [of _ "chunk # more"] exI [of _ r']) (simp split: option.split)
    qed
  qed
qed

section \<open>Polling\<close>

fun adapter_polls ::
  "reply_world list \<Rightarrow> PythonBodyAdapter \<times> BodyAction list \<Rightarrow>
   (Error + bytes) option Poll list \<times> PythonBodyAdapter \<times> BodyAction list" where
  "adapter_polls [] st = ([], st)"
| "adapter_polls (rw # rws) st =
     (let (item, st) = adapter_poll_next rw st; (items, st) = adapter_polls rws st in (item # items, st))"

definition ready_items :: "(Error + bytes) option Poll list \<Rightarrow> (Error + bytes) option list" where
  "ready_items ps = List.map_filter (\<lambda>p. case p of Ready x \<Rightarrow> Some x | Pending \<Rightarrow> None) ps"

lemma ready_items_simps [simp]:
  "ready_items [] = []" "ready_items (Pending # ps) = ready_items ps" "ready_items (Ready x # ps) = x # ready_items ps"
  by (simp_all add: ready_items_def List.map_filter_simps)

lemma adapter_done_polls:
  "pa_state this = AdapterDone \<Longrightarrow> \<exists>n. adapter_polls rws (this, as) = (replicate n (Ready None), this, as)"
proof (induction rws)
  case (Cons rw rws)
  then obtain n where "adapter_polls rws (this, as) = (replicate n (Ready None), this, as)" by blast
  then show ?case using Cons.prems by (intro exI [of _ "Suc n"]) (simp add: adapter_poll_next_def)
qed auto

lemma ready_items_replicate [simp]: "ready_items (replicate n (Ready x)) = replicate n x"
  by (induction n) simp_all


text \<open>
  The items of an adapter that is not done: chunks, and once it is done one error, or none, and the
  end from then on.
\<close>

fun one_end :: "(Error + bytes) option list \<Rightarrow> AdapterState \<Rightarrow> AdapterFailure \<Rightarrow> bool" where
  "one_end [] st failure \<longleftrightarrow> st \<noteq> AdapterDone \<and> failure = NoFailure"
| "one_end (Some (Inr chunk) # items) st failure \<longleftrightarrow> one_end items st failure"
| "one_end (Some (Inl e) # items) st failure \<longleftrightarrow>
     e = body_stream \<and> set items \<subseteq> {None} \<and> st = AdapterDone \<and> failure \<noteq> NoFailure"
| "one_end (None # items) st failure \<longleftrightarrow> set items \<subseteq> {None} \<and> st = AdapterDone \<and> failure = NoFailure"

definition asks_only :: "AdapterMode \<Rightarrow> BodyAction list \<Rightarrow> nat \<Rightarrow> bool" where
  "asks_only mode as n \<longleftrightarrow> set as \<subseteq> {adapter_action mode} \<and> length as \<le> n"

text \<open>
  The failure the worlds of the polls lead to: the receiver of actions is gone when one is to be
  sent, the sender of the reply is gone, or the handler has failed. \<open>waiting\<close> says that an action is
  outstanding.
\<close>

fun first_failure :: "bool \<Rightarrow> reply_world list \<Rightarrow> AdapterFailure" where
  "first_failure waiting [] = NoFailure"
| "first_failure waiting (rw # rws) =
     (if \<not> waiting \<and> rw_closed rw then ActionReceiverFailure
      else
        case rw_reply rw of
          None \<Rightarrow> first_failure True rws
        | Some (Inl _) \<Rightarrow> ReplySenderFailure
        | Some (Inr FailedReply) \<Rightarrow> HandlerFailure
        | Some (Inr EndReply) \<Rightarrow> NoFailure
        | Some (Inr _) \<Rightarrow> first_failure False rws)"

text \<open>A failure that is recorded stays.\<close>

definition recorded :: "u8 \<Rightarrow> AdapterFailure \<Rightarrow> u8" where
  "recorded before failure = (if before = failure_raw NoFailure then failure_raw failure else before)"

text \<open>One poll of an adapter that is not done: an action is sent when none is outstanding.\<close>

definition poll_step_ok ::
  "reply_world \<Rightarrow> PythonBodyAdapter \<Rightarrow> (Error + bytes) option Poll \<Rightarrow> PythonBodyAdapter \<Rightarrow> bool" where
  "poll_step_ok rw this item this' \<longleftrightarrow> pa_mode this' = pa_mode this \<and>
     (let first = first_failure (pa_state this = AdapterWaiting True) in
      case item of
        Pending \<Rightarrow> pa_state this' = AdapterWaiting True \<and> pa_failure this' = pa_failure this \<and>
          (\<forall>rws. first (rw # rws) = first_failure True rws)
      | Ready (Some (Inr _)) \<Rightarrow> pa_state this' = AdapterIdle \<and> pa_failure this' = pa_failure this \<and>
          (\<forall>rws. first (rw # rws) = first_failure False rws)
      | Ready None \<Rightarrow> pa_state this' = AdapterDone \<and> pa_failure this' = pa_failure this \<and> (\<forall>rws. first (rw # rws) = NoFailure)
      | Ready (Some (Inl e)) \<Rightarrow> e = body_stream \<and> pa_state this' = AdapterDone \<and>
          (\<exists>failure. failure \<noteq> NoFailure \<and> pa_failure this' = recorded (pa_failure this) failure \<and> (\<forall>rws. first (rw # rws) = failure)))"

lemmas poll_defs = adapter_poll_next_def begin_action_def poll_reply_def adapter_answered_def mark_reply_observed_def
  fail_item_def adapter_fail_def recorded_def

lemma adapter_poll_step:
  assumes "adapter_poll_next rw (this, as) = (item, this', as')" "pa_state this \<noteq> AdapterDone"
    and "asks_only (pa_mode this) as (n + (if pa_state this = AdapterWaiting True then 1 else 0))"
  shows "poll_step_ok rw this item this'" and "asks_only (pa_mode this) as' (n + 1)"
proof -
  consider "pa_state this \<noteq> AdapterWaiting True" "rw_closed rw"
    | "pa_state this = AdapterWaiting True \<or> \<not> rw_closed rw" "rw_reply rw = None"
    | u where "pa_state this = AdapterWaiting True \<or> \<not> rw_closed rw" "rw_reply rw = Some (Inl u)"
    | r where "pa_state this = AdapterWaiting True \<or> \<not> rw_closed rw" "rw_reply rw = Some (Inr r)"
    by (metis option.exhaust sum.exhaust)
  then show "poll_step_ok rw this item this'"
  proof cases
    case (4 r)
    then show ?thesis using assms(1,2)
      by (cases r; cases "pa_state this") (auto simp: poll_step_ok_def poll_defs Let_def split: if_splits)
  qed (use assms(1,2) in \<open>cases "pa_state this"; auto simp: poll_step_ok_def poll_defs Let_def split: if_splits\<close>)+
  show "asks_only (pa_mode this) as' (n + 1)"
    using assms
    by (cases "pa_state this")
      (auto simp: adapter_poll_next_def begin_action_def poll_reply_def asks_only_def Let_def
        split: if_splits option.splits sum.splits prod.splits Poll.splits)
qed

lemma adapter_polls_one_end:
  assumes "adapter_polls rws (this, as) = (items, this', as')" "pa_state this \<noteq> AdapterDone"
    and "asks_only (pa_mode this) as (n + (if pa_state this = AdapterWaiting True then 1 else 0))"
  shows "one_end (ready_items items) (pa_state this') (first_failure (pa_state this = AdapterWaiting True) rws) \<and>
    pa_failure this' = recorded (pa_failure this) (first_failure (pa_state this = AdapterWaiting True) rws) \<and>
    asks_only (pa_mode this) as' (n + length (ready_items items) + 1)"
  using assms
proof (induction rws arbitrary: this as items n)
  case Nil
  then show ?case by (auto simp: recorded_def asks_only_def split: if_splits)
next
  case (Cons rw rws)
  obtain item this1 as1 where p: "adapter_poll_next rw (this, as) = (item, this1, as1)" by (metis surjective_pairing)
  obtain rest where r: "adapter_polls rws (this1, as1) = (rest, this', as')" "items = item # rest"
    using Cons.prems(1) p by (auto simp: Let_def split: prod.splits)
  note step = adapter_poll_step [OF p Cons.prems(2,3), unfolded poll_step_ok_def Let_def]
  have over: "\<exists>k. rest = replicate k (Ready None) \<and> this' = this1 \<and> as' = as1" if "pa_state this1 = AdapterDone"
    using adapter_done_polls [OF that] r(1) by (metis prod.inject)
  consider "item = Pending" | "item = Ready None" | e where "item = Ready (Some (Inl e))" | bs where "item = Ready (Some (Inr bs))"
    by (metis Poll.exhaust option.exhaust sum.exhaust)
  then show ?case
  proof cases
    case 1
    then show ?thesis using step Cons.IH [OF r(1), of n] r(2) by simp
  next
    case 2
    then show ?thesis using step over r(2) by (auto simp: recorded_def asks_only_def)
  next
    case 3
    then show ?thesis using step over r(2) by (auto simp: asks_only_def)
  next
    case 4
    then show ?thesis using step Cons.IH [OF r(1), of "n + 1"] r(2) by simp
  qed
qed

section \<open>Properties: Python bodies\<close>

text \<open>
  C9. A Python body gives chunks, then at most one error, then its end for ever. However often it is
  polled, and whatever comes in reply or is closed, the items it gives are chunks, and after an end or
  an error only ends; there is an error exactly when an action could not be sent, its reply was
  dropped or the handler failed. The first of these is recorded as what it was, unless a failure had
  been recorded before, which stays. It asks for the one action of its mode only, and never for another
  one while an answer is outstanding.
\<close>
theorem python_body_one_error:
  assumes "adapter_polls rws (adapter_new mode size_hint before, []) = (items, this, actions)"
  shows "one_end (ready_items items) (pa_state this) (first_failure False rws) \<and>
    pa_failure this = (if before = failure_raw NoFailure then failure_raw (first_failure False rws) else before) \<and>
    set actions \<subseteq> {adapter_action mode} \<and> length actions \<le> length (ready_items items) + 1"
  using adapter_polls_one_end [OF assms, of 0] by (simp add: adapter_new_def asks_only_def recorded_def)

theorem python_body_one_error_witness:
  "let rws = [\<lparr>rw_closed = False, rw_reply = Some (Inr (ChunkReply [7]))\<rparr>, \<lparr>rw_closed = False, rw_reply = None\<rparr>,
         \<lparr>rw_closed = False, rw_reply = Some (Inl ())\<rparr>, \<lparr>rw_closed = False, rw_reply = None\<rparr>];
       (items, this, actions) = adapter_polls rws (adapter_new ModeRead None 0, []) in
   ready_items items = [Some (Inr [7]), Some (Inl body_stream), None] \<and> pa_failure this = failure_raw ReplySenderFailure"
proof -
  let ?rws = "[\<lparr>rw_closed = False, rw_reply = Some (Inr (ChunkReply [7]))\<rparr>, \<lparr>rw_closed = False, rw_reply = None\<rparr>,
     \<lparr>rw_closed = False, rw_reply = Some (Inl ())\<rparr>, \<lparr>rw_closed = False, rw_reply = None\<rparr>]"
  obtain items this actions where p: "adapter_polls ?rws (adapter_new ModeRead None 0, []) = (items, this, actions)"
    by (metis surjective_pairing)
  have "ready_items (fst (adapter_polls ?rws (adapter_new ModeRead None 0, []))) = [Some (Inr [7]), Some (Inl body_stream), None]"
    by (simp add: poll_defs adapter_new_def Let_def)
  moreover have "pa_failure this = failure_raw ReplySenderFailure"
    using python_body_one_error [OF p] by (simp add: failure_raw_def)
  ultimately show ?thesis by (simp only: p Let_def prod.case fst_conv)
qed

text \<open>
  C8. Collecting a Python body over the bridge is reading it: if the drive returns, whatever the schedule, the
  chunks are the ones the body gives one after the other, without the empty ones and up to the
  limit, and an exception of the body is the result.
\<close>
theorem python_body_collected:
  assumes "submit_for_process pid active q st = (Inr submitted, st')"
    and "drive_owned (collect_adapter limit (adapter_new mode size_hint 0) []) (body_handler P) pid None turns submitted owner s = Some d"
    and "d_result d = Inr (chunks, owner')" "bo_handler_error owner = None"
  shows "\<exists>result r. python_body_run P (adapter_action mode) limit owner result r (bo_py owner') \<and>
    collect_result chunks owner' = (case r of Some e \<Rightarrow> Inl e | None \<Rightarrow> Inr result)"
proof -
  obtain rs asked s0 s1 where r: "collect_adapter limit (adapter_new mode size_hint 0) [] (map Inr rs) = (asked, Finished chunks)"
    "handle (body_handler P) asked (owner, s0) = Some (rs, owner', s1)"
    using drive_owned_output [OF collect_adapter_ok assms(1-3)] by blast
  then show ?thesis using collect_adapter_runs [OF r assms(4)] by (simp add: adapter_new_def cong: option.case_cong)
qed


text \<open>An iterator over two byte strings, of which the first is empty.\<close>

definition sample_body_python :: "(bytes, unit, bytes list) body_python" where
  "sample_body_python =
     \<lparr>bp_is_none = (\<lambda>_. False), bp_kind = (\<lambda>_. PyBytesKind), bp_contents = id, bp_encode = (\<lambda>v py. (Inr v, py)),
      bp_encoded_bytes = (\<lambda>v py. (Inr v, py)), bp_truthy = (\<lambda>v py. (Inr (v \<noteq> []), py)), bp_len = (\<lambda>v py. (Inr (length v), py)),
      bp_has_read = (\<lambda>_ py. (Inr False, py)), bp_read = (\<lambda>_ _ py. (Inr [], py)), bp_iter = (\<lambda>_ py. (Inr (), py)),
      bp_next = (\<lambda>py. case py of [] \<Rightarrow> (Inr None, []) | v # py \<Rightarrow> (Inr (Some v), py)),
      bp_memoryview_nbytes = (\<lambda>v py. (Inr (of_nat (length v)), py)), bp_memoryview_bytes = (\<lambda>v py. (Inr v, py)),
      bp_not_a_body = (\<lambda>_ py. ((), py))\<rparr>"

theorem python_body_collected_witness:
  "let turn = \<lparr>t_before = Polled, t_signal = None :: unit option, t_during = Polled, t_affinity = None, t_looks = []\<rparr>;
       submitted = (\<lparr>bs_id = 1, bs_parent_id = None, bs_process_id = 7, bs_receiver = True, bs_ready = None,
         bs_abort = True, bs_cancelled = False\<rparr>, \<lparr>tc_queue = [], tc_sender = True, tc_aborted = False\<rparr>);
       owner = \<lparr>bo_py = [[], [1, 2]], bo_body = [], bo_source = SourceIterator, bo_handler_error = None\<rparr>;
       s = qw_origin (quarantine_start 1 None :: (unit, (bytes, unit, bytes list) OriginBodyRunOwner) quarantine) in
   \<exists>d owner' result r. drive_owned (collect_adapter 9 (adapter_new ModeNext None 0) []) (body_handler sample_body_python) 7 None
       [turn, turn, turn, turn] submitted owner s = Some d \<and> d_result d = Inr (([[1, 2]], 0), owner') \<and>
     python_body_run sample_body_python NextAction 9 owner result r (bo_py owner')"
proof -
  let ?turn = "\<lparr>t_before = Polled, t_signal = None, t_during = Polled, t_affinity = None, t_looks = []\<rparr> :: unit drive_turn"
  let ?submitted = "(\<lparr>bs_id = 1, bs_parent_id = None, bs_process_id = 7, bs_receiver = True, bs_ready = None,
    bs_abort = True, bs_cancelled = False\<rparr>, \<lparr>tc_queue = [], tc_sender = True, tc_aborted = False\<rparr>)"
  let ?owner = "\<lparr>bo_py = [[], [1, 2]], bo_body = [], bo_source = SourceIterator, bo_handler_error = None\<rparr> ::
    (bytes, unit, bytes list) OriginBodyRunOwner"
  let ?s = "qw_origin (quarantine_start 1 None :: (unit, (bytes, unit, bytes list) OriginBodyRunOwner) quarantine)"
  have sub: "submit_for_process 7 None 7 \<lparr>NEXT_SUBMISSION_ID = 1, OUTSTANDING_SUBMISSIONS = 0, SUBMISSION_PROCESS_ID = 7\<rparr> =
      (Inr ?submitted, \<lparr>NEXT_SUBMISSION_ID = 2, OUTSTANDING_SUBMISSIONS = 1, SUBMISSION_PROCESS_ID = 7\<rparr>)"
    by (simp add: submit_for_process_def ensure_submission_process_def Let_def)
  obtain d where d: "drive_owned (collect_adapter 9 (adapter_new ModeNext None 0) []) (body_handler sample_body_python) 7 None
      [?turn, ?turn, ?turn, ?turn] ?submitted ?owner ?s = Some d"
    "d_result d = Inr (([[1, 2]], 0), ?owner\<lparr>bo_py := []\<rparr>)"
    by (simp add: drive_owned_def Let_def bridge_task_new_def submission_defs recv_action_def send_reply_def adapter_new_def
        adapter_action_def adapter_answered_def mark_reply_observed_def body_handler_def body_action_def source_step_def
        next_body_chunk_def truthy_chunk_def chunk_bytes_def sample_body_python_def)
  have "bo_handler_error ?owner = None" by simp
  from python_body_collected [OF sub d this] obtain result r
    where "python_body_run sample_body_python NextAction 9 ?owner result r (bo_py (?owner\<lparr>bo_py := []\<rparr>))"
    by (auto simp: adapter_action_def)
  then show ?thesis using d unfolding Let_def by blast
qed

end
