(* ===== verification/Raw_Reader.thy ===== *)
theory Raw_Reader
  imports Adapters Origin
begin

text \<open>
  \<open>NativeAdapterRaw\<close> of \<open>crates/requests-python/src/adapters.rs\<close>: the raw response Python reads, with
  the content decoded by urllib3's decoders. The decoder is a Python object and a parameter
  (\<open>py_decoder\<close>); the wire is an adapter's response body, read through the runtime.
\<close>

section \<open>State\<close>

text \<open>The fields the operations below only pass on (the pool, the status, the reason, the headers) are left out.\<close>

record ('b, 'd) NativeAdapterRaw =
  nr_origin_thread :: nat
  nr_body :: "'b AdapterResponseBody option"
  nr_content_encoding :: "rstr option"
  nr_decoder :: "'d option"
  nr_decoded :: bytes
  nr_decoded_offset :: nat
  nr_decoder_eof :: bool
  nr_decode_started :: bool
  nr_decode_failed :: bool
  nr_closed :: bool

text \<open>
  What a decoder looks like to \<open>decoder_reached_clean_end\<close>: whether it has an unconsumed tail, the
  decoders it chains, and \<open>eof\<close> and \<open>is_finished\<close> of its object. Reading an attribute may raise.
\<close>

datatype 'e decoder_view =
    View bool "'e decoder_view list option" "('e + bool) option" "('e + bool) option"
  | ViewRaises 'e

record ('d, 'e) py_decoder =
  dp_supported :: "rstr \<Rightarrow> 'e + bool"
  dp_get :: "rstr \<Rightarrow> 'e + 'd"
  dp_bounded :: "'d \<Rightarrow> 'e + bool"
  dp_tail :: "'d \<Rightarrow> 'e + bool"
  dp_decompress :: "'d \<Rightarrow> bytes \<Rightarrow> int option \<Rightarrow> ('e + bytes) \<times> 'd"
  dp_flush :: "'d \<Rightarrow> ('e + bytes) \<times> 'd"
  dp_view :: "'d \<Rightarrow> 'e decoder_view"

text \<open>
  The rest of what the operations use: the thread that calls them, the mapping of errors to
  exceptions for a read (\<open>map_typed_raw_response_error\<close>) and for closing (\<open>map_typed_response_error\<close>), whether an error is the
  one urllib3 1.26 does not raise, and \<open>PyRuntimeError\<close>.
\<close>

record ('b, 'd, 'e, 'w) raw_env =
  re_thread :: nat
  re_ops :: "('b, 'w) async_body"
  re_decoder :: "('d, 'e) py_decoder"
  re_io_failure :: "Error \<Rightarrow> 'e"
  re_response_failure :: "Error \<Rightarrow> 'e"
  re_decode_failure :: "rstr \<Rightarrow> 'e \<Rightarrow> 'e"
  re_urllib3_126 :: bool
  re_runtime_error :: "rstr \<Rightarrow> 'e"

text \<open>
  The semaphore of the adapter and the world of its body. A read may be interrupted by a signal;
  then its future is dropped, which leaves the two as given.
\<close>

record ('e, 'w) wire_world =
  ww_semaphore :: PoolCapacity
  ww_world :: 'w
  ww_signals :: "('e \<times> PoolCapacity \<times> 'w) option list"

definition ensure_origin_thread :: "('b, 'd, 'e, 'w) raw_env \<Rightarrow> ('b, 'd) NativeAdapterRaw \<Rightarrow> 'e + unit" where
  "ensure_origin_thread env self =
     (if re_thread env \<noteq> nr_origin_thread self
      then Inl (re_runtime_error env (lit ''native response accessed outside its creating OS thread'')) else Inr ())"

section \<open>The wire\<close>

definition finish_body_failure :: "('b, 'd) NativeAdapterRaw \<Rightarrow> ('b, 'd) NativeAdapterRaw" where
  "finish_body_failure self =
     self\<lparr>nr_body := None, nr_closed := True, nr_decoder_eof := True, nr_decoded := [], nr_decoded_offset := 0\<rparr>"

text \<open>\<open>map_io_failure\<close> and \<open>suppresses_urllib3_126_incomplete\<close>.\<close>

definition map_io_failure :: "('b, 'd, 'e, 'w) raw_env \<Rightarrow> Error \<Rightarrow> ('b, 'd) NativeAdapterRaw \<Rightarrow> 'e \<times> ('b, 'd) NativeAdapterRaw" where
  "map_io_failure env error self = (re_io_failure env error, finish_body_failure self)"

definition suppresses_incomplete :: "('b, 'd, 'e, 'w) raw_env \<Rightarrow> Error \<Rightarrow> bool" where
  "suppresses_incomplete env error \<longleftrightarrow> incomplete_body error \<noteq> None \<and> re_urllib3_126 env"

text \<open>
  The future of a read; \<open>Inl\<close> is one that panics, as a read of single frames without a maximum does: its task stops and drops the body.
\<close>

definition wire_result ::
  "('b, 'd, 'e, 'w) raw_env \<Rightarrow> nat option \<Rightarrow> bool \<Rightarrow> bool \<Rightarrow> 'b AdapterResponseBody \<Rightarrow> ('e, 'w) wire_world \<Rightarrow>
   ((PoolCapacity \<times> 'w) + ((Error + 'b AdapterResponseBody \<times> bytes) \<times> PoolCapacity \<times> 'w)) option" where
  "wire_result env amount allow fill body ww =
     (if fill then map_option Inr (adapter_read_async (re_ops env) amount allow body (ww_semaphore ww) (ww_world ww))
      else
        case amount of
          None \<Rightarrow> map_option Inl (adapter_body_drop (re_ops env) body (ww_semaphore ww) (ww_world ww))
        | Some maximum \<Rightarrow>
            map_option Inr (adapter_read_frame_async (re_ops env) maximum allow body (ww_semaphore ww) (ww_world ww)))"

definition read_wire ::
  "('b, 'd, 'e, 'w) raw_env \<Rightarrow> nat option \<Rightarrow> bool \<Rightarrow> bool \<Rightarrow> bool \<Rightarrow> ('b, 'd) NativeAdapterRaw \<Rightarrow> ('e, 'w) wire_world \<Rightarrow>
   (('e + bytes) \<times> ('b, 'd) NativeAdapterRaw \<times> ('e, 'w) wire_world) option" where
  "read_wire env amount suppress allow fill self ww =
     (case nr_body self of
        None \<Rightarrow> Some (Inr [], self, ww)
      | Some body \<Rightarrow>
          let self = self\<lparr>nr_body := None\<rparr>; signal = (case ww_signals ww of [] \<Rightarrow> None | s # _ \<Rightarrow> s);
              ww = ww\<lparr>ww_signals := drop 1 (ww_signals ww)\<rparr> in
          (case signal of
             Some (e, sem, w) \<Rightarrow> Some (Inl e, finish_body_failure self, ww\<lparr>ww_semaphore := sem, ww_world := w\<rparr>)
           | None \<Rightarrow>
               (case wire_result env amount allow fill body ww of
                  None \<Rightarrow> None
                | Some (Inl (sem, w)) \<Rightarrow>
                    Some (Inl (re_runtime_error env (lit ''native requests worker stopped unexpectedly'')), finish_body_failure self,
                      ww\<lparr>ww_semaphore := sem, ww_world := w\<rparr>)
                | Some (Inr (r, sem, w)) \<Rightarrow>
                    let ww = ww\<lparr>ww_semaphore := sem, ww_world := w\<rparr> in
                    (case r of
                       Inr (body, bs) \<Rightarrow> Some (Inr bs, self\<lparr>nr_body := Some body\<rparr>, ww)
                     | Inl error \<Rightarrow>
                         if suppress \<and> suppresses_incomplete env error then Some (Inr [], finish_body_failure self, ww)
                         else let (e, self) = map_io_failure env error self in Some (Inl e, self, ww)))))"

text \<open>Setting \<open>body\<close> to \<open>None\<close> drops it.\<close>

definition drop_raw_body ::
  "('b, 'd, 'e, 'w) raw_env \<Rightarrow> ('b, 'd) NativeAdapterRaw \<Rightarrow> ('e, 'w) wire_world \<Rightarrow> (('b, 'd) NativeAdapterRaw \<times> ('e, 'w) wire_world) option" where
  "drop_raw_body env self ww =
     (case nr_body self of
        None \<Rightarrow> Some (self, ww)
      | Some body \<Rightarrow>
          map_option (\<lambda>(sem, w). (self\<lparr>nr_body := None\<rparr>, ww\<lparr>ww_semaphore := sem, ww_world := w\<rparr>))
            (adapter_body_drop (re_ops env) body (ww_semaphore ww) (ww_world ww)))"

section \<open>The decoder\<close>

definition ascii_lower :: "rstr \<Rightarrow> rstr" where
  "ascii_lower s = map to_ascii_lowercase s"

text \<open>\<open>any\<close> over the codings: an error counts as not supported.\<close>

definition raw_decoder ::
  "('b, 'd, 'e, 'w) raw_env \<Rightarrow> ('b, 'd) NativeAdapterRaw \<Rightarrow> ('e + 'd option) \<times> ('b, 'd) NativeAdapterRaw" where
  "raw_decoder env self =
     (case nr_content_encoding self of
        None \<Rightarrow> (Inr None, self)
      | Some encoding \<Rightarrow>
          let encoding = ascii_lower encoding; P = re_decoder env in
          (case dp_supported P encoding of
             Inl e \<Rightarrow> (Inl e, self)
           | Inr supported \<Rightarrow>
               if \<not> supported \<and> (44 \<notin> set encoding \<or> \<not> list_ex (\<lambda>c. dp_supported P (trim c) = Inr True) (split_by (\<lambda>c. c = 44) encoding))
               then (Inr None, self)
               else
                 (case nr_decoder self of
                    Some d \<Rightarrow> (Inr (Some d), self)
                  | None \<Rightarrow> (case dp_get P encoding of Inl e \<Rightarrow> (Inl e, self) | Inr d \<Rightarrow> (Inr (Some d), self\<lparr>nr_decoder := Some d\<rparr>)))))"

definition map_decode_failure :: "('b, 'd, 'e, 'w) raw_env \<Rightarrow> 'e \<Rightarrow> ('b, 'd) NativeAdapterRaw \<Rightarrow> 'e \<times> ('b, 'd) NativeAdapterRaw" where
  "map_decode_failure env e self =
     (re_decode_failure env (ascii_lower (case nr_content_encoding self of Some s \<Rightarrow> s | None \<Rightarrow> [])) e,
      self\<lparr>nr_decode_failed := True\<rparr>)"

text \<open>\<open>decompress\<close> and \<open>flush\<close> of the decoder, which is one object, with \<open>decode_result\<close>.\<close>

definition raw_decompress ::
  "('b, 'd, 'e, 'w) raw_env \<Rightarrow> 'd \<Rightarrow> bytes \<Rightarrow> int \<Rightarrow> ('b, 'd) NativeAdapterRaw \<Rightarrow> ('e + bytes) \<times> 'd \<times> ('b, 'd) NativeAdapterRaw" where
  "raw_decompress env d wire maximum self =
     (let failed = (\<lambda>e d. let (e, self) = map_decode_failure env e (self\<lparr>nr_decoder := Some d\<rparr>) in (Inl e, d, self)) in
      case dp_bounded (re_decoder env) d of
        Inl e \<Rightarrow> failed e d
      | Inr bounded \<Rightarrow>
          (case dp_decompress (re_decoder env) d wire (if bounded then Some maximum else None) of
             (Inl e, d) \<Rightarrow> failed e d
           | (Inr bs, d) \<Rightarrow> (Inr bs, d, self\<lparr>nr_decoder := Some d\<rparr>)))"

definition raw_flush ::
  "('b, 'd, 'e, 'w) raw_env \<Rightarrow> 'd \<Rightarrow> ('b, 'd) NativeAdapterRaw \<Rightarrow> ('e + bytes) \<times> 'd \<times> ('b, 'd) NativeAdapterRaw" where
  "raw_flush env d self =
     (case dp_flush (re_decoder env) d of
        (Inl e, d) \<Rightarrow> let (e, self) = map_decode_failure env e (self\<lparr>nr_decoder := Some d\<rparr>) in (Inl e, d, self)
      | (Inr bs, d) \<Rightarrow> (Inr bs, d, self\<lparr>nr_decoder := Some d\<rparr>))"


fun view_clean_end :: "'e decoder_view \<Rightarrow> 'e + bool"
  and views_clean_end :: "'e decoder_view list \<Rightarrow> 'e + bool" where
  "view_clean_end (ViewRaises e) = Inl e"
| "view_clean_end (View unconsumed nested eof is_finished) =
     (if unconsumed then Inr False
      else
        case nested of
          Some vs \<Rightarrow> views_clean_end vs
        | None \<Rightarrow> (case eof of Some r \<Rightarrow> r | None \<Rightarrow> (case is_finished of Some r \<Rightarrow> r | None \<Rightarrow> Inr False)))"
| "views_clean_end [] = Inr True"
| "views_clean_end (v # vs) =
     (case view_clean_end v of Inl e \<Rightarrow> Inl e | Inr False \<Rightarrow> Inr False | Inr True \<Rightarrow> views_clean_end vs)"

definition decoder_reached_clean_end :: "('b, 'd, 'e, 'w) raw_env \<Rightarrow> 'd \<Rightarrow> 'e + bool" where
  "decoder_reached_clean_end env d = view_clean_end (dp_view (re_decoder env) d)"

definition finish_decoded_wire_if_complete ::
  "('b, 'd, 'e, 'w) raw_env \<Rightarrow> 'd \<Rightarrow> ('b, 'd) NativeAdapterRaw \<Rightarrow> ('e, 'w) wire_world \<Rightarrow>
   (('e + unit) \<times> ('b, 'd) NativeAdapterRaw \<times> ('e, 'w) wire_world) option" where
  "finish_decoded_wire_if_complete env d self ww =
     (case decoder_reached_clean_end env d of
        Inl e \<Rightarrow> Some (Inl e, self, ww)
      | Inr clean \<Rightarrow>
          (case nr_body self of
             Some body \<Rightarrow>
               if clean
               then map_option (\<lambda>(body, sem, w). (Inr (), self\<lparr>nr_body := Some body\<rparr>, ww\<lparr>ww_semaphore := sem, ww_world := w\<rparr>))
                 (adapter_finish_encoded (re_ops env) body (ww_semaphore ww) (ww_world ww))
               else Some (Inr (), self, ww)
           | None \<Rightarrow> Some (Inr (), self, ww)))"

section \<open>Reading\<close>

definition extend_decoded :: "bytes \<Rightarrow> ('b, 'd) NativeAdapterRaw \<Rightarrow> ('b, 'd) NativeAdapterRaw" where
  "extend_decoded bs self = self\<lparr>nr_decoded := nr_decoded self @ bs\<rparr>"

text \<open>\<open>fill_decoded_bounded\<close>: the end of the wire, the decoding of a frame, and the loop.\<close>

definition fill_end ::
  "('b, 'd, 'e, 'w) raw_env \<Rightarrow> 'd option \<Rightarrow> ('b, 'd) NativeAdapterRaw \<Rightarrow> ('e, 'w) wire_world \<Rightarrow>
   (('e + unit) \<times> ('b, 'd) NativeAdapterRaw \<times> ('e, 'w) wire_world) option" where
  "fill_end env decoder self ww =
     (case drop_raw_body env self ww of
        None \<Rightarrow> None
      | Some (self, ww) \<Rightarrow>
          Some (if nr_decode_failed self then (Inr (), self\<lparr>nr_decoder_eof := True\<rparr>, ww)
            else
              case decoder of
                None \<Rightarrow> (Inr (), self\<lparr>nr_decoder_eof := True\<rparr>, ww)
              | Some d \<Rightarrow>
                  (case raw_decompress env d [] (- 1) self of
                     (Inl e, d, self) \<Rightarrow> (Inl e, self, ww)
                   | (Inr bs, d, self) \<Rightarrow>
                       (case raw_flush env d (extend_decoded bs self) of
                          (Inl e, d, self) \<Rightarrow> (Inl e, self, ww)
                        | (Inr bs, d, self) \<Rightarrow> (Inr (), (extend_decoded bs self)\<lparr>nr_decoder_eof := True\<rparr>, ww)))))"

definition fill_decode ::
  "('b, 'd, 'e, 'w) raw_env \<Rightarrow> nat option \<Rightarrow> 'd option \<Rightarrow> bytes \<Rightarrow> ('b, 'd) NativeAdapterRaw \<Rightarrow> ('e + unit) \<times> ('b, 'd) NativeAdapterRaw" where
  "fill_decode env wanted decoder wire self =
     (case decoder of
        None \<Rightarrow> (Inr (), extend_decoded wire self)
      | Some d \<Rightarrow>
          (case dp_bounded (re_decoder env) d of
             Inl e \<Rightarrow> (Inl e, self)
           | Inr bounded \<Rightarrow>
               let self = (if bounded then self\<lparr>nr_decode_started := True\<rparr> else self);
                   maximum = (case wanted of Some n \<Rightarrow> min (int (n - length (nr_decoded self))) (2 ^ 63 - 1) | None \<Rightarrow> - 1) in
               (case raw_decompress env d wire maximum self of
                  (Inl e, d, self) \<Rightarrow> (Inl e, self)
                | (Inr bs, d, self) \<Rightarrow> (Inr (), extend_decoded bs self))))"

definition decoder_tail :: "('b, 'd, 'e, 'w) raw_env \<Rightarrow> 'd option \<Rightarrow> 'e + bool" where
  "decoder_tail env decoder =
     (case decoder of
        None \<Rightarrow> Inr False
      | Some d \<Rightarrow>
          (case dp_bounded (re_decoder env) d of
             Inl e \<Rightarrow> Inl e
           | Inr bounded \<Rightarrow> if bounded then dp_tail (re_decoder env) d else Inr False))"

text \<open>A turn of the loop: it is over, or goes on.\<close>

definition fill_turn ::
  "('b, 'd, 'e, 'w) raw_env \<Rightarrow> nat option \<Rightarrow> ('b, 'd) NativeAdapterRaw \<Rightarrow> ('e, 'w) wire_world \<Rightarrow>
   ((('e + unit) \<times> ('b, 'd) NativeAdapterRaw \<times> ('e, 'w) wire_world) + (('b, 'd) NativeAdapterRaw \<times> ('e, 'w) wire_world)) option" where
  "fill_turn env wanted self ww =
     (if nr_decoder_eof self \<or> (case wanted of None \<Rightarrow> False | Some n \<Rightarrow> n \<le> length (nr_decoded self))
      then Some (Inl (Inr (), self, ww))
      else
        case raw_decoder env self of
          (Inl e, self) \<Rightarrow> Some (Inl (Inl e, self, ww))
        | (Inr decoder, self) \<Rightarrow>
            (case decoder_tail env decoder of
               Inl e \<Rightarrow> Some (Inl (Inl e, self, ww))
             | Inr has_tail \<Rightarrow>
                 (case (if has_tail then Some (Inr [], self, ww) else read_wire env (Some 8192) False False False self ww) of
                    None \<Rightarrow> None
                  | Some (Inl e, self, ww) \<Rightarrow> Some (Inl (Inl e, self, ww))
                  | Some (Inr wire, self, ww) \<Rightarrow>
                      if wire = [] \<and> \<not> has_tail then map_option Inl (fill_end env decoder self ww)
                      else
                        (case fill_decode env wanted decoder wire self of
                           (Inl e, self) \<Rightarrow> Some (Inl (Inl e, self, ww))
                         | (Inr _, self) \<Rightarrow> Some (Inr (self, ww))))))"

partial_function (option) fill_loop ::
  "('b, 'd, 'e, 'w) raw_env \<Rightarrow> nat option \<Rightarrow> ('b, 'd) NativeAdapterRaw \<Rightarrow> ('e, 'w) wire_world \<Rightarrow>
   (('e + unit) \<times> ('b, 'd) NativeAdapterRaw \<times> ('e, 'w) wire_world) option" where
  "fill_loop env wanted self ww =
     (case fill_turn env wanted self ww of
        None \<Rightarrow> None
      | Some (Inl result) \<Rightarrow> Some result
      | Some (Inr (self, ww)) \<Rightarrow> fill_loop env wanted self ww)"

definition fill_decoded_bounded ::
  "('b, 'd, 'e, 'w) raw_env \<Rightarrow> nat option \<Rightarrow> ('b, 'd) NativeAdapterRaw \<Rightarrow> ('e, 'w) wire_world \<Rightarrow>
   (('e + unit) \<times> ('b, 'd) NativeAdapterRaw \<times> ('e, 'w) wire_world) option" where
  "fill_decoded_bounded env wanted self ww =
     fill_loop env wanted (self\<lparr>nr_decoded := drop (nr_decoded_offset self) (nr_decoded self), nr_decoded_offset := 0\<rparr>) ww"

definition read_decoded_unbounded ::
  "('b, 'd, 'e, 'w) raw_env \<Rightarrow> nat option \<Rightarrow> 'd \<Rightarrow> ('b, 'd) NativeAdapterRaw \<Rightarrow> ('e, 'w) wire_world \<Rightarrow>
   (('e + bytes) \<times> ('b, 'd) NativeAdapterRaw \<times> ('e, 'w) wire_world) option" where
  "read_decoded_unbounded env amount d self ww =
     (let ends = (\<lambda>r self ww. map_option (\<lambda>(self, ww). (r, self\<lparr>nr_decoder_eof := True, nr_closed := True\<rparr>, ww)) (drop_raw_body env self ww)) in
      case read_wire env amount False False False self ww of
        None \<Rightarrow> None
      | Some (Inl e, self, ww) \<Rightarrow> Some (Inl e, self, ww)
      | Some (Inr wire, self, ww) \<Rightarrow>
          if wire = [] then ends (Inr []) self ww
          else
            (case raw_decompress env d wire (- 1) self of
               (Inl e, d, self) \<Rightarrow> Some (Inl e, self, ww)
             | (Inr bs, d, self) \<Rightarrow>
                 if amount \<noteq> None then Some (Inr bs, self, ww)
                 else
                   (case raw_decompress env d [] (- 1) self of
                      (Inl e, d, self) \<Rightarrow> Some (Inl e, self, ww)
                    | (Inr more_bytes, d, self) \<Rightarrow>
                        (case raw_flush env d self of
                           (Inl e, d, self) \<Rightarrow> Some (Inl e, self, ww)
                         | (Inr flushed, d, self) \<Rightarrow> ends (Inr (bs @ more_bytes @ flushed)) self ww))))"

text \<open>
  The end of \<open>read_amount\<close> for a bounded decoder: as much as was asked for leaves the buffer.
\<close>

definition take_decoded :: "nat option \<Rightarrow> ('b, 'd) NativeAdapterRaw \<Rightarrow> bytes \<times> ('b, 'd) NativeAdapterRaw" where
  "take_decoded amount self =
     (let upto = (case amount of Some n \<Rightarrow> min (nr_decoded_offset self + n) (length (nr_decoded self)) | None \<Rightarrow> length (nr_decoded self));
          bs = take (upto - nr_decoded_offset self) (drop (nr_decoded_offset self) (nr_decoded self));
          self = self\<lparr>nr_decoded_offset := upto\<rparr> in
      (bs, if nr_decoder_eof self \<and> nr_decoded_offset self = length (nr_decoded self) then self\<lparr>nr_closed := True\<rparr> else self))"

definition read_bounded ::
  "('b, 'd, 'e, 'w) raw_env \<Rightarrow> nat option \<Rightarrow> 'd \<Rightarrow> ('b, 'd) NativeAdapterRaw \<Rightarrow> ('e, 'w) wire_world \<Rightarrow>
   (('e + bytes) \<times> ('b, 'd) NativeAdapterRaw \<times> ('e, 'w) wire_world) option" where
  "read_bounded env amount d self ww =
     (case fill_decoded_bounded env amount self ww of
        None \<Rightarrow> None
      | Some (Inl e, self, ww) \<Rightarrow> Some (Inl e, self, ww)
      | Some (Inr _, self, ww) \<Rightarrow>
          let available = length (nr_decoded self) - nr_decoded_offset self;
              now = (case nr_decoder self of Some d \<Rightarrow> d | None \<Rightarrow> d) in
          (case (if (case amount of None \<Rightarrow> True | Some n \<Rightarrow> available < n) then finish_decoded_wire_if_complete env now self ww
                 else Some (Inr (), self, ww)) of
             None \<Rightarrow> None
           | Some (Inl e, self, ww) \<Rightarrow> Some (Inl e, self, ww)
           | Some (Inr _, self, ww) \<Rightarrow> let (bs, self) = take_decoded amount self in Some (Inr bs, self, ww)))"

definition read_amount ::
  "('b, 'd, 'e, 'w) raw_env \<Rightarrow> nat option \<Rightarrow> bool \<Rightarrow> ('b, 'd) NativeAdapterRaw \<Rightarrow> ('e, 'w) wire_world \<Rightarrow>
   (('e + bytes) \<times> ('b, 'd) NativeAdapterRaw \<times> ('e, 'w) wire_world) option" where
  "read_amount env amount decode_content self ww =
     (case ensure_origin_thread env self of Inl e \<Rightarrow> Some (Inl e, self, ww) | Inr _ \<Rightarrow>
      if amount = Some 0 \<or> nr_closed self then Some (Inr [], self, ww)
      else
        case (if decode_content then raw_decoder env self else (Inr None, self)) of
          (Inl e, self) \<Rightarrow> Some (Inl e, self, ww)
        | (Inr (Some d), self) \<Rightarrow>
            (case dp_bounded (re_decoder env) d of
               Inl e \<Rightarrow> Some (Inl e, self, ww)
             | Inr bounded \<Rightarrow>
                 if bounded then read_bounded env amount d self ww else read_decoded_unbounded env amount d self ww)
        | (Inr None, self) \<Rightarrow>
            if nr_decode_started self
            then Some (Inl (re_runtime_error env
              (lit ''Calling read(decode_content=False) is not supported after read(decode_content=True) was called.'')), self, ww)
            else if nr_body self = None then Some (Inr [], self\<lparr>nr_closed := True\<rparr>, ww)
            else
              (case read_wire env amount True True True self ww of
                 None \<Rightarrow> None
               | Some (Inl e, self, ww) \<Rightarrow> Some (Inl e, self, ww)
               | Some (Inr bs, self, ww) \<Rightarrow>
                   if bs \<noteq> [] then Some (Inr bs, self, ww)
                   else map_option (\<lambda>(self, ww). (Inr [], self\<lparr>nr_closed := True\<rparr>, ww)) (drop_raw_body env self ww)))"

text \<open>\<open>close\<close>; a signal may interrupt it, and an error of the body is mapped.\<close>

definition raw_close ::
  "('b, 'd, 'e, 'w) raw_env \<Rightarrow> ('b, 'd) NativeAdapterRaw \<Rightarrow> ('e, 'w) wire_world \<Rightarrow>
   (('e + unit) \<times> ('b, 'd) NativeAdapterRaw \<times> ('e, 'w) wire_world) option" where
  "raw_close env self ww =
     (case ensure_origin_thread env self of Inl e \<Rightarrow> Some (Inl e, self, ww) | Inr _ \<Rightarrow>
      case nr_body self of
        None \<Rightarrow> Some (Inr (), self\<lparr>nr_closed := True\<rparr>, ww)
      | Some body \<Rightarrow>
          let self = self\<lparr>nr_body := None, nr_closed := True, nr_decoder_eof := True\<rparr>;
              signal = (case ww_signals ww of [] \<Rightarrow> None | s # _ \<Rightarrow> s);
              ww = ww\<lparr>ww_signals := drop 1 (ww_signals ww)\<rparr> in
          (case signal of
             Some (e, sem, w) \<Rightarrow> Some (Inl e, self, ww\<lparr>ww_semaphore := sem, ww_world := w\<rparr>)
           | None \<Rightarrow>
               map_option (\<lambda>(r, sem, w). (map_sum (re_response_failure env) id r, self, ww\<lparr>ww_semaphore := sem, ww_world := w\<rparr>))
                 (adapter_close (re_ops env) None body (ww_semaphore ww) (ww_world ww))))"

end
