(* ===== verification/Raw_Pipe.thy ===== *)
theory Raw_Pipe
  imports Raw_Reader
begin

text \<open>
  What the raw response of \<open>Raw_Reader\<close> does with a decoder that can be asked for a number of bytes: reads
  return, they hand on what the decoder puts out and nothing is lost between them. The decoder is
  known by what it was fed with and by the history of its answers only.
\<close>

section \<open>What a bounded decoder puts out\<close>

text \<open>
  A history of the decoder: what its calls have returned so far, which is nothing for a new one. The
  codings asked for are supported and every decoder is bounded.
\<close>

definition decoder_history :: "('d, 'e) py_decoder \<Rightarrow> ('d \<Rightarrow> bytes) \<Rightarrow> bool" where
  "decoder_history P hist \<longleftrightarrow>
     (\<forall>enc d. dp_get P enc = Inr d \<longrightarrow> hist d = []) \<and>
     (\<forall>d wire m r d'. dp_decompress P d wire m = (r, d') \<longrightarrow> hist d' = hist d @ (case r of Inr bs \<Rightarrow> bs | Inl _ \<Rightarrow> [])) \<and>
     (\<forall>d r d'. dp_flush P d = (r, d') \<longrightarrow> hist d' = hist d @ (case r of Inr bs \<Rightarrow> bs | Inl _ \<Rightarrow> []))"

definition bounded_coding :: "('b, 'd, 'e, 'w) raw_env \<Rightarrow> ('b, 'd) NativeAdapterRaw \<Rightarrow> bool" where
  "bounded_coding env self \<longleftrightarrow>
     (\<exists>enc. nr_content_encoding self = Some enc \<and> dp_supported (re_decoder env) (ascii_lower enc) = Inr True) \<and>
     (\<forall>d. dp_bounded (re_decoder env) d = Inr True)"

definition put_out :: "('d \<Rightarrow> bytes) \<Rightarrow> ('b, 'd) NativeAdapterRaw \<Rightarrow> bytes" where
  "put_out hist self = (case nr_decoder self of Some d \<Rightarrow> hist d | None \<Rightarrow> [])"

text \<open>
  What was delivered and what is in the buffer are what the decoder has put out; after an error what
  was delivered is still a part of it.
\<close>

definition piped :: "('d \<Rightarrow> bytes) \<Rightarrow> bytes \<Rightarrow> ('b, 'd) NativeAdapterRaw \<Rightarrow> bool" where
  "piped hist delivered self \<longleftrightarrow>
     nr_decoded_offset self \<le> length (nr_decoded self) \<and>
     delivered @ drop (nr_decoded_offset self) (nr_decoded self) = put_out hist self"

definition same_buffer :: "('b, 'd) NativeAdapterRaw \<Rightarrow> ('b, 'd) NativeAdapterRaw \<Rightarrow> bool" where
  "same_buffer self self' \<longleftrightarrow>
     nr_decoded self' = nr_decoded self \<and> nr_decoded_offset self' = nr_decoded_offset self \<and>
     nr_content_encoding self' = nr_content_encoding self \<and> nr_closed self' = nr_closed self \<and>
     nr_decoder_eof self' = nr_decoder_eof self"

definition piped_after :: "('d \<Rightarrow> bytes) \<Rightarrow> bytes \<Rightarrow> ('b, 'd) NativeAdapterRaw \<Rightarrow> ('e + 'x) \<Rightarrow> ('b, 'd) NativeAdapterRaw \<Rightarrow> bool" where
  "piped_after hist delivered self r self' \<longleftrightarrow>
     nr_content_encoding self' = nr_content_encoding self \<and>
     (case r of
        Inr _ \<Rightarrow> piped hist delivered self' \<and> nr_decoded_offset self' = 0 \<and> nr_closed self' = nr_closed self
      | Inl _ \<Rightarrow> \<exists>more_bytes. put_out hist self' = delivered @ more_bytes)"

lemma bounded_coding_kept: "nr_content_encoding self' = nr_content_encoding self \<Longrightarrow> bounded_coding env self' = bounded_coding env self"
  by (simp add: bounded_coding_def)

lemma decoder_historyD:
  assumes "decoder_history P hist"
  shows "dp_get P enc = Inr d \<Longrightarrow> hist d = []"
    and "dp_decompress P d wire m = (Inr bs, d') \<Longrightarrow> hist d' = hist d @ bs" "dp_decompress P d wire m = (Inl e, d') \<Longrightarrow> hist d' = hist d"
    and "dp_flush P d = (Inr bs, d') \<Longrightarrow> hist d' = hist d @ bs" "dp_flush P d = (Inl e, d') \<Longrightarrow> hist d' = hist d"
  using assms unfolding decoder_history_def by (fastforce split: sum.splits)+

lemma raw_decoder_outcome:
  assumes "decoder_history (re_decoder env) hist" "bounded_coding env self" "raw_decoder env self = (r, self')"
  shows "(case r of Inr (Some d) \<Rightarrow> nr_decoder self' = Some d | Inr None \<Rightarrow> False | Inl _ \<Rightarrow> True) \<and> put_out hist self' = put_out hist self \<and>
    same_buffer self self'"
  using assms
  by (auto simp: same_buffer_def raw_decoder_def bounded_coding_def put_out_def decoder_history_def Let_def split: option.splits sum.splits)

lemma read_wire_outcome:
  assumes "read_wire env amount False allow fill self ww = Some (r, self', ww')"
  shows "nr_decoder self' = nr_decoder self \<and> nr_content_encoding self' = nr_content_encoding self \<and>
    (case r of Inr _ \<Rightarrow> same_buffer self self' | Inl _ \<Rightarrow> True)"
proof (cases "nr_body self")
  case None
  then show ?thesis using assms by (auto simp: read_wire_def same_buffer_def)
next
  case (Some body)
  then show ?thesis using assms
    by (auto simp: same_buffer_def read_wire_def Let_def finish_body_failure_def map_io_failure_def split: option.splits sum.splits prod.splits if_splits list.splits)
qed

lemma raw_decompress_outcome:
  assumes "decoder_history (re_decoder env) hist" "raw_decompress env d wire m self = (r, d', self')" "nr_decoder self = Some d"
  shows "nr_decoder self' = Some d' \<and> put_out hist self' = put_out hist self @ (case r of Inr bs \<Rightarrow> bs | Inl _ \<Rightarrow> []) \<and>
    same_buffer self self'"
  using assms(2,3) decoder_historyD(2,3) [OF assms(1)]
  by (auto simp: same_buffer_def raw_decompress_def put_out_def map_decode_failure_def Let_def split: sum.splits prod.splits)

lemma raw_flush_outcome:
  assumes "decoder_history (re_decoder env) hist" "raw_flush env d self = (r, d', self')" "nr_decoder self = Some d"
  shows "nr_decoder self' = Some d' \<and> put_out hist self' = put_out hist self @ (case r of Inr bs \<Rightarrow> bs | Inl _ \<Rightarrow> []) \<and>
    same_buffer self self'"
  using assms(2,3) decoder_historyD(4,5) [OF assms(1)]
  by (auto simp: same_buffer_def raw_flush_def put_out_def map_decode_failure_def Let_def split: sum.splits prod.splits)

lemma drop_raw_body_outcome: "drop_raw_body env self ww = Some (self', ww') \<Longrightarrow> self' = self\<lparr>nr_body := None\<rparr>"
  by (auto simp: drop_raw_body_def split: option.splits)


lemma piped_extend:
  assumes "piped hist delivered self" "nr_decoded_offset self = 0"
    and "put_out hist self' = put_out hist self @ bs" "nr_decoded self' = nr_decoded self @ bs" "nr_decoded_offset self' = 0"
  shows "piped hist delivered self'"
  using assms by (simp add: piped_def)

lemma piped_part: "piped hist delivered self \<Longrightarrow> \<exists>more_bytes. put_out hist self = delivered @ more_bytes"
  by (metis piped_def)

lemma put_out_fields [simp]:
  "put_out hist (self\<lparr>nr_decoded := x\<rparr>) = put_out hist self" "put_out hist (self\<lparr>nr_decoder_eof := b\<rparr>) = put_out hist self"
  "put_out hist (self\<lparr>nr_body := y\<rparr>) = put_out hist self" "put_out hist (self\<lparr>nr_decode_started := b\<rparr>) = put_out hist self"
  "put_out hist (self\<lparr>nr_decoded_offset := n\<rparr>) = put_out hist self" "put_out hist (self\<lparr>nr_closed := b\<rparr>) = put_out hist self"
  by (simp_all add: put_out_def)

lemma extend_decoded_fields [simp]:
  "nr_decoder (extend_decoded bs self) = nr_decoder self" "nr_decoded (extend_decoded bs self) = nr_decoded self @ bs"
  "nr_decoded_offset (extend_decoded bs self) = nr_decoded_offset self" "nr_closed (extend_decoded bs self) = nr_closed self"
  "nr_content_encoding (extend_decoded bs self) = nr_content_encoding self" "put_out hist (extend_decoded bs self) = put_out hist self"
  "nr_decoder_eof (extend_decoded bs self) = nr_decoder_eof self"
  by (simp_all add: extend_decoded_def)

lemma piped_same:
  "same_buffer self self' \<Longrightarrow> put_out hist self' = put_out hist self \<Longrightarrow> piped hist delivered self \<Longrightarrow> piped hist delivered self'"
  by (simp add: same_buffer_def piped_def)

lemma fill_decode_piped:
  assumes h: "decoder_history (re_decoder env) hist" and d: "nr_decoder self = Some d"
    and p: "piped hist delivered self" "nr_decoded_offset self = 0" and f: "fill_decode env wanted (Some d) wire self = (r, self')"
  shows "piped_after hist delivered self r self'"
proof (cases "dp_bounded (re_decoder env) d")
  case (Inl e)
  then show ?thesis using f p piped_part by (auto simp: fill_decode_def piped_after_def)
next
  case (Inr bounded)
  define self1 where "self1 = (if bounded then self\<lparr>nr_decode_started := True\<rparr> else self)"
  define m where "m = (case wanted of Some n \<Rightarrow> min (int (n - length (nr_decoded self1))) (2 ^ 63 - 1) | None \<Rightarrow> - 1)"
  have s1: "nr_decoder self1 = Some d" "put_out hist self1 = put_out hist self" "same_buffer self self1"
    using d by (auto simp: self1_def same_buffer_def)
  obtain q d' self2 where q: "raw_decompress env d wire m self1 = (q, d', self2)" by (metis surjective_pairing)
  note o = raw_decompress_outcome [OF h q s1(1)]
  have e: "(r, self') = (case q of Inl e \<Rightarrow> (Inl e, self2) | Inr bs \<Rightarrow> (Inr (), extend_decoded bs self2))"
    using f q unfolding m_def self1_def by (cases q) (simp_all add: fill_decode_def Inr Let_def)
  show ?thesis
  proof (cases q)
    case (Inl e2)
    then show ?thesis using e o s1 piped_part [OF p(1)] by (simp add: piped_after_def same_buffer_def)
  next
    case (Inr bs)
    then have "self' = extend_decoded bs self2" "r = Inr ()" using e by simp_all
    moreover have "piped hist delivered (extend_decoded bs self2)"
      by (rule piped_extend [OF p, of _ bs]) (use o s1 p Inr in \<open>simp_all add: same_buffer_def\<close>)
    ultimately show ?thesis using o s1 p by (simp add: piped_after_def same_buffer_def)
  qed
qed

lemma fill_end_piped:
  assumes h: "decoder_history (re_decoder env) hist" and d: "nr_decoder self = Some d"
    and p: "piped hist delivered self" "nr_decoded_offset self = 0" and f: "fill_end env (Some d) self ww = Some (r, self', ww')"
  shows "piped_after hist delivered self r self' \<and> (\<not> isl r \<longrightarrow> nr_decoder_eof self')"
proof -
  obtain self1 ww1 where b: "drop_raw_body env self ww = Some (self1, ww1)" using f by (auto simp: fill_end_def split: option.splits)
  then have s1: "self1 = self\<lparr>nr_body := None\<rparr>" by (rule drop_raw_body_outcome)
  show ?thesis
  proof (cases "nr_decode_failed self1")
    case True
    then show ?thesis using f b p s1 by (auto simp: fill_end_def piped_after_def piped_def)
  next
    case False
    obtain q d2 self2 where q: "raw_decompress env d [] (- 1) self1 = (q, d2, self2)" by (metis surjective_pairing)
    have d1: "nr_decoder self1 = Some d" using d s1 by simp
    note o2 = raw_decompress_outcome [OF h q d1, unfolded same_buffer_def]
    show ?thesis
    proof (cases q)
      case (Inl e)
      then show ?thesis using f b False q o2 p s1 piped_part [OF p(1)] by (auto simp: fill_end_def piped_after_def)
    next
      case (Inr bs)
      obtain q3 d3 self3 where q3: "raw_flush env d2 (extend_decoded bs self2) = (q3, d3, self3)" by (metis surjective_pairing)
      have d2: "nr_decoder (extend_decoded bs self2) = Some d2" using o2 by simp
      note o3 = raw_flush_outcome [OF h q3 d2, unfolded same_buffer_def]
      have p2: "piped hist delivered (extend_decoded bs self2)"
        by (rule piped_extend [OF p, of _ bs]) (use o2 s1 Inr p in simp_all)
      show ?thesis
      proof (cases q3)
        case (Inl e)
        then show ?thesis using f b False q Inr q3 o2 o3 s1 piped_part [OF p2] by (auto simp: fill_end_def piped_after_def)
      next
        case (Inr flushed)
        then have e: "r = Inr ()" "self' = (extend_decoded flushed self3)\<lparr>nr_decoder_eof := True\<rparr>"
          using f b False q \<open>q = Inr bs\<close> q3 by (auto simp: fill_end_def)
        have "piped hist delivered self'"
          by (rule piped_extend [OF p2, of _ flushed]) (use o2 o3 s1 Inr p e in simp_all)
        then show ?thesis using o2 o3 s1 e p by (simp add: piped_after_def)
      qed
    qed
  qed
qed

text \<open>A turn and the loop: as long as there is no error nothing is lost, and enough is in the buffer at the end.\<close>

definition fill_outcome ::
  "('d \<Rightarrow> bytes) \<Rightarrow> bytes \<Rightarrow> nat option \<Rightarrow> ('b, 'd) NativeAdapterRaw \<Rightarrow> ('e + unit) \<times> ('b, 'd) NativeAdapterRaw \<times> 'ww \<Rightarrow> bool" where
  "fill_outcome hist delivered wanted self result \<longleftrightarrow>
     (case result of (r, self', _) \<Rightarrow> piped_after hist delivered self r self' \<and>
        (\<not> isl r \<longrightarrow> nr_decoder_eof self' \<or> (case wanted of None \<Rightarrow> False | Some n \<Rightarrow> n \<le> length (nr_decoded self'))))"

lemma fill_turn_piped:
  assumes h: "decoder_history (re_decoder env) hist" and b: "bounded_coding env self"
    and p: "piped hist delivered self" "nr_decoded_offset self = 0" and t: "fill_turn env wanted self ww = Some x"
  shows "case x of Inl result \<Rightarrow> fill_outcome hist delivered wanted self result
    | Inr (self', ww') \<Rightarrow> piped_after hist delivered self (Inr () :: unit + unit) self'"
proof (cases "nr_decoder_eof self \<or> (case wanted of None \<Rightarrow> False | Some n \<Rightarrow> n \<le> length (nr_decoded self))")
  case True
  then show ?thesis using t p by (auto simp: fill_turn_def fill_outcome_def piped_after_def)
next
  case False
  obtain r1 self1 where r1: "raw_decoder env self = (r1, self1)" by (metis surjective_pairing)
  note o1 = raw_decoder_outcome [OF h b r1]
  have s1: "put_out hist self1 = put_out hist self" "same_buffer self self1" "piped hist delivered self1"
    using o1 p piped_same by blast+
  show ?thesis
  proof (cases r1)
    case (Inl e)
    then show ?thesis using t False r1 s1 piped_part [OF p(1)]
      by (auto simp: fill_turn_def fill_outcome_def piped_after_def same_buffer_def)
  next
    case (Inr decoder)
    then obtain d where d: "decoder = Some d" "nr_decoder self1 = Some d" using o1 by (cases decoder) auto
    note t = t [unfolded fill_turn_def r1 Inr d(1)]
    show ?thesis
    proof (cases "decoder_tail env (Some d)")
      case (Inl e)
      then show ?thesis using t False s1 piped_part [OF p(1)]
        by (auto simp: fill_outcome_def piped_after_def same_buffer_def)
    next
      case (Inr has_tail)
      define w where "w = (if has_tail then Some (Inr [], self1, ww) else read_wire env (Some 8192) False False False self1 ww)"
      have tw: "(case w of
                    None \<Rightarrow> None
                  | Some (Inl e, self, ww) \<Rightarrow> Some (Inl (Inl e, self, ww))
                  | Some (Inr wire, self, ww) \<Rightarrow>
                      if wire = [] \<and> \<not> has_tail then map_option Inl (fill_end env (Some d) self ww)
                      else
                        (case fill_decode env wanted (Some d) wire self of
                           (Inl e, self) \<Rightarrow> Some (Inl (Inl e, self, ww))
                         | (Inr _, self) \<Rightarrow> Some (Inr (self, ww)))) = Some x"
        using t False Inr by (simp add: w_def)
      obtain r2 self2 ww2 where w: "w = Some (r2, self2, ww2)" using tw by (cases w) auto
      have o2: "nr_decoder self2 = Some d" "nr_content_encoding self2 = nr_content_encoding self1" "\<not> isl r2 \<longrightarrow> same_buffer self1 self2"
        using w read_wire_outcome [of env "Some 8192" False False self1 ww r2 self2 ww2] d(2)
        by (cases r2; auto simp: w_def same_buffer_def split: if_splits)+
      have q2: "put_out hist self2 = put_out hist self1" using o2(1) d(2) by (simp add: put_out_def)
      show ?thesis
      proof (cases r2)
        case (Inl e)
        then show ?thesis using tw w s1 o2 q2 piped_part [OF p(1)]
          by (auto simp: fill_outcome_def piped_after_def same_buffer_def)
      next
        case wire: (Inr wire)
        have b2: "same_buffer self1 self2" "piped hist delivered self2" using o2(3) wire piped_same [OF _ q2 s1(3)] by auto
        have off: "nr_decoded_offset self2 = 0" "nr_content_encoding self2 = nr_content_encoding self" "nr_closed self2 = nr_closed self"
          using b2(1) s1(2) p(2) by (simp_all add: same_buffer_def)
        have keep: "piped_after hist delivered self2 r self' \<Longrightarrow> piped_after hist delivered self r self'" for r :: "'x + unit" and self'
          using off by (cases r) (simp_all add: piped_after_def)
        show ?thesis
        proof (cases "wire = [] \<and> \<not> has_tail")
          case True
          then obtain r self' ww' where e: "fill_end env (Some d) self2 ww2 = Some (r, self', ww')" "x = Inl (r, self', ww')"
            using tw w wire by auto
          note o3 = fill_end_piped [OF h o2(1) b2(2) off(1) e(1)]
          show ?thesis using e(2) o3 keep [OF conjunct1 [OF o3]] by (simp add: fill_outcome_def)
        next
          case go: False
          obtain r self' where f: "fill_decode env wanted (Some d) wire self2 = (r, self')" by (metis surjective_pairing)
          have a: "piped_after hist delivered self r self'" by (rule keep [OF fill_decode_piped [OF h o2(1) b2(2) off(1) f]])
          then show ?thesis using tw w wire go f
            by (cases r) (auto simp: fill_outcome_def piped_after_def)
        qed
      qed
    qed
  qed
qed

lemma fill_outcome_step:
  assumes "piped_after hist delivered self (Inr () :: unit + unit) self1" "fill_outcome hist delivered wanted self1 result"
  shows "fill_outcome hist delivered wanted self result"
proof -
  obtain r self' ww' where r: "result = (r, self', ww')" by (metis surjective_pairing)
  show ?thesis using assms unfolding r fill_outcome_def by (cases r) (simp_all add: piped_after_def)
qed

lemma fill_loop_piped:
  assumes "fill_loop env wanted self ww = Some result" and "decoder_history (re_decoder env) hist"
    and "bounded_coding env self" "piped hist delivered self" "nr_decoded_offset self = 0"
  shows "fill_outcome hist delivered wanted self result"
proof -
  have "decoder_history (re_decoder env) hist \<longrightarrow> bounded_coding env self \<longrightarrow> piped hist delivered self \<longrightarrow>
    nr_decoded_offset self = 0 \<longrightarrow> fill_outcome hist delivered wanted self result"
  proof (rule fill_loop.raw_induct [where P = "\<lambda>env wanted self ww result. decoder_history (re_decoder env) hist \<longrightarrow>
        bounded_coding env self \<longrightarrow> piped hist delivered self \<longrightarrow> nr_decoded_offset self = 0 \<longrightarrow>
        fill_outcome hist delivered wanted self result", OF _ assms(1)], intro impI)
    fix loop env wanted self ww result
    assume IH: "\<And>env wanted self ww result. loop env wanted self ww = Some result \<Longrightarrow> decoder_history (re_decoder env) hist \<longrightarrow>
        bounded_coding env self \<longrightarrow> piped hist delivered self \<longrightarrow> nr_decoded_offset self = 0 \<longrightarrow>
        fill_outcome hist delivered wanted self result"
      and hyps: "(case fill_turn env wanted self ww of
        None \<Rightarrow> None
      | Some (Inl result) \<Rightarrow> Some result
      | Some (Inr (self, ww)) \<Rightarrow> loop env wanted self ww) = Some result"
      and prems: "decoder_history (re_decoder env) hist" "bounded_coding env self" "piped hist delivered self" "nr_decoded_offset self = 0"
    obtain x where t: "fill_turn env wanted self ww = Some x" using hyps by (auto split: option.splits)
    note o = fill_turn_piped [OF prems t]
    show "fill_outcome hist delivered wanted self result"
    proof (cases x)
      case (Inl r)
      then show ?thesis using hyps t o by simp
    next
      case (Inr y)
      obtain self1 ww1 where y: "y = (self1, ww1)" by (metis surjective_pairing)
      have p: "piped_after hist delivered self (Inr () :: unit + unit) self1" using o Inr y by simp
      then have "bounded_coding env self1" "piped hist delivered self1" "nr_decoded_offset self1 = 0"
        using bounded_coding_kept [of self1 self env] prems by (auto simp: piped_after_def)
      moreover have "loop env wanted self1 ww1 = Some result" using hyps t Inr y by simp
      ultimately have "fill_outcome hist delivered wanted self1 result" using IH prems(1) by blast
      then show ?thesis by (rule fill_outcome_step [OF p])
    qed
  qed
  then show ?thesis using assms by blast
qed

text \<open>
  A read of a bounded decoder: the state of the pipe after it, and how much it returns.
\<close>

definition read_outcome ::
  "('d \<Rightarrow> bytes) \<Rightarrow> bytes \<Rightarrow> nat option \<Rightarrow> ('b, 'd) NativeAdapterRaw \<Rightarrow> ('e + bytes) \<Rightarrow> ('b, 'd) NativeAdapterRaw \<Rightarrow> bool" where
  "read_outcome hist delivered amount self r self' \<longleftrightarrow>
     nr_content_encoding self' = nr_content_encoding self \<and>
     (case r of
        Inl _ \<Rightarrow> \<exists>more_bytes. put_out hist self' = delivered @ more_bytes
      | Inr bs \<Rightarrow> piped hist (delivered @ bs) self' \<and>
          (case amount of Some n \<Rightarrow> length bs = n \<or> length bs < n \<and> nr_closed self' | None \<Rightarrow> nr_closed self'))"

lemma take_decoded_piped:
  assumes p: "piped hist delivered self" "nr_decoded_offset self = 0"
    and full: "nr_decoder_eof self \<or> (case amount of None \<Rightarrow> False | Some n \<Rightarrow> n \<le> length (nr_decoded self))"
    and t: "take_decoded amount self = (bs, self')"
  shows "read_outcome hist delivered amount self (Inr bs :: 'e + bytes) self'"
proof -
  define k where "k = (case amount of Some n \<Rightarrow> min n (length (nr_decoded self)) | None \<Rightarrow> length (nr_decoded self))"
  have k: "k \<le> length (nr_decoded self)" by (simp add: k_def split: option.splits)
  have e: "bs = take k (nr_decoded self)" "nr_decoded_offset self' = k" "nr_decoded self' = nr_decoded self"
    "nr_content_encoding self' = nr_content_encoding self" "put_out hist self' = put_out hist self"
    "nr_closed self' \<longleftrightarrow> nr_closed self \<or> nr_decoder_eof self \<and> k = length (nr_decoded self)"
    using t p(2) by (auto simp: take_decoded_def Let_def k_def split: option.splits if_splits)
  have "piped hist (delivered @ bs) self'" using p k e by (simp add: piped_def)
  moreover have "case amount of Some n \<Rightarrow> length bs = n \<or> length bs < n \<and> nr_closed self' | None \<Rightarrow> nr_closed self'"
    using full e k by (auto simp: k_def split: option.splits)
  ultimately show ?thesis using e(4) by (simp add: read_outcome_def)
qed

lemma finish_decoded_outcome:
  assumes "finish_decoded_wire_if_complete env d self ww = Some (r, self', ww')"
  shows "same_buffer self self' \<and> nr_decoder self' = nr_decoder self"
  using assms by (auto simp: finish_decoded_wire_if_complete_def same_buffer_def split: sum.splits option.splits if_splits)

lemma read_bounded_piped:
  assumes h: "decoder_history (re_decoder env) hist" and b: "bounded_coding env self" and p: "piped hist delivered self"
    and r: "read_bounded env amount d self ww = Some (r, self', ww')"
  shows "read_outcome hist delivered amount self r self'"
proof -
  define self0 where "self0 = self\<lparr>nr_decoded := drop (nr_decoded_offset self) (nr_decoded self), nr_decoded_offset := 0\<rparr>"
  have s0: "piped hist delivered self0" "nr_decoded_offset self0 = 0" "nr_content_encoding self0 = nr_content_encoding self"
    using p by (simp_all add: self0_def piped_def)
  have b0: "bounded_coding env self0" using b bounded_coding_kept [OF s0(3), of env] by simp
  obtain q self1 ww1 where f: "fill_loop env amount self0 ww = Some (q, self1, ww1)"
    using r by (cases "fill_loop env amount self0 ww") (auto simp: read_bounded_def fill_decoded_bounded_def self0_def)
  note o = fill_loop_piped [OF f h b0 s0(1,2), unfolded fill_outcome_def]
  show ?thesis
  proof (cases q)
    case (Inl e)
    then show ?thesis using r f o s0(3)
      by (auto simp: read_bounded_def fill_decoded_bounded_def piped_after_def read_outcome_def simp flip: self0_def)
  next
    case (Inr u)
    define now where "now = (case nr_decoder self1 of Some d \<Rightarrow> d | None \<Rightarrow> d)"
    define fin where "fin = (if (case amount of None \<Rightarrow> True | Some n \<Rightarrow> length (nr_decoded self1) - nr_decoded_offset self1 < n)
      then finish_decoded_wire_if_complete env now self1 ww1 else Some (Inr (), self1, ww1))"
    have s1: "piped hist delivered self1" "nr_decoded_offset self1 = 0" "nr_content_encoding self1 = nr_content_encoding self"
      "nr_decoder_eof self1 \<or> (case amount of None \<Rightarrow> False | Some n \<Rightarrow> n \<le> length (nr_decoded self1))"
      using o Inr s0(3) by (simp_all add: piped_after_def)
    have rf: "(case fin of None \<Rightarrow> None
           | Some (Inl e, self, ww) \<Rightarrow> Some (Inl e, self, ww)
           | Some (Inr _, self, ww) \<Rightarrow> let (bs, self) = take_decoded amount self in Some (Inr bs, self, ww)) = Some (r, self', ww')"
      using r f Inr unfolding fin_def now_def
      by (simp add: read_bounded_def fill_decoded_bounded_def Let_def split del: if_split flip: self0_def)
    obtain q2 self2 ww2 where q2: "fin = Some (q2, self2, ww2)" using rf by (cases fin) auto
    have s2: "same_buffer self1 self2" "nr_decoder self2 = nr_decoder self1"
      using q2 finish_decoded_outcome [of env now self1 ww1 q2 self2 ww2] by (auto simp: fin_def same_buffer_def split: if_splits)
    have po: "put_out hist self2 = put_out hist self1" using s2(2) by (simp add: put_out_def)
    have p2: "piped hist delivered self2" by (rule piped_same [OF s2(1) po s1(1)])
    show ?thesis
    proof (cases q2)
      case (Inl e)
      then show ?thesis using rf q2 s1(3) s2 piped_part [OF p2] by (auto simp: read_outcome_def same_buffer_def)
    next
      case (Inr v)
      obtain bs self3 where t: "take_decoded amount self2 = (bs, self3)" by (metis surjective_pairing)
      have "read_outcome hist delivered amount self2 (Inr bs :: 'c + bytes) self3"
        by (rule take_decoded_piped [OF p2 _ _ t]) (use s1 s2 in \<open>auto simp: same_buffer_def split: option.splits\<close>)
      moreover have "r = Inr bs" "self' = self3" using rf q2 Inr t by simp_all
      ultimately show ?thesis using s1(3) s2(1) by (simp add: read_outcome_def same_buffer_def)
    qed
  qed
qed

section \<open>That a read returns\<close>

text \<open>
  A wire that ends: a read of a frame returns, and each frame that is not empty brings it nearer to
  its end. A decoder with an unconsumed tail that is asked for something brings the tail nearer to
  its end.
\<close>

definition wire_ends :: "('b, 'w) async_body \<Rightarrow> ('b AdapterResponseBody \<Rightarrow> 'w \<Rightarrow> nat) \<Rightarrow> bool" where
  "wire_ends ops rank \<longleftrightarrow>
     (\<forall>body sem w. adapter_body_drop ops body sem w \<noteq> None \<and> adapter_finish_encoded ops body sem w \<noteq> None \<and>
        (case adapter_read_frame_async ops 8192 False body sem w of
           Some (Inr (body', bs), _, w') \<Rightarrow> bs \<noteq> [] \<longrightarrow> rank body' w' < rank body w
         | Some _ \<Rightarrow> True | None \<Rightarrow> False))"

definition tail_ends :: "('d, 'e) py_decoder \<Rightarrow> ('d \<Rightarrow> nat) \<Rightarrow> bool" where
  "tail_ends P left \<longleftrightarrow>
     (\<forall>d m bs d'. dp_tail P d = Inr True \<longrightarrow> m \<noteq> Some 0 \<longrightarrow> dp_decompress P d [] m = (Inr bs, d') \<longrightarrow> left d' < left d)"

definition fill_rank :: "('b AdapterResponseBody \<Rightarrow> 'w \<Rightarrow> nat) \<Rightarrow> ('d \<Rightarrow> nat) \<Rightarrow> ('b, 'd) NativeAdapterRaw \<times> ('e, 'w) wire_world \<Rightarrow> nat \<times> nat" where
  "fill_rank rank left st =
     (case nr_body (fst st) of None \<Rightarrow> 0 | Some body \<Rightarrow> rank body (ww_world (snd st)),
      case nr_decoder (fst st) of None \<Rightarrow> 0 | Some d \<Rightarrow> left d)"

lemma read_wire_returns:
  assumes "wire_ends (re_ops env) rank"
  shows "\<exists>r self' ww'. read_wire env (Some 8192) False False False self ww = Some (r, self', ww') \<and>
    (case r of Inl _ \<Rightarrow> True | Inr bs \<Rightarrow> bs \<noteq> [] \<longrightarrow> (\<exists>body body'. nr_body self = Some body \<and> nr_body self' = Some body' \<and>
       rank body' (ww_world ww') < rank body (ww_world ww)))"
proof (cases "nr_body self")
  case None
  then show ?thesis by (simp add: read_wire_def)
next
  case (Some body)
  show ?thesis using assms [unfolded wire_ends_def, rule_format, of body "ww_semaphore ww" "ww_world ww"] Some
    by (auto simp: read_wire_def Let_def wire_result_def map_io_failure_def split: option.splits sum.splits prod.splits list.splits)
qed

lemma drop_raw_body_returns: "wire_ends (re_ops env) rank \<Longrightarrow> \<exists>y. drop_raw_body env self ww = Some y"
  by (auto simp: drop_raw_body_def wire_ends_def split: option.splits)

lemma fill_end_returns: "wire_ends (re_ops env) rank \<Longrightarrow> fill_end env decoder self ww \<noteq> None"
  using drop_raw_body_returns [of env rank self ww] by (auto simp: fill_end_def simp del: not_None_eq)

lemma fill_decode_tail:
  assumes t: "tail_ends (re_decoder env) left" and b: "dp_bounded (re_decoder env) d = Inr True" "dp_tail (re_decoder env) d = Inr True"
    and n: "case wanted of None \<Rightarrow> True | Some n \<Rightarrow> length (nr_decoded self) < n"
    and f: "fill_decode env wanted (Some d) [] self = (Inr u, self')"
  shows "\<exists>d'. nr_decoder self' = Some d' \<and> left d' < left d"
proof -
  define m where "m = (case wanted of Some n \<Rightarrow> min (int (n - length (nr_decoded self))) (2 ^ 63 - 1) | None \<Rightarrow> - 1)"
  have m: "Some m \<noteq> Some 0" using n by (auto simp: m_def split: option.splits)
  obtain r d' where d: "dp_decompress (re_decoder env) d [] (Some m) = (r, d')" by (metis surjective_pairing)
  then show ?thesis using f b t [unfolded tail_ends_def, rule_format, OF b(2) m] unfolding m_def
    by (cases r; cases wanted) (auto simp: fill_decode_def raw_decompress_def Let_def map_decode_failure_def extend_decoded_def)
qed

lemma fill_decode_fields:
  assumes "dp_bounded (re_decoder env) d = Inr True" "fill_decode env wanted (Some d) wire self = (Inr u, self')"
  shows "(\<exists>d'. nr_decoder self' = Some d') \<and> nr_body self' = nr_body self \<and> nr_content_encoding self' = nr_content_encoding self"
  using assms
  by (auto simp: fill_decode_def raw_decompress_def Let_def map_decode_failure_def extend_decoded_def split: sum.splits prod.splits)

lemma fill_turn_returns:
  assumes we: "wire_ends (re_ops env) rank" and te: "tail_ends (re_decoder env) left" and b: "bounded_coding env self"
    and d: "nr_decoder self = Some d"
  shows "\<exists>x. fill_turn env wanted self ww = Some x \<and>
    (case x of Inl _ \<Rightarrow> True
     | Inr (self', ww') \<Rightarrow> (fill_rank rank left (self', ww'), fill_rank rank left (self, ww)) \<in> less_than <*lex*> less_than \<and>
         (\<exists>d'. nr_decoder self' = Some d') \<and> nr_content_encoding self' = nr_content_encoding self)"
proof (cases "nr_decoder_eof self \<or> (case wanted of None \<Rightarrow> False | Some n \<Rightarrow> n \<le> length (nr_decoded self))")
  case True
  then show ?thesis by (simp add: fill_turn_def)
next
  case False
  have bd: "dp_bounded (re_decoder env) d = Inr True" and rd: "raw_decoder env self = (Inr (Some d), self)"
    using b d by (auto simp: bounded_coding_def raw_decoder_def Let_def)
  note turn = fill_turn_def [of env wanted self ww] rd bd decoder_tail_def
  show ?thesis
  proof (cases "dp_tail (re_decoder env) d")
    case (Inl e)
    then show ?thesis using False by (simp add: turn)
  next
    case (Inr has_tail)
    show ?thesis
    proof (cases has_tail)
      case True
      obtain r self' where f: "fill_decode env wanted (Some d) [] self = (r, self')" by (metis surjective_pairing)
      show ?thesis
      proof (cases r)
        case (Inl e)
        then show ?thesis using False True f Inr by (simp add: turn)
      next
        case (Inr u)
        have "\<exists>d'. nr_decoder self' = Some d' \<and> left d' < left d"
          by (rule fill_decode_tail [OF te bd _ _ f [unfolded Inr]])
            (use False True \<open>dp_tail (re_decoder env) d = Inr has_tail\<close> in \<open>auto split: option.splits\<close>)
        then show ?thesis
          using False True f Inr \<open>dp_tail (re_decoder env) d = Inr has_tail\<close> d fill_decode_fields [OF bd f [unfolded Inr]]
          by (auto simp: turn fill_rank_def split: option.split)
      qed
    next
      case no_tail: False
      obtain r self1 ww1 where w: "read_wire env (Some 8192) False False False self ww = Some (r, self1, ww1)"
        and progress: "case r of Inl _ \<Rightarrow> True | Inr bs \<Rightarrow> bs \<noteq> [] \<longrightarrow> (\<exists>body body'. nr_body self = Some body \<and> nr_body self1 = Some body' \<and>
           rank body' (ww_world ww1) < rank body (ww_world ww))"
        using read_wire_returns [OF we] by blast
      show ?thesis
      proof (cases r)
        case (Inl e)
        then show ?thesis using False no_tail w Inr by (simp add: turn)
      next
        case wire: (Inr wire)
        show ?thesis
        proof (cases "wire = []")
          case True
          then show ?thesis using False no_tail w wire Inr fill_end_returns [OF we, of "Some d" self1 ww1] by (auto simp: turn)
        next
          case go: False
          obtain r2 self2 where f: "fill_decode env wanted (Some d) wire self1 = (r2, self2)" by (metis surjective_pairing)
          have enc: "nr_content_encoding self1 = nr_content_encoding self" using read_wire_outcome [OF w] by blast
          show ?thesis
          proof (cases r2)
            case (Inl e)
            then show ?thesis using False no_tail w wire Inr go f by (simp add: turn)
          next
            case ok: (Inr u)
            then show ?thesis using False no_tail w wire Inr go f enc progress fill_decode_fields [OF bd f [unfolded ok]]
              by (auto simp: turn fill_rank_def)
          qed
        qed
      qed
    qed
  qed
qed

lemma fill_loop_returns:
  assumes we: "wire_ends (re_ops env) rank" and te: "tail_ends (re_decoder env) left"
  shows "bounded_coding env self \<Longrightarrow> nr_decoder self = Some d \<Longrightarrow> \<exists>y. fill_loop env wanted self ww = Some y"
proof (induction "(self, ww)" arbitrary: self ww d rule: wf_induct_rule [OF wf_inv_image [of "less_than <*lex*> less_than" "fill_rank rank left", OF wf_lex_prod [OF wf_less_than wf_less_than]]])
  case (1 self ww)
  obtain x where x: "fill_turn env wanted self ww = Some x"
    and progress: "case x of Inl _ \<Rightarrow> True
     | Inr (self', ww') \<Rightarrow> (fill_rank rank left (self', ww'), fill_rank rank left (self, ww)) \<in> less_than <*lex*> less_than \<and>
         (\<exists>d'. nr_decoder self' = Some d') \<and> nr_content_encoding self' = nr_content_encoding self"
    using fill_turn_returns [OF we te "1.prems"] by blast
  show ?case
  proof (cases x)
    case (Inl y)
    then show ?thesis using x by (cases y) (simp add: fill_loop.simps)
  next
    case (Inr st)
    obtain self' ww' where st: "st = (self', ww')" by (metis surjective_pairing)
    have "\<exists>y. fill_loop env wanted self' ww' = Some y"
      using "1.hyps" [of self' ww'] progress Inr st bounded_coding_kept [of self' self env] "1.prems"(1) by (auto simp: in_inv_image)
    then show ?thesis using x Inr st by (simp add: fill_loop.simps [of env wanted self ww])
  qed
qed

lemma read_amount_returns:
  assumes we: "wire_ends (re_ops env) rank" and te: "tail_ends (re_decoder env) left" and b: "bounded_coding env self"
  shows "\<exists>y. read_amount env amount True self ww = Some y"
proof (cases "ensure_origin_thread env self \<noteq> Inr () \<or> amount = Some 0 \<or> nr_closed self")
  case True
  then show ?thesis by (auto simp: read_amount_def split: sum.splits)
next
  case False
  obtain r self1 where d: "raw_decoder env self = (r, self1)" by (metis surjective_pairing)
  show ?thesis
  proof (cases r)
    case (Inl e)
    then show ?thesis using False d by (simp add: read_amount_def)
  next
    case (Inr decoder)
    have enc: "nr_content_encoding self1 = nr_content_encoding self" and "\<exists>dd. decoder = Some dd \<and> nr_decoder self1 = Some dd"
      using d b Inr by (cases "nr_decoder self"; auto simp: raw_decoder_def bounded_coding_def Let_def split: option.splits sum.splits)+
    then obtain dd where dd: "decoder = Some dd" "nr_decoder self1 = Some dd" by blast
    define self0 where "self0 = self1\<lparr>nr_decoded := drop (nr_decoded_offset self1) (nr_decoded self1), nr_decoded_offset := 0\<rparr>"
    have "bounded_coding env self0" "nr_decoder self0 = Some dd"
      using b dd bounded_coding_kept [of self0 self env] enc by (simp_all add: self0_def)
    then obtain q self2 ww2 where f: "fill_loop env amount self0 ww = Some (q, self2, ww2)"
      using fill_loop_returns [OF we te] by (metis surjective_pairing)
    have fin: "finish_decoded_wire_if_complete env now self2 ww2 \<noteq> None" for now
      using we by (auto simp: finish_decoded_wire_if_complete_def wire_ends_def split: sum.splits option.splits)
    have "read_bounded env amount dd self1 ww \<noteq> None"
      using f fin by (cases q) (auto simp: read_bounded_def fill_decoded_bounded_def Let_def simp del: not_None_eq simp flip: self0_def
          split: option.splits prod.splits sum.splits if_splits)
    then show ?thesis using False d Inr dd b by (auto simp: read_amount_def bounded_coding_def)
  qed
qed

section \<open>What the wire holds\<close>

text \<open>
  What a body yields: \<open>content\<close> gives the bytes it still has before its end or its first failure,
  \<open>fails\<close> which of the two it is; no operation panics or waits for ever, and empty frames come to an
  end.
\<close>

definition yields :: "('b, 'w) async_body \<Rightarrow> ('b \<Rightarrow> bytes) \<Rightarrow> ('b \<Rightarrow> bool) \<Rightarrow> ('b \<Rightarrow> nat) \<Rightarrow> bool" where
  "yields ops content fails m \<longleftrightarrow>
     (\<forall>b w. (\<exists>r c w'. aw_next ops b w = Some (r, c, w') \<and>
          (case r of
             Some (Inr f) \<Rightarrow> content b = f @ content c \<and> fails b = fails c \<and> m c < m b
           | Some (Inl _) \<Rightarrow> content b = [] \<and> fails b
           | None \<Rightarrow> content b = [] \<and> \<not> fails b)) \<and>
        (\<forall>allow. \<exists>c w'. aw_finish_declared_length ops allow b w = Some (c, w') \<and>
          (\<not> allow \<longrightarrow> content c = content b \<and> fails c = fails b)) \<and>
        (\<exists>w'. aw_drop ops b w = Some w') \<and>
        (aw_is_terminal ops b \<longrightarrow> content b = [] \<and> \<not> fails b))"

lemma yields_laws:
  assumes "yields ops content fails m"
  shows "\<exists>r c w'. aw_next ops b w = Some (r, c, w') \<and>
      (case r of
         Some (Inr f) \<Rightarrow> content b = f @ content c \<and> fails b = fails c \<and> m c < m b
       | Some (Inl _) \<Rightarrow> content b = [] \<and> fails b
       | None \<Rightarrow> content b = [] \<and> \<not> fails b)"
    "\<exists>c w'. aw_finish_declared_length ops allow b w = Some (c, w') \<and> (\<not> allow \<longrightarrow> content c = content b \<and> fails c = fails b)"
    "\<exists>w'. aw_drop ops b w = Some w'" "aw_is_terminal ops b \<Longrightarrow> content b = [] \<and> \<not> fails b"
  using assms [unfolded yields_def, THEN spec, THEN spec, of b w] by auto

definition inner_content :: "('b \<Rightarrow> bytes) \<Rightarrow> 'b BlockingBody \<Rightarrow> bytes" where
  "inner_content content inner =
     remaining_bytes inner @ (if bb_terminal inner then [] else case bb_inner inner of None \<Rightarrow> [] | Some b \<Rightarrow> content b)"

definition inner_fails :: "('b \<Rightarrow> bool) \<Rightarrow> 'b BlockingBody \<Rightarrow> bool" where
  "inner_fails fails inner \<longleftrightarrow>
     bb_pending_error inner \<noteq> None \<or> \<not> bb_terminal inner \<and> (case bb_inner inner of None \<Rightarrow> False | Some b \<Rightarrow> fails b)"

lemmas inner_defs = inner_content_def inner_fails_def

lemma next_frame_content:
  assumes "yields ops content fails m"
  shows "\<exists>r c w'. next_frame ops b w = Some (r, c, w') \<and>
    (case r of
       Some (Inr f) \<Rightarrow> content b = f @ content c \<and> fails b = fails c \<and> f \<noteq> []
     | Some (Inl _) \<Rightarrow> content b = [] \<and> fails b
     | None \<Rightarrow> content b = [] \<and> \<not> fails b)"
proof (induction "m b" arbitrary: b w rule: less_induct)
  case less
  obtain r c w' where n: "aw_next ops b w = Some (r, c, w')"
      "case r of
         Some (Inr f) \<Rightarrow> content b = f @ content c \<and> fails b = fails c \<and> m c < m b
       | Some (Inl _) \<Rightarrow> content b = [] \<and> fails b
       | None \<Rightarrow> content b = [] \<and> \<not> fails b"
    using yields_laws(1) [OF assms] by blast
  show ?case
  proof (cases "r = Some (Inr [])")
    case True
    then have "m c < m b" and eq: "content b = content c" "fails b = fails c" using n(2) by simp_all
    then show ?thesis using less [of c w'] n(1) True unfolding eq by (simp add: next_frame.simps [of ops b w])
  next
    case False
    then have "next_frame ops b w = Some (r, c, w')"
      using n(1) by (subst next_frame.simps) (auto split: option.splits sum.splits list.splits)
    then show ?thesis using n(2) False by (auto split: option.splits sum.splits)
  qed
qed

lemma read_loop_content:
  assumes y: "yields ops content fails m" and n: "length out < n" and idle: "bb_remainder self = None" "bb_inner self = None" "\<not> bb_terminal self"
    "bb_pending_error self = None"
  shows "\<exists>r w'. read_loop ops (Some n) False False self out b w = Some (r, w') \<and>
    (case r of Inl _ \<Rightarrow> True
     | Inr (self', out') \<Rightarrow> out @ content b = out' @ inner_content content self' \<and> fails b = inner_fails fails self' \<and>
         (out' = [] \<longrightarrow> out @ content b = [] \<and> \<not> fails b))"
proof -
  obtain r c w1 where f: "next_frame ops b w = Some (r, c, w1)" "case r of
         Some (Inr f) \<Rightarrow> content b = f @ content c \<and> fails b = fails c \<and> f \<noteq> []
       | Some (Inl _) \<Rightarrow> content b = [] \<and> fails b
       | None \<Rightarrow> content b = [] \<and> \<not> fails b"
    using next_frame_content [OF y] by blast
  obtain w2 where w2: "aw_drop ops c w1 = Some w2" using yields_laws(3) [OF y] by blast
  note step = read_loop.simps [of ops "Some n" False False self out b w, unfolded f(1) option.case prod.case]
  consider "r = None" | e where "r = Some (Inl e)" | frame where "r = Some (Inr frame)" by (metis option.exhaust sum.exhaust)
  then show ?thesis
  proof cases
    case 3
    define k where "k = min (n - length out) (length frame)"
    define self' where "self' = (if k < length frame then self\<lparr>bb_remainder := Some (drop k frame)\<rparr> else self)"
    have k: "take k frame \<noteq> []" "take k frame @ remaining_bytes self' = frame" "\<not> bb_terminal self'" "bb_pending_error self' = None"
      using n f(2) 3 idle by (auto simp: k_def self'_def)
    obtain d w3 where d: "(if bb_remainder self' = None then aw_finish_declared_length ops False c w1 else Some (c, w1)) = Some (d, w3)"
      "content d = content c" "fails d = fails c" using yields_laws(2) [OF y, of False c w1] by (cases "bb_remainder self'") auto
    obtain w4 where w4: "aw_drop ops d w3 = Some w4" using yields_laws(3) [OF y] by blast
    have c: "content b = take k frame @ remaining_bytes self' @ content d" "fails b = fails d" using f(2) 3 k(2) d(2,3) by simp_all
    have "read_loop ops (Some n) False False self out b w =
        Some (if aw_is_terminal ops d then (Inr (self'\<lparr>bb_terminal := True\<rparr>, out @ take k frame), w4)
          else (Inr (self'\<lparr>bb_inner := Some d\<rparr>, out @ take k frame), w3))"
      unfolding step 3 option.case sum.case prod.case k_def [symmetric] Let_def self'_def [symmetric] d(1) by (simp add: w4)
    then show ?thesis using yields_laws(4) [OF y, of d] k c by (simp add: inner_defs)
  qed (use w2 f(2) idle in \<open>auto simp: step inner_defs\<close>)
qed

lemma read_frame_content:
  assumes y: "yields ops content fails m"
  shows "\<exists>r w'. read_frame_async ops 8192 False inner w = Some (r, w') \<and>
    (case r of Inl _ \<Rightarrow> True
     | Inr (inner', bs) \<Rightarrow> inner_content content inner = bs @ inner_content content inner' \<and> inner_fails fails inner = inner_fails fails inner' \<and>
         (bs = [] \<longrightarrow> inner_content content inner = [] \<and> \<not> inner_fails fails inner))"
proof -
  define k where "k = (case bb_remainder inner of None \<Rightarrow> 0 | Some r \<Rightarrow> min 8192 (length r))"
  define out where "out = (case bb_remainder inner of None \<Rightarrow> [] | Some r \<Rightarrow> take k r)"
  define self where "self = inner\<lparr>bb_remainder := (case bb_remainder inner of None \<Rightarrow> None | Some r \<Rightarrow> if k < length r then Some (drop k r) else None)\<rparr>"
  have self: "inner_content content inner = out @ inner_content content self" "length out = k" "k \<noteq> 8192 \<longrightarrow> bb_remainder self = None" "k \<le> 8192"
      "inner_fails fails inner = inner_fails fails self"
    by (auto simp: inner_defs self_def out_def k_def split: option.splits)
  have fin: "\<exists>self' w'. finish_declared_length_if_buffer_empty ops False self w = Some (self', w') \<and>
      inner_content content self' = inner_content content self \<and> inner_fails fails self' = inner_fails fails self \<and> bb_remainder self' = bb_remainder self"
  proof (cases "bb_remainder self \<noteq> None \<or> bb_inner self = None")
    case False
    then obtain b where b: "bb_inner self = Some b" "bb_remainder self = None" by auto
    obtain c w1 where c: "aw_finish_declared_length ops False b w = Some (c, w1)" "content c = content b" "fails c = fails b" using yields_laws(2) [OF y] by blast
    obtain w2 where "aw_drop ops c w1 = Some w2" using yields_laws(3) [OF y] by blast
    then show ?thesis using b c yields_laws(4) [OF y, of c]
      by (auto simp: finish_declared_length_if_buffer_empty_def inner_defs)
  qed (auto simp: finish_declared_length_if_buffer_empty_def)
  have "\<exists>self' w'. take_remainder ops (Some 8192) False inner w = Some ((if k = 8192 then Inl else Inr) (self', out, w')) \<and>
      inner_content content self' = inner_content content self \<and> inner_fails fails self' = inner_fails fails self \<and> bb_remainder self' = bb_remainder self"
  proof (cases "bb_remainder inner")
    case None
    then show ?thesis by (auto simp: take_remainder_def k_def out_def self_def inner_defs)
  next
    case (Some rem)
    then show ?thesis using fin by (auto simp: take_remainder_def k_def out_def self_def Let_def)
  qed
  then obtain self' w' where t: "take_remainder ops (Some 8192) False inner w = Some ((if k = 8192 then Inl else Inr) (self', out, w'))"
    "inner_content content self' = inner_content content self" "bb_remainder self' = bb_remainder self"
    "inner_fails fails self' = inner_fails fails self" by blast
  have drop: "\<exists>w2. blocking_drop ops self' w' = Some w2" using yields_laws(3) [OF y] by (auto simp: blocking_drop_def split: option.splits)
  consider "k = 8192" | e where "k \<noteq> 8192" "bb_pending_error self' = Some e"
    | "k \<noteq> 8192" "bb_pending_error self' = None" "bb_terminal self' \<or> bb_inner self' = None"
    | b where "k \<noteq> 8192" "bb_pending_error self' = None" "\<not> bb_terminal self'" "bb_inner self' = Some b" by fastforce
  then show ?thesis
  proof cases
    case 1
    then show ?thesis using t self by (auto simp: read_frame_async_def read_async_inner_def)
  next
    case 2
    then show ?thesis using t drop by (auto simp: read_frame_async_def read_async_inner_def)
  next
    case 3
    then have "inner_content content self' = []" "inner_content content (self'\<lparr>bb_terminal := True\<rparr>) = []"
      "\<not> inner_fails fails self'" "\<not> inner_fails fails (self'\<lparr>bb_terminal := True\<rparr>)"
      using t(3) self(3) by (auto simp: inner_defs)
    then show ?thesis using t self 3 by (auto simp: read_frame_async_def read_async_inner_def)
  next
    case 4
    have "inner_content content self' = content b" "inner_fails fails self' = fails b" using 4 t(3) self(3) by (simp_all add: inner_defs)
    moreover obtain r w2 where "read_loop ops (Some 8192) False False (self'\<lparr>bb_inner := None\<rparr>) out b w' = Some (r, w2)"
      "case r of Inl _ \<Rightarrow> True
       | Inr (self', out') \<Rightarrow> out @ content b = out' @ inner_content content self' \<and> fails b = inner_fails fails self' \<and>
           (out' = [] \<longrightarrow> out @ content b = [] \<and> \<not> fails b)"
      using read_loop_content [OF y, of out 8192 "self'\<lparr>bb_inner := None\<rparr>" b w'] 4 t(3) self by auto
    ultimately show ?thesis using t self 4 by (auto simp: read_frame_async_def read_async_inner_def split: sum.splits)
  qed
qed

text \<open>So reads of the wire return, and hand on its content.\<close>

lemma adapter_read_content:
  assumes "yields ops content fails m"
  shows "\<exists>r sem' w'. adapter_read_frame_async ops 8192 False body sem w = Some (r, sem', w') \<and>
    (case r of Inl _ \<Rightarrow> True
     | Inr (body', bs) \<Rightarrow> inner_content content (ab_inner body) = bs @ inner_content content (ab_inner body') \<and>
         inner_fails fails (ab_inner body) = inner_fails fails (ab_inner body') \<and>
         (bs = [] \<longrightarrow> inner_content content (ab_inner body) = [] \<and> \<not> inner_fails fails (ab_inner body)))"
proof -
  obtain r w' where r: "read_frame_async ops 8192 False (ab_inner body) w = Some (r, w')"
    "case r of Inl _ \<Rightarrow> True
     | Inr (inner', bs) \<Rightarrow> inner_content content (ab_inner body) = bs @ inner_content content inner' \<and>
         inner_fails fails (ab_inner body) = inner_fails fails inner' \<and>
         (bs = [] \<longrightarrow> inner_content content (ab_inner body) = [] \<and> \<not> inner_fails fails (ab_inner body))"
    using read_frame_content [OF assms] by blast
  show ?thesis
  proof (cases r)
    case (Inr y)
    then show ?thesis using r
      by (cases "blocking_is_terminal (fst y)"; cases y) (auto simp: adapter_read_frame_async_def adapter_async_def)
  qed (use r in \<open>simp add: adapter_read_frame_async_def adapter_async_def\<close>)
qed

lemma yields_wire_ends:
  assumes "yields ops content fails m"
  shows "wire_ends ops (\<lambda>body w. length (inner_content content (ab_inner body)))"
proof -
  have fin: "adapter_body_drop ops body sem w \<noteq> None \<and> adapter_finish_encoded ops body sem w \<noteq> None" for body sem w
  proof (cases "bb_inner (ab_inner body)")
    case None
    then show ?thesis by (simp add: adapter_body_drop_def adapter_finish_encoded_def blocking_drop_def finish_encoded_declared_length_def
        finish_declared_length_if_buffer_empty_def)
  next
    case (Some b)
    obtain w1 where w1: "aw_drop ops b w = Some w1" using yields_laws(3) [OF assms] by blast
    obtain c w2 where c: "aw_finish_declared_length ops True b w = Some (c, w2)" using yields_laws(2) [OF assms] by blast
    obtain w3 where w3: "aw_drop ops c w2 = Some w3" using yields_laws(3) [OF assms] by blast
    show ?thesis using Some w1 c w3
      by (simp add: adapter_body_drop_def adapter_finish_encoded_def blocking_drop_def finish_encoded_declared_length_def
        finish_declared_length_if_buffer_empty_def)
  qed
  have "case adapter_read_frame_async ops 8192 False body sem w of
      Some (Inr (body', bs), _, w') \<Rightarrow> bs \<noteq> [] \<longrightarrow> length (inner_content content (ab_inner body')) < length (inner_content content (ab_inner body))
    | Some _ \<Rightarrow> True | None \<Rightarrow> False" for body sem w
  proof -
    obtain r sem' w' where r: "adapter_read_frame_async ops 8192 False body sem w = Some (r, sem', w')"
      "case r of Inl _ \<Rightarrow> True
       | Inr (body', bs) \<Rightarrow> inner_content content (ab_inner body) = bs @ inner_content content (ab_inner body') \<and>
         inner_fails fails (ab_inner body) = inner_fails fails (ab_inner body') \<and>
           (bs = [] \<longrightarrow> inner_content content (ab_inner body) = [] \<and> \<not> inner_fails fails (ab_inner body))"
      using adapter_read_content [OF assms] by blast
    then show ?thesis by (cases r) auto
  qed
  then show ?thesis using fin by (simp add: wire_ends_def del: not_None_eq)
qed

section \<open>That the decoder gets everything\<close>

text \<open>What a decoder was fed with, and whether it was flushed.\<close>

definition decoder_feed :: "('d, 'e) py_decoder \<Rightarrow> ('d \<Rightarrow> bytes) \<Rightarrow> ('d \<Rightarrow> bool) \<Rightarrow> bool" where
  "decoder_feed P fed flushed \<longleftrightarrow>
     (\<forall>enc d. dp_get P enc = Inr d \<longrightarrow> fed d = []) \<and>
     (\<forall>d wire m bs d'. dp_decompress P d wire m = (Inr bs, d') \<longrightarrow> fed d' = fed d @ wire) \<and>
     (\<forall>d bs d'. dp_flush P d = (Inr bs, d') \<longrightarrow> fed d' = fed d \<and> flushed d')"

definition on_wire :: "('b \<Rightarrow> bytes) \<Rightarrow> ('b, 'd) NativeAdapterRaw \<Rightarrow> bytes" where
  "on_wire content self = (case nr_body self of None \<Rightarrow> [] | Some body \<Rightarrow> inner_content content (ab_inner body))"

definition wire_fails :: "('b \<Rightarrow> bool) \<Rightarrow> ('b, 'd) NativeAdapterRaw \<Rightarrow> bool" where
  "wire_fails fails self \<longleftrightarrow> (case nr_body self of None \<Rightarrow> False | Some body \<Rightarrow> inner_fails fails (ab_inner body))"

definition fed_with :: "('d \<Rightarrow> bytes) \<Rightarrow> ('b, 'd) NativeAdapterRaw \<Rightarrow> bytes" where
  "fed_with fed self = (case nr_decoder self of Some d \<Rightarrow> fed d | None \<Rightarrow> [])"

text \<open>
  As long as no read failed: what the decoder was fed with and what is on the wire are the whole
  content, and the failure it ends with is still to come; at the end there is none, and the decoder
  has all of the content and was flushed.
\<close>

definition feeding ::
  "('d \<Rightarrow> bytes) \<Rightarrow> ('d \<Rightarrow> bool) \<Rightarrow> ('b \<Rightarrow> bytes) \<Rightarrow> ('b \<Rightarrow> bool) \<Rightarrow> bytes \<Rightarrow> bool \<Rightarrow> ('b, 'd) NativeAdapterRaw \<Rightarrow> bool" where
  "feeding fed flushed content fails whole failing self \<longleftrightarrow>
     \<not> nr_decode_failed self \<and> fed_with fed self @ on_wire content self = whole \<and> wire_fails fails self = failing \<and>
     (nr_decoder_eof self \<longrightarrow> nr_body self = None \<and> (\<exists>d. nr_decoder self = Some d \<and> flushed d)) \<and>
     (nr_closed self \<longrightarrow> nr_decoder_eof self)"

lemma decoder_feedD:
  assumes "decoder_feed P fed flushed"
  shows "dp_get P enc = Inr d \<Longrightarrow> fed d = []" "dp_decompress P d wire m = (Inr bs, d') \<Longrightarrow> fed d' = fed d @ wire"
    "dp_flush P d = (Inr bs, d') \<Longrightarrow> fed d' = fed d \<and> flushed d'"
  using assms unfolding decoder_feed_def by blast+

lemma raw_decoder_feeding:
  assumes f: "decoder_feed (re_decoder env) fed flushed" and s: "feeding fed flushed content fails whole failing self"
    and d: "raw_decoder env self = (Inr (Some d), self')"
  shows "feeding fed flushed content fails whole failing self' \<and> nr_decoder self' = Some d"
  using s d decoder_feedD(1) [OF f]
  by (auto simp: raw_decoder_def feeding_def fed_with_def on_wire_def wire_fails_def Let_def split: option.splits sum.splits if_splits)

lemma read_wire_feeding:
  assumes y: "yields (re_ops env) content fails m" and w: "read_wire env (Some 8192) False False False self ww = Some (Inr bs, self', ww')"
  shows "on_wire content self = bs @ on_wire content self' \<and> wire_fails fails self = wire_fails fails self' \<and>
    (bs = [] \<longrightarrow> on_wire content self = [] \<and> \<not> wire_fails fails self) \<and>
    nr_decoder self' = nr_decoder self \<and> nr_decode_failed self' = nr_decode_failed self \<and> nr_decoder_eof self' = nr_decoder_eof self \<and>
    nr_closed self' = nr_closed self"
proof (cases "nr_body self")
  case None
  then show ?thesis using w by (auto simp: read_wire_def on_wire_def wire_fails_def)
next
  case (Some body)
  obtain r sem' w' where r: "adapter_read_frame_async (re_ops env) 8192 False body (ww_semaphore ww) (ww_world ww) = Some (r, sem', w')"
    "case r of Inl _ \<Rightarrow> True
     | Inr (body', bs) \<Rightarrow> inner_content content (ab_inner body) = bs @ inner_content content (ab_inner body') \<and>
         inner_fails fails (ab_inner body) = inner_fails fails (ab_inner body') \<and>
         (bs = [] \<longrightarrow> inner_content content (ab_inner body) = [] \<and> \<not> inner_fails fails (ab_inner body))"
    using adapter_read_content [OF y] by blast
  then show ?thesis using w Some
    by (auto simp: read_wire_def wire_result_def on_wire_def wire_fails_def Let_def map_io_failure_def split: option.splits sum.splits list.splits)
qed

lemma fill_decode_feeding:
  assumes f: "decoder_feed (re_decoder env) fed flushed" and s: "\<not> nr_decode_failed self" "\<not> nr_decoder_eof self" "\<not> nr_closed self" "nr_decoder self = Some d"
    and w: "fed d @ wire @ on_wire content self = whole" "wire_fails fails self = failing" and r: "fill_decode env wanted (Some d) wire self = (Inr u, self')"
  shows "feeding fed flushed content fails whole failing self'"
  using r s w decoder_feedD(2) [OF f]
  by (auto simp: fill_decode_def raw_decompress_def feeding_def fed_with_def on_wire_def wire_fails_def Let_def extend_decoded_def split: sum.splits prod.splits if_splits)

lemma fill_end_feeding:
  assumes f: "decoder_feed (re_decoder env) fed flushed" and s: "\<not> nr_decode_failed self" "nr_decoder self = Some d" "fed d = whole" "\<not> failing"
    and r: "fill_end env (Some d) self ww = Some (Inr u, self', ww')"
  shows "feeding fed flushed content fails whole failing self'"
proof -
  obtain ww1 where b: "drop_raw_body env self ww = Some (self\<lparr>nr_body := None\<rparr>, ww1)"
    using r drop_raw_body_outcome by (fastforce simp: fill_end_def split: option.splits)
  show ?thesis using r b s(1,2,4) unfolding s(3) [symmetric]
    by (auto simp: fill_end_def raw_decompress_def raw_flush_def feeding_def fed_with_def on_wire_def wire_fails_def Let_def extend_decoded_def
        dest!: decoder_feedD [OF f] split: sum.splits prod.splits)
qed

lemma fill_turn_feeding:
  assumes f: "decoder_feed (re_decoder env) fed flushed" and y: "yields (re_ops env) content fails m" and b: "bounded_coding env self"
    and s: "feeding fed flushed content fails whole failing self" "\<not> nr_closed self" and t: "fill_turn env wanted self ww = Some x"
  shows "case x of Inl (Inl _, _) \<Rightarrow> True | Inl (Inr _, self', _) \<Rightarrow> feeding fed flushed content fails whole failing self'
    | Inr (self', _) \<Rightarrow> feeding fed flushed content fails whole failing self'"
proof (cases "nr_decoder_eof self \<or> (case wanted of None \<Rightarrow> False | Some n \<Rightarrow> n \<le> length (nr_decoded self))")
  case True
  then show ?thesis using t s by (auto simp: fill_turn_def)
next
  case False
  obtain r1 self1 where r1: "raw_decoder env self = (r1, self1)" by (metis surjective_pairing)
  consider e where "r1 = Inl e" | d where "r1 = Inr (Some d)"
    using r1 b by (cases r1) (auto simp: raw_decoder_def bounded_coding_def Let_def split: option.splits sum.splits)
  then show ?thesis
  proof cases
    case 1
    then show ?thesis using t False r1 by (auto simp: fill_turn_def)
  next
    case (2 d)
    note s1 = raw_decoder_feeding [OF f s(1) r1 [unfolded 2]]
    have eof: "\<not> nr_decoder_eof self1" "\<not> nr_closed self1"
      using r1 False s(2) by (auto simp: raw_decoder_def Let_def split: option.splits sum.splits if_splits)
    have s1': "\<not> nr_decode_failed self1" "fed d @ on_wire content self1 = whole" "wire_fails fails self1 = failing" using s1 by (auto simp: feeding_def fed_with_def)
    show ?thesis
    proof (cases "decoder_tail env (Some d)")
      case (Inl e)
      then show ?thesis using t False r1 2 by (auto simp: fill_turn_def)
    next
      case tail: (Inr has_tail)
      define w where "w = (if has_tail then Some (Inr [], self1, ww) else read_wire env (Some 8192) False False False self1 ww)"
      have tw: "(case w of
                    None \<Rightarrow> None
                  | Some (Inl e, self, ww) \<Rightarrow> Some (Inl (Inl e, self, ww))
                  | Some (Inr wire, self, ww) \<Rightarrow>
                      if wire = [] \<and> \<not> has_tail then map_option Inl (fill_end env (Some d) self ww)
                      else
                        (case fill_decode env wanted (Some d) wire self of
                           (Inl e, self) \<Rightarrow> Some (Inl (Inl e, self, ww))
                         | (Inr _, self) \<Rightarrow> Some (Inr (self, ww)))) = Some x"
        using t False tail r1 2 by (simp add: fill_turn_def w_def)
      obtain r2 self2 ww2 where w: "w = Some (r2, self2, ww2)" using tw by (cases w) auto
      show ?thesis
      proof (cases r2)
        case (Inl e)
        then show ?thesis using tw w by auto
      next
        case (Inr wire)
        have s2: "on_wire content self1 = wire @ on_wire content self2" "\<not> has_tail \<longrightarrow> wire = [] \<longrightarrow> on_wire content self1 = [] \<and> \<not> failing"
          "nr_decoder self2 = Some d" "\<not> nr_decode_failed self2" "\<not> nr_decoder_eof self2" "\<not> nr_closed self2" "wire_fails fails self2 = failing"
          using w Inr read_wire_feeding [OF y, of self1 ww wire self2 ww2] s1 s1' eof by (auto simp: w_def split: if_splits)
        show ?thesis
        proof (cases "wire = [] \<and> \<not> has_tail")
          case True
          then have "fed d = whole" "\<not> failing" using s2 s1' by simp_all
          then show ?thesis using tw w Inr True fill_end_feeding [OF f s2(4,3), of whole failing] by (auto split: sum.splits)
        next
          case go: False
          have "fed d @ wire @ on_wire content self2 = whole" using s2(1) s1'(2) by simp
          from fill_decode_feeding [OF f s2(4-6,3) this s2(7), of wanted]
          show ?thesis using tw w Inr go by (auto split: sum.splits prod.splits)
        qed
      qed
    qed
  qed
qed

lemma fill_loop_feeding:
  fixes env :: "('b, 'd, 'e, 'w) raw_env"
  assumes "fill_loop env wanted self ww = Some result" and "decoder_history (re_decoder env) hist"
    and "bounded_coding env self" "piped hist delivered self" "nr_decoded_offset self = 0"
    and "decoder_feed (re_decoder env) fed flushed" "yields (re_ops env) content fails m" "feeding fed flushed content fails whole failing self" "\<not> nr_closed self"
  shows "case result of (Inl _, _) \<Rightarrow> True | (Inr _, self', _) \<Rightarrow> feeding fed flushed content fails whole failing self'"
proof -
  define start where "start env self \<longleftrightarrow> decoder_history (re_decoder env) hist \<and> bounded_coding env self \<and> piped hist delivered self \<and>
    nr_decoded_offset self = 0 \<and> decoder_feed (re_decoder env) fed flushed \<and> yields (re_ops env) content fails m \<and>
    feeding fed flushed content fails whole failing self \<and> \<not> nr_closed self" for env :: "('b, 'd, 'e, 'w) raw_env" and self
  have "start env self \<longrightarrow> (case result of (Inl _, _) \<Rightarrow> True | (Inr _, self', _) \<Rightarrow> feeding fed flushed content fails whole failing self')"
  proof (rule fill_loop.raw_induct [where P = "\<lambda>env wanted self ww result. start env self \<longrightarrow>
        (case result of (Inl _, _) \<Rightarrow> True | (Inr _, self', _) \<Rightarrow> feeding fed flushed content fails whole failing self')", OF _ assms(1)], rule impI)
    fix loop env wanted self ww result
    assume IH: "\<And>env wanted self ww result. loop env wanted self ww = Some result \<Longrightarrow> start env self \<longrightarrow>
        (case result of (Inl _, _) \<Rightarrow> True | (Inr _, self', _) \<Rightarrow> feeding fed flushed content fails whole failing self')"
      and hyps: "(case fill_turn env wanted self ww of
        None \<Rightarrow> None
      | Some (Inl result) \<Rightarrow> Some result
      | Some (Inr (self, ww)) \<Rightarrow> loop env wanted self ww) = Some result"
      and st: "start env self"
    note st = st [unfolded start_def]
    obtain x where t: "fill_turn env wanted self ww = Some x" using hyps by (auto split: option.splits)
    have o: "case x of Inl result \<Rightarrow> fill_outcome hist delivered wanted self result
        | Inr (self', ww') \<Rightarrow> piped_after hist delivered self (Inr () :: unit + unit) self'"
      by (rule fill_turn_piped [OF _ _ _ _ t]) (use st in auto)
    have g: "case x of Inl (Inl _, _) \<Rightarrow> True | Inl (Inr _, self', _) \<Rightarrow> feeding fed flushed content fails whole failing self'
        | Inr (self', _) \<Rightarrow> feeding fed flushed content fails whole failing self'"
      by (rule fill_turn_feeding [OF _ _ _ _ _ t]) (use st in auto)
    show "case result of (Inl _, _) \<Rightarrow> True | (Inr _, self', _) \<Rightarrow> feeding fed flushed content fails whole failing self'"
    proof (cases x)
      case (Inl r)
      then show ?thesis using hyps t g by simp
    next
      case (Inr y)
      obtain self1 ww1 where y: "y = (self1, ww1)" by (metis surjective_pairing)
      have "start env self1"
        using o g Inr y st bounded_coding_kept [of self1 self env] by (auto simp: start_def piped_after_def)
      then show ?thesis using IH [of env wanted self1 ww1 result] hyps t Inr y by simp
    qed
  qed
  then show ?thesis using assms by (simp add: start_def)
qed

lemma read_bounded_feeding:
  assumes h: "decoder_history (re_decoder env) hist" and b: "bounded_coding env self" and p: "piped hist delivered self"
    and f: "decoder_feed (re_decoder env) fed flushed" "yields (re_ops env) content fails m" "feeding fed flushed content fails whole failing self" "\<not> nr_closed self"
    and r: "read_bounded env amount d self ww = Some (Inr bs, self', ww')"
  shows "feeding fed flushed content fails whole failing self'"
proof -
  define self0 where "self0 = self\<lparr>nr_decoded := drop (nr_decoded_offset self) (nr_decoded self), nr_decoded_offset := 0\<rparr>"
  have s0: "bounded_coding env self0" "piped hist delivered self0" "nr_decoded_offset self0 = 0" "\<not> nr_closed self0"
    "feeding fed flushed content fails whole failing self0"
    using b p f(3,4) bounded_coding_kept [of self0 self env]
    by (simp_all add: self0_def piped_def feeding_def fed_with_def on_wire_def wire_fails_def)
  obtain u self1 ww1 where l: "fill_loop env amount self0 ww = Some (Inr u, self1, ww1)"
    using r by (auto simp: read_bounded_def fill_decoded_bounded_def self0_def split: option.splits sum.splits prod.splits)
  have g: "feeding fed flushed content fails whole failing self1" using fill_loop_feeding [OF l h s0(1-3) f(1,2) s0(5,4)] by simp
  have o: "nr_decoder_eof self1 \<or> (case amount of None \<Rightarrow> False | Some n \<Rightarrow> n \<le> length (nr_decoded self1))" "nr_decoded_offset self1 = 0"
    using fill_loop_piped [OF l h s0(1-3)] by (auto simp: fill_outcome_def piped_after_def)
  have fin: "self2 = self1" if "finish_decoded_wire_if_complete env now self1 ww1 = Some (Inr v, self2, ww2)"
      "case amount of None \<Rightarrow> True | Some n \<Rightarrow> length (nr_decoded self1) < n" for now v self2 ww2
  proof -
    have "nr_body self1 = None" using o that(2) g by (auto simp: feeding_def split: option.splits)
    then show ?thesis using that(1) by (auto simp: finish_decoded_wire_if_complete_def split: sum.splits)
  qed
  have "take_decoded amount self1 = (bs, self')"
    using r l o(2) fin
    by (auto simp: read_bounded_def fill_decoded_bounded_def Let_def simp flip: self0_def split: option.splits sum.splits prod.splits if_splits)
  then show ?thesis using g by (auto simp: take_decoded_def Let_def feeding_def fed_with_def on_wire_def wire_fails_def split: if_splits)
qed

lemma read_amount_feeding:
  assumes h: "decoder_history (re_decoder env) hist" and b: "bounded_coding env self" and p: "piped hist delivered self"
    and f: "decoder_feed (re_decoder env) fed flushed" "yields (re_ops env) content fails m" "feeding fed flushed content fails whole failing self"
    and r: "read_amount env amount True self ww = Some (Inr bs, self', ww')"
  shows "feeding fed flushed content fails whole failing self'"
proof (cases "amount = Some 0 \<or> nr_closed self")
  case True
  then show ?thesis using r f(3) by (auto simp: read_amount_def split: sum.splits)
next
  case False
  obtain q self1 where d: "raw_decoder env self = (q, self1)" by (metis surjective_pairing)
  note o = raw_decoder_outcome [OF h b d]
  have "\<not> isl q" using r False d by (auto simp: read_amount_def split: sum.splits)
  then obtain dd where dd: "q = Inr (Some dd)" using o by (cases q) (auto split: option.splits)
  have s1: "piped hist delivered self1" "bounded_coding env self1" "\<not> nr_closed self1"
    using o piped_same [of self self1 hist delivered] p False bounded_coding_kept [of self1 self env] b by (auto simp: same_buffer_def)
  have "read_bounded env amount dd self1 ww = Some (Inr bs, self', ww')"
    using r False d dd b by (simp add: read_amount_def bounded_coding_def split: sum.splits)
  then show ?thesis
    using read_bounded_feeding [OF h s1(2,1) f(1,2) _ s1(3)] raw_decoder_feeding [OF f(1,3) d [unfolded dd]] by blast
qed

section \<open>Reads one after the other\<close>

text \<open>Reads one after the other, until one fails: what they return, the exception, and the state at the end.\<close>

fun raw_reads ::
  "('b, 'd, 'e, 'w) raw_env \<Rightarrow> nat option list \<Rightarrow> ('b, 'd) NativeAdapterRaw \<Rightarrow> ('e, 'w) wire_world \<Rightarrow>
   (bytes list \<times> 'e option \<times> ('b, 'd) NativeAdapterRaw) option" where
  "raw_reads env [] self ww = Some ([], None, self)"
| "raw_reads env (amount # amounts) self ww =
     (case read_amount env amount True self ww of
        None \<Rightarrow> None
      | Some (Inl e, self, _) \<Rightarrow> Some ([], Some e, self)
      | Some (Inr bs, self, ww) \<Rightarrow> map_option (\<lambda>(outs, e, self). (bs # outs, e, self)) (raw_reads env amounts self ww))"

text \<open>A closed response has nothing left.\<close>

definition drained :: "('b, 'd) NativeAdapterRaw \<Rightarrow> bool" where
  "drained self \<longleftrightarrow> (nr_closed self \<longrightarrow> nr_decoded_offset self = length (nr_decoded self))"

lemma read_bounded_drained:
  assumes "\<not> nr_closed self" "decoder_history (re_decoder env) hist" "bounded_coding env self" "piped hist delivered self"
    and "read_bounded env amount d self ww = Some (Inr bs, self', ww')"
  shows "drained self'"
proof -
  define self0 where "self0 = self\<lparr>nr_decoded := drop (nr_decoded_offset self) (nr_decoded self), nr_decoded_offset := 0\<rparr>"
  have p: "bounded_coding env self0" "piped hist delivered self0" "nr_decoded_offset self0 = 0"
    using assms(3,4) bounded_coding_kept [of self0 self env] by (simp_all add: self0_def piped_def)
  obtain u self1 ww1 where f: "fill_loop env amount self0 ww = Some (Inr u, self1, ww1)"
    using assms(5) by (auto simp: read_bounded_def fill_decoded_bounded_def self0_def split: option.splits sum.splits prod.splits)
  have c: "nr_closed self1 = nr_closed self"
    using fill_loop_piped [OF f assms(2) p] by (simp add: fill_outcome_def piped_after_def self0_def)
  obtain v self2 ww2 where s: "take_decoded amount self2 = (bs, self')" "same_buffer self1 self2"
    using assms(5) f finish_decoded_outcome [of env _ self1 ww1]
    by (auto simp: read_bounded_def fill_decoded_bounded_def Let_def same_buffer_def simp flip: self0_def
        split: option.splits sum.splits prod.splits if_splits)
  show ?thesis using s c assms(1) by (auto simp: take_decoded_def Let_def drained_def same_buffer_def split: if_splits)
qed

lemma read_amount_piped:
  assumes h: "decoder_history (re_decoder env) hist" and b: "bounded_coding env self" and p: "piped hist delivered self" "drained self"
    and r: "read_amount env amount True self ww = Some (r, self', ww')"
  shows "read_outcome hist delivered amount self r self' \<and> (\<not> isl r \<longrightarrow> drained self')"
proof (cases "ensure_origin_thread env self \<noteq> Inr () \<or> amount = Some 0 \<or> nr_closed self")
  case True
  then show ?thesis using r p piped_part [OF p(1)] by (auto simp: read_amount_def read_outcome_def split: option.splits sum.splits)
next
  case False
  obtain q self1 where d: "raw_decoder env self = (q, self1)" by (metis surjective_pairing)
  note o = raw_decoder_outcome [OF h b d]
  have s1: "piped hist delivered self1" "nr_content_encoding self1 = nr_content_encoding self" "\<not> nr_closed self1"
    using o piped_same [of self self1 hist delivered] p(1) False by (auto simp: same_buffer_def)
  have b1: "bounded_coding env self1" using b bounded_coding_kept [OF s1(2), of env] by simp
  show ?thesis
  proof (cases q)
    case (Inl e)
    then show ?thesis using r False d s1 piped_part [OF s1(1)] by (auto simp: read_amount_def read_outcome_def)
  next
    case (Inr decoder)
    then obtain dd where dd: "decoder = Some dd" using o by (cases decoder) auto
    have rb: "read_bounded env amount dd self1 ww = Some (r, self', ww')"
      using r False d Inr dd b by (simp add: read_amount_def bounded_coding_def)
    have "read_outcome hist delivered amount self r self'"
      using read_bounded_piped [OF h b1 s1(1) rb] s1(2) by (simp add: read_outcome_def)
    moreover have "drained self'" if "\<not> isl r"
      using that read_bounded_drained [OF s1(3) h b1 s1(1)] rb by (cases r) auto
    ultimately show ?thesis by blast
  qed
qed

text \<open>
  With a decoder that is not bounded a read of everything never succeeds as long as there is a body:
  it asks for a frame without a maximum, and the task of the read stops.
\<close>

lemma unbounded_read_all_stops:
  assumes "re_thread env = nr_origin_thread self" and "\<not> nr_closed self" and "raw_decoder env self = (Inr (Some d), self1)" and "dp_bounded (re_decoder env) d = Inr False"
    and "nr_body self1 = Some body" and "ww_signals ww = []"
    and "adapter_body_drop (re_ops env) body (ww_semaphore ww) (ww_world ww) = Some (sem, w)"
  shows "read_amount env None True self ww =
    Some (Inl (re_runtime_error env (lit ''native requests worker stopped unexpectedly'')), finish_body_failure self1,
      ww\<lparr>ww_semaphore := sem, ww_world := w\<rparr>)"
  using assms by (simp add: ensure_origin_thread_def read_amount_def read_decoded_unbounded_def read_wire_def wire_result_def Let_def finish_body_failure_def)

definition short_read :: "nat option \<times> bytes \<Rightarrow> bool" where
  "short_read = (\<lambda>(amount, bs). case amount of None \<Rightarrow> True | Some n \<Rightarrow> length bs < n)"

lemma raw_reads_piped:
  assumes "decoder_history (re_decoder env) hist" and "yields (re_ops env) content fails m" and "tail_ends (re_decoder env) left"
    and "decoder_feed (re_decoder env) fed flushed"
  shows "bounded_coding env self \<Longrightarrow> piped hist delivered self \<Longrightarrow> drained self \<Longrightarrow>
    feeding fed flushed content fails whole failing self \<Longrightarrow>
    \<exists>outs error self'. raw_reads env amounts self ww = Some (outs, error, self') \<and>
      (\<forall>(amount, bs) \<in> set (zip amounts outs). case amount of None \<Rightarrow> True | Some n \<Rightarrow> length bs \<le> n) \<and>
      (case error of
         Some _ \<Rightarrow> \<exists>rest. put_out hist self' = delivered @ concat outs @ rest
       | None \<Rightarrow> length outs = length amounts \<and> piped hist (delivered @ concat outs) self' \<and> drained self' \<and>
           feeding fed flushed content fails whole failing self' \<and>
           (nr_closed self \<or> list_ex short_read (zip amounts outs) \<longrightarrow> nr_closed self'))"
proof (induction amounts arbitrary: self ww delivered)
  case Nil
  then show ?case by simp
next
  case (Cons amount amounts)
  obtain r self1 ww1 where r: "read_amount env amount True self ww = Some (r, self1, ww1)"
    using read_amount_returns [OF yields_wire_ends [OF assms(2)] assms(3) Cons.prems(1)] by (metis surjective_pairing)
  note o = read_amount_piped [OF assms(1) Cons.prems(1-3) r]
  have closed: "nr_closed self \<longrightarrow> nr_closed self1" using r by (auto simp: read_amount_def split: sum.splits)
  show ?case
  proof (cases r)
    case (Inl e)
    then show ?thesis using r o by (auto simp: read_outcome_def)
  next
    case (Inr bs)
    have s1: "piped hist (delivered @ bs) self1" "drained self1" "nr_content_encoding self1 = nr_content_encoding self"
      "case amount of Some n \<Rightarrow> length bs = n \<or> length bs < n \<and> nr_closed self1 | None \<Rightarrow> nr_closed self1"
      using o Inr by (simp_all add: read_outcome_def)
    have f1: "feeding fed flushed content fails whole failing self1"
      by (rule read_amount_feeding [OF assms(1) Cons.prems(1,2) assms(4,2) Cons.prems(4) r [unfolded Inr]])
    have b1: "bounded_coding env self1" using Cons.prems(1) bounded_coding_kept [OF s1(3), of env] by simp
    have short: "short_read (amount, bs) \<longrightarrow> nr_closed self1" "case amount of None \<Rightarrow> True | Some n \<Rightarrow> length bs \<le> n"
      using s1(4) by (auto simp: short_read_def split: option.splits)
    obtain outs error self' where i: "raw_reads env amounts self1 ww1 = Some (outs, error, self')"
      "\<forall>(amount, bs) \<in> set (zip amounts outs). case amount of None \<Rightarrow> True | Some n \<Rightarrow> length bs \<le> n"
      "case error of
         Some _ \<Rightarrow> \<exists>rest. put_out hist self' = (delivered @ bs) @ concat outs @ rest
       | None \<Rightarrow> length outs = length amounts \<and> piped hist ((delivered @ bs) @ concat outs) self' \<and> drained self' \<and>
           feeding fed flushed content fails whole failing self' \<and>
           (nr_closed self1 \<or> list_ex short_read (zip amounts outs) \<longrightarrow> nr_closed self')"
      using Cons.IH [OF b1 s1(1,2) f1] by blast
    have "raw_reads env (amount # amounts) self ww = Some (bs # outs, error, self')" using r Inr i(1) by simp
    then show ?thesis using i(2,3) short closed by (cases error) auto
  qed
qed

text \<open>A response that nothing was read from yet.\<close>

definition unread :: "('b, 'd) NativeAdapterRaw \<Rightarrow> bool" where
  "unread self \<longleftrightarrow> nr_decoder self = None \<and> nr_decoded self = [] \<and> nr_decoded_offset self = 0 \<and> \<not> nr_decoder_eof self \<and>
     \<not> nr_decode_failed self \<and> \<not> nr_closed self"


text \<open>A body of frames, and a decoder that passes the content on and keeps what it was not asked for.\<close>

definition frames_body :: "(bytes list, nat) async_body" where
  "frames_body = \<lparr>aw_next = (\<lambda>fs w. Some (case fs of [] \<Rightarrow> (None, [], w) | f # fs \<Rightarrow> (Some (Inr f), fs, w))),
     aw_finish_declared_length = (\<lambda>_ b w. Some (b, w)), aw_is_terminal = (\<lambda>_. False), aw_drop = (\<lambda>_ w. Some w),
     aw_close = (\<lambda>_ w. Some (Inr (), w))\<rparr>"

definition coding :: rstr where
  "coding = lit ''Identity''"

definition identity_decoder :: "(bytes \<times> bytes, unit) py_decoder" where
  "identity_decoder = \<lparr>dp_supported = (\<lambda>s. Inr (s = lit ''identity'')), dp_get = (\<lambda>_. Inr ([], [])), dp_bounded = (\<lambda>_. Inr True),
     dp_tail = (\<lambda>(_, kept). Inr (kept \<noteq> [])),
     dp_decompress = (\<lambda>(done_before, kept) wire m.
       let all_of = kept @ wire; n = (case m of Some k \<Rightarrow> if 0 \<le> k then nat k else length all_of | None \<Rightarrow> length all_of) in
       (Inr (take n all_of), done_before @ take n all_of, drop n all_of)),
     dp_flush = (\<lambda>(done_before, kept). (Inr kept, done_before @ kept, [])),
     dp_view = (\<lambda>(_, kept). View (kept \<noteq> []) None (Some (Inr True)) None)\<rparr>"

definition identity_env :: "(bytes list, bytes \<times> bytes, unit, nat) raw_env" where
  "identity_env = \<lparr>re_thread = 1, re_ops = frames_body, re_decoder = identity_decoder, re_io_failure = (\<lambda>_. ()), re_response_failure = (\<lambda>_. ()), re_decode_failure = (\<lambda>_ _. ()),
     re_urllib3_126 = False, re_runtime_error = (\<lambda>_. ())\<rparr>"

definition frames_raw :: "bytes list \<Rightarrow> (bytes list, bytes \<times> bytes) NativeAdapterRaw" where
  "frames_raw fs = \<lparr>nr_origin_thread = 1, nr_body = Some \<lparr>ab_inner = into_blocking_body fs, ab_permit = None\<rparr>, nr_content_encoding = Some coding,
     nr_decoder = None, nr_decoded = [], nr_decoded_offset = 0, nr_decoder_eof = False, nr_decode_started = False, nr_decode_failed = False,
     nr_closed = False\<rparr>"

definition quiet_wire :: "(unit, nat) wire_world" where
  "quiet_wire = \<lparr>ww_semaphore = None, ww_world = 0, ww_signals = []\<rparr>"

lemma identity_history: "decoder_history identity_decoder fst"
  by (auto simp: decoder_history_def identity_decoder_def Let_def split: prod.splits)

lemma identity_feed: "decoder_feed identity_decoder (\<lambda>(done_before, kept). done_before @ kept) (\<lambda>(_, kept). kept = [])"
  by (auto simp: decoder_feed_def identity_decoder_def Let_def simp del: take_append drop_append split: prod.splits)

lemma identity_tail_ends: "tail_ends identity_decoder (length \<circ> snd)"
  by (auto simp: tail_ends_def identity_decoder_def Let_def split: option.splits if_splits)

lemma frames_body_fields [simp]:
  "aw_next frames_body fs w = Some (case fs of [] \<Rightarrow> (None, [], w) | f # fs \<Rightarrow> (Some (Inr f), fs, w))"
  "aw_finish_declared_length frames_body allow fs w = Some (fs, w)" "aw_is_terminal frames_body fs \<longleftrightarrow> False"
  "aw_drop frames_body fs w = Some w"
  by (simp_all add: frames_body_def split: list.split)

lemma frames_next: "next_frame frames_body fs w =
  Some (case dropWhile (\<lambda>f. f = []) fs of [] \<Rightarrow> (None, [], w) | f # fs \<Rightarrow> (Some (Inr f), fs, w))"
proof (induction fs)
  case (Cons f fs)
  then show ?case by (cases f) (simp_all add: next_frame.simps [of _ "_ # _"])
qed (simp add: next_frame.simps)

lemma frames_read_loop: "read_loop frames_body (Some n) allow False self out fs w =
  (case dropWhile (\<lambda>f. f = []) fs of
     [] \<Rightarrow> Some (Inr (self\<lparr>bb_terminal := True\<rparr>, out), w)
   | f # fs \<Rightarrow>
       let k = min (n - length out) (length f) in
       Some (Inr ((if k < length f then self\<lparr>bb_remainder := Some (drop k f)\<rparr> else self)\<lparr>bb_inner := Some fs\<rparr>, out @ take k f), w))"
  by (cases "dropWhile (\<lambda>f. f = []) fs") (auto simp: read_loop.simps [of frames_body] frames_next Let_def simp del: dropWhile_eq_Nil_conv)

lemma frames_yield: "yields frames_body concat (\<lambda>_. False) length"
  by (auto simp: yields_def split: list.splits)

lemma identity_fields [simp]:
  "re_thread identity_env = 1" "re_ops identity_env = frames_body" "re_decoder identity_env = identity_decoder"
  "dp_bounded identity_decoder d = Inr True" "dp_get identity_decoder c = Inr ([], [])"
  "dp_tail identity_decoder (done_before, kept) = Inr (kept \<noteq> [])"
  "dp_supported identity_decoder (ascii_lower coding) = Inr True"
  "dp_flush identity_decoder (done_before, kept) = (Inr kept, done_before @ kept, [])"
  "dp_view identity_decoder (done_before, kept) = View (kept \<noteq> []) None (Some (Inr True)) None"
  by (simp_all add: identity_env_def identity_decoder_def) code_simp

lemma identity_decompress [simp]:
  "dp_decompress identity_decoder (done_before, kept) wire (Some m) =
     (let n = (if 0 \<le> m then nat m else length (kept @ wire)) in
      (Inr (take n (kept @ wire)), done_before @ take n (kept @ wire), drop n (kept @ wire)))"
  by (simp add: identity_decoder_def Let_def)

lemmas reading_defs = ensure_origin_thread_def read_amount_def raw_decoder_def read_bounded_def fill_decoded_bounded_def fill_loop.simps fill_turn_def decoder_tail_def
  read_wire_def wire_result_def adapter_read_frame_async_def adapter_async_def read_frame_async_def read_async_inner_def take_remainder_def
  frames_read_loop finish_declared_length_if_buffer_empty_def blocking_is_terminal_def fill_decode_def raw_decompress_def extend_decoded_def
  fill_end_def drop_raw_body_def adapter_body_drop_def blocking_drop_def raw_flush_def finish_decoded_wire_if_complete_def
  decoder_reached_clean_end_def take_decoded_def drop_permit_def


end
