(* ===== verification/Session_Rules.thy ===== *)
theory Session_Rules
  imports Prelude
begin

text \<open>
  Two rules of \<open>crates/requests-python/src/sessions.rs\<close> about where credentials and requests go: when a
  redirect loses its \<open>Authorization\<close>, and which hosts are reached without the proxy of the
  environment. The functions of Python's library they call (\<open>urlparse\<close>, \<open>ipaddress\<close>, \<open>proxy_bypass\<close>) are
  parameters; they may raise.
\<close>

section \<open>Credentials across a redirect\<close>

text \<open>What \<open>urlparse\<close> returns; reading the port may raise.\<close>

record 'e parsed_url =
  pu_hostname :: "rstr option"
  pu_scheme :: rstr
  pu_port :: "'e + nat option"

text \<open>The exception for the step from plain to encrypted HTTP on the standard ports.\<close>

definition standard_upgrade :: "'e parsed_url \<Rightarrow> 'e parsed_url \<Rightarrow> 'e + bool" where
  "standard_upgrade old_parsed new_parsed =
     (if pu_scheme old_parsed = lit ''http''
      then
        case pu_port old_parsed of
          Inl e \<Rightarrow> Inl e
        | Inr old_port \<Rightarrow>
            if (old_port = Some 80 \<or> old_port = None) \<and> pu_scheme new_parsed = lit ''https''
            then (case pu_port new_parsed of Inl e \<Rightarrow> Inl e | Inr new_port \<Rightarrow> Inr (new_port = Some 443 \<or> new_port = None))
            else Inr False
      else Inr False)"

definition should_strip_auth :: "(rstr \<Rightarrow> 'e + 'e parsed_url) \<Rightarrow> (rstr \<rightharpoonup> nat) \<Rightarrow> rstr \<Rightarrow> rstr \<Rightarrow> 'e + bool" where
  "should_strip_auth urlparse DEFAULT_PORTS old_url new_url =
     (case urlparse old_url of
        Inl e \<Rightarrow> Inl e
      | Inr old_parsed \<Rightarrow>
          (case urlparse new_url of
             Inl e \<Rightarrow> Inl e
           | Inr new_parsed \<Rightarrow>
               if pu_hostname old_parsed \<noteq> pu_hostname new_parsed then Inr True
               else
                 (case standard_upgrade old_parsed new_parsed of
                    Inl e \<Rightarrow> Inl e
                  | Inr True \<Rightarrow> Inr False
                  | Inr False \<Rightarrow>
                      (case pu_port old_parsed of
                         Inl e \<Rightarrow> Inl e
                       | Inr old_port \<Rightarrow>
                           (case pu_port new_parsed of
                              Inl e \<Rightarrow> Inl e
                            | Inr new_port \<Rightarrow>
                                let changed_port = old_port \<noteq> new_port; changed_scheme = pu_scheme old_parsed \<noteq> pu_scheme new_parsed;
                                    default_port = [DEFAULT_PORTS (pu_scheme old_parsed), None] in
                                Inr (if \<not> changed_scheme \<and> old_port \<in> set default_port \<and> new_port \<in> set default_port then False
                                     else changed_port \<or> changed_scheme))))))"

text \<open>The reference: the endpoint of a URL, with the port its scheme stands for.\<close>

definition effective_port :: "(rstr \<rightharpoonup> nat) \<Rightarrow> rstr \<Rightarrow> nat option \<Rightarrow> nat option" where
  "effective_port ports scheme port = (case port of None \<Rightarrow> ports scheme | Some n \<Rightarrow> Some n)"

lemma standard_upgrade_iff:
  "standard_upgrade old_parsed new_parsed = Inr True \<longleftrightarrow>
     (\<exists>p q. pu_port old_parsed = Inr p \<and> pu_port new_parsed = Inr q \<and> pu_scheme old_parsed = lit ''http'' \<and>
        pu_scheme new_parsed = lit ''https'' \<and> p \<in> {None, Some 80} \<and> q \<in> {None, Some 443})"
  by (auto simp: standard_upgrade_def split: sum.splits)

lemma default_ports_agree:
  "(if p \<in> set [D, None] \<and> q \<in> set [D, None] then False else p \<noteq> q) \<longleftrightarrow>
     (case p of None \<Rightarrow> D | Some n \<Rightarrow> Some n) \<noteq> (case q of None \<Rightarrow> D | Some n \<Rightarrow> Some n)"
  by (auto split: option.splits)

text \<open>
  C15. Credentials are kept exactly when the two URLs parse, have the same host, and have the same
  scheme and effective port or step from HTTP to HTTPS on the standard ports; a URL that cannot be read
  never keeps them.
\<close>

theorem auth_kept_iff_same_endpoint:
  "should_strip_auth urlparse DEFAULT_PORTS old_url new_url = Inr False \<longleftrightarrow>
     (\<exists>old_parsed new_parsed p q. urlparse old_url = Inr old_parsed \<and> urlparse new_url = Inr new_parsed \<and>
        pu_port old_parsed = Inr p \<and> pu_port new_parsed = Inr q \<and> pu_hostname old_parsed = pu_hostname new_parsed \<and>
        (pu_scheme old_parsed = pu_scheme new_parsed \<and>
           effective_port DEFAULT_PORTS (pu_scheme old_parsed) p = effective_port DEFAULT_PORTS (pu_scheme new_parsed) q \<or>
         pu_scheme old_parsed = lit ''http'' \<and> pu_scheme new_parsed = lit ''https'' \<and> p \<in> {None, Some 80} \<and> q \<in> {None, Some 443}))"
proof (cases "urlparse old_url")
  case (Inl e)
  then show ?thesis by (simp add: should_strip_auth_def)
next
  case old: (Inr old_parsed)
  show ?thesis
  proof (cases "urlparse new_url")
    case (Inl e)
    then show ?thesis using old by (simp add: should_strip_auth_def)
  next
    case new: (Inr new_parsed)
    show ?thesis
    proof (cases "standard_upgrade old_parsed new_parsed")
      case (Inl e)
      then show ?thesis using old new by (auto simp: should_strip_auth_def standard_upgrade_def split: sum.splits if_splits)
    next
      case (Inr upgrade)
      then show ?thesis using old new standard_upgrade_iff [of old_parsed new_parsed]
        by (cases upgrade; cases "pu_port old_parsed"; cases "pu_port new_parsed")
          (auto simp: should_strip_auth_def effective_port_def Let_def split: option.splits)
    qed
  qed
qed

section \<open>Hosts reached without a proxy\<close>

text \<open>
  The parameters: addresses and networks of IPv4, the classes of exceptions that are caught, and the
  rule of the platform, which reads the environment.
\<close>

type_synonym environment = "rstr \<rightharpoonup> rstr"

record ('a, 'e) proxy_python =
  by_urlparse :: "rstr \<Rightarrow> 'e + 'e parsed_url"
  by_address :: "rstr \<Rightarrow> 'e + 'a"
  by_network :: "rstr \<Rightarrow> 'e + ('a \<Rightarrow> bool)"
  by_address_value_error :: "'e \<Rightarrow> bool"
  by_value_error :: "'e \<Rightarrow> bool"
  by_type_or_gai_error :: "'e \<Rightarrow> bool"
  by_proxy_bypass :: "rstr \<Rightarrow> environment \<Rightarrow> ('e + bool) \<times> environment"
  by_key_error :: 'e

definition no_proxy_value :: "rstr option \<Rightarrow> environment \<Rightarrow> rstr option" where
  "no_proxy_value no_proxy_argument env =
     (case no_proxy_argument of
        Some s \<Rightarrow> Some s
      | None \<Rightarrow>
          (case env (lit ''no_proxy'') of
             Some lower \<Rightarrow> if lower \<noteq> [] then Some lower else env (lit ''NO_PROXY'')
           | None \<Rightarrow> env (lit ''NO_PROXY'')))"

definition no_proxy_entries :: "rstr \<Rightarrow> rstr list" where
  "no_proxy_entries no_proxy = split_by (\<lambda>c. c = asc CHR '','') (filter (\<lambda>c. c \<noteq> asc CHR '' '') no_proxy)"

fun bypass_networks :: "('a, 'e) proxy_python \<Rightarrow> rstr \<Rightarrow> 'a \<Rightarrow> rstr list \<Rightarrow> 'e + bool" where
  "bypass_networks P hostname address [] = Inr False"
| "bypass_networks P hostname address (proxy_ip # rest) =
     (if proxy_ip = [] then bypass_networks P hostname address rest
      else
        case by_network P proxy_ip of
          Inr network \<Rightarrow> if network address then Inr True else bypass_networks P hostname address rest
        | Inl e \<Rightarrow>
            if \<not> by_address_value_error P e \<and> \<not> by_value_error P e then Inl e
            else if hostname = proxy_ip then Inr True
            else bypass_networks P hostname address rest)"

definition bypass_host :: "rstr \<Rightarrow> rstr \<Rightarrow> rstr \<Rightarrow> bool" where
  "bypass_host hostname host_with_port entry \<longleftrightarrow>
     (let host = dropWhile (\<lambda>c. c = asc CHR ''.'') entry; sfx = asc CHR ''.'' # host in
      hostname = host \<or> host_with_port = host \<or> ends_with hostname sfx \<or> ends_with host_with_port sfx)"

definition with_port :: "rstr \<Rightarrow> nat option \<Rightarrow> rstr" where
  "with_port hostname port =
     (case port of Some n \<Rightarrow> if n \<noteq> 0 then hostname @ asc CHR '':'' # nat_to_decimal n else hostname | None \<Rightarrow> hostname)"

definition bypass_listed :: "('a, 'e) proxy_python \<Rightarrow> 'e parsed_url \<Rightarrow> rstr \<Rightarrow> rstr option \<Rightarrow> 'e + bool" where
  "bypass_listed P parsed hostname no_proxy =
     (case no_proxy of
        None \<Rightarrow> Inr False
      | Some s \<Rightarrow>
          if s = [] then Inr False
          else
            (case by_address P hostname of
               Inr address \<Rightarrow> bypass_networks P hostname address (no_proxy_entries s)
             | Inl e \<Rightarrow>
                 if \<not> by_address_value_error P e then Inl e
                 else
                   (case pu_port parsed of
                      Inl e \<Rightarrow> Inl e
                    | Inr port \<Rightarrow>
                        Inr (list_ex (\<lambda>host. host \<noteq> [] \<and> bypass_host hostname (with_port hostname port) host) (no_proxy_entries s)))))"

text \<open>The rule of the platform, with the argument in the environment for as long as it runs.\<close>

definition platform_answer :: "('a, 'e) proxy_python \<Rightarrow> 'e + bool \<Rightarrow> 'e + bool" where
  "platform_answer P r = (case r of Inl e \<Rightarrow> if by_type_or_gai_error P e then Inr False else Inl e | Inr b \<Rightarrow> Inr b)"

definition platform_bypass ::
  "('a, 'e) proxy_python \<Rightarrow> rstr \<Rightarrow> rstr option \<Rightarrow> environment \<Rightarrow> ('e + bool) \<times> environment" where
  "platform_bypass P hostname no_proxy_argument env =
     (case no_proxy_argument of
        None \<Rightarrow> (case by_proxy_bypass P hostname env of (r, env) \<Rightarrow> (platform_answer P r, env))
      | Some s \<Rightarrow>
          (case by_proxy_bypass P hostname (env(lit ''no_proxy'' \<mapsto> s)) of
             (r, env') \<Rightarrow>
               (case env (lit ''no_proxy'') of
                  Some old_value \<Rightarrow> (platform_answer P r, env'(lit ''no_proxy'' \<mapsto> old_value))
                | None \<Rightarrow>
                    if env' (lit ''no_proxy'') = None then (Inl (by_key_error P), env')
                    else (platform_answer P r, env'(lit ''no_proxy'' := None)))))"

definition should_bypass_environment_proxy ::
  "('a, 'e) proxy_python \<Rightarrow> rstr \<Rightarrow> rstr option \<Rightarrow> environment \<Rightarrow> ('e + bool) \<times> environment" where
  "should_bypass_environment_proxy P url no_proxy_argument env =
     (let no_proxy = no_proxy_value no_proxy_argument env in
      case by_urlparse P url of
        Inl e \<Rightarrow> (Inl e, env)
      | Inr parsed \<Rightarrow>
          (case pu_hostname parsed of
             None \<Rightarrow> (Inr True, env)
           | Some hostname \<Rightarrow>
               (case bypass_listed P parsed hostname no_proxy of
                  Inl e \<Rightarrow> (Inl e, env)
                | Inr True \<Rightarrow> (Inr True, env)
                | Inr False \<Rightarrow> platform_bypass P hostname no_proxy_argument env)))"

text \<open>What is asked of the platform's rule: it only reads.\<close>

definition only_reads :: "('a, 'e) proxy_python \<Rightarrow> bool" where
  "only_reads P \<longleftrightarrow> (\<forall>hostname env. snd (by_proxy_bypass P hostname env) = env)"

lemma platform_bypass_outcome:
  assumes "only_reads P"
  shows "platform_bypass P hostname no_proxy_argument env =
    (platform_answer P (fst (by_proxy_bypass P hostname
       (case no_proxy_argument of None \<Rightarrow> env | Some s \<Rightarrow> env(lit ''no_proxy'' \<mapsto> s)))), env)"
proof -
  define env1 where "env1 = (case no_proxy_argument of None \<Rightarrow> env | Some s \<Rightarrow> env(lit ''no_proxy'' \<mapsto> s))"
  obtain r where r: "by_proxy_bypass P hostname env1 = (r, env1)"
    using assms unfolding only_reads_def by (metis surjective_pairing)
  show ?thesis
  proof (cases no_proxy_argument)
    case None
    then show ?thesis using r by (simp add: platform_bypass_def env1_def)
  next
    case (Some s)
    then show ?thesis using r
      by (cases "env (lit ''no_proxy'')") (simp_all add: platform_bypass_def env1_def fun_upd_idem)
  qed
qed

text \<open>An entry of the list covers its host, and every name below it, with or without the port.\<close>

definition covers :: "rstr \<Rightarrow> rstr \<Rightarrow> bool" where
  "covers entry name \<longleftrightarrow>
     (let host = dropWhile (\<lambda>c. c = asc CHR ''.'') entry in name = host \<or> (\<exists>below. name = below @ asc CHR ''.'' # host))"

lemma bypass_host_covers: "bypass_host hostname host_with_port entry \<longleftrightarrow> covers entry hostname \<or> covers entry host_with_port"
  by (auto simp: bypass_host_def covers_def ends_with_def suffix_def Let_def)

text \<open>
  C16. A host that is no IPv4 address is reached without the proxy exactly when an entry of the list
  covers its name, with or without the port; otherwise the rule of the platform decides, which sees the
  list that was asked for, and an exception for a type or a name it cannot resolve means no. The
  environment is as it was, in either case and also after an exception.
\<close>

theorem environment_proxy_bypassed:
  assumes "only_reads P" and "by_urlparse P url = Inr parsed" and "pu_hostname parsed = Some hostname" and "pu_port parsed = Inr port"
    and "by_address P hostname = Inl e" and "by_address_value_error P e"
    and "no_proxy_value no_proxy_argument env = Some no_proxy" and "no_proxy \<noteq> []"
  shows "should_bypass_environment_proxy P url no_proxy_argument env =
    (if \<exists>entry \<in> set (no_proxy_entries no_proxy). entry \<noteq> [] \<and> (covers entry hostname \<or> covers entry (with_port hostname port))
     then Inr True
     else platform_answer P (fst (by_proxy_bypass P hostname
       (case no_proxy_argument of None \<Rightarrow> env | Some s \<Rightarrow> env(lit ''no_proxy'' \<mapsto> s)))), env)"
proof -
  define listed where "listed \<longleftrightarrow> (\<exists>entry \<in> set (no_proxy_entries no_proxy). entry \<noteq> [] \<and> (covers entry hostname \<or> covers entry (with_port hostname port)))"
  have "bypass_listed P parsed hostname (Some no_proxy) = Inr listed"
    using assms(4-6,8) by (simp add: bypass_listed_def bypass_host_covers list_ex_iff listed_def)
  then show ?thesis using assms(2,3,7) platform_bypass_outcome [OF assms(1)]
    by (cases listed) (simp_all add: should_bypass_environment_proxy_def flip: listed_def)
qed

text \<open>\<open>api.example.test:8443\<close> against lists with a suffix, another name that ends alike, and nothing that fits.\<close>

definition sample_python :: "(unit, unit) proxy_python" where
  "sample_python = \<lparr>by_urlparse = (\<lambda>_. Inr \<lparr>pu_hostname = Some (lit ''api.example.test''), pu_scheme = lit ''http'', pu_port = Inr (Some 8443)\<rparr>),
     by_address = (\<lambda>_. Inl ()), by_network = (\<lambda>_. Inl ()), by_address_value_error = (\<lambda>_. True), by_value_error = (\<lambda>_. True),
     by_type_or_gai_error = (\<lambda>_. True), by_proxy_bypass = (\<lambda>_ env. (Inl (), env)), by_key_error = ()\<rparr>"

theorem environment_proxy_bypassed_witness:
  "fst (should_bypass_environment_proxy sample_python [] (Some (lit ''other, .example.test'')) Map.empty) = Inr True \<and>
   fst (should_bypass_environment_proxy sample_python [] (Some (lit ''ample.test'')) Map.empty) = Inr False \<and>
   snd (should_bypass_environment_proxy sample_python [] (Some (lit ''ample.test'')) Map.empty) = Map.empty"
proof -
  let ?parsed = "\<lparr>pu_hostname = Some (lit ''api.example.test''), pu_scheme = lit ''http'', pu_port = Inr (Some 8443)\<rparr>"
  note rule = environment_proxy_bypassed [of sample_python "[]" ?parsed "lit ''api.example.test''" "Some 8443" "()"]
  have ok: "only_reads sample_python" by (simp add: only_reads_def sample_python_def)
  have listed: "bypass_host (lit ''api.example.test'') (with_port (lit ''api.example.test'') (Some 8443)) (lit ''.example.test'')" by code_simp
  have unlisted: "\<not> bypass_host (lit ''api.example.test'') (with_port (lit ''api.example.test'') (Some 8443)) (lit ''ample.test'')" by code_simp
  have entries: "no_proxy_entries (lit ''other, .example.test'') = [lit ''other'', lit ''.example.test'']"
    "no_proxy_entries (lit ''ample.test'') = [lit ''ample.test'']" "lit ''.example.test'' \<noteq> []" by code_simp+
  from rule [of "Some (lit ''other, .example.test'')" Map.empty "lit ''other, .example.test''"]
    rule [of "Some (lit ''ample.test'')" Map.empty "lit ''ample.test''"]
  show ?thesis using ok listed unlisted entries
    by (simp add: sample_python_def no_proxy_value_def platform_answer_def bypass_host_covers)
qed

end
