(* ===== verification/Spec2Isabelle.thy ===== *)
theory Spec2Isabelle
  imports Utils Models Auth Cookies Hooks Retry Adapters Workers Python_Body Raw_Pipe Session_Rules Head_Io
begin

text \<open>
  The Rust HTTP client of Requests Native: a model of the operations of \<open>crates/requests\<close>, and of the
  part of \<open>crates/requests-python\<close> that drives them from Python, with the theorems that make them
  correct.

  \<^bold>\<open>The program.\<close> A \<open>Client\<close> builds a \<open>Request\<close>; \<open>execute_request\<close> hands it to the transport. The
  transport takes an idle connection from a pool or opens one, through a proxy if there is one, sends
  the request, waits for the head of the response against deadlines, and returns a response that owns
  the lease of the connection. Reading the body decodes it and at its end decides, once, whether the
  connection goes back to the pool. Beside it stand the parts that the Python package calls on their
  own: preparation of URLs and headers, quoting, authentication, cookies, hooks and retries. A session
  runtime is shown checkpoints and can make the code wait at them.

  Above it are two layers. The blocking one submits futures to a runtime of its own, one per process,
  and reads bodies synchronously. The Python one runs a worker on that runtime, which asks the thread
  that owns the Python objects for actions and waits for the answers; that thread drives it, checks for
  signals, and keeps its objects in a quarantine when it must leave before the worker has ended.

  \<^bold>\<open>Theories and sources\<close> (paths under \<open>crates/requests/src\<close>).
  \<^item> \<open>Prelude\<close>: machine integers, strings and the functions of the standard library the code calls;
    \<open>Ip_Addr\<close>: textual IP addresses as \<open>str::parse\<close> reads them.
  \<^item> \<open>Utils\<close> (\<open>utils.rs\<close>): header validation, form encoding, requoting. \<open>Structures\<close>
    (\<open>structures.rs\<close>): the case-insensitive map; its laws are the locale \<open>ordered_map\<close>.
    \<open>Error_Model\<close> (\<open>error.rs\<close>): every constructor of an error. \<open>Http_Types\<close> (\<open>body.rs\<close>): bodies, and
    the crate \<open>http\<close> as records of its operations.
  \<^item> \<open>Models\<close> (\<open>models.rs\<close>): preparation of methods, headers and URLs and the request builder.
    \<open>Auth\<close> (\<open>auth.rs\<close>), \<open>Cookies\<close> (\<open>cookies.rs\<close>), \<open>Hooks\<close> (\<open>hooks.rs\<close>), \<open>Retry\<close> (\<open>retry.rs\<close>).
  \<^item> \<open>Once\<close>: the contract of what happens at most once; \<open>Response_State\<close> (the decision machine of
    \<open>response.rs\<close>) and \<open>Session_Runtime\<close> (\<open>session_runtime.rs\<close>) interpret it.
  \<^item> \<open>Pool\<close> (\<open>transport/pool.rs\<close>): keys, leases, generations; the locale \<open>idle_store\<close> is what a client
    of the pool relies on. \<open>Client\<close> (\<open>client.rs\<close>): the builder of a client and its transport.
  \<^item> \<open>Response_Head\<close>, \<open>Head_Io\<close> (\<open>transport/mod.rs\<close>): the observer of response heads, the respelling
    of request heads and the stream that carries both. \<open>Proxy_Connect\<close> (\<open>transport/proxy.rs\<close>):
    credentials, CONNECT, SOCKS4 and SOCKS5.
  \<^item> \<open>Decode\<close> (\<open>transport/decode.rs\<close>): the decoded body of each content coding over the reader of
    the wire body.
  \<^item> \<open>Outgoing\<close> (\<open>transport/mod.rs\<close>: \<open>validate_request\<close>, \<open>outgoing_request_with_session_runtime\<close>,
    \<open>OutgoingBody\<close>, \<open>BodyProgress\<close>). \<open>Lease\<close> (\<open>transport/mod.rs\<close>: \<open>ConnectionDriver\<close>,
    \<open>ActiveExchangeGuard\<close>, \<open>TransportLease\<close>). \<open>Establish\<close> (\<open>transport/connect.rs\<close>;
    \<open>transport/mod.rs\<close>: \<open>acquire_connection\<close>, \<open>connect_connection\<close>, \<open>clear_pool\<close>).
    \<open>Response_Body\<close> (\<open>response.rs\<close>: \<open>Response\<close>, \<open>ResponseBody\<close>). \<open>Exchange\<close> (\<open>transport/mod.rs\<close>:
    \<open>send\<close>; \<open>client.rs\<close>: \<open>execute_request\<close>). This theory holds what spans them.
  \<^item> \<open>Submission\<close>, \<open>Blocking\<close> (\<open>blocking.rs\<close>): the runtime of a process, submissions and the ways of
    waiting for them; blocking requests and bodies. \<open>Adapters\<close> (\<open>adapters.rs\<close>): pools with a capacity.
  \<^item> Under \<open>crates/requests-python/src\<close>: \<open>Bridge\<close> (\<open>bridge.rs\<close>): actions and answers; the locale
    \<open>worker\<close> is what the driver relies on. \<open>Quarantine\<close> and \<open>Origin\<close> (\<open>runtime.rs\<close>): retained owners and
    the loop that drives a worker. \<open>Workers\<close> (\<open>auth.rs\<close>, \<open>callbacks.rs\<close>, \<open>cookies.rs\<close>): the workers of
    digest authentication, hooks and cookies. \<open>Python_Body\<close> (\<open>body.rs\<close>): a Python object as the body of
    a request. \<open>Raw_Reader\<close> (\<open>adapters.rs\<close>: \<open>NativeAdapterRaw\<close>): the raw response with its decoder, and
    \<open>Raw_Pipe\<close> what it delivers. \<open>Session_Rules\<close> (\<open>sessions.rs\<close>: \<open>should_strip_auth\<close>,
    \<open>should_bypass_environment_proxy\<close>).

  \<^bold>\<open>State and operations.\<close> A struct is a record, an enum a datatype, a method a function that returns
  the updated record. An error is the left of a sum. A panic, an \<open>expect\<close> on \<open>None\<close> and a
  \<open>debug_assert\<close> (under a flag for the build) give \<open>None\<close>, so that a theorem with \<open>Some\<close> says that it
  is not reached. What is shared behind \<open>Arc\<close> and \<open>Mutex\<close> is the \<open>world\<close>: the pool, the session
  runtime's harness, the process-wide counters, and the list of effects on sockets and tasks, which
  \<open>Drop\<close> adds to. Awaiting is passing the world on: an operation that is polled returns \<open>Pending\<close> or
  \<open>Ready\<close>; a \<open>select!\<close> reads the event that wins from a script, and \<open>enabled\<close> says which events its
  guards and its order allow; a future that a deadline drops is an argument, the await it is cut at. A worker is
  a function from the answers so far to the actions it has asked for and what it is doing; the driver
  runs it against a script of what happens at each turn (an action, a signal, a time-out, an end).

  \<^bold>\<open>Code outside the crate\<close> is a parameter: a record of its operations (\<open>indexmap\<close>, \<open>http\<close>, the URL
  parser, \<open>httparse\<close>, hyper's frames and handshake, the decoders of \<open>async-compression\<close>, the resolver,
  sockets, TLS, the hashes, the rounding of floats, the objects and the library of Python), with what its documentation promises as a named
  predicate (\<open>header_map_documented\<close>, \<open>body_documented\<close>, \<open>decoders_documented\<close>, \<open>decoder_history\<close>, \<open>only_reads\<close>)
  where a theorem needs it, and an instance that satisfies it in a witness.

  \<^bold>\<open>Bounds and termination.\<close> There is no fuel. Loops whose end depends on the stream below
  (\<open>poll_fill_buf\<close>, \<open>poll_drain\<close>, \<open>next_data\<close>, \<open>next_frame\<close>, \<open>read_loop\<close>, \<open>collect_bytes\<close>, \<open>await_next\<close>,
  \<open>fill_loop\<close>) are partial functions into \<open>option\<close>, and theorems show that decoding and the reads of
  a raw response return over a body that comes to an end; \<open>decoded_poll_next\<close>, \<open>acquire_idle\<close>, \<open>drain_loop\<close>
  and \<open>read_head_loop\<close> terminate by measures. Words keep their width: identities, generations
  and counts wrap or saturate as the code has them.

  \<^bold>\<open>What is shown.\<close>
  \<^item> Connections: in every interleaving no key exceeds its capacity and each connection is in one place
    (\<open>pool_safety\<close>); a clear retires what was open; acquisition takes the newest usable connection;
    opening one leaks nothing wherever it fails; a lease, a response body and the decision end once; a
    whole request accounts for every connection that leaves the pool
    (\<open>request_accounts_for_connections\<close>).
  \<^item> Waiting: an exchange ends for one of the stated reasons; polling a decoded body returns; a proxy
    handshake and the head observer return.
  \<^item> Layers: an output is handed over once (\<open>submission_output_once\<close>); a drive returns what its worker
    makes of the answers, each action executed once and in order (\<open>drive_owned_outcome\<close>), a signal wins,
    and an owner is destroyed only after its task (\<open>quarantine_owner_outlives_task\<close>); workers and Python
    bodies behave as the sequential program they stand for; a pool keeps its capacity.
  \<^item> Bytes: blocking reads and the raw response hand on what is below them in order, the deflate fallback sees the whole body, an outgoing body delivers its source, the head
    stream is a pipe, the proxy messages are those of the protocols, base64 and form encoding round-trip.
  \<^item> Values: which headers, URLs, requests, lengths, credentials and proxies are accepted, and what is
    made of them; retries are granted exactly within the budget; credentials stay at their
    endpoint and the list of hosts without a proxy is obeyed; nonce counts and identities do not repeat.

  \<^bold>\<open>Not modelled.\<close> \<open>transport/tls.rs\<close> (certificate files and the TLS library), the formatting of
  \<open>Debug\<close> and the texts of \<open>Display\<close>; the memory orderings of atomics, each of which is one step here;
  wakers, beyond being stored and woken. Of \<open>requests-python\<close> the classes of \<open>sessions.rs\<close>, \<open>adapters.rs\<close>,
  \<open>models.rs\<close>, \<open>response.rs\<close>, \<open>cookies.rs\<close>, \<open>structures.rs\<close> and \<open>errors.rs\<close> are not modelled beyond what is listed
  above: they read and set attributes of arbitrary Python objects and call their methods, and the
  interpreter and those objects define what that does; nor are the probes these files hold for tests.
\<close>

section \<open>A whole request\<close>


text \<open>The newer of two idle connections is found closed; the request goes out on the other one.\<close>

definition sample_request :: "(HeaderName \<Rightarrow> HeaderValue list, unit) Request" where
  "sample_request = \<lparr>rq_method = lit ''GET'', rq_url = lit ''http://h:80/'',
     rq_uri = \<lparr>uri_display = lit ''http://h:80/'', uri_scheme = Some (lit ''http''), uri_authority = Some (lit ''h:80''),
       uri_host = Some (lit ''h''), uri_port = Some 80, uri_path_and_query = Some (lit ''/'')\<rparr>,
     rq_headers = (\<lambda>_. []), rq_python_header_names = None, rq_body = Empty, rq_timeout = None\<rparr>"

definition sample_outgoing_env :: "(HeaderName \<Rightarrow> HeaderValue list, unit) outgoing_env" where
  "sample_outgoing_env = \<lparr>oe_headers = multi_map, oe_url_parse = (\<lambda>_. Some ()), oe_clear_fragment = id, oe_clear_username = Some,
     oe_clear_password = Some, oe_url_str = (\<lambda>_. []),
     oe_parse_uri = (\<lambda>p. Some \<lparr>uri_display = p, uri_scheme = None, uri_authority = None, uri_host = None, uri_port = None,
       uri_path_and_query = Some p\<rparr>),
     oe_authority_host = id, oe_parse_authority = Some, oe_with_authority = (\<lambda>uri _. Some uri),
     oe_parse_header_value = (\<lambda>s. Some (as_bytes s))\<rparr>"

definition sample_send_env where
  "sample_send_env = \<lparr>se_debug = True, se_outgoing = sample_outgoing_env, se_to_str = (\<lambda>v. Some (map char_from v)),
     se_establish = failing_env, se_cut_at = None, se_acquire = flagged_env, se_ops = flagged_ops, se_pool_ops = flagged_ops,
     se_started = 0, se_body_made = 0, se_exchange_started = 0,
     se_script = [(None, ResponseHeadGate), (None, HeadEvent (Inr (tp_head sample_response, tp_body sample_response)))]\<rparr>"

lemma sample_acquired:
  "\<exists>l w'. acquire_connection failing_env None flagged_env plain_transport sample_key (lit ''h'') 80 (lit ''h:80'') no_deadlines two_idle =
     Some (Inr l, w') \<and> cl_connection l = Some (flagged False 1)"
proof -
  let ?v = "conn_verdict flagged_env (ed_total_deadline no_deadlines)"
  have v: "?v (flagged True 2) = Discard" "?v (flagged False 1) = Use"
    by (simp_all add: conn_verdict_def flagged_env_def flagged_ops_def flagged_def conn_is_live_def conn_peer_is_open_def
        network_view_def driver_is_reusable_def driver_peer_is_open_def)
  have idle: "idle_of (w_pool two_idle) sample_key = [flagged False 1, flagged True 2]" by (simp add: two_idle_def idle_of_def)
  obtain r w' where a: "acquire_idle flagged_env False sample_key no_deadlines two_idle = Some (r, w')"
    "taken_idle ?v False sample_key (ed_total_timeout no_deadlines) two_idle r w'"
    using acquire_idle_taken [of no_deadlines flagged_env False sample_key two_idle] by (auto simp: no_deadlines_def)
  then obtain l where "r = Inr (Some l)" "cl_connection l = Some (flagged False 1)"
    using v unfolding taken_idle_def idle by (auto simp: Let_def)
  then show ?thesis using a(1) by (simp add: acquire_connection_def plain_transport_def transport_configured_def)
qed

lemma sample_exchanged:
  assumes "cl_connection l = Some c"
  shows "\<exists>r w'. exchange_on sample_send_env plain_transport (tr_default_timeout plain_transport) None names progress url l w = Some (Some (Inr r), w')"
  using assms
  by (simp add: exchange_on_def connection_driver_def sample_send_env_def plain_transport_def transport_configured_def exchange_turn_def
      check_completion_def pass_gate_def permits_post_head_def rhw_enter_def case_prod_beta Let_def)

lemma sample_target:
  "target_of Some (plain_transport :: (bool, nat, nat) network Transport) sample_request =
      Some (Inr \<lparr>st_host = lit ''h'', st_port = 80, st_authority = lit ''h:80'', st_key = sample_key, st_absolute_form = False\<rparr>)"
  by (simp add: target_of_def sample_request_def plain_transport_def transport_configured_def pool_key_new_def sample_key_def
        lit_def uses_absolute_form_def ascii_simps)

lemma sample_outgoing:
  "\<exists>x. outgoing_request_with_session_runtime sample_outgoing_env ((into_parts sample_request)\<lparr>rp_headers := headers\<rparr>) track False
     session identity now h = Inr x"
  by (simp add: outgoing_request_with_session_runtime_def origin_target_def host_header_def sample_outgoing_env_def into_parts_def
      sample_request_def case_prod_beta)

lemma sample_sent: "\<exists>response w'. execute_request sample_send_env plain_transport sample_request two_idle = Some (Some (Inr response), w')"
proof -
  let ?transport = "plain_transport :: (bool, nat, nat) network Transport"
  obtain l w' where l: "acquire_connection failing_env None flagged_env plain_transport sample_key (lit ''h'') 80 (lit ''h:80'')
      no_deadlines two_idle = Some (Inr l, w')" "cl_connection l = Some (flagged False 1)" using sample_acquired by blast
  have v: "validate_request multi_map to_str sample_request = Inr ()" for to_str
    by (simp add: validate_request_def sample_request_def validate_content_lengths_def multi_map_def)
  have h: "\<exists>h. send_headers multi_map penv ?transport False (rq_headers sample_request) = Inr h" for penv
    by (simp add: send_headers_def Let_def)
  then obtain headers where h: "send_headers multi_map (ee_proxy_env failing_env) ?transport False (rq_headers sample_request) = Inr headers" by blast
  have d: "send_deadlines (tr_default_timeout ?transport) 0 = no_deadlines"
    by (simp add: send_deadlines_def plain_transport_def transport_configured_def no_deadlines_def)
  have env: "oe_headers sample_outgoing_env = multi_map" "oe_parse_authority sample_outgoing_env = Some"
    "se_outgoing sample_send_env = sample_outgoing_env" "se_establish sample_send_env = failing_env" "se_cut_at sample_send_env = None"
    "se_acquire sample_send_env = flagged_env" "se_started sample_send_env = 0" "rq_timeout sample_request = None"
    by (simp_all add: sample_send_env_def sample_outgoing_env_def sample_request_def)
  obtain out :: "(_, _, unit) outgoing_request" and url h' where o: "outgoing_request_with_session_runtime sample_outgoing_env ((into_parts sample_request)\<lparr>rp_headers := headers\<rparr>)
      (timeout_read (tr_default_timeout ?transport) \<noteq> None \<or> timeout_total (tr_default_timeout ?transport) \<noteq> None)
      False False (session_exchange_identity l 0) (se_body_made sample_send_env) (w_harness w') = Inr (out, url, h')"
    using sample_outgoing by (metis prod_cases3)
  obtain r w2 where x: "exchange_on sample_send_env ?transport (tr_default_timeout ?transport) None
      (rp_python_header_names ((into_parts sample_request)\<lparr>rp_headers := headers\<rparr>)) (ob_progress (or_body out)) url l
      (w'\<lparr>w_process := w_process w', w_harness := h'\<rparr>) = Some (Some (Inr r), w2)"
    using sample_exchanged [OF l(2)] by blast
  have s: "tr_session_runtime ?transport = None" "ed_total_deadline no_deadlines = None"
    by (simp_all add: plain_transport_def transport_configured_def no_deadlines_def)
  have "send sample_send_env plain_transport sample_request two_idle = Some (Some (Inr r), w2)"
    unfolding send_def Let_def env v sum.case sample_target option.case send_target.simps h d l s
    using o x by simp
  then show ?thesis by (simp add: execute_request_def)
qed


end
